(* ===== verification/Prelude.thy ===== *)
theory Prelude
  imports Main "HOL-Library.Word" "HOL-Library.Monad_Syntax"
begin

text \<open>
  Shared vocabulary of the development: the fixed-width integer types of the C code, the result
  type of code that may abort or leave the bounds of an array, checked array accesses, and the
  rules for reasoning about them.

  A C operation that can fail an \<^verbatim>\<open>assert\<close>, call \<^verbatim>\<open>abort()\<close> or touch memory outside an object is a
  function into \<open>'a option\<close>: \<open>None\<close> is that failure, \<open>Some\<close> is a normal return. The predicate
  \<open>returns m Q\<close> is total correctness: the code does not fail, and what it returns satisfies \<open>Q\<close>.
\<close>

type_synonym byte = "8 word"
type_synonym u16 = "16 word"
type_synonym u32 = "32 word"
type_synonym u64 = "64 word"

named_theorems ret_intro \<open>total-correctness rules of the operations of a component\<close>
named_theorems wf_simps \<open>the well-formedness predicates, unfolded\<close>

section \<open>Code that may fail\<close>

definition returns :: "'a option \<Rightarrow> ('a \<Rightarrow> bool) \<Rightarrow> bool" where
  "returns m Q = (case m of None \<Rightarrow> False | Some x \<Rightarrow> Q x)"

lemma returns_Some [simp]: "returns (Some x) Q = Q x"
  by (simp add: returns_def)

lemma returns_None [simp]: "\<not> returns None Q"
  by (simp add: returns_def)

lemma returns_bind [simp]: "returns (m \<bind> f) Q = returns m (\<lambda>x. returns (f x) Q)"
  by (cases m) (simp_all add: returns_def)

lemma returns_mono: "returns m P \<Longrightarrow> (\<And>x. P x \<Longrightarrow> Q x) \<Longrightarrow> returns m Q"
  by (cases m) (simp_all add: returns_def)

lemma returns_conj: "returns m P \<Longrightarrow> returns m Q \<Longrightarrow> returns m (\<lambda>x. P x \<and> Q x)"
  by (cases m) (simp_all add: returns_def)

lemma returns_iff: "returns m Q \<longleftrightarrow> (\<exists>x. m = Some x \<and> Q x)"
  by (cases m) simp_all

lemma returnsE: "returns m Q \<Longrightarrow> (\<And>x. m = Some x \<Longrightarrow> Q x \<Longrightarrow> R) \<Longrightarrow> R"
  by (auto simp: returns_iff)

lemma returns_prod: "returns m (\<lambda>x. case x of (a, b) \<Rightarrow> Q a b) \<longleftrightarrow> (\<exists>a b. m = Some (a, b) \<and> Q a b)"
  by (auto simp: returns_iff)

section \<open>Checked array accesses\<close>

text \<open>
  The index is the C \<^verbatim>\<open>int\<close> (or pointer difference) that the code computes, so it may be
  negative; an access outside the array is \<open>None\<close>.
\<close>

definition arr_get :: "'a list \<Rightarrow> int \<Rightarrow> 'a option" where
  "arr_get xs i = (if 0 \<le> i \<and> i < int (length xs) then Some (xs ! nat i) else None)"

definition arr_set :: "'a list \<Rightarrow> int \<Rightarrow> 'a \<Rightarrow> 'a list option" where
  "arr_set xs i v = (if 0 \<le> i \<and> i < int (length xs) then Some (xs[nat i := v]) else None)"

text \<open>A block copy of \<open>ys\<close> into \<open>xs\<close> from offset \<open>off\<close> (\<^verbatim>\<open>memcpy\<close>, or \<^verbatim>\<open>recv\<close> into a pointer).\<close>

definition arr_blit :: "'a list \<Rightarrow> nat \<Rightarrow> 'a list \<Rightarrow> 'a list option" where
  "arr_blit xs off ys =
     (if off + length ys \<le> length xs
      then Some (take off xs @ ys @ drop (off + length ys) xs) else None)"

lemma arr_get_in [simp]: "i < length xs \<Longrightarrow> arr_get xs (int i) = Some (xs ! i)"
  by (simp add: arr_get_def)

lemma arr_get_0 [simp]: "xs \<noteq> [] \<Longrightarrow> arr_get xs 0 = Some (hd xs)"
  by (simp add: arr_get_def hd_conv_nth)

lemma arr_set_in [simp]: "i < length xs \<Longrightarrow> arr_set xs (int i) v = Some (xs[i := v])"
  by (simp add: arr_set_def)

lemma arr_set_SomeD: "arr_set xs i v = Some ys \<Longrightarrow> length ys = length xs \<and> 0 \<le> i \<and> i < int (length xs)"
  by (auto simp: arr_set_def split: if_splits)

lemma arr_blit_in [simp]:
  "off + length ys \<le> length xs \<Longrightarrow>
   arr_blit xs off ys = Some (take off xs @ ys @ drop (off + length ys) xs)"
  by (simp add: arr_blit_def)

lemma arr_blit_SomeD: "arr_blit xs off ys = Some zs \<Longrightarrow> length zs = length xs \<and> off + length ys \<le> length xs"
  by (auto simp: arr_blit_def split: if_splits)

section \<open>Lists\<close>

lemma take_Suc_drop: "i < length xs \<Longrightarrow> take (Suc n) (drop i xs) = xs ! i # take n (drop (Suc i) xs)"
  by (simp add: Cons_nth_drop_Suc [symmetric])

lemma take_list_update_Suc: "i < length xs \<Longrightarrow> take (Suc i) (xs[i := v]) = take i xs @ [v]"
  by (simp add: take_Suc_conv_app_nth)

lemma drop_take_split: "n \<le> k \<Longrightarrow> take k xs = take n xs @ take (k - n) (drop n xs)"
  by (metis add_diff_inverse_nat not_le take_add)

section \<open>Bytes\<close>

text \<open>\<^verbatim>\<open>uint8_t\<close> values that go through \<^verbatim>\<open>(char)\<close> casts and back.\<close>

definition chr :: "byte \<Rightarrow> char" where
  "chr b = char_of (unat b)"

definition ord :: "char \<Rightarrow> byte" where
  "ord c = of_nat (of_char c)"

lemma unat_byte_less [simp]: "unat (b :: byte) < 256"
  using unsigned_less [of b] by simp

lemma unat_of_nat_byte [simp]: "n < 256 \<Longrightarrow> unat (of_nat n :: byte) = n"
  by (simp add: unat_of_nat)

lemma byte_of_unat: "unat (b :: byte) = n \<Longrightarrow> b = of_nat n"
  by auto

lemma chr_ord [simp]: "chr (ord c) = c"
  by (simp add: chr_def ord_def)

lemma ord_chr [simp]: "ord (chr b) = b"
  by (simp add: chr_def ord_def)

lemma chr_eq_iff [simp]: "chr a = chr b \<longleftrightarrow> a = b"
  by (metis ord_chr)

lemma unat_byte_sub1: "(b :: byte) \<noteq> 0 \<Longrightarrow> unat (b - 1) = unat b - 1"
  by (simp add: unat_minus_one)

lemma byte_sub1_eq_0: "(b :: byte) - 1 = 0 \<longleftrightarrow> unat b = 1"
  by (metis eq_iff_diff_eq_0 unat_1 word_unat_eq_iff)

end
