(* ===== verification/Buffer.thy ===== *)
theory Buffer
  imports Prelude
begin

text \<open>
  \<^verbatim>\<open>src/shared/buffer.c\<close>: the direct-access I/O buffer with a read and a write pointer.
  The block of memory between \<^verbatim>\<open>data\<close> and \<^verbatim>\<open>limit\<close> is a list of bytes; the four pointers are
  offsets from \<^verbatim>\<open>data\<close> (so \<^verbatim>\<open>data\<close> itself is \<open>0\<close>). An \<^verbatim>\<open>assert\<close> that fails, or an access outside
  the block, is \<open>None\<close>.

  The contract is that a buffer is a bounded queue of bytes: \<open>buffer_contents\<close> is what lies between
  the pointers, every operation is described by what it does to it, and the interface
  \<open>byte_channel\<close> states those laws for the components that use buffers.
\<close>

section \<open>The data structure and its operations\<close>

record buffer =
  b_data :: "byte list"
  b_limit :: nat
  b_read :: nat
  b_write :: nat

definition buffer_reset :: "buffer \<Rightarrow> buffer" where
  "buffer_reset b = b\<lparr>b_read := 0, b_write := 0\<rparr>"

definition buffer_init :: "nat \<Rightarrow> byte list \<Rightarrow> buffer" where
  "buffer_init n mem = \<lparr>b_data = mem, b_limit = n, b_read = 0, b_write = 0\<rparr>"

definition buffer_can_write :: "buffer \<Rightarrow> bool" where
  "buffer_can_write b \<longleftrightarrow> int (b_limit b) - int (b_write b) > 0"

text \<open>The pointer returned is the offset \<open>b_write b\<close>; the number is \<^verbatim>\<open>*nbyte\<close>.\<close>

definition buffer_write_ptr :: "buffer \<Rightarrow> (nat \<times> nat) option" where
  "buffer_write_ptr b =
     (if b_write b \<le> b_limit b then Some (b_write b, b_limit b - b_write b) else None)"

definition buffer_can_read :: "buffer \<Rightarrow> bool" where
  "buffer_can_read b \<longleftrightarrow> int (b_write b) - int (b_read b) > 0"

definition buffer_read_ptr :: "buffer \<Rightarrow> (nat \<times> nat) option" where
  "buffer_read_ptr b =
     (if b_read b \<le> b_write b then Some (b_read b, b_write b - b_read b) else None)"

definition buffer_write_adv :: "buffer \<Rightarrow> int \<Rightarrow> buffer option" where
  "buffer_write_adv b bytes =
     (if bytes > -1 then
        let b' = b\<lparr>b_write := b_write b + nat bytes\<rparr>
        in if b_write b' \<le> b_limit b' then Some b' else None
      else Some b)"

definition buffer_compact :: "buffer \<Rightarrow> buffer" where
  "buffer_compact b =
     (if 0 = b_read b then b
      else if b_read b = b_write b then b\<lparr>b_read := 0, b_write := 0\<rparr>
      else let n = b_write b - b_read b
           in b\<lparr>b_data := take n (drop (b_read b) (b_data b)) @ drop n (b_data b),
                b_read := 0, b_write := n\<rparr>)"

definition buffer_read_adv :: "buffer \<Rightarrow> int \<Rightarrow> buffer option" where
  "buffer_read_adv b bytes =
     (if bytes > -1 then
        let b' = b\<lparr>b_read := b_read b + nat bytes\<rparr>
        in if b_read b' \<le> b_write b'
           then Some (if b_read b' = b_write b' then buffer_compact b' else b')
           else None
      else Some b)"

definition buffer_read :: "buffer \<Rightarrow> (byte \<times> buffer) option" where
  "buffer_read b =
     (if buffer_can_read b then do {
        ret \<leftarrow> arr_get (b_data b) (int (b_read b));
        b' \<leftarrow> buffer_read_adv b 1;
        Some (ret, b')
      } else Some (0, b))"

definition buffer_write :: "buffer \<Rightarrow> byte \<Rightarrow> buffer option" where
  "buffer_write b c =
     (if buffer_can_write b then do {
        mem \<leftarrow> arr_set (b_data b) (int (b_write b)) c;
        buffer_write_adv (b\<lparr>b_data := mem\<rparr>) 1
      } else Some b)"

text \<open>
  What the clients do with the two raw pointers: \<open>buffer_store\<close> writes bytes at the write pointer
  (as \<^verbatim>\<open>recv\<close> or the marshalling functions do), \<open>buffer_peek\<close> reads \<open>n\<close> bytes from the read pointer
  (as \<^verbatim>\<open>send\<close> does).
\<close>

definition buffer_store :: "buffer \<Rightarrow> byte list \<Rightarrow> buffer option" where
  "buffer_store b bs = map_option (\<lambda>mem. b\<lparr>b_data := mem\<rparr>) (arr_blit (b_data b) (b_write b) bs)"

definition buffer_peek :: "buffer \<Rightarrow> nat \<Rightarrow> byte list" where
  "buffer_peek b n = take n (drop (b_read b) (b_data b))"

section \<open>The queue a buffer holds\<close>

definition buffer_contents :: "buffer \<Rightarrow> byte list" where
  "buffer_contents b = take (b_write b - b_read b) (drop (b_read b) (b_data b))"

text \<open>
  The invariant of the header comment (\<open>R \<le> W \<le> limit\<close>), the block having \<^verbatim>\<open>limit\<close> bytes, and the
  effect of the automatic compaction: an empty buffer always has both pointers at the start.
\<close>

definition buffer_wf :: "buffer \<Rightarrow> bool" where
  "buffer_wf b \<longleftrightarrow> length (b_data b) = b_limit b \<and> b_read b \<le> b_write b \<and> b_write b \<le> b_limit b
     \<and> (b_read b = b_write b \<longrightarrow> b_read b = 0)"

declare buffer_wf_def [wf_simps]

lemma length_buffer_contents [simp]: "buffer_wf b \<Longrightarrow> length (buffer_contents b) = b_write b - b_read b"
  by (auto simp: buffer_wf_def buffer_contents_def)

lemma buffer_wf_init [simp]: "length mem = n \<Longrightarrow> buffer_wf (buffer_init n mem)"
  by (simp add: buffer_wf_def buffer_init_def)

lemma buffer_init_contents [simp]: "buffer_contents (buffer_init n mem) = []"
  by (simp add: buffer_contents_def buffer_init_def)

text \<open>A buffer of \<open>n\<close> bytes into which \<open>bs\<close> has been received.\<close>

definition buffer_of :: "nat \<Rightarrow> byte list \<Rightarrow> buffer" where
  "buffer_of n bs = \<lparr>b_data = bs @ replicate (n - length bs) 0, b_limit = n, b_read = 0,
     b_write = length bs\<rparr>"

lemma buffer_of_wf [simp]: "length bs \<le> n \<Longrightarrow> buffer_wf (buffer_of n bs)"
  by (simp add: buffer_wf_def buffer_of_def)

lemma buffer_of_contents [simp]: "buffer_contents (buffer_of n bs) = bs"
  by (simp add: buffer_contents_def buffer_of_def)

lemma buffer_can_read_iff: "buffer_wf b \<Longrightarrow> buffer_can_read b \<longleftrightarrow> buffer_contents b \<noteq> []"
  using length_buffer_contents [of b]
  by (auto simp: buffer_can_read_def buffer_wf_def simp flip: length_greater_0_conv)

lemma buffer_can_write_iff: "buffer_wf b \<Longrightarrow> buffer_can_write b \<longleftrightarrow> b_write b < b_limit b"
  by (auto simp: buffer_can_write_def)

lemma buffer_empty_room: "buffer_wf b \<Longrightarrow> buffer_contents b = [] \<Longrightarrow> b_write b = 0 \<and> b_read b = 0"
  using length_buffer_contents [of b] by (auto simp: buffer_wf_def)

lemma buffer_reset_wf: "buffer_wf b \<Longrightarrow> buffer_wf (buffer_reset b) \<and> buffer_contents (buffer_reset b) = []"
  by (simp add: buffer_wf_def buffer_reset_def buffer_contents_def)

lemma buffer_compact_wf: "buffer_wf b \<Longrightarrow> buffer_wf (buffer_compact b)"
  by (auto simp: buffer_wf_def buffer_compact_def Let_def)

lemma buffer_compact_contents: "buffer_wf b \<Longrightarrow> buffer_contents (buffer_compact b) = buffer_contents b"
  by (auto simp: buffer_wf_def buffer_compact_def buffer_contents_def Let_def)

lemma buffer_compact_write: "buffer_wf b \<Longrightarrow> b_write (buffer_compact b) = length (buffer_contents b)"
  by (auto simp: buffer_compact_def Let_def buffer_wf_def)

lemma buffer_compact_limit [simp]: "b_limit (buffer_compact b) = b_limit b"
  by (simp add: buffer_compact_def Let_def)

lemma buffer_write_ptr_wf [simp]:
  "buffer_wf b \<Longrightarrow> buffer_write_ptr b = Some (b_write b, b_limit b - b_write b)"
  by (simp add: buffer_write_ptr_def buffer_wf_def)

lemma buffer_read_ptr_wf [simp]:
  "buffer_wf b \<Longrightarrow> buffer_read_ptr b = Some (b_read b, length (buffer_contents b))"
  by (simp add: buffer_read_ptr_def) (simp add: buffer_wf_def)

lemma buffer_peek_contents [simp]:
  "buffer_wf b \<Longrightarrow> n \<le> length (buffer_contents b) \<Longrightarrow> buffer_peek b n = take n (buffer_contents b)"
  using length_buffer_contents [of b] by (simp add: buffer_peek_def buffer_contents_def)

subsection \<open>Advancing the read pointer\<close>

lemma buffer_read_adv_ok [ret_intro]:
  assumes "buffer_wf b" and "n \<le> length (buffer_contents b)"
  shows "returns (buffer_read_adv b (int n)) (\<lambda>b'. buffer_wf b' \<and> b_limit b' = b_limit b
           \<and> buffer_contents b' = drop n (buffer_contents b))"
  using assms
  by (auto simp: buffer_read_adv_def buffer_compact_def buffer_wf_def buffer_contents_def Let_def
      drop_take add.commute)

lemma buffer_read_adv_wf:
  assumes "buffer_read_adv b n = Some b'" and "buffer_wf b"
  shows "buffer_wf b' \<and> buffer_contents b' = drop (nat n) (buffer_contents b)"
proof (cases "n > -1")
  case True
  with assms have "nat n \<le> length (buffer_contents b)"
    by (auto simp: buffer_read_adv_def Let_def split: if_splits)
  from buffer_read_adv_ok [OF assms(2) this] True assms(1) show ?thesis by simp
next
  case False
  with assms show ?thesis by (simp add: buffer_read_adv_def)
qed

subsection \<open>Storing and advancing the write pointer\<close>

lemma buffer_store_ok [ret_intro]:
  assumes "buffer_wf b" and "length bs \<le> b_limit b - b_write b"
  shows "returns (buffer_store b bs) (\<lambda>b'. buffer_wf b' \<and> b_limit b' = b_limit b
           \<and> b_write b' = b_write b \<and> b_read b' = b_read b \<and> buffer_contents b' = buffer_contents b
           \<and> take (length bs) (drop (b_write b) (b_data b')) = bs)"
  using assms by (auto simp: buffer_store_def buffer_wf_def buffer_contents_def drop_take)

text \<open>The step every producer makes: write at the pointer, then advance it.\<close>

definition buffer_push :: "buffer \<Rightarrow> byte list \<Rightarrow> buffer option" where
  "buffer_push b bs = do { b1 \<leftarrow> buffer_store b bs; buffer_write_adv b1 (int (length bs)) }"

lemma buffer_push_ok [ret_intro]:
  assumes "buffer_wf b" and "length bs \<le> b_limit b - b_write b"
  shows "returns (buffer_push b bs) (\<lambda>b'. buffer_wf b' \<and> b_limit b' = b_limit b
           \<and> b_write b' = b_write b + length bs \<and> buffer_contents b' = buffer_contents b @ bs)"
  using assms
  by (auto simp: buffer_push_def buffer_store_def buffer_write_adv_def buffer_wf_def
      buffer_contents_def Let_def drop_take)

subsection \<open>One byte at a time\<close>

lemma buffer_read_ok [ret_intro]:
  assumes "buffer_wf b" and "buffer_contents b = x # xs"
  shows "returns (buffer_read b) (\<lambda>(y, b'). y = x \<and> buffer_wf b' \<and> b_limit b' = b_limit b
           \<and> buffer_contents b' = xs)"
proof -
  have len: "b_read b < b_write b" "b_write b \<le> length (b_data b)"
    using assms length_buffer_contents [OF assms(1)] by (auto simp: buffer_wf_def)
  then have hd: "b_data b ! b_read b = x"
    using assms(2) by (simp add: buffer_contents_def take_Suc_drop Suc_diff_Suc [symmetric])
  have "returns (buffer_read_adv b (int 1)) (\<lambda>b'. buffer_wf b' \<and> b_limit b' = b_limit b
          \<and> buffer_contents b' = drop 1 (buffer_contents b))"
    by (rule buffer_read_adv_ok) (use assms in simp_all)
  then show ?thesis
    using len hd assms by (simp add: buffer_read_def buffer_can_read_iff)
qed

lemma buffer_read_empty: "buffer_wf b \<Longrightarrow> buffer_contents b = [] \<Longrightarrow> buffer_read b = Some (0, b)"
  by (simp add: buffer_read_def buffer_can_read_iff)

lemma buffer_write_eq_push: "buffer_can_write b \<Longrightarrow> buffer_wf b \<Longrightarrow> buffer_write b c = buffer_push b [c]"
  by (simp add: buffer_write_def buffer_push_def buffer_store_def buffer_can_write_iff
      upd_conv_take_nth_drop buffer_wf_def)

lemma buffer_write_ok [ret_intro]:
  "buffer_wf b \<Longrightarrow> returns (buffer_write b c) (\<lambda>b'. buffer_wf b' \<and> b_limit b' = b_limit b
     \<and> buffer_contents b' = (if buffer_can_write b then buffer_contents b @ [c] else buffer_contents b))"
proof (cases "buffer_can_write b")
  case True
  assume wf: "buffer_wf b"
  with True have "length [c] \<le> b_limit b - b_write b" by (simp add: buffer_can_write_iff)
  from buffer_push_ok [OF wf this] True wf show ?thesis
    by (auto simp: buffer_write_eq_push returns_iff)
qed (simp add: buffer_write_def)

text \<open>Reading strictly shrinks what is left between the pointers, whatever the buffer holds.\<close>

lemma buffer_read_decreases:
  "buffer_can_read b \<Longrightarrow> buffer_read b = Some (x, b') \<Longrightarrow>
   b_write b' - b_read b' < b_write b - b_read b"
  by (auto simp: buffer_read_def buffer_read_adv_def buffer_compact_def buffer_can_read_def Let_def
      bind_eq_Some_conv split: if_splits)

section \<open>The interface the other components use\<close>

text \<open>
  A byte channel: \<open>put\<close> appends a block if it fits in \<open>room\<close>, \<open>get\<close> takes one byte off the front,
  \<open>peek\<close> and \<open>advance\<close> look at and drop a block at the front, \<open>tidy\<close> reorganises the storage.
\<close>

locale byte_channel =
  fixes inv :: "'b \<Rightarrow> bool"
    and contents :: "'b \<Rightarrow> byte list"
    and room :: "'b \<Rightarrow> nat"
    and can_read :: "'b \<Rightarrow> bool"
    and get :: "'b \<Rightarrow> (byte \<times> 'b) option"
    and put :: "'b \<Rightarrow> byte list \<Rightarrow> 'b option"
    and peek :: "'b \<Rightarrow> nat \<Rightarrow> byte list"
    and advance :: "'b \<Rightarrow> int \<Rightarrow> 'b option"
    and tidy :: "'b \<Rightarrow> 'b"
  assumes can_read_iff: "inv b \<Longrightarrow> can_read b \<longleftrightarrow> contents b \<noteq> []"
    and get_ok: "inv b \<Longrightarrow> contents b = x # xs \<Longrightarrow>
        returns (get b) (\<lambda>(y, b'). y = x \<and> inv b' \<and> contents b' = xs)"
    and put_ok: "inv b \<Longrightarrow> length bs \<le> room b \<Longrightarrow>
        returns (put b bs) (\<lambda>b'. inv b' \<and> contents b' = contents b @ bs)"
    and peek_ok: "inv b \<Longrightarrow> n \<le> length (contents b) \<Longrightarrow> peek b n = take n (contents b)"
    and advance_ok: "inv b \<Longrightarrow> n \<le> length (contents b) \<Longrightarrow>
        returns (advance b (int n)) (\<lambda>b'. inv b' \<and> contents b' = drop n (contents b))"
    and tidy_ok: "inv b \<Longrightarrow> inv (tidy b) \<and> contents (tidy b) = contents b"
begin

lemma get_step:
  assumes "inv b" and "can_read b"
  obtains x b' where "get b = Some (x, b')" and "inv b'" and "contents b = x # contents b'"
proof -
  from assms obtain x xs where c: "contents b = x # xs"
    by (auto simp: can_read_iff neq_Nil_conv)
  from get_ok [OF assms(1) c] c that show thesis
    by (auto simp: returns_prod)
qed

end

text \<open>A schedule of uses of a channel by a producer and a consumer, with the bytes the consumer took.\<close>

datatype chan_op = Put "byte list" | Take nat | Tidy

fun chan_run :: "('b \<Rightarrow> byte list \<Rightarrow> 'b option) \<Rightarrow> ('b \<Rightarrow> nat \<Rightarrow> byte list) \<Rightarrow> ('b \<Rightarrow> int \<Rightarrow> 'b option)
    \<Rightarrow> ('b \<Rightarrow> 'b) \<Rightarrow> 'b \<Rightarrow> chan_op list \<Rightarrow> ('b \<times> byte list) option" where
  "chan_run pt pk adv td b [] = Some (b, [])"
| "chan_run pt pk adv td b (Put bs # ops) = do {
     b1 \<leftarrow> pt b bs;
     chan_run pt pk adv td b1 ops
   }"
| "chan_run pt pk adv td b (Take n # ops) = do {
     b1 \<leftarrow> adv b (int n);
     (b2, out) \<leftarrow> chan_run pt pk adv td b1 ops;
     Some (b2, pk b n @ out)
   }"
| "chan_run pt pk adv td b (Tidy # ops) = chan_run pt pk adv td (td b) ops"

fun produced :: "chan_op list \<Rightarrow> byte list" where
  "produced [] = []"
| "produced (Put bs # ops) = bs @ produced ops"
| "produced (_ # ops) = produced ops"

text \<open>A schedule that respects the room of the channel and what it holds.\<close>

fun admissible :: "('b \<Rightarrow> nat) \<Rightarrow> ('b \<Rightarrow> byte list) \<Rightarrow> ('b \<Rightarrow> byte list \<Rightarrow> 'b option)
    \<Rightarrow> ('b \<Rightarrow> int \<Rightarrow> 'b option) \<Rightarrow> ('b \<Rightarrow> 'b) \<Rightarrow> 'b \<Rightarrow> chan_op list \<Rightarrow> bool" where
  "admissible rm ct pt adv td b [] \<longleftrightarrow> True"
| "admissible rm ct pt adv td b (Put bs # ops) \<longleftrightarrow> length bs \<le> rm b \<and>
     (case pt b bs of None \<Rightarrow> True | Some b1 \<Rightarrow> admissible rm ct pt adv td b1 ops)"
| "admissible rm ct pt adv td b (Take n # ops) \<longleftrightarrow> n \<le> length (ct b) \<and>
     (case adv b (int n) of None \<Rightarrow> True | Some b1 \<Rightarrow> admissible rm ct pt adv td b1 ops)"
| "admissible rm ct pt adv td b (Tidy # ops) \<longleftrightarrow> admissible rm ct pt adv td (td b) ops"

context byte_channel
begin

lemma fifo:
  "inv b \<Longrightarrow> admissible room contents put advance tidy b ops \<Longrightarrow>
   returns (chan_run put peek advance tidy b ops)
     (\<lambda>(b', out). inv b' \<and> out @ contents b' = contents b @ produced ops)"
proof (induction ops arbitrary: b)
  case Nil
  then show ?case by simp
next
  case (Cons op ops)
  show ?case
  proof (cases op)
    case (Put bs)
    with Cons.prems have "length bs \<le> room b" by simp
    from put_ok [OF Cons.prems(1) this] obtain b1
      where b1: "put b bs = Some b1" "inv b1" "contents b1 = contents b @ bs"
      by (auto simp: returns_iff)
    from Cons.IH [OF b1(2)] Cons.prems(2) Put b1 show ?thesis by simp
  next
    case (Take n)
    with Cons.prems have n: "n \<le> length (contents b)" by simp
    from advance_ok [OF Cons.prems(1) n] obtain b1
      where b1: "advance b (int n) = Some b1" "inv b1" "contents b1 = drop n (contents b)"
      by (auto simp: returns_iff)
    from Cons.IH [OF b1(2)] Cons.prems(2) Take b1
    have "returns (chan_run put peek advance tidy b1 ops)
        (\<lambda>(b', out). inv b' \<and> out @ contents b' = drop n (contents b) @ produced ops)" by simp
    then show ?thesis
      using Take b1 n peek_ok [OF Cons.prems(1) n] by (auto simp: returns_prod)
  next
    case Tidy
    with Cons.prems Cons.IH [of "tidy b"] tidy_ok [of b] show ?thesis by simp
  qed
qed

end

definition buffer_room :: "buffer \<Rightarrow> nat" where
  "buffer_room b = b_limit b - b_write b"

interpretation buf: byte_channel buffer_wf buffer_contents buffer_room buffer_can_read buffer_read
  buffer_push buffer_peek buffer_read_adv buffer_compact
proof (unfold_locales, goal_cases)
  case (1 b)
  then show ?case by (rule buffer_can_read_iff)
next
  case (2 b x xs)
  from buffer_read_ok [OF this] show ?case by (rule returns_mono) auto
next
  case (3 b bs)
  then have "length bs \<le> b_limit b - b_write b" by (simp add: buffer_room_def)
  from buffer_push_ok [OF 3(1) this] show ?case by (rule returns_mono) auto
next
  case (4 b n)
  then show ?case by simp
next
  case (5 b n)
  from buffer_read_adv_ok [OF this] show ?case by (rule returns_mono) auto
next
  case (6 b)
  then show ?case by (simp add: buffer_compact_wf buffer_compact_contents)
qed

text \<open>The shape of the three marshalling functions: ask for the room, store, advance.\<close>

lemma marshall_ok:
  assumes "buffer_wf b" and "length bs = n" and "k = int n"
  shows "returns (do {
     (ptr, available) \<leftarrow> buffer_write_ptr b;
     if available < n then Some (-1, b)
     else do {
       b1 \<leftarrow> buffer_store b bs;
       b2 \<leftarrow> buffer_write_adv b1 k;
       Some (0, b2)
     }
   }) (\<lambda>(r, b'). buffer_wf b' \<and> (if buffer_room b < n then r = (-1 :: int) \<and> b' = b
        else r = 0 \<and> buffer_contents b' = buffer_contents b @ bs))"
proof (cases "buffer_room b < n")
  case True
  then show ?thesis using assms by (simp add: buffer_write_ptr_def buffer_room_def buffer_wf_def)
next
  case False
  with assms have "length bs \<le> b_limit b - b_write b" by (simp add: buffer_room_def)
  from buffer_push_ok [OF assms(1) this] obtain b1 b2
    where "buffer_store b bs = Some b1" "buffer_write_adv b1 k = Some b2"
      "buffer_wf b2" "buffer_contents b2 = buffer_contents b @ bs"
    using assms by (auto simp: returns_iff buffer_push_def bind_eq_Some_conv)
  then show ?thesis using assms(1) False
    by (simp add: buffer_write_ptr_def buffer_room_def buffer_wf_def)
qed

text \<open>C12: the buffer is a bounded FIFO queue. For every schedule of blocks written through the write
  pointer, blocks taken through the read pointer and explicit compactions, as long as a block written
  fits in the room left and a block taken is there, no assertion fails and no access leaves the memory
  block, and the bytes taken followed by the bytes still buffered are exactly the bytes that were
  buffered followed by the bytes written, in order: the automatic compaction never loses, repeats or
  reorders a byte.\<close>

theorem buffer_fifo:
  assumes "buffer_wf b"
    and "admissible buffer_room buffer_contents buffer_push buffer_read_adv buffer_compact b ops"
  shows "returns (chan_run buffer_push buffer_peek buffer_read_adv buffer_compact b ops)
    (\<lambda>(b', out). buffer_wf b' \<and> out @ buffer_contents b' = buffer_contents b @ produced ops)"
  using assms by (rule buf.fifo)

theorem buffer_fifo_witness:
  "returns (chan_run buffer_push buffer_peek buffer_read_adv buffer_compact (buffer_init 4 [0, 0, 0, 0])
      [Put [1, 2, 3], Take 2, Tidy, Put [4, 5, 6], Take 1])
    (\<lambda>(b', out). buffer_wf b' \<and> out @ buffer_contents b' = [1, 2, 3, 4, 5, 6])"
  by (rule returns_mono, rule buffer_fifo)
    (auto simp: buffer_room_def buffer_init_def buffer_push_def buffer_store_def buffer_write_adv_def
      buffer_read_adv_def buffer_compact_def buffer_contents_def buffer_wf_def Let_def)

text \<open>\<^verbatim>\<open>buffer_compact\<close> reclaims all the free space: the bytes between the pointers are kept, they
  start at the beginning of the block, and the room to write becomes the size of the block less the
  bytes it holds. Draining a buffer with \<^verbatim>\<open>buffer_read_adv\<close> does the same without a call: when the read
  pointer reaches the write pointer both go back to the start and the whole block is free.\<close>

lemma buffer_reclaims:
  assumes "buffer_wf b"
  shows "buffer_room (buffer_compact b) = b_limit b - length (buffer_contents b)
    \<and> b_read (buffer_compact b) = 0
    \<and> buffer_contents (buffer_compact b) = buffer_contents b
    \<and> returns (buffer_read_adv b (int (length (buffer_contents b))))
        (\<lambda>b'. buffer_wf b' \<and> buffer_contents b' = [] \<and> buffer_room b' = b_limit b)"
proof (intro conjI)
  show "buffer_room (buffer_compact b) = b_limit b - length (buffer_contents b)"
    using assms by (auto simp: buffer_room_def buffer_compact_def buffer_wf_def length_buffer_contents [OF assms] Let_def)
  show "b_read (buffer_compact b) = 0" by (simp add: buffer_compact_def Let_def)
  show "buffer_contents (buffer_compact b) = buffer_contents b" using assms by (rule buffer_compact_contents)
  from buffer_read_adv_ok [OF assms le_refl]
  show "returns (buffer_read_adv b (int (length (buffer_contents b))))
        (\<lambda>b'. buffer_wf b' \<and> buffer_contents b' = [] \<and> buffer_room b' = b_limit b)"
    using assms by (auto simp: returns_iff buffer_room_def buffer_wf_def buffer_read_adv_def buffer_compact_def
        Let_def length_buffer_contents [OF assms])
qed

lemma buffer_reclaims_witness:
  "buffer_wf (buffer_of 4 [7, 8]) \<and> buffer_room (buffer_compact (buffer_of 4 [7, 8])) = 2"
  using buffer_reclaims [of "buffer_of 4 [7, 8]"] by (simp add: buffer_of_def buffer_wf_def)

end
