(* ===== verification/Parser_Loop.thy ===== *)
theory Parser_Loop
  imports Buffer
begin

text \<open>
  The three protocol parsers (\<^verbatim>\<open>hello.c\<close>, \<^verbatim>\<open>auth.c\<close>, \<^verbatim>\<open>request.c\<close>) are byte automata driven by the same
  loop: while the buffer has a byte, take it, run the switch over the state, and leave the loop when
  the state is final. Here is the abstract form of that loop over a plain list of bytes, and the
  contract \<open>byte_parser\<close> under which the loop on the buffer computes exactly the abstract form.
\<close>

fun feed :: "('p \<Rightarrow> byte \<Rightarrow> 'p option) \<Rightarrow> ('p \<Rightarrow> bool) \<Rightarrow> 'p \<Rightarrow> byte list \<Rightarrow> ('p \<times> byte list) option" where
  "feed step final p [] = Some (p, [])"
| "feed step final p (x # xs) = do {
     p1 \<leftarrow> step p x;
     if final p1 then Some (p1, xs) else feed step final p1 xs
   }"

text \<open>A stream cut in two: the second part goes on where the first one stopped.\<close>

lemma feed_append:
  "feed step final p xs = Some (p1, r) \<Longrightarrow>
   feed step final p (xs @ ys) =
     (if xs \<noteq> [] \<and> final p1 then Some (p1, r @ ys) else feed step final p1 ys)"
proof (induction xs arbitrary: p)
  case Nil
  then show ?case by simp
next
  case (Cons x xs)
  from Cons.prems obtain q where q: "step p x = Some q"
    and res: "(if final q then Some (q, xs) else feed step final q xs) = Some (p1, r)"
    by (auto simp: bind_eq_Some_conv)
  show ?case
  proof (cases "final q")
    case True
    with q res show ?thesis by auto
  next
    case False
    with res have "feed step final q xs = Some (p1, r)" by simp
    with Cons.IH [OF this] q False show ?thesis by (cases xs) auto
  qed
qed

lemma feed_rest: "feed step final p xs = Some (p1, r) \<Longrightarrow> r = [] \<or> final p1"
  by (induction xs arbitrary: p) (auto simp: bind_eq_Some_conv split: if_splits)

text \<open>
  A history predicate \<open>H p used\<close> relates the state of the automaton to all the bytes it has seen.
  If every step keeps it, it holds when the loop stops; this is how soundness of a parser (a final
  state implies a well-formed message) is proved.
\<close>

lemma feed_history:
  assumes "\<And>p used x p1. H p used \<Longrightarrow> \<not> final p \<Longrightarrow> step p x = Some p1 \<Longrightarrow> H p1 (used @ [x])"
  shows "feed step final p xs = Some (p', rest) \<Longrightarrow> H p u \<Longrightarrow> \<not> final p \<Longrightarrow>
         \<exists>used. xs = used @ rest \<and> H p' (u @ used)"
proof (induction xs arbitrary: p u)
  case Nil
  then show ?case by simp
next
  case (Cons x xs)
  from Cons.prems(1) obtain p1 where p1: "step p x = Some p1"
    and res: "(if final p1 then Some (p1, xs) else feed step final p1 xs) = Some (p', rest)"
    by (auto simp: bind_eq_Some_conv)
  have H1: "H p1 (u @ [x])" by (rule assms [OF Cons.prems(2,3) p1])
  show ?case
  proof (cases "final p1")
    case True
    with res H1 show ?thesis by auto
  next
    case False
    with res Cons.IH [OF _ H1 False] obtain used where "xs = used @ rest" "H p' ((u @ [x]) @ used)"
      by auto
    then show ?thesis by (intro exI [of _ "x # used"]) simp
  qed
qed

text \<open>
  A parser over a channel: \<open>consume\<close> is the loop of the code, \<open>pinv\<close> an invariant under which the
  switch never leaves its arrays.
\<close>

locale byte_parser = byte_channel inv contents room can_read get put peek advance tidy
  for inv :: "'b \<Rightarrow> bool" and contents room can_read get put peek advance tidy +
  fixes pinv :: "'p \<Rightarrow> bool"
    and final :: "'p \<Rightarrow> bool"
    and step :: "'p \<Rightarrow> byte \<Rightarrow> 'p option"
    and consume :: "'b \<Rightarrow> 'p \<Rightarrow> ('b \<times> 'p) option"
  assumes step_ok: "pinv p \<Longrightarrow> \<not> final p \<Longrightarrow> returns (step p x) pinv"
    and consume_unfold: "consume b p =
        (if can_read b then do {
           (x, b1) \<leftarrow> get b;
           p1 \<leftarrow> step p x;
           if final p1 then Some (b1, p1) else consume b1 p1
         } else Some (b, p))"
begin

lemma feed_ok: "pinv p \<Longrightarrow> \<not> final p \<Longrightarrow> returns (feed step final p xs) (\<lambda>(p', r). pinv p')"
proof (induction xs arbitrary: p)
  case (Cons x xs)
  from step_ok [OF Cons.prems, of x] obtain p1 where "step p x = Some p1" "pinv p1"
    by (auto simp: returns_iff)
  with Cons.IH show ?case by simp
qed simp

theorem consume_feed:
  "inv b \<Longrightarrow> pinv p \<Longrightarrow> \<not> final p \<Longrightarrow>
   \<exists>b' p'. consume b p = Some (b', p') \<and> feed step final p (contents b) = Some (p', contents b')
     \<and> inv b' \<and> pinv p'"
proof (induction "length (contents b)" arbitrary: b p rule: less_induct)
  case less
  show ?case
  proof (cases "can_read b")
    case False
    with less.prems show ?thesis by (simp add: can_read_iff consume_unfold [of b])
  next
    case True
    obtain x b1 where x: "get b = Some (x, b1)" "inv b1" "contents b = x # contents b1"
      using get_step [OF less.prems(1) True] by blast
    obtain p1 where p1: "step p x = Some p1" "pinv p1"
      using step_ok [OF less.prems(2,3), of x] by (auto simp: returns_iff)
    show ?thesis
    proof (cases "final p1")
      case True
      with x p1 \<open>can_read b\<close> show ?thesis by (simp add: consume_unfold [of b])
    next
      case False
      with less.hyps [of b1 p1] x p1 \<open>can_read b\<close> show ?thesis
        by (simp add: consume_unfold [of b])
    qed
  qed
qed

text \<open>
  Fragmentation does not matter: consuming, receiving more, and consuming again gives the state and
  the unread bytes that one call on the whole stream gives.
\<close>

theorem consume_fragments:
  assumes "inv b" and "pinv p" and "\<not> final p"
    and first: "consume b p = Some (b1, p1)" and "\<not> final p1"
    and put: "put b1 frag = Some b2" and room: "length frag \<le> room b1"
    and whole: "inv c" "contents c = contents b @ frag"
  shows "\<exists>b3 c' p'. consume b2 p1 = Some (b3, p') \<and> consume c p = Some (c', p')
           \<and> contents c' = contents b3"
proof -
  from consume_feed [OF assms(1-3)] first have f1: "feed step final p (contents b) = Some (p1, contents b1)"
    and b1: "inv b1" "pinv p1" by auto
  with feed_rest [OF f1] assms(5) have "contents b1 = []" by simp
  with put_ok [OF b1(1) room] put have b2: "inv b2" "contents b2 = frag"
    by (auto simp: returns_iff)
  from consume_feed [OF b2(1) b1(2) assms(5)] obtain b3 p' where
    b3: "consume b2 p1 = Some (b3, p')" "feed step final p1 frag = Some (p', contents b3)"
    by (auto simp: b2)
  from consume_feed [OF whole(1) assms(2,3)] obtain c' q' where
    c': "consume c p = Some (c', q')" "feed step final p (contents b @ frag) = Some (q', contents c')"
    by (auto simp: whole)
  with feed_append [OF f1, of frag] assms(5) b3 show ?thesis by auto
qed

end

end
