(* ===== verification/Hello.thy ===== *)
theory Hello
  imports Parser_Loop
begin

text \<open>
  \<^verbatim>\<open>src/shared/socks5.h\<close> (the protocol constants) and \<^verbatim>\<open>src/shared/hello.c\<close>: the parser of the client
  greeting of RFC 1928 and the reply with the chosen method.
\<close>

section \<open>Protocol constants\<close>

abbreviation (input) SOCKS_VERSION :: byte where "SOCKS_VERSION \<equiv> 0x05"
abbreviation (input) SOCKS_RSV :: byte where "SOCKS_RSV \<equiv> 0x00"

abbreviation (input) SOCKS_HELLO_NOAUTHENTICATION_REQUIRED :: byte
  where "SOCKS_HELLO_NOAUTHENTICATION_REQUIRED \<equiv> 0x00"
abbreviation (input) SOCKS_HELLO_USERNAME_PASSWORD :: byte where "SOCKS_HELLO_USERNAME_PASSWORD \<equiv> 0x02"
abbreviation (input) SOCKS_HELLO_NO_ACCEPTABLE_METHODS :: byte
  where "SOCKS_HELLO_NO_ACCEPTABLE_METHODS \<equiv> 0xFF"

abbreviation (input) SOCKS_CMD_CONNECT :: byte where "SOCKS_CMD_CONNECT \<equiv> 0x01"

abbreviation (input) SOCKS_ATYP_IPV4 :: byte where "SOCKS_ATYP_IPV4 \<equiv> 0x01"
abbreviation (input) SOCKS_ATYP_FQDN :: byte where "SOCKS_ATYP_FQDN \<equiv> 0x03"
abbreviation (input) SOCKS_ATYP_IPV6 :: byte where "SOCKS_ATYP_IPV6 \<equiv> 0x04"

abbreviation (input) SOCKS_REPLY_SUCCEEDED :: byte where "SOCKS_REPLY_SUCCEEDED \<equiv> 0x00"
abbreviation (input) SOCKS_REPLY_GENERAL_FAILURE :: byte where "SOCKS_REPLY_GENERAL_FAILURE \<equiv> 0x01"
abbreviation (input) SOCKS_REPLY_NET_UNREACHABLE :: byte where "SOCKS_REPLY_NET_UNREACHABLE \<equiv> 0x03"
abbreviation (input) SOCKS_REPLY_HOST_UNREACHABLE :: byte where "SOCKS_REPLY_HOST_UNREACHABLE \<equiv> 0x04"
abbreviation (input) SOCKS_REPLY_CONN_REFUSED :: byte where "SOCKS_REPLY_CONN_REFUSED \<equiv> 0x05"
abbreviation (input) SOCKS_REPLY_TTL_EXPIRED :: byte where "SOCKS_REPLY_TTL_EXPIRED \<equiv> 0x06"
abbreviation (input) SOCKS_REPLY_CMD_NOT_SUPPORTED :: byte where "SOCKS_REPLY_CMD_NOT_SUPPORTED \<equiv> 0x07"
abbreviation (input) SOCKS_REPLY_ATYP_NOT_SUPPORTED :: byte where "SOCKS_REPLY_ATYP_NOT_SUPPORTED \<equiv> 0x08"

section \<open>The parser\<close>

datatype hello_state = hello_version | hello_nmethods | hello_methods | hello_done | hello_error

text \<open>
  \<^verbatim>\<open>data\<close> is the client's own state, which only the callback touches; the callback gets the parser
  in C and reaches \<^verbatim>\<open>data\<close> through it.
\<close>

record 'd hello_parser =
  on_authentication_method :: "('d \<Rightarrow> byte \<Rightarrow> 'd) option"
  hp_data :: 'd
  hp_state :: hello_state
  hp_remaining :: byte

definition hello_parser_init :: "'d hello_parser \<Rightarrow> 'd hello_parser" where
  "hello_parser_init p = p\<lparr>hp_state := hello_version, hp_remaining := 0\<rparr>"

text \<open>The switch of the loop; the second component is \<^verbatim>\<open>*error\<close>.\<close>

fun hello_step :: "'d hello_parser \<times> bool \<Rightarrow> byte \<Rightarrow> 'd hello_parser \<times> bool" where
  "hello_step (p, error) byte = (case hp_state p of
     hello_version \<Rightarrow>
       if byte \<noteq> SOCKS_VERSION then (p\<lparr>hp_state := hello_error\<rparr>, True)
       else (p\<lparr>hp_state := hello_nmethods\<rparr>, error)
   | hello_nmethods \<Rightarrow>
       if byte = 0 then (p\<lparr>hp_state := hello_error\<rparr>, True)
       else (p\<lparr>hp_remaining := byte, hp_state := hello_methods\<rparr>, error)
   | hello_methods \<Rightarrow>
       let p1 = (case on_authentication_method p of
                   None \<Rightarrow> p
                 | Some callback \<Rightarrow> p\<lparr>hp_data := callback (hp_data p) byte\<rparr>);
           p2 = p1\<lparr>hp_remaining := hp_remaining p1 - 1\<rparr>
       in if hp_remaining p2 = 0 then (p2\<lparr>hp_state := hello_done\<rparr>, error) else (p2, error)
   | hello_done \<Rightarrow> (p, error)
   | hello_error \<Rightarrow> (p, error))"

definition hello_final :: "'d hello_parser \<times> bool \<Rightarrow> bool" where
  "hello_final pe \<longleftrightarrow> hp_state (fst pe) = hello_done \<or> hp_state (fst pe) = hello_error"

function hello_consume :: "buffer \<Rightarrow> 'd hello_parser \<times> bool \<Rightarrow> (buffer \<times> 'd hello_parser \<times> bool) option" where
  "hello_consume b pe =
     (if buffer_can_read b then do {
        (byte, b1) \<leftarrow> buffer_read b;
        let pe1 = hello_step pe byte;
        if hello_final pe1 then Some (b1, pe1) else hello_consume b1 pe1
      } else Some (b, pe))"
  by pat_completeness auto
termination
  by (relation "measure (\<lambda>(b, pe). b_write b - b_read b)") (auto dest: buffer_read_decreases)

declare hello_consume.simps [simp del]

text \<open>The second component is what \<^verbatim>\<open>*error\<close> becomes, when the caller passes a pointer.\<close>

definition hello_is_done :: "hello_state \<Rightarrow> bool \<Rightarrow> bool \<times> bool" where
  "hello_is_done state error =
     (if state = hello_error then (True, True) else (state = hello_done, error))"

definition hello_marshall :: "buffer \<Rightarrow> byte \<Rightarrow> (int \<times> buffer) option" where
  "hello_marshall b method = do {
     (ptr, available) \<leftarrow> buffer_write_ptr b;
     if available < 2 then Some (-1, b)
     else do {
       b1 \<leftarrow> buffer_store b [SOCKS_VERSION, method];
       b2 \<leftarrow> buffer_write_adv b1 2;
       Some (0, b2)
     }
   }"

lemma hello_marshall_ok:
  assumes "buffer_wf b"
  shows "returns (hello_marshall b m) (\<lambda>(r, b'). buffer_wf b' \<and>
      (if buffer_room b < 2 then r = -1 \<and> b' = b
       else r = 0 \<and> buffer_contents b' = buffer_contents b @ [SOCKS_VERSION, m]))"
  unfolding hello_marshall_def
  by (rule marshall_ok [OF assms]) simp_all

section \<open>The parser is a byte parser over the buffer\<close>

lemma hello_consume_unfold:
  "hello_consume b pe =
     (if buffer_can_read b then do {
        (x, b1) \<leftarrow> buffer_read b;
        pe1 \<leftarrow> Some (hello_step pe x);
        if hello_final pe1 then Some (b1, pe1) else hello_consume b1 pe1
      } else Some (b, pe))"
  by (subst hello_consume.simps) (simp add: Let_def)

interpretation hello: byte_parser buffer_wf buffer_contents buffer_room buffer_can_read buffer_read
  buffer_push buffer_peek buffer_read_adv buffer_compact
  "\<lambda>_. True" hello_final "\<lambda>pe x. Some (hello_step pe x)" hello_consume
  by unfold_locales (simp_all add: hello_consume_unfold [symmetric])

abbreviation hello_feed :: "'d hello_parser \<times> bool \<Rightarrow> byte list \<Rightarrow> (('d hello_parser \<times> bool) \<times> byte list) option" where
  "hello_feed \<equiv> feed (\<lambda>pe x. Some (hello_step pe x)) hello_final"

section \<open>What the parser accepts\<close>

text \<open>The message of RFC 1928: version, number of methods, methods.\<close>

definition hello_msg :: "byte list \<Rightarrow> byte list" where
  "hello_msg ms = SOCKS_VERSION # of_nat (length ms) # ms"

definition hello_notify :: "('d \<Rightarrow> byte \<Rightarrow> 'd) option \<Rightarrow> 'd \<Rightarrow> byte list \<Rightarrow> 'd" where
  "hello_notify cb d ms = (case cb of None \<Rightarrow> d | Some f \<Rightarrow> foldl f d ms)"

text \<open>What the fields of the parser say about the bytes seen since \<open>hello_parser_init\<close>.\<close>

definition hello_hist :: "'d hello_parser \<Rightarrow> bool \<Rightarrow> 'd hello_parser \<times> bool \<Rightarrow> byte list \<Rightarrow> bool" where
  "hello_hist p0 e0 pe used \<longleftrightarrow>
     on_authentication_method (fst pe) = on_authentication_method p0 \<and>
     (case hp_state (fst pe) of
        hello_version \<Rightarrow> used = [] \<and> snd pe = e0 \<and> hp_data (fst pe) = hp_data p0
      | hello_nmethods \<Rightarrow> used = [SOCKS_VERSION] \<and> snd pe = e0 \<and> hp_data (fst pe) = hp_data p0
      | hello_methods \<Rightarrow> snd pe = e0 \<and> (\<exists>n ms. used = SOCKS_VERSION # n # ms
          \<and> unat n = length ms + unat (hp_remaining (fst pe)) \<and> hp_remaining (fst pe) \<noteq> 0
          \<and> hp_data (fst pe) = hello_notify (on_authentication_method p0) (hp_data p0) ms)
      | hello_done \<Rightarrow> snd pe = e0 \<and> (\<exists>ms. used = hello_msg ms \<and> 0 < length ms \<and> length ms < 256
          \<and> hp_data (fst pe) = hello_notify (on_authentication_method p0) (hp_data p0) ms)
      | hello_error \<Rightarrow> snd pe \<and> ((\<exists>v. used = [v] \<and> v \<noteq> SOCKS_VERSION) \<or> used = [SOCKS_VERSION, 0]))"

text \<open>One method byte, as one record update.\<close>

lemma hello_step_methods:
  assumes "hp_state p = hello_methods"
  shows "hello_step (p, e) x =
    (p\<lparr>hp_data := hello_notify (on_authentication_method p) (hp_data p) [x],
       hp_remaining := hp_remaining p - 1,
       hp_state := (if hp_remaining p - 1 = 0 then hello_done else hello_methods)\<rparr>, e)"
  using assms by (cases "on_authentication_method p") (simp_all add: hello_notify_def Let_def)

declare hello_step.simps [simp del]

lemma hello_notify_append:
  "hello_notify cb (hello_notify cb d ms) ns = hello_notify cb d (ms @ ns)"
  by (simp add: hello_notify_def split: option.split)

lemma hello_hist_step:
  assumes "hello_hist p0 e0 pe used" and "\<not> hello_final pe" and "Some (hello_step pe x) = Some pe1"
  shows "hello_hist p0 e0 pe1 (used @ [x])"
proof -
  obtain p e where pe: "pe = (p, e)" by (cases pe)
  show ?thesis
  proof (cases "hp_state p")
    case hello_version
    with assms pe show ?thesis by (auto simp: hello_hist_def hello_step.simps)
  next
    case hello_nmethods
    with assms pe show ?thesis
      by (auto simp: hello_hist_def hello_notify_def hello_step.simps split: option.split)
  next
    case hello_methods
    with assms(1) pe obtain n ms where u: "used = SOCKS_VERSION # n # ms" "e = e0"
      "unat n = length ms + unat (hp_remaining p)" "hp_remaining p \<noteq> 0"
      "hp_data p = hello_notify (on_authentication_method p0) (hp_data p0) ms"
      "on_authentication_method p = on_authentication_method p0"
      by (auto simp: hello_hist_def)
    have pe1: "pe1 = hello_step (p, e) x" using assms(3) pe by simp
    show ?thesis
    proof (cases "hp_remaining p - 1 = 0")
      case True
      then have n: "unat n = length (ms @ [x])" using u(3) by (simp add: byte_sub1_eq_0)
      then have "n = of_nat (length (ms @ [x]))" by (rule byte_of_unat)
      then have "used @ [x] = hello_msg (ms @ [x])" by (simp add: hello_msg_def u(1))
      moreover have "length (ms @ [x]) < 256" using n unat_byte_less [of n] by simp
      ultimately have "\<exists>ns. used @ [x] = hello_msg ns \<and> 0 < length ns \<and> length ns < 256
          \<and> hello_notify (on_authentication_method p0) (hp_data p0) (ms @ [x])
            = hello_notify (on_authentication_method p0) (hp_data p0) ns"
        by (intro exI [of _ "ms @ [x]"]) simp
      then show ?thesis using True u
        by (simp add: pe1 hello_step_methods [OF hello_methods] hello_hist_def hello_notify_append)
    next
      case False
      have "unat (hp_remaining p - 1) = unat (hp_remaining p) - 1" by (rule unat_byte_sub1 [OF u(4)])
      moreover have "unat (hp_remaining p) > 0" using u(4) by (simp add: unat_gt_0)
      ultimately have "unat n = length (ms @ [x]) + unat (hp_remaining p - 1)" using u(3) by simp
      moreover have "used @ [x] = SOCKS_VERSION # n # (ms @ [x])" using u(1) by simp
      ultimately show ?thesis using False u
        by (simp add: pe1 hello_step_methods [OF hello_methods] hello_hist_def hello_notify_append)
    qed
  next
    case hello_done
    with assms(2) pe show ?thesis by (simp add: hello_final_def)
  next
    case hello_error
    with assms(2) pe show ?thesis by (simp add: hello_final_def)
  qed
qed

lemma hello_hist_init: "hello_hist p e (hello_parser_init p, e) []"
  by (simp add: hello_hist_def hello_parser_init_def)

lemma hello_init_not_final: "\<not> hello_final (hello_parser_init p, e)"
  by (simp add: hello_final_def hello_parser_init_def)

lemma hello_feed_sound:
  assumes "hello_feed (hello_parser_init p, e) bs = Some (pe', rest)"
  shows "\<exists>used. bs = used @ rest \<and> hello_hist p e pe' used"
  using feed_history [where H = "hello_hist p e", OF hello_hist_step assms
      hello_hist_init hello_init_not_final] by simp

lemma hello_msg_inj:
  assumes "hello_msg ms @ r = hello_msg ns @ t" and "length ms < 256" and "length ns < 256"
  shows "ms = ns \<and> r = t"
proof -
  from assms(1) have "(of_nat (length ms) :: byte) = of_nat (length ns)" and e: "ms @ r = ns @ t"
    by (simp_all add: hello_msg_def)
  then have "length ms = length ns" by (metis assms(2,3) unat_of_nat_byte)
  with e show ?thesis by simp
qed

lemma hello_feed_complete:
  assumes "0 < length ms" and "length ms < 256"
  shows "\<exists>p'. hello_feed (hello_parser_init p, e) (hello_msg ms @ rest) = Some ((p', e), rest)
    \<and> hp_state p' = hello_done
    \<and> hp_data p' = hello_notify (on_authentication_method p) (hp_data p) ms"
proof -
  let ?bs = "hello_msg ms @ rest"
  from hello.feed_ok [OF _ hello_init_not_final, of p e ?bs]
  obtain pe' r where f: "hello_feed (hello_parser_init p, e) ?bs = Some (pe', r)"
    by (auto simp: returns_prod)
  obtain p' e' where pe: "pe' = (p', e')" by (cases pe')
  from hello_feed_sound [OF f] obtain used where u: "?bs = used @ r" and h: "hello_hist p e pe' used"
    by blast
  have r: "r = [] \<or> hello_final pe'" by (rule feed_rest [OF f])
  have "hp_state p' = hello_done"
  proof (cases "hp_state p'")
    case hello_version
    with r pe u h show ?thesis by (auto simp: hello_hist_def hello_msg_def hello_final_def)
  next
    case hello_nmethods
    with r pe u h assms show ?thesis by (auto simp: hello_hist_def hello_msg_def hello_final_def)
  next
    case hello_methods
    with r pe have "r = []" by (auto simp: hello_final_def)
    with u h hello_methods pe obtain n ns where "?bs = SOCKS_VERSION # n # ns"
      and n: "unat n = length ns + unat (hp_remaining p')" "hp_remaining p' \<noteq> 0"
      by (auto simp: hello_hist_def)
    then have "n = of_nat (length ms)" and "length ms \<le> length ns" by (auto simp: hello_msg_def)
    with n assms(2) have "unat (hp_remaining p') = 0" by simp
    with n(2) show ?thesis by (simp add: unat_eq_0)
  next
    case hello_error
    have "(of_nat (length ms) :: byte) \<noteq> 0"
      using assms unat_of_nat_byte [of "length ms"] by (metis less_numeral_extra(3) unat_0)
    with hello_error u h pe show ?thesis by (auto simp: hello_hist_def hello_msg_def)
  qed
  moreover from this h pe obtain ns where "used = hello_msg ns" "length ns < 256" "e' = e"
    and d: "hp_data p' = hello_notify (on_authentication_method p) (hp_data p) ns"
    by (auto simp: hello_hist_def)
  moreover from this hello_msg_inj [of ms rest ns r] u assms(2) have "ms = ns" "rest = r" by auto
  ultimately show ?thesis using f pe by auto
qed

text \<open>In a state that is not final, what has been read can be completed to a greeting.\<close>

lemma hello_hist_prefix:
  assumes "\<not> hello_final pe" and "hello_hist p e pe used"
  shows "\<exists>ms suffix. used @ suffix = hello_msg ms \<and> suffix \<noteq> [] \<and> 0 < length ms \<and> length ms < 256"
proof (cases "hp_state (fst pe)")
  case hello_version
  with assms have "used @ hello_msg [0] = hello_msg [0]" by (simp add: hello_hist_def)
  then show ?thesis by (intro exI [of _ "[0]"] exI [of _ "hello_msg [0]"]) (simp add: hello_msg_def)
next
  case hello_nmethods
  with assms have "used @ [1, 0] = hello_msg [0]" by (simp add: hello_hist_def hello_msg_def)
  then show ?thesis by (intro exI [of _ "[0]"] exI [of _ "[1, 0]"]) simp
next
  case hello_methods
  with assms obtain n ns where u: "used = SOCKS_VERSION # n # ns"
    and n: "unat n = length ns + unat (hp_remaining (fst pe))" "hp_remaining (fst pe) \<noteq> 0"
    by (auto simp: hello_hist_def)
  let ?pad = "replicate (unat (hp_remaining (fst pe))) (0 :: byte)"
  have "n = of_nat (length (ns @ ?pad))" using n by (intro byte_of_unat) simp
  then have "used @ ?pad = hello_msg (ns @ ?pad)" by (simp add: u hello_msg_def)
  moreover have "?pad \<noteq> []" using n(2) by (simp add: unat_eq_0)
  moreover have "length (ns @ ?pad) < 256" using n(1) unat_byte_less [of n] by simp
  ultimately show ?thesis by (intro exI [of _ "ns @ ?pad"] exI [of _ ?pad]) auto
qed (use assms in \<open>simp_all add: hello_final_def\<close>)

section \<open>Properties\<close>

text \<open>C26: on a buffer that starts with a well-formed greeting, \<open>hello_consume\<close> returns without failing,
  in state \<open>hello_done\<close> with \<^verbatim>\<open>*error\<close> untouched; the callback has seen exactly the methods of the
  greeting, in order, and the bytes after the greeting are still in the buffer.\<close>

theorem hello_consume_accepts:
  assumes wf: "buffer_wf b" and msg: "buffer_contents b = hello_msg ms @ rest"
    and len: "0 < length ms" "length ms < 256"
  shows "returns (hello_consume b (hello_parser_init p, e)) (\<lambda>(b', p', e').
    hp_state p' = hello_done \<and> e' = e \<and> buffer_wf b' \<and> buffer_contents b' = rest
    \<and> hp_data p' = hello_notify (on_authentication_method p) (hp_data p) ms)"
  using hello.consume_feed [OF wf _ hello_init_not_final, of p e] hello_feed_complete [OF len, of p e rest]
  by (auto simp: msg)

theorem hello_consume_accepts_witness:
  "returns (hello_consume (buffer_of 16 [5, 2, 0, 2, 1]) (hello_parser_init
       \<lparr>on_authentication_method = Some (\<lambda>d m. d @ [m]), hp_data = [], hp_state = hello_error,
        hp_remaining = 9\<rparr>, False))
     (\<lambda>(b', p', e'). hp_state p' = hello_done \<and> buffer_contents b' = [1] \<and> hp_data p' = [0, 2])"
  by (rule returns_mono, rule hello_consume_accepts [where ms = "[0, 2]" and rest = "[1]"])
    (auto simp: hello_msg_def hello_notify_def hello_parser_init_def)

text \<open>C27: whatever the buffer holds, \<open>hello_consume\<close> on a fresh parser returns without failing, and its
  final state says what it consumed: \<open>hello_done\<close>, a whole well-formed greeting; \<open>hello_error\<close>, with
  \<^verbatim>\<open>*error\<close> set, a wrong version byte or a zero method count and nothing after it; any other state,
  everything in the buffer, which is a proper prefix of a greeting.\<close>

theorem hello_consume_sound:
  assumes wf: "buffer_wf b"
  shows "returns (hello_consume b (hello_parser_init p, False)) (\<lambda>(b', p', e').
    buffer_wf b' \<and> (e' \<longleftrightarrow> hp_state p' = hello_error) \<and>
    (\<exists>used. buffer_contents b = used @ buffer_contents b' \<and>
      (case hp_state p' of
         hello_done \<Rightarrow> \<exists>ms. used = hello_msg ms \<and> 0 < length ms \<and> length ms < 256
       | hello_error \<Rightarrow> (\<exists>v. used = [v] \<and> v \<noteq> SOCKS_VERSION) \<or> used = [SOCKS_VERSION, 0]
       | _ \<Rightarrow> buffer_contents b' = [] \<and> (\<exists>ms suffix. used @ suffix = hello_msg ms \<and> suffix \<noteq> []
               \<and> 0 < length ms \<and> length ms < 256))))"
proof -
  from hello.consume_feed [OF wf _ hello_init_not_final, of p False]
  obtain b' p' e' where c: "hello_consume b (hello_parser_init p, False) = Some (b', p', e')"
    and f: "hello_feed (hello_parser_init p, False) (buffer_contents b) = Some ((p', e'), buffer_contents b')"
    and wf': "buffer_wf b'" by auto
  from hello_feed_sound [OF f] obtain used where u: "buffer_contents b = used @ buffer_contents b'"
    and h: "hello_hist p False (p', e') used" by blast
  have r: "hello_final (p', e') \<or> buffer_contents b' = []" using feed_rest [OF f] by blast
  have "\<not> hello_final (p', e') \<Longrightarrow> \<exists>ms suffix. used @ suffix = hello_msg ms \<and> suffix \<noteq> []
          \<and> 0 < length ms \<and> length ms < 256"
    using h by (rule hello_hist_prefix [rotated])
  with r c wf' u h show ?thesis
    by (cases "hp_state p'") (auto simp: hello_hist_def hello_final_def)
qed

theorem hello_consume_sound_witness:
  "returns (hello_consume (buffer_of 8 [4]) (hello_parser_init
       \<lparr>on_authentication_method = None, hp_data = (), hp_state = hello_done, hp_remaining = 0\<rparr>, False))
     (\<lambda>(b', p', e'). e' \<longleftrightarrow> hp_state p' = hello_error)"
  by (rule returns_mono, rule hello_consume_sound) auto

end
