(* ===== verification/C_Library.thy ===== *)
theory C_Library
  imports Prelude
begin

text \<open>
  The functions of the C standard library that the code calls on text: NUL-terminated strings in
  fixed arrays of \<^verbatim>\<open>char\<close>, bounded copies and comparisons, \<^verbatim>\<open>isspace\<close>, \<^verbatim>\<open>strtol\<close>, and the decimal
  conversions of the \<^verbatim>\<open>printf\<close> family. A memory block of \<^verbatim>\<open>char\<close> is a list; the string in it is what
  comes before the first NUL.
\<close>

abbreviation (input) NUL :: char where "NUL \<equiv> CHR 0x00"

definition cstr :: "char list \<Rightarrow> string" where
  "cstr xs = takeWhile (\<lambda>c. c \<noteq> NUL) xs"

definition strlen :: "char list \<Rightarrow> nat" where
  "strlen xs = length (cstr xs)"

text \<open>\<^verbatim>\<open>strncpy(dst, src, n)\<close>: at most \<open>n\<close> characters, padded with NULs to exactly \<open>n\<close>.\<close>

definition strncpy :: "char list \<Rightarrow> char list \<Rightarrow> nat \<Rightarrow> char list option" where
  "strncpy dst src n = arr_blit dst 0 (take n (cstr src) @ replicate (n - strlen src) NUL)"

text \<open>\<^verbatim>\<open>strncmp(a, b, n) == 0\<close> and \<^verbatim>\<open>strcmp(a, b) == 0\<close>.\<close>

definition strncmp_eq :: "char list \<Rightarrow> char list \<Rightarrow> nat \<Rightarrow> bool" where
  "strncmp_eq a b n \<longleftrightarrow> take n (cstr a) = take n (cstr b)"

definition strcmp_eq :: "char list \<Rightarrow> char list \<Rightarrow> bool" where
  "strcmp_eq a b \<longleftrightarrow> cstr a = cstr b"

text \<open>\<^verbatim>\<open>snprintf(dst, n, ...)\<close> with \<open>s\<close> the text the format produces: truncated to \<open>n - 1\<close>, terminated.\<close>

definition snprintf :: "char list \<Rightarrow> nat \<Rightarrow> string \<Rightarrow> char list option" where
  "snprintf dst n s = (if n = 0 then Some dst else arr_blit dst 0 (take (n - 1) s @ [NUL]))"

section \<open>Strings in arrays\<close>

lemma cstr_Nil [simp]: "cstr [] = []"
  by (simp add: cstr_def)

lemma cstr_Cons [simp]: "cstr (c # cs) = (if c = NUL then [] else c # cstr cs)"
  by (simp add: cstr_def)

lemma cstr_id: "NUL \<notin> set s \<Longrightarrow> cstr s = s"
  by (induction s) auto

lemma NUL_notin_cstr [simp]: "NUL \<notin> set (cstr s)"
  by (auto simp: cstr_def dest: set_takeWhileD)

lemma cstr_idem [simp]: "cstr (cstr s) = cstr s"
  by (simp add: cstr_id)

lemma cstr_append: "cstr (s @ t) = (if NUL \<in> set s then cstr s else s @ cstr t)"
  by (induction s) auto

lemma cstr_append_NUL [simp]: "cstr (s @ NUL # t) = cstr s"
  by (simp add: cstr_append cstr_id)

lemma cstr_replicate_NUL [simp]: "cstr (replicate n NUL) = []"
  by (cases n) auto

lemma cstr_take_cstr: "cstr (take n (cstr s)) = take n (cstr s)"
  by (rule cstr_id) (meson NUL_notin_cstr in_set_takeD)

text \<open>The idiom of \<^verbatim>\<open>users.c\<close> and \<^verbatim>\<open>dns_worker.c\<close>: copy into an array and terminate its last byte.\<close>

definition strncpy_term :: "char list \<Rightarrow> char list \<Rightarrow> nat \<Rightarrow> char list option" where
  "strncpy_term dst src n = do {
     d \<leftarrow> strncpy dst src (n - 1);
     arr_set d (int n - 1) NUL
   }"

lemma strncpy_term_ok [ret_intro]:
  assumes "length dst = n" and "0 < n"
  shows "returns (strncpy_term dst src n) (\<lambda>d. length d = n \<and> cstr d = take (n - 1) (cstr src))"
proof -
  let ?s = "take (n - 1) (cstr src) @ replicate (n - 1 - strlen src) NUL"
  have len: "length ?s = n - 1" by (auto simp: strlen_def min_def)
  then have c: "strncpy dst src (n - 1) = Some (?s @ drop (n - 1) dst)"
    using assms by (simp add: strncpy_def)
  have k: "drop (n - 1) dst = [dst ! (n - 1)]"
    using Cons_nth_drop_Suc [of "n - 1" dst] assms by simp
  have idx: "int n - 1 = int (n - 1)" using assms by simp
  have "arr_set (?s @ [dst ! (n - 1)]) (int n - 1) NUL = Some ((?s @ [dst ! (n - 1)])[n - 1 := NUL])"
    unfolding idx by (rule arr_set_in) (use len assms in simp)
  moreover have "(?s @ [dst ! (n - 1)])[n - 1 := NUL] = ?s @ [NUL]"
    using len by (metis list_update_length)
  moreover have "cstr (?s @ [NUL]) = take (n - 1) (cstr src)"
    by (cases "n - 1 - strlen src") (simp_all add: cstr_take_cstr cstr_append)
  ultimately show ?thesis using len assms unfolding strncpy_term_def c k by simp
qed

lemma snprintf_ok [ret_intro]:
  "n \<le> length dst \<Longrightarrow> 0 < n \<Longrightarrow>
   returns (snprintf dst n s) (\<lambda>d. length d = length dst \<and> cstr d = cstr (take (n - 1) s))"
  by (auto simp: snprintf_def arr_blit_def min_def)

section \<open>Numbers in text\<close>

definition isspace :: "char \<Rightarrow> bool" where
  "isspace c \<longleftrightarrow> c = CHR '' '' \<or> (9 \<le> (of_char c :: nat) \<and> (of_char c :: nat) \<le> 13)"

definition isdigit :: "char \<Rightarrow> bool" where
  "isdigit c \<longleftrightarrow> 48 \<le> (of_char c :: nat) \<and> (of_char c :: nat) \<le> 57"

definition digit_val :: "char \<Rightarrow> nat" where
  "digit_val c = of_char c - 48"

definition digit_char :: "nat \<Rightarrow> char" where
  "digit_char d = char_of (48 + d)"

text \<open>\<^verbatim>\<open>%u\<close>, \<^verbatim>\<open>%d\<close> of a non-negative number, \<^verbatim>\<open>PRIu64\<close>.\<close>

fun dec :: "nat \<Rightarrow> string" where
  "dec n = (if n < 10 then [digit_char n] else dec (n div 10) @ [digit_char (n mod 10)])"

declare dec.simps [simp del]

fun digits_val :: "nat \<Rightarrow> string \<Rightarrow> nat" where
  "digits_val acc [] = acc"
| "digits_val acc (c # cs) = digits_val (10 * acc + digit_val c) cs"

abbreviation (input) LONG_MAX :: int where "LONG_MAX \<equiv> 2 ^ 63 - 1"
abbreviation (input) LONG_MIN :: int where "LONG_MIN \<equiv> - (2 ^ 63)"

text \<open>
  \<^verbatim>\<open>strtol(s, &end, 10)\<close>: white space, an optional sign, digits. The result is the value (clamped to
  the range of \<^verbatim>\<open>long\<close>), the text from \<^verbatim>\<open>end\<close> on, whether \<^verbatim>\<open>end != s\<close>, and whether \<^verbatim>\<open>errno\<close> is set to
  \<^verbatim>\<open>ERANGE\<close>.
\<close>

definition strtol10 :: "string \<Rightarrow> int \<times> string \<times> bool \<times> bool" where
  "strtol10 s =
     (let t = dropWhile isspace (cstr s);
          (neg, u) = (case t of
             [] \<Rightarrow> (False, t)
           | c # cs \<Rightarrow> if c = CHR ''-'' then (True, cs) else if c = CHR ''+'' then (False, cs) else (False, t));
          ds = takeWhile isdigit u;
          v = int (digits_val 0 ds);
          w = (if neg then - v else v)
      in if ds = [] then (0, cstr s, False, False)
         else if w > LONG_MAX then (LONG_MAX, dropWhile isdigit u, True, True)
         else if w < LONG_MIN then (LONG_MIN, dropWhile isdigit u, True, True)
         else (w, dropWhile isdigit u, True, False))"

lemma of_char_digit_char: "d < 10 \<Longrightarrow> of_char (digit_char d) = 48 + d"
  by (simp add: digit_char_def)

lemma isdigit_digit_char [simp]: "d < 10 \<Longrightarrow> isdigit (digit_char d)"
  by (simp add: isdigit_def of_char_digit_char)

lemma digit_val_digit_char [simp]: "d < 10 \<Longrightarrow> digit_val (digit_char d) = d"
  by (simp add: digit_val_def of_char_digit_char)

lemma dec_digits: "list_all isdigit (dec n)"
  by (induction n rule: dec.induct) (subst dec.simps, simp)

lemma dec_nonempty [simp]: "dec n \<noteq> []"
  by (subst dec.simps) simp

lemma digits_val_append: "digits_val acc (s @ t) = digits_val (digits_val acc s) t"
  by (induction s arbitrary: acc) auto

lemma digits_val_dec [simp]: "digits_val 0 (dec n) = n"
proof (induction n rule: dec.induct)
  case (1 n)
  then show ?case by (subst dec.simps) (simp add: digits_val_append)
qed

text \<open>Decimal text has no separators of the protocols built on it.\<close>

lemma isdigit_plain: "isdigit c \<Longrightarrow> c \<noteq> NUL \<and> \<not> isspace c \<and> c \<noteq> CHR ''-'' \<and> c \<noteq> CHR ''+''"
  by (auto simp: isdigit_def isspace_def)

lemma dec_plain: "c \<in> set (dec n) \<Longrightarrow> c \<noteq> NUL \<and> \<not> isspace c \<and> c \<noteq> CHR ''-'' \<and> c \<noteq> CHR ''+''"
  using dec_digits [of n] isdigit_plain by (auto simp: list_all_iff)

lemma strtol10_dec:
  "strtol10 (dec n) = (if int n \<le> LONG_MAX then (int n, [], True, False) else (LONG_MAX, [], True, True))"
proof -
  obtain c cs where d: "dec n = c # cs" by (cases "dec n") auto
  have all: "\<forall>x\<in>set (dec n). isdigit x" using dec_digits [of n] by (simp add: list_all_iff)
  have c: "c \<noteq> NUL" "\<not> isspace c" "c \<noteq> CHR ''-''" "c \<noteq> CHR ''+''"
    using dec_plain [of c n] d by auto
  have "cstr (dec n) = dec n" by (rule cstr_id) (use dec_plain in blast)
  moreover have "dropWhile isspace (dec n) = dec n" using c d by simp
  moreover have "takeWhile isdigit (dec n) = dec n" "dropWhile isdigit (dec n) = []"
    using all by simp_all
  moreover have "(case dec n of [] \<Rightarrow> (False, dec n) | x # xs \<Rightarrow>
      if x = CHR ''-'' then (True, xs) else if x = CHR ''+'' then (False, xs) else (False, dec n)) = (False, dec n)"
    using c d by simp
  ultimately show ?thesis
    by (simp add: strtol10_def Let_def del: takeWhile_eq_all_conv dropWhile_eq_Nil_conv)
qed

end
