(* ===== verification/Auth.thy ===== *)
theory Auth
  imports Parser_Loop C_Library
begin

text \<open>
  \<^verbatim>\<open>src/shared/auth.c\<close>: the parser of the RFC 1929 user name and password message and its reply.
  The two credentials are collected in arrays of 256 \<^verbatim>\<open>char\<close>, so the switch can in principle write
  outside them: \<open>auth_step\<close> is then \<open>None\<close>.
\<close>

abbreviation (input) AUTH_VERSION :: byte where "AUTH_VERSION \<equiv> 0x01"

datatype auth_state =
  auth_ver | auth_ulen | auth_uname | auth_plen | auth_passwd | auth_done | auth_error

record auth_parser =
  ap_state :: auth_state
  ap_remaining :: byte
  ap_ulen :: byte
  ap_plen :: byte
  ap_uname :: "char list"
  ap_passwd :: "char list"

definition auth_parser_init :: "auth_parser \<Rightarrow> auth_parser" where
  "auth_parser_init p = p\<lparr>ap_state := auth_ver, ap_remaining := 0, ap_ulen := 0, ap_plen := 0\<rparr>"

text \<open>The switch of the loop. The index is computed in \<^verbatim>\<open>int\<close>; \<^verbatim>\<open>--remaining\<close> wraps at 8 bits.\<close>

fun auth_step :: "auth_parser \<times> bool \<Rightarrow> byte \<Rightarrow> (auth_parser \<times> bool) option" where
  "auth_step (p, error) byte = (case ap_state p of
     auth_ver \<Rightarrow>
       Some (if byte \<noteq> AUTH_VERSION then (p\<lparr>ap_state := auth_error\<rparr>, True)
             else (p\<lparr>ap_state := auth_ulen\<rparr>, error))
   | auth_ulen \<Rightarrow>
       Some (if byte = 0 then (p\<lparr>ap_state := auth_error\<rparr>, True)
             else (p\<lparr>ap_ulen := byte, ap_remaining := byte, ap_state := auth_uname\<rparr>, error))
   | auth_uname \<Rightarrow> do {
       buf \<leftarrow> arr_set (ap_uname p) (int (unat (ap_ulen p)) - int (unat (ap_remaining p))) (chr byte);
       let r = ap_remaining p - 1;
       if r = 0 then do {
         buf' \<leftarrow> arr_set buf (int (unat (ap_ulen p))) NUL;
         Some (p\<lparr>ap_uname := buf', ap_remaining := r, ap_state := auth_plen\<rparr>, error)
       } else Some (p\<lparr>ap_uname := buf, ap_remaining := r\<rparr>, error)
     }
   | auth_plen \<Rightarrow>
       Some (if byte = 0 then (p\<lparr>ap_state := auth_error\<rparr>, True)
             else (p\<lparr>ap_plen := byte, ap_remaining := byte, ap_state := auth_passwd\<rparr>, error))
   | auth_passwd \<Rightarrow> do {
       buf \<leftarrow> arr_set (ap_passwd p) (int (unat (ap_plen p)) - int (unat (ap_remaining p))) (chr byte);
       let r = ap_remaining p - 1;
       if r = 0 then do {
         buf' \<leftarrow> arr_set buf (int (unat (ap_plen p))) NUL;
         Some (p\<lparr>ap_passwd := buf', ap_remaining := r, ap_state := auth_done\<rparr>, error)
       } else Some (p\<lparr>ap_passwd := buf, ap_remaining := r\<rparr>, error)
     }
   | auth_done \<Rightarrow> Some (p, error)
   | auth_error \<Rightarrow> Some (p, error))"

definition auth_final :: "auth_parser \<times> bool \<Rightarrow> bool" where
  "auth_final pe \<longleftrightarrow> ap_state (fst pe) = auth_done \<or> ap_state (fst pe) = auth_error"

function auth_consume :: "buffer \<Rightarrow> auth_parser \<times> bool \<Rightarrow> (buffer \<times> auth_parser \<times> bool) option" where
  "auth_consume b pe =
     (if buffer_can_read b then do {
        (byte, b1) \<leftarrow> buffer_read b;
        pe1 \<leftarrow> auth_step pe byte;
        if auth_final pe1 then Some (b1, pe1) else auth_consume b1 pe1
      } else Some (b, pe))"
  by pat_completeness auto
termination
  by (relation "measure (\<lambda>(b, pe). b_write b - b_read b)") (auto dest: buffer_read_decreases)

declare auth_consume.simps [simp del]

definition auth_is_done :: "auth_state \<Rightarrow> bool \<Rightarrow> bool \<times> bool" where
  "auth_is_done state error =
     (if state = auth_error then (True, True) else (state = auth_done, error))"

definition auth_marshall :: "buffer \<Rightarrow> byte \<Rightarrow> (int \<times> buffer) option" where
  "auth_marshall b status = do {
     (ptr, available) \<leftarrow> buffer_write_ptr b;
     if available < 2 then Some (-1, b)
     else do {
       b1 \<leftarrow> buffer_store b [AUTH_VERSION, status];
       b2 \<leftarrow> buffer_write_adv b1 2;
       Some (0, b2)
     }
   }"

lemma auth_marshall_ok:
  assumes "buffer_wf b"
  shows "returns (auth_marshall b m) (\<lambda>(r, b'). buffer_wf b' \<and>
      (if buffer_room b < 2 then r = -1 \<and> b' = b
       else r = 0 \<and> buffer_contents b' = buffer_contents b @ [AUTH_VERSION, m]))"
  unfolding auth_marshall_def
  by (rule marshall_ok [OF assms]) simp_all

section \<open>A field being filled\<close>

text \<open>
  \<open>filling buf len rem got\<close>: the array has taken the bytes \<open>got\<close> of a field of \<open>len\<close> bytes, of which
  \<open>rem\<close> are still to come. Both credentials follow it.
\<close>

definition filling :: "char list \<Rightarrow> byte \<Rightarrow> byte \<Rightarrow> byte list \<Rightarrow> bool" where
  "filling buf len rem got \<longleftrightarrow> length buf = 256 \<and> rem \<noteq> 0 \<and> unat len = length got + unat rem
     \<and> take (length got) buf = map chr got"

definition filled :: "char list \<Rightarrow> byte list \<Rightarrow> bool" where
  "filled buf got \<longleftrightarrow> length buf = 256 \<and> 0 < length got \<and> length got < 256
     \<and> (\<exists>t. buf = map chr got @ NUL # t)"

lemma filling_start: "length buf = 256 \<Longrightarrow> len \<noteq> 0 \<Longrightarrow> filling buf len len []"
  by (simp add: filling_def)

lemma filling_index: "filling buf len rem got \<Longrightarrow>
    int (unat len) - int (unat rem) = int (length got) \<and> length got < 256"
  using unat_byte_less [of len] by (auto simp: filling_def)

lemma filling_store:
  assumes "filling buf len rem got"
  shows "arr_set buf (int (unat len) - int (unat rem)) (chr x) = Some (buf[length got := chr x])"
    and "take (length (got @ [x])) (buf[length got := chr x]) = map chr (got @ [x])"
proof -
  have l: "length got < length buf" using filling_index [OF assms] assms by (auto simp: filling_def)
  show "arr_set buf (int (unat len) - int (unat rem)) (chr x) = Some (buf[length got := chr x])"
    using filling_index [OF assms] l by simp
  show "take (length (got @ [x])) (buf[length got := chr x]) = map chr (got @ [x])"
    using take_list_update_Suc [OF l, of "chr x"] assms by (simp add: filling_def)
qed

lemma filling_next:
  assumes "filling buf len rem got" and "rem - 1 \<noteq> 0"
  shows "filling (buf[length got := chr x]) len (rem - 1) (got @ [x])"
proof -
  have "rem \<noteq> 0" using assms(1) by (simp add: filling_def)
  then have "unat (rem - 1) = unat rem - 1" "unat rem > 0"
    by (simp_all add: unat_byte_sub1 unat_gt_0)
  then show ?thesis using assms filling_store(2) [OF assms(1), of x] by (simp add: filling_def)
qed

lemma filling_last:
  assumes "filling buf len rem got" and "rem - 1 = 0"
  shows "arr_set (buf[length got := chr x]) (int (unat len)) NUL
           = Some ((buf[length got := chr x])[unat len := NUL])"
    and "filled ((buf[length got := chr x])[unat len := NUL]) (got @ [x])"
    and "len = of_nat (length (got @ [x]))"
proof -
  let ?b = "buf[length got := chr x]"
  have len: "unat len = length (got @ [x])"
    using assms by (simp add: filling_def byte_sub1_eq_0)
  have "length ?b = 256" using assms(1) by (simp add: filling_def)
  then have l: "unat len < length ?b" by simp
  show "arr_set ?b (int (unat len)) NUL = Some (?b[unat len := NUL])" using l by (rule arr_set_in)
  have "?b[unat len := NUL] = take (unat len) ?b @ NUL # drop (Suc (unat len)) ?b"
    using l by (rule upd_conv_take_nth_drop)
  then have "?b[unat len := NUL] = map chr (got @ [x]) @ NUL # drop (Suc (unat len)) ?b"
    using filling_store(2) [OF assms(1), of x] len by simp
  then have "\<exists>t. ?b[unat len := NUL] = map chr (got @ [x]) @ NUL # t" by blast
  moreover have "length (got @ [x]) < 256" using len unat_byte_less [of len] by simp
  moreover have "length (?b[unat len := NUL]) = 256" using assms(1) by (simp add: filling_def)
  ultimately show "filled (?b[unat len := NUL]) (got @ [x])" unfolding filled_def by fastforce
  show "len = of_nat (length (got @ [x]))" using len by (rule byte_of_unat)
qed

text \<open>One byte of a field: the array write is in bounds, and the field is complete or goes on.\<close>

lemma filling_step:
  assumes "filling buf len rem got"
  shows "\<exists>buf1. arr_set buf (int (unat len) - int (unat rem)) (chr x) = Some buf1 \<and> length buf1 = 256
    \<and> (rem - 1 \<noteq> 0 \<longrightarrow> filling buf1 len (rem - 1) (got @ [x]))
    \<and> (rem - 1 = 0 \<longrightarrow> (\<exists>buf2. arr_set buf1 (int (unat len)) NUL = Some buf2
           \<and> filled buf2 (got @ [x]) \<and> len = of_nat (length (got @ [x]))))"
proof (rule exI [of _ "buf[length got := chr x]"], intro conjI)
  show "length (buf[length got := chr x]) = 256" using assms by (simp add: filling_def)
qed (use filling_store(1) [OF assms, of x] filling_next [OF assms, of x] filling_last [OF assms, of x] in \<open>blast+\<close>)

lemma filling_length: "filling buf len rem got \<Longrightarrow> length buf = 256"
  by (simp add: filling_def)

lemma filled_length: "filled buf got \<Longrightarrow> length buf = 256"
  by (simp add: filled_def)

text \<open>What C reads back from a filled field stops at the first zero byte of it.\<close>

lemma chr_eq_NUL [simp]: "chr b = NUL \<longleftrightarrow> b = 0"
proof -
  have "chr 0 = NUL" by code_simp
  then show ?thesis by (metis chr_eq_iff)
qed

lemma filled_cstr: "filled buf got \<Longrightarrow> cstr buf = cstr (map chr got)"
  by (auto simp: filled_def)

lemma cstr_map_chr: "0 \<notin> set got \<Longrightarrow> cstr (map chr got) = map chr got"
  by (induction got) auto

lemma filled_cstr_nozero: "filled buf got \<Longrightarrow> 0 \<notin> set got \<Longrightarrow> cstr buf = map chr got"
  by (simp add: filled_cstr cstr_map_chr)

section \<open>The parser is a byte parser over the buffer\<close>

text \<open>The message of RFC 1929: version, user name and password, each with its length.\<close>

definition auth_msg :: "byte list \<Rightarrow> byte list \<Rightarrow> byte list" where
  "auth_msg us ps = AUTH_VERSION # of_nat (length us) # us @ of_nat (length ps) # ps"

definition auth_hist :: "bool \<Rightarrow> auth_parser \<times> bool \<Rightarrow> byte list \<Rightarrow> bool" where
  "auth_hist e0 pe used \<longleftrightarrow> length (ap_uname (fst pe)) = 256 \<and> length (ap_passwd (fst pe)) = 256 \<and>
     (let p = fst pe in case ap_state p of
        auth_ver \<Rightarrow> used = [] \<and> snd pe = e0
      | auth_ulen \<Rightarrow> used = [AUTH_VERSION] \<and> snd pe = e0
      | auth_uname \<Rightarrow> snd pe = e0 \<and> (\<exists>us. used = AUTH_VERSION # ap_ulen p # us
          \<and> filling (ap_uname p) (ap_ulen p) (ap_remaining p) us)
      | auth_plen \<Rightarrow> snd pe = e0 \<and> (\<exists>us. used = AUTH_VERSION # of_nat (length us) # us
          \<and> filled (ap_uname p) us)
      | auth_passwd \<Rightarrow> snd pe = e0 \<and> (\<exists>us ps. filled (ap_uname p) us
          \<and> used = AUTH_VERSION # of_nat (length us) # us @ ap_plen p # ps
          \<and> filling (ap_passwd p) (ap_plen p) (ap_remaining p) ps)
      | auth_done \<Rightarrow> snd pe = e0 \<and> (\<exists>us ps. used = auth_msg us ps
          \<and> filled (ap_uname p) us \<and> filled (ap_passwd p) ps)
      | auth_error \<Rightarrow> snd pe \<and> ((\<exists>v. used = [v] \<and> v \<noteq> AUTH_VERSION) \<or> used = [AUTH_VERSION, 0]
          \<or> (\<exists>us. filled (ap_uname p) us \<and> used = AUTH_VERSION # of_nat (length us) # us @ [0])))"

lemma auth_hist_step:
  assumes "auth_hist e0 pe used" and "\<not> auth_final pe"
  shows "returns (auth_step pe x) (\<lambda>pe1. auth_hist e0 pe1 (used @ [x]))"
proof -
  obtain p e where pe: "pe = (p, e)" by (cases pe)
  show ?thesis
  proof (cases "ap_state p")
    case auth_ver
    with assms pe show ?thesis by (auto simp: auth_hist_def)
  next
    case auth_ulen
    with assms pe show ?thesis by (auto simp: auth_hist_def filling_start)
  next
    case auth_uname
    with assms(1) pe obtain us where u: "used = AUTH_VERSION # ap_ulen p # us" "e = e0"
      and f: "filling (ap_uname p) (ap_ulen p) (ap_remaining p) us" and pw: "length (ap_passwd p) = 256"
      by (auto simp: auth_hist_def)
    from filling_step [OF f, of x] obtain buf1 where
      b1: "arr_set (ap_uname p) (int (unat (ap_ulen p)) - int (unat (ap_remaining p))) (chr x) = Some buf1" "length buf1 = 256"
      and more: "ap_remaining p - 1 \<noteq> 0 \<longrightarrow> filling buf1 (ap_ulen p) (ap_remaining p - 1) (us @ [x])"
      and last: "ap_remaining p - 1 = 0 \<longrightarrow> (\<exists>buf2. arr_set buf1 (int (unat (ap_ulen p))) NUL = Some buf2
           \<and> filled buf2 (us @ [x]) \<and> ap_ulen p = of_nat (length (us @ [x])))"
      by blast
    show ?thesis
    proof (cases "ap_remaining p - 1 = 0")
      case True
      with last obtain buf2 where b2: "arr_set buf1 (int (unat (ap_ulen p))) NUL = Some buf2"
        "filled buf2 (us @ [x])" "ap_ulen p = of_nat (length (us @ [x]))" by blast
      have "used @ [x] = AUTH_VERSION # of_nat (length (us @ [x])) # (us @ [x])"
        unfolding b2(3) [symmetric] u(1) by simp
      then have "auth_hist e0 (p\<lparr>ap_uname := buf2, ap_remaining := ap_remaining p - 1, ap_state := auth_plen\<rparr>, e) (used @ [x])"
        using b2(2) u(2) pw filled_length [OF b2(2)] by (auto simp: auth_hist_def)
      with True auth_uname pe b1(1) b2(1) show ?thesis by simp
    next
      case False
      with auth_uname pe b1 more u pw show ?thesis by (auto simp: auth_hist_def Let_def)
    qed
  next
    case auth_plen
    with assms pe show ?thesis by (auto simp: auth_hist_def filling_start)
  next
    case auth_passwd
    with assms(1) pe obtain us ps where u: "used = AUTH_VERSION # of_nat (length us) # us @ ap_plen p # ps"
      "e = e0" "filled (ap_uname p) us"
      and f: "filling (ap_passwd p) (ap_plen p) (ap_remaining p) ps" and un: "length (ap_uname p) = 256"
      by (auto simp: auth_hist_def)
    from filling_step [OF f, of x] obtain buf1 where
      b1: "arr_set (ap_passwd p) (int (unat (ap_plen p)) - int (unat (ap_remaining p))) (chr x) = Some buf1" "length buf1 = 256"
      and more: "ap_remaining p - 1 \<noteq> 0 \<longrightarrow> filling buf1 (ap_plen p) (ap_remaining p - 1) (ps @ [x])"
      and last: "ap_remaining p - 1 = 0 \<longrightarrow> (\<exists>buf2. arr_set buf1 (int (unat (ap_plen p))) NUL = Some buf2
           \<and> filled buf2 (ps @ [x]) \<and> ap_plen p = of_nat (length (ps @ [x])))"
      by blast
    show ?thesis
    proof (cases "ap_remaining p - 1 = 0")
      case True
      with last obtain buf2 where b2: "arr_set buf1 (int (unat (ap_plen p))) NUL = Some buf2"
        "filled buf2 (ps @ [x])" "ap_plen p = of_nat (length (ps @ [x]))" by blast
      have "used @ [x] = auth_msg us (ps @ [x])"
        unfolding auth_msg_def b2(3) [symmetric] u(1) by simp
      then have "auth_hist e0 (p\<lparr>ap_passwd := buf2, ap_remaining := ap_remaining p - 1, ap_state := auth_done\<rparr>, e) (used @ [x])"
        using b2(2) u(2,3) un filled_length [OF b2(2)] by (auto simp: auth_hist_def)
      with True auth_passwd pe b1(1) b2(1) show ?thesis by simp
    next
      case False
      with auth_passwd pe b1 more u un show ?thesis by (auto simp: auth_hist_def Let_def)
    qed
  qed (use assms pe in \<open>simp_all add: auth_final_def\<close>)
qed

lemma auth_hist_init:
  "length (ap_uname p) = 256 \<Longrightarrow> length (ap_passwd p) = 256 \<Longrightarrow> auth_hist e (auth_parser_init p, e) []"
  by (simp add: auth_hist_def auth_parser_init_def)

lemma auth_init_not_final: "\<not> auth_final (auth_parser_init p, e)"
  by (simp add: auth_final_def auth_parser_init_def)

text \<open>The invariant alone: the automaton has seen some bytes since it was initialised.\<close>

definition auth_inv :: "auth_parser \<times> bool \<Rightarrow> bool" where
  "auth_inv pe \<longleftrightarrow> (\<exists>e0 used. auth_hist e0 pe used)"

interpretation auth: byte_parser buffer_wf buffer_contents buffer_room buffer_can_read buffer_read
  buffer_push buffer_peek buffer_read_adv buffer_compact auth_inv auth_final auth_step auth_consume
proof (unfold_locales, goal_cases)
  case (1 pe x)
  then obtain e0 used where "auth_hist e0 pe used" by (auto simp: auth_inv_def)
  from auth_hist_step [OF this 1(2), of x] show ?case
    by (rule returns_mono) (auto simp: auth_inv_def)
next
  case (2 b pe)
  show ?case by (rule auth_consume.simps)
qed

abbreviation (input) auth_feed ::
    "auth_parser \<times> bool \<Rightarrow> byte list \<Rightarrow> ((auth_parser \<times> bool) \<times> byte list) option" where
  "auth_feed \<equiv> feed auth_step auth_final"

lemma auth_feed_hist:
  assumes "length (ap_uname p) = 256" and "length (ap_passwd p) = 256"
    and "auth_feed (auth_parser_init p, e) bs = Some (pe', rest)"
  shows "\<exists>used. bs = used @ rest \<and> auth_hist e pe' used"
proof -
  have step: "auth_hist e pe used \<Longrightarrow> \<not> auth_final pe \<Longrightarrow> auth_step pe x = Some pe1 \<Longrightarrow>
      auth_hist e pe1 (used @ [x])" for pe used x pe1
    using auth_hist_step [of e pe used x] by simp
  from feed_history [where H = "auth_hist e", OF step assms(3) auth_hist_init [OF assms(1,2)]
      auth_init_not_final] show ?thesis by simp
qed

lemma auth_msg_inj:
  assumes "auth_msg us ps @ r = auth_msg vs qs @ t"
    and "length us < 256" "length ps < 256" "length vs < 256" "length qs < 256"
  shows "us = vs \<and> ps = qs \<and> r = t"
proof -
  from assms(1) have "(of_nat (length us) :: byte) = of_nat (length vs)"
    and e: "us @ of_nat (length ps) # ps @ r = vs @ of_nat (length qs) # qs @ t"
    by (simp_all add: auth_msg_def)
  then have "length us = length vs" by (metis assms(2,4) unat_of_nat_byte)
  with e have "us = vs" and n: "(of_nat (length ps) :: byte) = of_nat (length qs)" and "ps @ r = qs @ t"
    by simp_all
  moreover from n have "length ps = length qs" by (metis assms(3,5) unat_of_nat_byte)
  ultimately show ?thesis by simp
qed

text \<open>A header \<open>len, field\<close> of a message determines the field.\<close>

lemma field_inj:
  assumes "of_nat (length us) # us @ r = (of_nat (length vs) :: byte) # vs @ t"
    and "length us < 256" "length vs < 256"
  shows "us = vs \<and> r = t"
proof -
  from assms(1) have "(of_nat (length us) :: byte) = of_nat (length vs)" by simp
  then have "length us = length vs" by (metis assms(2,3) unat_of_nat_byte)
  with assms(1) show ?thesis by simp
qed

lemma filling_too_long:
  assumes "filling buf n rem vs" and "n # vs = of_nat (length us) # us @ r" and "length us < 256"
  shows False
proof -
  have "unat n = length us" using assms(2,3) by simp
  moreover have "length us \<le> length vs" using assms(2) by simp
  ultimately have "unat rem = 0" using assms(1) by (simp add: filling_def)
  then show False using assms(1) by (simp add: filling_def unat_eq_0)
qed

lemma auth_feed_complete:
  assumes len: "0 < length us" "length us < 256" "0 < length ps" "length ps < 256"
    and arr: "length (ap_uname p) = 256" "length (ap_passwd p) = 256"
  shows "\<exists>p'. auth_feed (auth_parser_init p, e) (auth_msg us ps @ rest) = Some ((p', e), rest)
    \<and> ap_state p' = auth_done \<and> filled (ap_uname p') us \<and> filled (ap_passwd p') ps"
proof -
  let ?bs = "auth_msg us ps @ rest"
  have "auth_inv (auth_parser_init p, e)" using auth_hist_init [OF arr] by (auto simp: auth_inv_def)
  from auth.feed_ok [OF this auth_init_not_final, of ?bs]
  obtain pe' r where f: "auth_feed (auth_parser_init p, e) ?bs = Some (pe', r)"
    by (auto simp: returns_prod)
  obtain p' e' where pe: "pe' = (p', e')" by (cases pe')
  from auth_feed_hist [OF arr f] obtain used where u: "?bs = used @ r" and h: "auth_hist e (p', e') used"
    by (auto simp: pe)
  have r: "r = [] \<or> auth_final (p', e')" using feed_rest [OF f] pe by simp
  have nz: "(of_nat (length us) :: byte) \<noteq> 0" "(of_nat (length ps) :: byte) \<noteq> 0"
    using len by (metis less_numeral_extra(3) unat_0 unat_of_nat_byte)+
  have "ap_state p' = auth_done"
  proof (cases "ap_state p'")
    case auth_ver
    with r u h show ?thesis by (auto simp: auth_hist_def auth_msg_def auth_final_def)
  next
    case auth_ulen
    with r u h show ?thesis by (auto simp: auth_hist_def auth_msg_def auth_final_def)
  next
    case auth_uname
    with r have "r = []" by (simp add: auth_final_def)
    moreover from h auth_uname obtain vs where us: "used = AUTH_VERSION # ap_ulen p' # vs"
      and f: "filling (ap_uname p') (ap_ulen p') (ap_remaining p') vs"
      by (auto simp: auth_hist_def)
    ultimately have "ap_ulen p' # vs = of_nat (length us) # us @ of_nat (length ps) # ps @ rest"
      using u by (simp add: auth_msg_def)
    from filling_too_long [OF f this len(2)] show ?thesis ..
  next
    case auth_plen
    with r have "r = []" by (simp add: auth_final_def)
    moreover from h auth_plen obtain vs where us: "used = AUTH_VERSION # of_nat (length vs) # vs"
      and f: "length vs < 256"
      by (auto simp: auth_hist_def filled_def)
    ultimately have "of_nat (length us) # us @ of_nat (length ps) # ps @ rest = of_nat (length vs) # vs @ []"
      using u by (simp add: auth_msg_def)
    with field_inj [OF this len(2) f] show ?thesis by simp
  next
    case auth_passwd
    with r have "r = []" by (simp add: auth_final_def)
    moreover from h auth_passwd obtain vs qs where
      us: "used = AUTH_VERSION # of_nat (length vs) # vs @ ap_plen p' # qs" and v: "length vs < 256"
      and q: "filling (ap_passwd p') (ap_plen p') (ap_remaining p') qs"
      by (auto simp: auth_hist_def filled_def)
    ultimately have "of_nat (length us) # us @ of_nat (length ps) # ps @ rest = of_nat (length vs) # vs @ ap_plen p' # qs"
      using u by (simp add: auth_msg_def)
    from field_inj [OF this len(2) v] have "ap_plen p' # qs = of_nat (length ps) # ps @ rest" by simp
    from filling_too_long [OF q this len(4)] show ?thesis ..
  next
    case auth_error
    with h consider v where "v \<noteq> AUTH_VERSION" "used = [v]" | "used = [AUTH_VERSION, 0]"
      | vs where "length vs < 256" "used = AUTH_VERSION # of_nat (length vs) # vs @ [0]"
      by (auto simp: auth_hist_def filled_def)
    then show ?thesis
    proof cases
      case (3 vs)
      with u have "of_nat (length us) # us @ of_nat (length ps) # ps @ rest = of_nat (length vs) # vs @ 0 # r"
        by (simp add: auth_msg_def)
      with field_inj [OF this len(2) 3(1)] nz show ?thesis by simp
    qed (use u nz in \<open>simp_all add: auth_msg_def\<close>)
  qed
  moreover from this h obtain vs qs where "used = auth_msg vs qs" "e' = e"
    and v: "filled (ap_uname p') vs" "filled (ap_passwd p') qs"
    by (auto simp: auth_hist_def)
  moreover from this auth_msg_inj [of us ps rest vs qs r] u len have "us = vs" "ps = qs" "rest = r"
    by (auto simp: filled_def)
  ultimately show ?thesis using f pe by auto
qed

section \<open>Properties\<close>

text \<open>C24: on a buffer that starts with a well-formed credentials message, \<open>auth_consume\<close> ends in
  \<open>auth_done\<close> without failing, leaves exactly the bytes after the message in the buffer, and the two
  arrays hold the credentials of the message as C strings.\<close>

theorem auth_consume_accepts:
  assumes wf: "buffer_wf b" and msg: "buffer_contents b = auth_msg us ps @ rest"
    and len: "0 < length us" "length us < 256" "0 < length ps" "length ps < 256"
    and arr: "length (ap_uname p) = 256" "length (ap_passwd p) = 256"
  shows "returns (auth_consume b (auth_parser_init p, e)) (\<lambda>(b', p', e').
    ap_state p' = auth_done \<and> e' = e \<and> buffer_wf b' \<and> buffer_contents b' = rest
    \<and> cstr (ap_uname p') = cstr (map chr us) \<and> cstr (ap_passwd p') = cstr (map chr ps))"
proof -
  have "auth_inv (auth_parser_init p, e)" using auth_hist_init [OF arr] by (auto simp: auth_inv_def)
  from auth.consume_feed [OF wf this auth_init_not_final] auth_feed_complete [OF len arr, of e rest]
  show ?thesis by (auto simp: msg filled_cstr)
qed

theorem auth_consume_accepts_witness:
  "returns (auth_consume (buffer_of 16 [1, 2, 97, 98, 1, 120, 7])
      (auth_parser_init \<lparr>ap_state = auth_error, ap_remaining = 3, ap_ulen = 4, ap_plen = 5,
         ap_uname = replicate 256 NUL, ap_passwd = replicate 256 (CHR ''z'')\<rparr>, False))
     (\<lambda>(b', p', e'). ap_state p' = auth_done \<and> buffer_contents b' = [7])"
  by (rule returns_mono, rule auth_consume_accepts [where us = "[97, 98]" and ps = "[120]" and rest = "[7]"])
    (auto simp: auth_msg_def)

text \<open>C25: for any bytes whatever, \<open>auth_consume\<close> on a fresh parser returns: no byte is ever written
  outside the two arrays. What it consumed is a whole credentials message if it ends in \<open>auth_done\<close>,
  a message cut at a wrong version or a zero length if it ends in \<open>auth_error\<close> (and only then
  \<^verbatim>\<open>*error\<close> is set), and everything otherwise.\<close>

theorem auth_consume_sound:
  assumes wf: "buffer_wf b" and arr: "length (ap_uname p) = 256" "length (ap_passwd p) = 256"
  shows "returns (auth_consume b (auth_parser_init p, False)) (\<lambda>(b', p', e').
    buffer_wf b' \<and> (e' \<longleftrightarrow> ap_state p' = auth_error) \<and>
    length (ap_uname p') = 256 \<and> length (ap_passwd p') = 256 \<and>
    (\<exists>used. buffer_contents b = used @ buffer_contents b' \<and>
      (case ap_state p' of
         auth_done \<Rightarrow> \<exists>us ps. used = auth_msg us ps \<and> filled (ap_uname p') us \<and> filled (ap_passwd p') ps
       | auth_error \<Rightarrow> (\<exists>v. used = [v] \<and> v \<noteq> AUTH_VERSION) \<or> used = [AUTH_VERSION, 0]
           \<or> (\<exists>us. filled (ap_uname p') us \<and> used = AUTH_VERSION # of_nat (length us) # us @ [0])
       | _ \<Rightarrow> buffer_contents b' = [])))"
proof -
  have "auth_inv (auth_parser_init p, False)" using auth_hist_init [OF arr] by (auto simp: auth_inv_def)
  from auth.consume_feed [OF wf this auth_init_not_final] obtain b' p' e'
    where c: "auth_consume b (auth_parser_init p, False) = Some (b', p', e')"
      and f: "auth_feed (auth_parser_init p, False) (buffer_contents b) = Some ((p', e'), buffer_contents b')"
      and wf': "buffer_wf b'" by auto
  from auth_feed_hist [OF arr f] obtain used where u: "buffer_contents b = used @ buffer_contents b'"
    and h: "auth_hist False (p', e') used" by blast
  have r: "auth_final (p', e') \<or> buffer_contents b' = []" using feed_rest [OF f] by blast
  have len: "length (ap_uname p') = 256" "length (ap_passwd p') = 256" using h by (simp_all add: auth_hist_def)
  have err: "e' \<longleftrightarrow> ap_state p' = auth_error"
    using h by (cases "ap_state p'") (simp_all add: auth_hist_def Let_def)
  have "case ap_state p' of
         auth_done \<Rightarrow> \<exists>us ps. used = auth_msg us ps \<and> filled (ap_uname p') us \<and> filled (ap_passwd p') ps
       | auth_error \<Rightarrow> (\<exists>v. used = [v] \<and> v \<noteq> AUTH_VERSION) \<or> used = [AUTH_VERSION, 0]
           \<or> (\<exists>us. filled (ap_uname p') us \<and> used = AUTH_VERSION # of_nat (length us) # us @ [0])
       | _ \<Rightarrow> buffer_contents b' = []"
    using h r by (cases "ap_state p'") (simp_all add: auth_hist_def auth_final_def Let_def)
  with u have "\<exists>used. buffer_contents b = used @ buffer_contents b' \<and> (case ap_state p' of
         auth_done \<Rightarrow> \<exists>us ps. used = auth_msg us ps \<and> filled (ap_uname p') us \<and> filled (ap_passwd p') ps
       | auth_error \<Rightarrow> (\<exists>v. used = [v] \<and> v \<noteq> AUTH_VERSION) \<or> used = [AUTH_VERSION, 0]
           \<or> (\<exists>us. filled (ap_uname p') us \<and> used = AUTH_VERSION # of_nat (length us) # us @ [0])
       | _ \<Rightarrow> buffer_contents b' = [])" by blast
  then show ?thesis unfolding c using wf' len err by simp
qed

theorem auth_consume_sound_witness:
  "returns (auth_consume (buffer_of 8 [1, 0])
      (auth_parser_init \<lparr>ap_state = auth_ver, ap_remaining = 0, ap_ulen = 0, ap_plen = 0,
         ap_uname = replicate 256 NUL, ap_passwd = replicate 256 NUL\<rparr>, False))
     (\<lambda>(b', p', e'). e' \<longleftrightarrow> ap_state p' = auth_error)"
  by (rule returns_mono, rule auth_consume_sound) auto

end
