(* ===== verification/Request.thy ===== *)
theory Request
  imports Hello C_Library
begin

text \<open>
  \<^verbatim>\<open>src/shared/request.c\<close>: the parser of the RFC 1928 request and the reply. The destination address
  is a C union of an IPv4 address, an IPv6 address and a name; it is modelled by the 256 bytes of
  memory the three share, each view with its own bound. An access beyond the bound of the view is
  \<open>None\<close>.
\<close>

abbreviation (input) MAX_FQDN_LEN :: nat where "MAX_FQDN_LEN \<equiv> 255"
abbreviation (input) SOCKS_ATYP_IPV4_LEN :: nat where "SOCKS_ATYP_IPV4_LEN \<equiv> 4"
abbreviation (input) SOCKS_ATYP_IPV6_LEN :: nat where "SOCKS_ATYP_IPV6_LEN \<equiv> 16"

datatype request_state =
  request_version | request_cmd | request_rsv | request_atyp | request_dst_addr | request_dst_port
| request_done | request_error | request_error_unsupported_atyp | request_error_unsupported_cmd

record request_addr =
  ra_type :: byte
  ra_mem :: "byte list"

record socks5_request =
  rq_cmd :: byte
  rq_dest_addr :: request_addr
  rq_dest_port :: u16

record request_parser =
  rp_request :: socks5_request
  rp_state :: request_state
  rp_remaining :: byte
  rp_read :: byte

definition request_parser_init :: "request_parser \<Rightarrow> request_parser" where
  "request_parser_init p = p\<lparr>rp_state := request_version, rp_remaining := 0, rp_read := 0\<rparr>"

text \<open>\<^verbatim>\<open>if (error != NULL) *error = true\<close>; \<open>None\<close> is the null pointer.\<close>

definition set_error :: "bool option \<Rightarrow> bool option" where
  "set_error e = map_option (\<lambda>_. True) e"

text \<open>A write through a view of the union that has \<open>n\<close> bytes.\<close>

definition view_set :: "nat \<Rightarrow> byte list \<Rightarrow> nat \<Rightarrow> byte \<Rightarrow> byte list option" where
  "view_set n mem i v = (if i < n then arr_set mem (int i) v else None)"

definition rp_type :: "request_parser \<Rightarrow> byte" where
  "rp_type p = ra_type (rq_dest_addr (rp_request p))"

definition rp_mem :: "request_parser \<Rightarrow> byte list" where
  "rp_mem p = ra_mem (rq_dest_addr (rp_request p))"

definition rp_put_mem :: "request_parser \<Rightarrow> byte list \<Rightarrow> request_parser" where
  "rp_put_mem p m = p\<lparr>rp_request := rp_request p\<lparr>rq_dest_addr := rq_dest_addr (rp_request p)\<lparr>ra_mem := m\<rparr>\<rparr>\<rparr>"

text \<open>The case \<^verbatim>\<open>request_dst_addr\<close> of the switch.\<close>

fun request_step_addr :: "request_parser \<times> bool option \<Rightarrow> byte \<Rightarrow> (request_parser \<times> bool option) option" where
  "request_step_addr (p, error) byte =
     (if rp_type p = SOCKS_ATYP_FQDN \<and> rp_remaining p = 0 then
        Some (if byte = 0 then (p\<lparr>rp_state := request_error\<rparr>, set_error error)
              else (p\<lparr>rp_remaining := byte, rp_read := 0\<rparr>, error))
      else if rp_type p = SOCKS_ATYP_IPV4 then do {
        m \<leftarrow> view_set SOCKS_ATYP_IPV4_LEN (rp_mem p) (unat (rp_read p)) byte;
        let p1 = (rp_put_mem p m)\<lparr>rp_read := rp_read p + 1, rp_remaining := rp_remaining p - 1\<rparr>;
        Some (if rp_remaining p1 = 0 then p1\<lparr>rp_state := request_dst_port, rp_read := 0\<rparr> else p1, error)
      }
      else if rp_type p = SOCKS_ATYP_IPV6 then do {
        m \<leftarrow> view_set SOCKS_ATYP_IPV6_LEN (rp_mem p) (unat (rp_read p)) byte;
        let p1 = (rp_put_mem p m)\<lparr>rp_read := rp_read p + 1, rp_remaining := rp_remaining p - 1\<rparr>;
        Some (if rp_remaining p1 = 0 then p1\<lparr>rp_state := request_dst_port, rp_read := 0\<rparr> else p1, error)
      }
      else if unat (rp_read p) \<ge> MAX_FQDN_LEN then
        Some (p\<lparr>rp_state := request_error\<rparr>, set_error error)
      else do {
        m \<leftarrow> view_set (MAX_FQDN_LEN + 1) (rp_mem p) (unat (rp_read p)) byte;
        let p1 = (rp_put_mem p m)\<lparr>rp_read := rp_read p + 1, rp_remaining := rp_remaining p - 1\<rparr>;
        if rp_remaining p1 = 0 then do {
          m' \<leftarrow> view_set (MAX_FQDN_LEN + 1) (rp_mem p1) (unat (rp_read p1)) 0;
          Some ((rp_put_mem p1 m')\<lparr>rp_state := request_dst_port, rp_read := 0\<rparr>, error)
        } else Some (p1, error)
      })"

fun request_step :: "request_parser \<times> bool option \<Rightarrow> byte \<Rightarrow> (request_parser \<times> bool option) option" where
  "request_step (p, error) byte = (let rq = rp_request p in case rp_state p of
     request_version \<Rightarrow>
       Some (if byte \<noteq> SOCKS_VERSION then (p\<lparr>rp_state := request_error\<rparr>, set_error error)
             else (p\<lparr>rp_state := request_cmd\<rparr>, error))
   | request_cmd \<Rightarrow>
       (let p1 = p\<lparr>rp_request := rq\<lparr>rq_cmd := byte\<rparr>\<rparr>
        in Some (if byte \<noteq> SOCKS_CMD_CONNECT then p1\<lparr>rp_state := request_error_unsupported_cmd\<rparr>
                 else p1\<lparr>rp_state := request_rsv\<rparr>, error))
   | request_rsv \<Rightarrow> Some (p\<lparr>rp_state := request_atyp\<rparr>, error)
   | request_atyp \<Rightarrow>
       (let p1 = p\<lparr>rp_request := rq\<lparr>rq_dest_addr := rq_dest_addr rq\<lparr>ra_type := byte\<rparr>\<rparr>, rp_read := 0\<rparr>
        in Some (if byte = SOCKS_ATYP_IPV4 then
                   p1\<lparr>rp_remaining := of_nat SOCKS_ATYP_IPV4_LEN, rp_state := request_dst_addr\<rparr>
                 else if byte = SOCKS_ATYP_IPV6 then
                   p1\<lparr>rp_remaining := of_nat SOCKS_ATYP_IPV6_LEN, rp_state := request_dst_addr\<rparr>
                 else if byte = SOCKS_ATYP_FQDN then
                   p1\<lparr>rp_remaining := 0, rp_state := request_dst_addr\<rparr>
                 else p1\<lparr>rp_state := request_error_unsupported_atyp\<rparr>, error))
   | request_dst_addr \<Rightarrow> request_step_addr (p, error) byte
   | request_dst_port \<Rightarrow>
       Some (if rp_read p = 0 then
               p\<lparr>rp_request := rq\<lparr>rq_dest_port := push_bit 8 (ucast byte)\<rparr>, rp_read := rp_read p + 1\<rparr>
             else
               p\<lparr>rp_request := rq\<lparr>rq_dest_port := or (rq_dest_port rq) (ucast byte)\<rparr>,
                 rp_state := request_done, rp_read := 0\<rparr>, error)
   | _ \<Rightarrow> Some (p, error))"

definition request_final :: "request_parser \<times> bool option \<Rightarrow> bool" where
  "request_final pe \<longleftrightarrow> rp_state (fst pe) \<in> {request_done, request_error,
     request_error_unsupported_atyp, request_error_unsupported_cmd}"

function request_consume :: "buffer \<Rightarrow> request_parser \<times> bool option \<Rightarrow>
    (buffer \<times> request_parser \<times> bool option) option" where
  "request_consume b pe =
     (if buffer_can_read b then do {
        (byte, b1) \<leftarrow> buffer_read b;
        pe1 \<leftarrow> request_step pe byte;
        if request_final pe1 then Some (b1, pe1) else request_consume b1 pe1
      } else Some (b, pe))"
  by pat_completeness auto
termination
  by (relation "measure (\<lambda>(b, pe). b_write b - b_read b)") (auto dest: buffer_read_decreases)

declare request_consume.simps [simp del]

fun request_is_done :: "request_state \<Rightarrow> bool option \<Rightarrow> bool \<times> bool option" where
  "request_is_done request_done e = (True, e)"
| "request_is_done request_error e = (True, set_error e)"
| "request_is_done request_error_unsupported_atyp e = (True, e)"
| "request_is_done request_error_unsupported_cmd e = (True, e)"
| "request_is_done _ e = (False, e)"

definition request_marshall :: "buffer \<Rightarrow> byte \<Rightarrow> (int \<times> buffer) option" where
  "request_marshall b reply = do {
     (ptr, available) \<leftarrow> buffer_write_ptr b;
     if available < 10 then Some (-1, b)
     else do {
       b1 \<leftarrow> buffer_store b [SOCKS_VERSION, reply, SOCKS_RSV, SOCKS_ATYP_IPV4, 0, 0, 0, 0, 0, 0];
       b2 \<leftarrow> buffer_write_adv b1 10;
       Some (0, b2)
     }
   }"

lemma request_marshall_ok:
  assumes "buffer_wf b"
  shows "returns (request_marshall b rep) (\<lambda>(r, b'). buffer_wf b' \<and>
      (if buffer_room b < 10 then r = -1 \<and> b' = b
       else r = 0 \<and> buffer_contents b' = buffer_contents b @ [SOCKS_VERSION, rep, SOCKS_RSV, SOCKS_ATYP_IPV4, 0, 0, 0, 0, 0, 0]))"
  unfolding request_marshall_def
  by (rule marshall_ok [OF assms]) simp_all

section \<open>An address being gathered\<close>

text \<open>
  \<open>gather mem tot rd rem got\<close>: of an address of \<open>tot\<close> bytes the memory has taken \<open>got\<close>,
  \<^verbatim>\<open>read\<close> counts them and \<^verbatim>\<open>remaining\<close> the others.
\<close>

definition gather :: "byte list \<Rightarrow> nat \<Rightarrow> byte \<Rightarrow> byte \<Rightarrow> byte list \<Rightarrow> bool" where
  "gather mem tot rd rem got \<longleftrightarrow> length mem = 256 \<and> rem \<noteq> 0 \<and> unat rd = length got
     \<and> tot = length got + unat rem \<and> tot < 256 \<and> take (length got) mem = got"

lemma gather_start: "length mem = 256 \<Longrightarrow> 0 < tot \<Longrightarrow> tot < 256 \<Longrightarrow> gather mem tot 0 (of_nat tot) []"
  by (simp add: gather_def) (metis unat_of_nat_byte unat_0 less_irrefl)

lemma gather_step:
  assumes g: "gather mem tot rd rem got" and n: "tot \<le> n" "n \<le> 256"
  shows "\<exists>m. view_set n mem (unat rd) x = Some m \<and> length m = 256 \<and> unat (rd + 1) = length (got @ [x])
    \<and> take (length (got @ [x])) m = got @ [x]
    \<and> (rem - 1 \<noteq> 0 \<longrightarrow> gather m tot (rd + 1) (rem - 1) (got @ [x]))
    \<and> (rem - 1 = 0 \<longrightarrow> tot = length (got @ [x]))"
proof (rule exI [of _ "mem[length got := x]"], intro conjI impI)
  let ?m = "mem[length got := x]"
  have r: "unat rem > 0" using g by (simp add: gather_def unat_gt_0)
  then have l: "length got < tot" using g by (simp add: gather_def)
  then have lm: "length got < length mem" using g by (simp add: gather_def)
  have rd: "unat rd = length got" using g by (simp add: gather_def)
  show "view_set n mem (unat rd) x = Some ?m" using l n lm by (simp only: view_set_def rd) simp
  show "length ?m = 256" using g by (simp add: gather_def)
  have "unat rd + 1 < 256" using l g rd by (simp add: gather_def)
  then have "unat (rd + 1) = unat rd + 1" by (simp add: unat_word_ariths)
  then show u: "unat (rd + 1) = length (got @ [x])" using rd by simp
  show t: "take (length (got @ [x])) ?m = got @ [x]"
    using take_list_update_Suc [OF lm, of x] g by (simp add: gather_def)
  show "gather ?m tot (rd + 1) (rem - 1) (got @ [x])" if "rem - 1 \<noteq> 0"
    using that u t g r unat_byte_sub1 [of rem] unfolding gather_def by auto
  show "tot = length (got @ [x])" if "rem - 1 = 0"
    using that g by (simp add: gather_def byte_sub1_eq_0)
qed

section \<open>Messages\<close>

datatype dest = V4 "byte list" | V6 "byte list" | FQDN "byte list"

fun dest_ok :: "dest \<Rightarrow> bool" where
  "dest_ok (V4 bs) \<longleftrightarrow> length bs = 4"
| "dest_ok (V6 bs) \<longleftrightarrow> length bs = 16"
| "dest_ok (FQDN ns) \<longleftrightarrow> 0 < length ns \<and> length ns < 256"

fun dest_bytes :: "dest \<Rightarrow> byte list" where
  "dest_bytes (V4 bs) = SOCKS_ATYP_IPV4 # bs"
| "dest_bytes (V6 bs) = SOCKS_ATYP_IPV6 # bs"
| "dest_bytes (FQDN ns) = SOCKS_ATYP_FQDN # of_nat (length ns) # ns"

definition request_msg :: "byte \<Rightarrow> dest \<Rightarrow> byte \<Rightarrow> byte \<Rightarrow> byte list" where
  "request_msg rsv d hi lo = [SOCKS_VERSION, SOCKS_CMD_CONNECT, rsv] @ dest_bytes d @ [hi, lo]"

text \<open>The address a parsed request holds; a name is followed by a NUL in the memory.\<close>

fun holds_dest :: "request_addr \<Rightarrow> dest \<Rightarrow> bool" where
  "holds_dest a (V4 bs) \<longleftrightarrow> ra_type a = SOCKS_ATYP_IPV4 \<and> length bs = 4 \<and> take 4 (ra_mem a) = bs"
| "holds_dest a (V6 bs) \<longleftrightarrow> ra_type a = SOCKS_ATYP_IPV6 \<and> length bs = 16 \<and> take 16 (ra_mem a) = bs"
| "holds_dest a (FQDN ns) \<longleftrightarrow> ra_type a = SOCKS_ATYP_FQDN \<and> 0 < length ns \<and> length ns < 256
     \<and> (\<exists>t. ra_mem a = ns @ 0 # t)"

definition port_of :: "byte \<Rightarrow> byte \<Rightarrow> u16" where
  "port_of hi lo = or (push_bit 8 (ucast hi)) (ucast lo)"

lemma unat_port_of: "unat (port_of hi lo) = 256 * unat hi + unat lo"
proof -
  have d: "and (push_bit 8 (ucast hi)) (ucast lo :: u16) = 0"
    by (rule bit_word_eqI) (auto simp: bit_simps dest: bit_imp_le_length)
  have l: "unat hi < 2 ^ 8" "unat lo < 2 ^ 8" using unsigned_less [of hi] unsigned_less [of lo] by simp_all
  have "unat (push_bit 8 (ucast hi) :: u16) = 256 * unat hi"
    using l by (simp add: push_bit_eq_mult unat_word_ariths unsigned_ucast_eq take_bit_eq_mod del: unat_byte_less)
  moreover have "unat (ucast lo :: u16) = unat lo"
    using l by (simp add: unsigned_ucast_eq take_bit_eq_mod del: unat_byte_less)
  moreover have "port_of hi lo = push_bit 8 (ucast hi) + ucast lo"
    unfolding port_of_def by (rule disjunctive_add_eq_or [symmetric, OF d])
  ultimately show ?thesis using l by (simp add: unat_word_ariths del: unat_byte_less)
qed

lemma holds_dest_ok: "holds_dest a d \<Longrightarrow> dest_ok d"
  by (cases d) auto

section \<open>What the fields say about the bytes seen\<close>

text \<open>The address of the parser, and its two accessors, as simplification rules.\<close>

lemma rp_put_mem_simps [simp]:
  "rp_mem (rp_put_mem p m) = m" "rp_type (rp_put_mem p m) = rp_type p"
  "rp_state (rp_put_mem p m) = rp_state p" "rp_remaining (rp_put_mem p m) = rp_remaining p"
  "rp_read (rp_put_mem p m) = rp_read p"
  by (simp_all add: rp_put_mem_def rp_mem_def rp_type_def)

lemma rp_mem_upd [simp]:
  "rp_mem (p\<lparr>rp_state := st\<rparr>) = rp_mem p" "rp_mem (p\<lparr>rp_read := rd\<rparr>) = rp_mem p"
  "rp_mem (p\<lparr>rp_remaining := rm\<rparr>) = rp_mem p" "rp_type (p\<lparr>rp_state := st\<rparr>) = rp_type p"
  "rp_type (p\<lparr>rp_read := rd\<rparr>) = rp_type p" "rp_type (p\<lparr>rp_remaining := rm\<rparr>) = rp_type p"
  by (simp_all add: rp_mem_def rp_type_def)

definition addr_hist :: "request_parser \<Rightarrow> byte list \<Rightarrow> bool" where
  "addr_hist p used \<longleftrightarrow>
     (rp_type p = SOCKS_ATYP_IPV4 \<and> (\<exists>r got. used = [SOCKS_VERSION, SOCKS_CMD_CONNECT, r, SOCKS_ATYP_IPV4] @ got
        \<and> gather (rp_mem p) 4 (rp_read p) (rp_remaining p) got))
   \<or> (rp_type p = SOCKS_ATYP_IPV6 \<and> (\<exists>r got. used = [SOCKS_VERSION, SOCKS_CMD_CONNECT, r, SOCKS_ATYP_IPV6] @ got
        \<and> gather (rp_mem p) 16 (rp_read p) (rp_remaining p) got))
   \<or> (rp_type p = SOCKS_ATYP_FQDN \<and> rp_remaining p = 0
        \<and> (\<exists>r. used = [SOCKS_VERSION, SOCKS_CMD_CONNECT, r, SOCKS_ATYP_FQDN]))
   \<or> (rp_type p = SOCKS_ATYP_FQDN \<and> (\<exists>r n got. used = [SOCKS_VERSION, SOCKS_CMD_CONNECT, r, SOCKS_ATYP_FQDN, n] @ got
        \<and> gather (rp_mem p) (unat n) (rp_read p) (rp_remaining p) got))"

definition port_hist :: "request_parser \<Rightarrow> byte list \<Rightarrow> bool" where
  "port_hist p used \<longleftrightarrow> (\<exists>r d. holds_dest (rq_dest_addr (rp_request p)) d \<and>
     ((rp_read p = 0 \<and> used = [SOCKS_VERSION, SOCKS_CMD_CONNECT, r] @ dest_bytes d)
    \<or> (rp_read p \<noteq> 0 \<and> (\<exists>hi. used = [SOCKS_VERSION, SOCKS_CMD_CONNECT, r] @ dest_bytes d @ [hi]
          \<and> rq_dest_port (rp_request p) = push_bit 8 (ucast hi)))))"

definition request_hist :: "bool option \<Rightarrow> request_parser \<times> bool option \<Rightarrow> byte list \<Rightarrow> bool" where
  "request_hist e0 pe used \<longleftrightarrow> (let p = fst pe; e = snd pe in length (rp_mem p) = 256 \<and>
     (case rp_state p of
        request_version \<Rightarrow> used = [] \<and> e = e0
      | request_cmd \<Rightarrow> used = [SOCKS_VERSION] \<and> e = e0
      | request_rsv \<Rightarrow> used = [SOCKS_VERSION, SOCKS_CMD_CONNECT] \<and> e = e0
          \<and> rq_cmd (rp_request p) = SOCKS_CMD_CONNECT
      | request_atyp \<Rightarrow> (\<exists>r. used = [SOCKS_VERSION, SOCKS_CMD_CONNECT, r]) \<and> e = e0
          \<and> rq_cmd (rp_request p) = SOCKS_CMD_CONNECT
      | request_dst_addr \<Rightarrow> addr_hist p used \<and> e = e0 \<and> rq_cmd (rp_request p) = SOCKS_CMD_CONNECT
      | request_dst_port \<Rightarrow> port_hist p used \<and> e = e0 \<and> rq_cmd (rp_request p) = SOCKS_CMD_CONNECT
      | request_done \<Rightarrow> e = e0 \<and> rq_cmd (rp_request p) = SOCKS_CMD_CONNECT
          \<and> (\<exists>r d hi lo. used = request_msg r d hi lo \<and> holds_dest (rq_dest_addr (rp_request p)) d
              \<and> rq_dest_port (rp_request p) = port_of hi lo)
      | request_error \<Rightarrow> e = set_error e0 \<and> ((\<exists>v. used = [v] \<and> v \<noteq> SOCKS_VERSION)
          \<or> (\<exists>r. used = [SOCKS_VERSION, SOCKS_CMD_CONNECT, r, SOCKS_ATYP_FQDN, 0]))
      | request_error_unsupported_cmd \<Rightarrow> e = e0 \<and> (\<exists>c. used = [SOCKS_VERSION, c] \<and> c \<noteq> SOCKS_CMD_CONNECT)
      | request_error_unsupported_atyp \<Rightarrow> e = e0 \<and> (\<exists>r t. used = [SOCKS_VERSION, SOCKS_CMD_CONNECT, r, t]
          \<and> t \<notin> {SOCKS_ATYP_IPV4, SOCKS_ATYP_FQDN, SOCKS_ATYP_IPV6})))"

lemma rp_cmd_put_mem [simp]: "rq_cmd (rp_request (rp_put_mem p m)) = rq_cmd (rp_request p)"
  by (simp add: rp_put_mem_def)

text \<open>The literal addresses: 4 or 16 bytes in their view of the union.\<close>

lemma addr_literal_step:
  assumes g: "gather (rp_mem p) n (rp_read p) (rp_remaining p) got" and n: "n \<le> 256"
    and port: "\<And>m. length m = 256 \<Longrightarrow> take n m = got @ [x] \<Longrightarrow> length (got @ [x]) = n \<Longrightarrow>
       port_hist ((rp_put_mem p m)\<lparr>rp_state := request_dst_port, rp_read := 0, rp_remaining := 0\<rparr>) (used @ [x])"
    and addr: "\<And>m. gather m n (rp_read p + 1) (rp_remaining p - 1) (got @ [x]) \<Longrightarrow>
       addr_hist ((rp_put_mem p m)\<lparr>rp_read := rp_read p + 1, rp_remaining := rp_remaining p - 1\<rparr>) (used @ [x])"
    and st: "rp_state p = request_dst_addr" and cmd: "rq_cmd (rp_request p) = SOCKS_CMD_CONNECT"
  shows "returns (do {
        m \<leftarrow> view_set n (rp_mem p) (unat (rp_read p)) x;
        let p1 = (rp_put_mem p m)\<lparr>rp_read := rp_read p + 1, rp_remaining := rp_remaining p - 1\<rparr>;
        Some (if rp_remaining p1 = 0 then p1\<lparr>rp_state := request_dst_port, rp_read := 0\<rparr> else p1, e)
      }) (\<lambda>pe1. request_hist e pe1 (used @ [x]))"
proof -
  from gather_step [OF g order_refl n, of x] obtain m where
    m: "view_set n (rp_mem p) (unat (rp_read p)) x = Some m" "length m = 256"
      "take (length (got @ [x])) m = got @ [x]"
    and go: "rp_remaining p - 1 \<noteq> 0 \<longrightarrow> gather m n (rp_read p + 1) (rp_remaining p - 1) (got @ [x])"
    and last: "rp_remaining p - 1 = 0 \<longrightarrow> n = length (got @ [x])" by blast
  show ?thesis
  proof (cases "rp_remaining p - 1 = 0")
    case True
    with port [OF m(2)] m last cmd show ?thesis
      by (simp add: request_hist_def Let_def port_hist_def)
  next
    case False
    with addr go m st cmd show ?thesis by (simp add: request_hist_def Let_def)
  qed
qed

text \<open>A name: its length byte, then its bytes, the last one followed by the NUL.\<close>

lemma addr_fqdn_step:
  assumes g: "gather (rp_mem p) (unat n) (rp_read p) (rp_remaining p) got"
    and u: "used = [SOCKS_VERSION, SOCKS_CMD_CONNECT, r, SOCKS_ATYP_FQDN, n] @ got"
    and ty: "rp_type p = SOCKS_ATYP_FQDN"
    and st: "rp_state p = request_dst_addr" and cmd: "rq_cmd (rp_request p) = SOCKS_CMD_CONNECT"
  shows "returns (request_step_addr (p, e) x) (\<lambda>pe1. request_hist e pe1 (used @ [x]))"
proof -
  have rem: "rp_remaining p \<noteq> 0" using g by (simp add: gather_def)
  then have "unat (rp_remaining p) > 0" by (simp add: unat_gt_0)
  moreover have "unat n = length got + unat (rp_remaining p)" "unat (rp_read p) = length got"
    using g by (simp_all add: gather_def)
  ultimately have rd: "unat (rp_read p) < 255" using unat_byte_less [of n] by linarith
  have "unat n \<le> 256" by (rule less_imp_le [OF unat_byte_less])
  from gather_step [OF g this order_refl, of x] obtain m where
    m: "view_set 256 (rp_mem p) (unat (rp_read p)) x = Some m" "length m = 256"
      "take (length (got @ [x])) m = got @ [x]" "unat (rp_read p + 1) = length (got @ [x])"
    and go: "rp_remaining p - 1 \<noteq> 0 \<longrightarrow> gather m (unat n) (rp_read p + 1) (rp_remaining p - 1) (got @ [x])"
    and last: "rp_remaining p - 1 = 0 \<longrightarrow> unat n = length (got @ [x])" by blast
  show ?thesis
  proof (cases "rp_remaining p - 1 = 0")
    case True
    with last have n: "unat n = length (got @ [x])" by simp
    let ?k = "length (got @ [x])"
    have k: "?k < 256" using n unat_byte_less [of n] by simp
    have "arr_set m (int ?k) 0 = Some (m[?k := 0])" by (rule arr_set_in) (use k m(2) in simp)
    with k have set: "view_set 256 m (unat (rp_read p + 1)) 0 = Some (m[?k := 0])"
      unfolding m(4) view_set_def by (simp only: if_True)
    have "m[?k := 0] = (got @ [x]) @ 0 # drop (Suc ?k) m"
      using k m(2,3) by (simp add: upd_conv_take_nth_drop)
    moreover have "n = of_nat ?k" using n by (rule byte_of_unat)
    ultimately have "port_hist ((rp_put_mem p (m[?k := 0]))\<lparr>rp_remaining := 0, rp_state := request_dst_port,
        rp_read := 0\<rparr>) (used @ [x])"
      using k ty u unfolding port_hist_def
      by (intro exI [of _ r] exI [of _ "FQDN (got @ [x])"]) (simp add: rp_put_mem_def rp_type_def)
    then show ?thesis
      using True m set ty rem rd cmd
      by (simp add: request_hist_def Let_def rp_put_mem_def port_hist_def rp_mem_def rp_type_def)
  next
    case False
    then show ?thesis
      using go m ty rem rd st cmd u by (simp add: request_hist_def Let_def addr_hist_def)
  qed
qed

lemma request_step_addr_hist:
  assumes h: "addr_hist p used" and mem: "length (rp_mem p) = 256"
    and st: "rp_state p = request_dst_addr" and cmd: "rq_cmd (rp_request p) = SOCKS_CMD_CONNECT"
  shows "returns (request_step_addr (p, e) x) (\<lambda>pe1. request_hist e pe1 (used @ [x]))"
  using h unfolding addr_hist_def
proof (elim disjE conjE exE)
  fix r got assume ty: "rp_type p = SOCKS_ATYP_IPV4"
    and u: "used = [SOCKS_VERSION, SOCKS_CMD_CONNECT, r, SOCKS_ATYP_IPV4] @ got"
    and g: "gather (rp_mem p) 4 (rp_read p) (rp_remaining p) got"
  have port: "port_hist ((rp_put_mem p m)\<lparr>rp_state := request_dst_port, rp_read := 0, rp_remaining := 0\<rparr>) (used @ [x])"
    if "length m = 256" "take 4 m = got @ [x]" "length (got @ [x]) = 4" for m
    unfolding port_hist_def using that ty u
    by (intro exI [of _ r] exI [of _ "V4 (got @ [x])"]) (simp add: rp_put_mem_def rp_type_def)
  have addr: "addr_hist ((rp_put_mem p m)\<lparr>rp_read := rp_read p + 1, rp_remaining := rp_remaining p - 1\<rparr>) (used @ [x])"
    if "gather m 4 (rp_read p + 1) (rp_remaining p - 1) (got @ [x])" for m
    unfolding addr_hist_def using that ty u by simp
  have "(4 :: nat) \<le> 256" by simp
  from addr_literal_step [OF g this port addr st cmd, of e] ty show ?thesis by simp
next
  fix r got assume ty: "rp_type p = SOCKS_ATYP_IPV6"
    and u: "used = [SOCKS_VERSION, SOCKS_CMD_CONNECT, r, SOCKS_ATYP_IPV6] @ got"
    and g: "gather (rp_mem p) 16 (rp_read p) (rp_remaining p) got"
  have port: "port_hist ((rp_put_mem p m)\<lparr>rp_state := request_dst_port, rp_read := 0, rp_remaining := 0\<rparr>) (used @ [x])"
    if "length m = 256" "take 16 m = got @ [x]" "length (got @ [x]) = 16" for m
    unfolding port_hist_def using that ty u
    by (intro exI [of _ r] exI [of _ "V6 (got @ [x])"]) (simp add: rp_put_mem_def rp_type_def)
  have addr: "addr_hist ((rp_put_mem p m)\<lparr>rp_read := rp_read p + 1, rp_remaining := rp_remaining p - 1\<rparr>) (used @ [x])"
    if "gather m 16 (rp_read p + 1) (rp_remaining p - 1) (got @ [x])" for m
    unfolding addr_hist_def using that ty u by simp
  have "(16 :: nat) \<le> 256" by simp
  from addr_literal_step [OF g this port addr st cmd, of e] ty show ?thesis by simp
next
  fix r assume ty: "rp_type p = SOCKS_ATYP_FQDN" "rp_remaining p = 0"
    and u: "used = [SOCKS_VERSION, SOCKS_CMD_CONNECT, r, SOCKS_ATYP_FQDN]"
  show ?thesis
  proof (cases "x = 0")
    case True
    with ty u mem show ?thesis by (simp add: request_hist_def)
  next
    case False
    then have "gather (rp_mem p) (unat x) 0 x []" using mem by (simp add: gather_def)
    with False ty u mem st cmd show ?thesis by (simp add: request_hist_def addr_hist_def)
  qed
next
  fix r n got assume "rp_type p = SOCKS_ATYP_FQDN"
    and "used = [SOCKS_VERSION, SOCKS_CMD_CONNECT, r, SOCKS_ATYP_FQDN, n] @ got"
    and "gather (rp_mem p) (unat n) (rp_read p) (rp_remaining p) got"
  then show ?thesis using addr_fqdn_step [OF _ _ _ st cmd] by blast
qed

lemma request_hist_step:
  assumes h: "request_hist e0 pe used" and nf: "\<not> request_final pe"
  shows "returns (request_step pe x) (\<lambda>pe1. request_hist e0 pe1 (used @ [x]))"
proof -
  obtain p e where pe: "pe = (p, e)" by (cases pe)
  have mem: "length (rp_mem p) = 256" using h pe by (simp add: request_hist_def Let_def)
  show ?thesis
  proof (cases "rp_state p")
    case request_version
    with h pe mem show ?thesis by (simp add: request_hist_def Let_def)
  next
    case request_cmd
    with h pe mem show ?thesis by (simp add: request_hist_def Let_def rp_mem_def)
  next
    case request_rsv
    with h pe mem show ?thesis by (simp add: request_hist_def Let_def)
  next
    case request_atyp
    with h pe obtain r where u: "used = [SOCKS_VERSION, SOCKS_CMD_CONNECT, r]" "e = e0"
      "rq_cmd (rp_request p) = SOCKS_CMD_CONNECT" by (auto simp: request_hist_def Let_def)
    have "gather (rp_mem p) 4 0 4 []" "gather (rp_mem p) 16 0 16 []"
      using mem by (simp_all add: gather_def)
    with request_atyp pe mem u show ?thesis
      by (simp add: request_hist_def Let_def addr_hist_def rp_mem_def rp_type_def)
  next
    case request_dst_addr
    with h pe request_step_addr_hist [OF _ mem request_dst_addr, of used e x] show ?thesis
      by (simp add: request_hist_def Let_def del: request_step_addr.simps)
  next
    case request_dst_port
    with h pe obtain r d where d: "holds_dest (rq_dest_addr (rp_request p)) d" and e: "e = e0"
      and cmd: "rq_cmd (rp_request p) = SOCKS_CMD_CONNECT"
      and u: "(rp_read p = 0 \<and> used = [SOCKS_VERSION, SOCKS_CMD_CONNECT, r] @ dest_bytes d)
        \<or> (rp_read p \<noteq> 0 \<and> (\<exists>hi. used = [SOCKS_VERSION, SOCKS_CMD_CONNECT, r] @ dest_bytes d @ [hi]
          \<and> rq_dest_port (rp_request p) = push_bit 8 (ucast hi)))"
      unfolding request_hist_def port_hist_def Let_def by auto
    show ?thesis
    proof (cases "rp_read p = 0")
      case True
      with u have "used = [SOCKS_VERSION, SOCKS_CMD_CONNECT, r] @ dest_bytes d" by simp
      then have "port_hist (p\<lparr>rp_request := rp_request p\<lparr>rq_dest_port := push_bit 8 (ucast x)\<rparr>, rp_read := 1\<rparr>) (used @ [x])"
        unfolding port_hist_def by (intro exI [of _ r] exI [of _ d]) (simp add: d)
      with True request_dst_port pe mem e cmd show ?thesis
        by (simp add: request_hist_def Let_def rp_mem_def)
    next
      case False
      with u obtain hi where "used = [SOCKS_VERSION, SOCKS_CMD_CONNECT, r] @ dest_bytes d @ [hi]"
        and port: "rq_dest_port (rp_request p) = push_bit 8 (ucast hi)" by auto
      then have "used @ [x] = request_msg r d hi x" by (simp add: request_msg_def)
      with False request_dst_port pe mem e cmd port d show ?thesis
        by (auto simp: request_hist_def Let_def rp_mem_def port_of_def)
    qed
  qed (use nf pe in \<open>simp_all add: request_final_def\<close>)
qed

lemma request_hist_init:
  "length (ra_mem (rq_dest_addr (rp_request p))) = 256 \<Longrightarrow> request_hist e (request_parser_init p, e) []"
  by (simp add: request_hist_def request_parser_init_def rp_mem_def)

lemma request_init_not_final: "\<not> request_final (request_parser_init p, e)"
  by (simp add: request_final_def request_parser_init_def)

definition request_inv :: "request_parser \<times> bool option \<Rightarrow> bool" where
  "request_inv pe \<longleftrightarrow> (\<exists>e0 used. request_hist e0 pe used)"

interpretation request: byte_parser buffer_wf buffer_contents buffer_room buffer_can_read buffer_read
  buffer_push buffer_peek buffer_read_adv buffer_compact
  request_inv request_final request_step request_consume
proof (unfold_locales, goal_cases)
  case (1 pe x)
  then obtain e0 used where "request_hist e0 pe used" by (auto simp: request_inv_def)
  from request_hist_step [OF this 1(2), of x] show ?case
    by (rule returns_mono) (auto simp: request_inv_def)
next
  case (2 b pe)
  show ?case by (rule request_consume.simps)
qed

abbreviation (input) request_feed :: "request_parser \<times> bool option \<Rightarrow> byte list \<Rightarrow>
    ((request_parser \<times> bool option) \<times> byte list) option" where
  "request_feed \<equiv> feed request_step request_final"

lemma request_feed_hist:
  assumes "length (ra_mem (rq_dest_addr (rp_request p))) = 256"
    and "request_feed (request_parser_init p, e) bs = Some (pe', rest)"
  shows "\<exists>used. bs = used @ rest \<and> request_hist e pe' used"
proof -
  have step: "request_hist e pe used \<Longrightarrow> \<not> request_final pe \<Longrightarrow> request_step pe x = Some pe1 \<Longrightarrow>
      request_hist e pe1 (used @ [x])" for pe used x pe1
    using request_hist_step [of e pe used x] by simp
  from feed_history [where H = "request_hist e", OF step assms(2) request_hist_init [OF assms(1)]
      request_init_not_final] show ?thesis by simp
qed

section \<open>Completeness\<close>

lemma fqdn_header_inj:
  assumes "of_nat (length us) # us @ r = (of_nat (length vs) :: byte) # vs @ t"
    and "length us < 256" "length vs < 256"
  shows "us = vs \<and> r = t"
proof -
  from assms(1) have "(of_nat (length us) :: byte) = of_nat (length vs)" by simp
  then have "length us = length vs" by (metis assms(2,3) unat_of_nat_byte)
  with assms(1) show ?thesis by simp
qed

lemma dest_bytes_inj:
  assumes "dest_bytes d @ r = dest_bytes d' @ t" and "dest_ok d" "dest_ok d'"
  shows "d = d' \<and> r = t"
proof (cases d)
  case (V4 bs)
  with assms show ?thesis by (cases d') auto
next
  case (V6 bs)
  with assms show ?thesis by (cases d') auto
next
  case (FQDN ns)
  then obtain ns' where d': "d' = FQDN ns'" using assms by (cases d') auto
  have "of_nat (length ns) # ns @ r = (of_nat (length ns') :: byte) # ns' @ t"
    using assms(1) FQDN d' by simp
  from fqdn_header_inj [OF this] assms FQDN d' show ?thesis by simp
qed

lemma addr_hist_incomplete:
  assumes "addr_hist p (request_msg r d hi lo @ rest)" and ok: "dest_ok d"
  shows False
proof -
  have long: False if "gather m n rd rem got" "length got \<ge> n" for m n rd rem got
    using that by (simp add: gather_def unat_eq_0)
  from assms(1) show False unfolding addr_hist_def
  proof (elim disjE conjE exE)
    fix r' got assume "request_msg r d hi lo @ rest = [SOCKS_VERSION, SOCKS_CMD_CONNECT, r', SOCKS_ATYP_IPV4] @ got"
      and g: "gather (rp_mem p) 4 (rp_read p) (rp_remaining p) got"
    then have "length got \<ge> 4" using ok by (cases d) (auto simp: request_msg_def)
    with long [OF g] show False by simp
  next
    fix r' got assume "request_msg r d hi lo @ rest = [SOCKS_VERSION, SOCKS_CMD_CONNECT, r', SOCKS_ATYP_IPV6] @ got"
      and g: "gather (rp_mem p) 16 (rp_read p) (rp_remaining p) got"
    then have "length got \<ge> 16" using ok by (cases d) (auto simp: request_msg_def)
    with long [OF g] show False by simp
  next
    fix r' assume "request_msg r d hi lo @ rest = [SOCKS_VERSION, SOCKS_CMD_CONNECT, r', SOCKS_ATYP_FQDN]"
    then show False by (cases d) (auto simp: request_msg_def)
  next
    fix r' n got assume e: "request_msg r d hi lo @ rest = [SOCKS_VERSION, SOCKS_CMD_CONNECT, r', SOCKS_ATYP_FQDN, n] @ got"
      and g: "gather (rp_mem p) (unat n) (rp_read p) (rp_remaining p) got"
    from e obtain ns where d: "d = FQDN ns" by (cases d) (auto simp: request_msg_def)
    with e have "n = of_nat (length ns)" "length got \<ge> length ns" by (auto simp: request_msg_def)
    moreover from this(1) ok d have "unat n = length ns" by simp
    ultimately show False using long [OF g] by simp
  qed
qed

lemma port_hist_incomplete:
  assumes "port_hist p (request_msg r d hi lo @ rest)" and ok: "dest_ok d"
  shows False
proof -
  from assms(1) obtain r' d' t where hd: "holds_dest (rq_dest_addr (rp_request p)) d'" and t: "length t < 2"
    and e: "request_msg r d hi lo @ rest = [SOCKS_VERSION, SOCKS_CMD_CONNECT, r'] @ dest_bytes d' @ t"
    unfolding port_hist_def by fastforce
  then have "dest_bytes d @ [hi, lo] @ rest = dest_bytes d' @ t" by (simp add: request_msg_def)
  from dest_bytes_inj [OF this ok holds_dest_ok [OF hd]] t show False by auto
qed

lemma request_feed_complete:
  assumes ok: "dest_ok d" and mem: "length (ra_mem (rq_dest_addr (rp_request p))) = 256"
  shows "\<exists>p'. request_feed (request_parser_init p, e) (request_msg r d hi lo @ rest) = Some ((p', e), rest)
    \<and> rp_state p' = request_done \<and> rq_cmd (rp_request p') = SOCKS_CMD_CONNECT
    \<and> holds_dest (rq_dest_addr (rp_request p')) d \<and> rq_dest_port (rp_request p') = port_of hi lo"
proof -
  let ?bs = "request_msg r d hi lo @ rest"
  have "request_inv (request_parser_init p, e)" using request_hist_init [OF mem] by (auto simp: request_inv_def)
  from request.feed_ok [OF this request_init_not_final, of ?bs]
  obtain p' e' t where f: "request_feed (request_parser_init p, e) ?bs = Some ((p', e'), t)"
    by (auto simp: returns_prod)
  from request_feed_hist [OF mem f] obtain used where u: "?bs = used @ t" and h: "request_hist e (p', e') used"
    by blast
  have t: "t = [] \<or> request_final (p', e')" using feed_rest [OF f] by simp
  have st: "rp_state p' = request_done"
  proof (cases "rp_state p'")
    case request_dst_addr
    with t u h have "addr_hist p' ?bs" by (auto simp: request_hist_def request_final_def Let_def)
    from addr_hist_incomplete [OF this ok] show ?thesis ..
  next
    case request_dst_port
    with t u h have "port_hist p' ?bs" by (auto simp: request_hist_def request_final_def Let_def)
    from port_hist_incomplete [OF this ok] show ?thesis ..
  next
    case request_error
    with h consider v where "used = [v]" "v \<noteq> SOCKS_VERSION"
      | r' where "used = [SOCKS_VERSION, SOCKS_CMD_CONNECT, r', SOCKS_ATYP_FQDN, 0]"
      by (auto simp: request_hist_def Let_def)
    then show ?thesis
    proof cases
      case 2
      with u obtain ns where "d = FQDN ns" "(of_nat (length ns) :: byte) = 0"
        by (cases d) (auto simp: request_msg_def)
      with ok have False by simp (metis less_numeral_extra(3) length_greater_0_conv unat_0 unat_of_nat_byte)
      then show ?thesis ..
    qed (use u in \<open>simp add: request_msg_def\<close>)
  next
    case request_error_unsupported_atyp
    with u h show ?thesis by (cases d) (auto simp: request_hist_def request_msg_def Let_def)
  qed (use t u h in \<open>cases d; auto simp: request_hist_def request_msg_def request_final_def Let_def\<close>)+
  with h obtain r' d' hi' lo' where v: "used = request_msg r' d' hi' lo'" "e' = e"
    "rq_cmd (rp_request p') = SOCKS_CMD_CONNECT" "holds_dest (rq_dest_addr (rp_request p')) d'"
    "rq_dest_port (rp_request p') = port_of hi' lo'"
    by (auto simp: request_hist_def Let_def)
  then have "dest_bytes d @ [hi, lo] @ rest = dest_bytes d' @ [hi', lo'] @ t"
    using u by (simp add: request_msg_def)
  from dest_bytes_inj [OF this ok holds_dest_ok [OF v(4)]] v f st show ?thesis by auto
qed

section \<open>Properties\<close>

text \<open>C6: on a buffer that starts with a CONNECT request for an IPv4 address, an IPv6 address or a name,
  \<open>request_consume\<close> ends in \<open>request_done\<close> without failing and without an error, with the command, the
  address and the port (big endian) of the message, and with the bytes after it still in the buffer.\<close>

theorem request_consume_accepts:
  assumes wf: "buffer_wf b" and msg: "buffer_contents b = request_msg r d hi lo @ rest"
    and ok: "dest_ok d" and mem: "length (ra_mem (rq_dest_addr (rp_request p))) = 256"
  shows "returns (request_consume b (request_parser_init p, e)) (\<lambda>(b', p', e').
    rp_state p' = request_done \<and> e' = e \<and> buffer_wf b' \<and> buffer_contents b' = rest
    \<and> rq_cmd (rp_request p') = SOCKS_CMD_CONNECT \<and> holds_dest (rq_dest_addr (rp_request p')) d
    \<and> unat (rq_dest_port (rp_request p')) = 256 * unat hi + unat lo)"
proof -
  have "request_inv (request_parser_init p, e)" using request_hist_init [OF mem] by (auto simp: request_inv_def)
  from request.consume_feed [OF wf this request_init_not_final] request_feed_complete [OF ok mem, of e r hi lo rest]
  show ?thesis by (auto simp: msg unat_port_of)
qed

theorem request_consume_accepts_witness:
  "returns (request_consume (buffer_of 32 [5, 1, 0, 3, 3, 97, 46, 98, 0x1F, 0x90, 22])
      (request_parser_init \<lparr>rp_request = \<lparr>rq_cmd = 9, rq_dest_addr = \<lparr>ra_type = 7, ra_mem = replicate 256 1\<rparr>,
         rq_dest_port = 0\<rparr>, rp_state = request_done, rp_remaining = 8, rp_read = 8\<rparr>, Some False))
     (\<lambda>(b', p', e'). rp_state p' = request_done \<and> e' = Some False \<and> buffer_contents b' = [22]
        \<and> unat (rq_dest_port (rp_request p')) = 8080)"
  by (rule returns_mono, rule request_consume_accepts
      [where d = "FQDN [97, 46, 98]" and r = 0 and hi = "0x1F" and lo = "0x90" and rest = "[22]"])
    (auto simp: request_msg_def)

text \<open>C7: for any bytes whatever, \<open>request_consume\<close> on a fresh parser returns: no byte is written outside
  the view of the address union it belongs to, and the guard on the name's length never fires. The
  final state says what was consumed: a whole CONNECT request (\<open>request_done\<close>); a wrong version or an
  empty name (\<open>request_error\<close>, the only case that sets \<^verbatim>\<open>*error\<close>); an unsupported command, after 2
  bytes; an unsupported address type, after 4 bytes; in any other state, everything.\<close>

theorem request_consume_sound:
  assumes wf: "buffer_wf b" and mem: "length (ra_mem (rq_dest_addr (rp_request p))) = 256"
  shows "returns (request_consume b (request_parser_init p, Some False)) (\<lambda>(b', p', e').
    buffer_wf b' \<and> (e' = Some True \<longleftrightarrow> rp_state p' = request_error) \<and>
    (\<exists>used. buffer_contents b = used @ buffer_contents b' \<and>
      (case rp_state p' of
         request_done \<Rightarrow> \<exists>r d hi lo. used = request_msg r d hi lo \<and> holds_dest (rq_dest_addr (rp_request p')) d
           \<and> rq_dest_port (rp_request p') = port_of hi lo
       | request_error \<Rightarrow> (\<exists>v. used = [v] \<and> v \<noteq> SOCKS_VERSION)
           \<or> (\<exists>r. used = [SOCKS_VERSION, SOCKS_CMD_CONNECT, r, SOCKS_ATYP_FQDN, 0])
       | request_error_unsupported_cmd \<Rightarrow> \<exists>c. used = [SOCKS_VERSION, c] \<and> c \<noteq> SOCKS_CMD_CONNECT
       | request_error_unsupported_atyp \<Rightarrow> \<exists>r t. used = [SOCKS_VERSION, SOCKS_CMD_CONNECT, r, t]
           \<and> t \<notin> {SOCKS_ATYP_IPV4, SOCKS_ATYP_FQDN, SOCKS_ATYP_IPV6}
       | _ \<Rightarrow> buffer_contents b' = [])))"
proof -
  have "request_inv (request_parser_init p, Some False)"
    using request_hist_init [OF mem] by (auto simp: request_inv_def)
  from request.consume_feed [OF wf this request_init_not_final] obtain b' p' e'
    where c: "request_consume b (request_parser_init p, Some False) = Some (b', p', e')"
      and f: "request_feed (request_parser_init p, Some False) (buffer_contents b) = Some ((p', e'), buffer_contents b')"
      and wf': "buffer_wf b'" by auto
  from request_feed_hist [OF mem f] obtain used where u: "buffer_contents b = used @ buffer_contents b'"
    and h: "request_hist (Some False) (p', e') used" by blast
  have r: "request_final (p', e') \<or> buffer_contents b' = []" using feed_rest [OF f] by blast
  have err: "e' = Some True \<longleftrightarrow> rp_state p' = request_error"
    using h by (cases "rp_state p'") (simp_all add: request_hist_def Let_def set_error_def)
  show ?thesis unfolding c
    using u wf' err h r
    by (cases "rp_state p'") (fastforce simp: request_hist_def request_final_def Let_def)+
qed

theorem request_consume_sound_witness:
  "returns (request_consume (buffer_of 8 [5, 2, 0])
      (request_parser_init \<lparr>rp_request = \<lparr>rq_cmd = 0, rq_dest_addr = \<lparr>ra_type = 0, ra_mem = replicate 256 0\<rparr>,
         rq_dest_port = 0\<rparr>, rp_state = request_version, rp_remaining = 0, rp_read = 0\<rparr>, Some False))
     (\<lambda>(b', p', e'). e' = Some True \<longleftrightarrow> rp_state p' = request_error)"
  by (rule returns_mono, rule request_consume_sound) auto

text \<open>C28: a request that arrives in pieces is parsed as if it had arrived at once: when one call of
  \<^verbatim>\<open>request_consume\<close> has taken the first bytes without reaching a final state and the rest is then
  received into the same buffer, the second call ends with the same parser, the same error flag and
  the same unread bytes as a single call on all the bytes.\<close>

theorem request_fragments:
  assumes wf: "buffer_wf b" and mem: "length (ra_mem (rq_dest_addr (rp_request p))) = 256"
    and first: "request_consume b (request_parser_init p, e) = Some (b1, pe1)" "\<not> request_final pe1"
    and recv: "length frag \<le> buffer_room b1" "buffer_push b1 frag = Some b2"
    and whole: "buffer_wf c" "buffer_contents c = buffer_contents b @ frag"
  shows "\<exists>b3 c' pe'. request_consume b2 pe1 = Some (b3, pe')
    \<and> request_consume c (request_parser_init p, e) = Some (c', pe') \<and> buffer_contents c' = buffer_contents b3"
proof -
  have inv: "request_inv (request_parser_init p, e)" using request_hist_init [OF mem] by (auto simp: request_inv_def)
  show ?thesis
    by (rule request.consume_fragments [OF wf inv request_init_not_final first recv(2,1) whole])
qed

theorem request_fragments_witness:
  fixes p :: request_parser
  defines "p \<equiv> \<lparr>rp_request = \<lparr>rq_cmd = 9, rq_dest_addr = \<lparr>ra_type = 7, ra_mem = replicate 256 1\<rparr>,
         rq_dest_port = 0\<rparr>, rp_state = request_done, rp_remaining = 8, rp_read = 8\<rparr>"
  shows "\<exists>b1 pe1 b2 b3 c' pe'. request_consume (buffer_of 8 [5]) (request_parser_init p, Some False) = Some (b1, pe1)
    \<and> buffer_push b1 [2, 3] = Some b2 \<and> request_consume b2 pe1 = Some (b3, pe')
    \<and> request_consume (buffer_of 8 [5, 2, 3]) (request_parser_init p, Some False) = Some (c', pe')
    \<and> buffer_contents c' = buffer_contents b3"
proof -
  let ?pe1 = "((request_parser_init p)\<lparr>rp_state := request_cmd\<rparr>, Some False)"
  have one: "request_consume (buffer_of 8 [5]) (request_parser_init p, Some False)
      = Some (buffer_init 8 [5, 0, 0, 0, 0, 0, 0, 0], ?pe1)"
    by (subst request_consume.simps, subst request_consume.simps)
      (simp add: buffer_of_def buffer_can_read_def buffer_read_def buffer_read_adv_def buffer_compact_def Let_def
        request_parser_init_def request_final_def buffer_init_def numeral_eq_Suc)
  moreover have "\<not> request_final ?pe1" by (simp add: request_final_def)
  moreover have push: "buffer_push (buffer_init 8 [5, 0, 0, 0, 0, 0, 0, 0]) [2, 3]
      = Some (buffer_of 8 [2, 3])"
    by (simp add: buffer_push_def buffer_store_def buffer_write_adv_def buffer_init_def buffer_of_def Let_def
        numeral_eq_Suc)
  ultimately show ?thesis
    using request_fragments [of "buffer_of 8 [5]" p "Some False" _ ?pe1 "[2, 3]" _ "buffer_of 8 [5, 2, 3]"]
    by (fastforce simp: p_def buffer_room_def buffer_init_def)
qed

end
