(* ===== verification/Users.thy ===== *)
theory Users
  imports C_Library
begin

text \<open>
  \<^verbatim>\<open>src/shared/users.c\<close>: the store of SOCKS users, a fixed array of entries of which the first
  \<^verbatim>\<open>count\<close> are in use. Names and passwords are arrays of 256 \<^verbatim>\<open>char\<close>; the arguments are C strings.
  Its contract is that of a finite map from names to passwords with room for 10 names
  (\<open>credential_store\<close>), for names that fit their array; the last section shows what happens to a name
  that does not.
\<close>

section \<open>The store\<close>

abbreviation (input) USERS_MAX :: nat where "USERS_MAX \<equiv> 10"
abbreviation (input) NAME_LEN :: nat where "NAME_LEN \<equiv> 256"
abbreviation (input) PASS_LEN :: nat where "PASS_LEN \<equiv> 256"

record user_entry =
  ue_name :: "char list"
  ue_pass :: "char list"

record users =
  u_entries :: "user_entry list"
  u_count :: int

definition zero_entry :: user_entry where
  "zero_entry = \<lparr>ue_name = replicate NAME_LEN NUL, ue_pass = replicate PASS_LEN NUL\<rparr>"

text \<open>A successful \<^verbatim>\<open>calloc\<close>; the null result of a failed one is the business of \<^verbatim>\<open>main\<close>.\<close>

definition users_create :: users where
  "users_create = \<lparr>u_entries = replicate USERS_MAX zero_entry, u_count = 0\<rparr>"

text \<open>The loop of \<^verbatim>\<open>find_user\<close> from index \<open>i\<close>, with \<open>k\<close> iterations left.\<close>

fun find_user_from :: "users \<Rightarrow> char list \<Rightarrow> nat \<Rightarrow> nat \<Rightarrow> int option" where
  "find_user_from u name i 0 = Some (-1)"
| "find_user_from u name i (Suc k) = do {
     e \<leftarrow> arr_get (u_entries u) (int i);
     if strncmp_eq (ue_name e) name NAME_LEN then Some (int i) else find_user_from u name (Suc i) k
   }"

definition find_user :: "users \<Rightarrow> char list \<Rightarrow> int option" where
  "find_user u name = find_user_from u name 0 (nat (u_count u))"

definition users_add :: "users \<Rightarrow> char list \<Rightarrow> char list \<Rightarrow> (bool \<times> users) option" where
  "users_add u name pass = do {
     idx \<leftarrow> find_user u name;
     if idx \<ge> 0 then do {
       e \<leftarrow> arr_get (u_entries u) idx;
       p \<leftarrow> strncpy_term (ue_pass e) pass PASS_LEN;
       es \<leftarrow> arr_set (u_entries u) idx (e\<lparr>ue_pass := p\<rparr>);
       Some (True, u\<lparr>u_entries := es\<rparr>)
     }
     else if u_count u \<ge> int USERS_MAX then Some (False, u)
     else do {
       e \<leftarrow> arr_get (u_entries u) (u_count u);
       n \<leftarrow> strncpy_term (ue_name e) name NAME_LEN;
       p \<leftarrow> strncpy_term (ue_pass e) pass PASS_LEN;
       es \<leftarrow> arr_set (u_entries u) (u_count u) \<lparr>ue_name = n, ue_pass = p\<rparr>;
       Some (True, u\<lparr>u_entries := es, u_count := u_count u + 1\<rparr>)
     }
   }"

definition users_del :: "users \<Rightarrow> char list \<Rightarrow> (bool \<times> users) option" where
  "users_del u name = do {
     idx \<leftarrow> find_user u name;
     if idx < 0 then Some (False, u)
     else do {
       last \<leftarrow> arr_get (u_entries u) (u_count u - 1);
       es \<leftarrow> arr_set (u_entries u) idx last;
       es' \<leftarrow> arr_set es (u_count u - 1) zero_entry;
       Some (True, u\<lparr>u_entries := es', u_count := u_count u - 1\<rparr>)
     }
   }"

definition users_check :: "users \<Rightarrow> char list \<Rightarrow> char list \<Rightarrow> bool option" where
  "users_check u name pass = do {
     idx \<leftarrow> find_user u name;
     if idx < 0 then Some False
     else do {
       e \<leftarrow> arr_get (u_entries u) idx;
       Some (strncmp_eq (ue_pass e) pass PASS_LEN)
     }
   }"

definition users_get_name :: "users \<Rightarrow> int \<Rightarrow> char list option option" where
  "users_get_name u i =
     (if i < 0 \<or> i \<ge> u_count u then Some None
      else do { e \<leftarrow> arr_get (u_entries u) i; Some (Some (ue_name e)) })"

definition users_count :: "users \<Rightarrow> int" where
  "users_count u = u_count u"

section \<open>Well-formed stores and what they hold\<close>

definition entry_wf :: "user_entry \<Rightarrow> bool" where
  "entry_wf e \<longleftrightarrow> length (ue_name e) = NAME_LEN \<and> length (ue_pass e) = PASS_LEN
     \<and> strlen (ue_name e) < NAME_LEN \<and> strlen (ue_pass e) < PASS_LEN"

definition users_wf :: "users \<Rightarrow> bool" where
  "users_wf u \<longleftrightarrow> length (u_entries u) = USERS_MAX \<and> 0 \<le> u_count u \<and> u_count u \<le> int USERS_MAX
     \<and> list_all entry_wf (u_entries u)"

definition cred :: "user_entry \<Rightarrow> string \<times> string" where
  "cred e = (cstr (ue_name e), cstr (ue_pass e))"

definition creds :: "users \<Rightarrow> (string \<times> string) list" where
  "creds u = map cred (take (nat (u_count u)) (u_entries u))"

lemma entry_wf_zero [simp]: "entry_wf zero_entry"
  by (simp add: entry_wf_def zero_entry_def strlen_def)

lemma users_wf_create [simp]: "users_wf users_create"
  by (simp add: users_wf_def users_create_def list_all_iff)

lemma creds_create [simp]: "creds users_create = []"
  by (simp add: creds_def users_create_def)

lemma length_creds: "users_wf u \<Longrightarrow> length (creds u) = nat (u_count u)"
  by (auto simp: creds_def users_wf_def min_def)

lemma users_wf_entry: "users_wf u \<Longrightarrow> i < USERS_MAX \<Longrightarrow> entry_wf (u_entries u ! i)"
  by (auto simp: users_wf_def list_all_length)

lemma strncmp_eq_fits: "strlen a < n \<Longrightarrow> strncmp_eq a b n \<longleftrightarrow> cstr a = cstr b"
  by (metis strlen_def strncmp_eq_def take_all_iff length_take less_imp_le min.strict_order_iff min_def nat_neq_iff not_le)

text \<open>The linear search finds the first entry with that name.\<close>

fun index_of :: "string \<Rightarrow> (string \<times> string) list \<Rightarrow> nat option" where
  "index_of n [] = None"
| "index_of n (c # cs) = (if fst c = n then Some 0 else map_option Suc (index_of n cs))"

lemma find_user_from_ok:
  "users_wf u \<Longrightarrow> i + k = nat (u_count u) \<Longrightarrow>
   find_user_from u name i k = Some (case index_of (cstr name) (drop i (creds u)) of
     None \<Rightarrow> -1 | Some j \<Rightarrow> int (i + j))"
proof (induction k arbitrary: i)
  case 0
  then show ?case by (simp add: length_creds)
next
  case (Suc k)
  from Suc.prems have i: "i < nat (u_count u)" "i < length (creds u)" "i < USERS_MAX" "i < length (u_entries u)"
    by (auto simp: users_wf_def length_creds)
  have e: "entry_wf (u_entries u ! i)" using Suc.prems(1) i(3) by (rule users_wf_entry)
  have d: "drop i (creds u) = cred (u_entries u ! i) # drop (Suc i) (creds u)"
    using i by (simp add: Cons_nth_drop_Suc [symmetric] creds_def)
  have "strncmp_eq (ue_name (u_entries u ! i)) name NAME_LEN \<longleftrightarrow> fst (cred (u_entries u ! i)) = cstr name"
    using e by (simp add: strncmp_eq_fits entry_wf_def cred_def)
  with Suc.IH [of "Suc i"] Suc.prems d i(4) show ?case
    by (auto split: option.splits)
qed

lemma find_user_ok:
  "users_wf u \<Longrightarrow> find_user u name = Some (case index_of (cstr name) (creds u) of
     None \<Rightarrow> -1 | Some j \<Rightarrow> int j)"
  using find_user_from_ok [of u 0 "nat (u_count u)" name] by (simp add: find_user_def split: option.splits)

lemma index_of_None: "index_of n cs = None \<longleftrightarrow> n \<notin> fst ` set cs"
  by (induction cs) auto

lemma index_of_Some: "index_of n cs = Some j \<Longrightarrow> j < length cs \<and> fst (cs ! j) = n"
  by (induction cs arbitrary: j) (auto split: if_splits)

lemma creds_nth: "i < nat (u_count u) \<Longrightarrow> i < length (u_entries u) \<Longrightarrow> creds u ! i = cred (u_entries u ! i)"
  by (simp add: creds_def)

lemma entry_wfI:
  assumes "length n = NAME_LEN" "cstr n = take 255 a" "length p = PASS_LEN" "cstr p = take 255 b"
  shows "entry_wf \<lparr>ue_name = n, ue_pass = p\<rparr>"
  using assms by (auto simp: entry_wf_def strlen_def)

text \<open>What each operation does to the list of credentials.\<close>

lemma users_add_known:
  assumes wf: "users_wf u" and idx: "index_of (cstr name) (creds u) = Some j"
  shows "returns (users_add u name pass) (\<lambda>(ok, u'). ok \<and> users_wf u' \<and> u_count u' = u_count u
     \<and> creds u' = (creds u)[j := (cstr name, take 255 (cstr pass))])"
proof -
  have j: "j < nat (u_count u)" "fst (creds u ! j) = cstr name" "j < USERS_MAX" "j < length (u_entries u)"
    using index_of_Some [OF idx] wf by (auto simp: length_creds users_wf_def)
  let ?e = "u_entries u ! j"
  have e: "entry_wf ?e" using wf j(3) by (rule users_wf_entry)
  then have "length (ue_pass ?e) = PASS_LEN" by (simp add: entry_wf_def)
  then obtain p where p: "strncpy_term (ue_pass ?e) pass PASS_LEN = Some p" "length p = PASS_LEN"
      "cstr p = take 255 (cstr pass)"
    using strncpy_term_ok [of "ue_pass ?e" PASS_LEN pass] by (auto simp: returns_iff)
  have e': "entry_wf (?e\<lparr>ue_pass := p\<rparr>)" using e p by (simp add: entry_wf_def strlen_def)
  have "fst (cred ?e) = cstr name" using j by (simp add: creds_nth)
  then have "cred (?e\<lparr>ue_pass := p\<rparr>) = (cstr name, take 255 (cstr pass))"
    using p by (simp add: cred_def)
  moreover have "list_all entry_wf ((u_entries u)[j := ?e\<lparr>ue_pass := p\<rparr>])"
    using wf e' by (auto simp: users_wf_def list_all_iff dest: set_update_subset_insert [THEN subsetD])
  ultimately show ?thesis
    using wf j p unfolding users_add_def find_user_ok [OF wf] idx
    by (simp add: users_wf_def creds_def take_update_swap map_update)
qed

lemma users_add_new:
  assumes wf: "users_wf u" and idx: "index_of (cstr name) (creds u) = None" and room: "u_count u < int USERS_MAX"
  shows "returns (users_add u name pass) (\<lambda>(ok, u'). ok \<and> users_wf u' \<and> u_count u' = u_count u + 1
     \<and> creds u' = creds u @ [(take 255 (cstr name), take 255 (cstr pass))])"
proof -
  obtain c where c: "u_count u = int c" "c < USERS_MAX" "c < length (u_entries u)"
    using wf room by (cases "u_count u") (auto simp: users_wf_def)
  let ?e = "u_entries u ! c"
  have e: "entry_wf ?e" using wf c(2) by (rule users_wf_entry)
  obtain n where n: "strncpy_term (ue_name ?e) name NAME_LEN = Some n" "length n = NAME_LEN"
      "cstr n = take 255 (cstr name)"
    using strncpy_term_ok [of "ue_name ?e" NAME_LEN name] e by (auto simp: returns_iff entry_wf_def)
  obtain p where p: "strncpy_term (ue_pass ?e) pass PASS_LEN = Some p" "length p = PASS_LEN"
      "cstr p = take 255 (cstr pass)"
    using strncpy_term_ok [of "ue_pass ?e" PASS_LEN pass] e by (auto simp: returns_iff entry_wf_def)
  let ?n = "\<lparr>ue_name = n, ue_pass = p\<rparr>"
  have "entry_wf ?n" using n(2,3) p(2,3) by (rule entry_wfI)
  then have "list_all entry_wf ((u_entries u)[c := ?n])"
    using wf by (auto simp: users_wf_def list_all_iff dest: set_update_subset_insert [THEN subsetD])
  moreover have "take (Suc c) ((u_entries u)[c := ?n]) = take c (u_entries u) @ [?n]"
    using c(3) by (rule take_list_update_Suc)
  moreover have "nat (1 + int c) = Suc c" by simp
  ultimately show ?thesis
    using wf c n p unfolding users_add_def find_user_ok [OF wf] idx
    by (simp add: users_wf_def creds_def cred_def add.commute)
qed

lemma users_add_full:
  assumes wf: "users_wf u" and idx: "index_of (cstr name) (creds u) = None" and room: "u_count u = int USERS_MAX"
  shows "users_add u name pass = Some (False, u)"
  using room unfolding users_add_def find_user_ok [OF wf] idx by simp

lemma users_del_unknown:
  assumes wf: "users_wf u" and idx: "index_of (cstr name) (creds u) = None"
  shows "users_del u name = Some (False, u)"
  unfolding users_del_def find_user_ok [OF wf] idx by simp

lemma users_del_known:
  assumes wf: "users_wf u" and idx: "index_of (cstr name) (creds u) = Some j"
  shows "returns (users_del u name) (\<lambda>(ok, u'). ok \<and> users_wf u' \<and> u_count u' = u_count u - 1
     \<and> creds u' = butlast ((creds u)[j := last (creds u)]))"
proof -
  have j: "j < nat (u_count u)" "j < length (u_entries u)"
    using index_of_Some [OF idx] wf by (auto simp: length_creds users_wf_def)
  then obtain c where c: "u_count u = int (Suc c)" "c < length (u_entries u)" "j \<le> c"
    using wf by (cases "u_count u"; cases "nat (u_count u)") (auto simp: users_wf_def)
  have cr: "creds u = map cred (take c (u_entries u)) @ [cred (u_entries u ! c)]"
    using c by (simp add: creds_def take_Suc_conv_app_nth nat_add_distrib)
  have "list_all entry_wf ((u_entries u)[j := u_entries u ! c, c := zero_entry])"
    using wf c(2) unfolding users_wf_def list_all_iff
    by (auto dest!: set_update_subset_insert [THEN subsetD])
  then have wf': "users_wf (u\<lparr>u_entries := (u_entries u)[j := u_entries u ! c, c := zero_entry], u_count := int c\<rparr>)"
    using wf c by (simp add: users_wf_def)
  have ops: "users_del u name = Some (True, u\<lparr>u_entries := (u_entries u)[j := u_entries u ! c, c := zero_entry],
      u_count := int c\<rparr>)"
    using c j unfolding users_del_def find_user_ok [OF wf] idx by simp
  have "map cred (take c ((u_entries u)[j := u_entries u ! c])) = butlast ((creds u)[j := last (creds u)])"
    using c by (cases "j = c") (simp_all add: cr take_update_swap map_update list_update_append butlast_append)
  then have "creds (u\<lparr>u_entries := (u_entries u)[j := u_entries u ! c, c := zero_entry], u_count := int c\<rparr>)
      = butlast ((creds u)[j := last (creds u)])"
    by (simp add: creds_def)
  with wf' c show ?thesis unfolding ops by simp
qed

lemma users_check_ok:
  assumes wf: "users_wf u"
  shows "users_check u name pass = Some (case index_of (cstr name) (creds u) of
     None \<Rightarrow> False | Some j \<Rightarrow> snd (creds u ! j) = cstr pass)"
proof (cases "index_of (cstr name) (creds u)")
  case None
  then show ?thesis unfolding users_check_def find_user_ok [OF wf] by simp
next
  case (Some j)
  have j: "j < nat (u_count u)" "j < USERS_MAX" "j < length (u_entries u)"
    using index_of_Some [OF Some] wf by (auto simp: length_creds users_wf_def)
  have "entry_wf (u_entries u ! j)" using wf j(2) by (rule users_wf_entry)
  with j Some show ?thesis unfolding users_check_def find_user_ok [OF wf]
    by (simp add: creds_nth cred_def entry_wf_def strncmp_eq_fits)
qed

section \<open>The contract: a finite map with room for ten names\<close>

text \<open>
  What the callers (\<^verbatim>\<open>main\<close>, the SOCKS authentication, the management commands) rely on, for names of
  fewer than 256 characters. Passwords keep their first 255 characters.
\<close>

locale credential_store =
  fixes inv :: "'s \<Rightarrow> bool"
    and store :: "'s \<Rightarrow> (string \<rightharpoonup> string)"
    and entries :: "'s \<Rightarrow> nat"
    and add :: "'s \<Rightarrow> char list \<Rightarrow> char list \<Rightarrow> (bool \<times> 's) option"
    and del :: "'s \<Rightarrow> char list \<Rightarrow> (bool \<times> 's) option"
    and check :: "'s \<Rightarrow> char list \<Rightarrow> char list \<Rightarrow> bool option"
  assumes entries_card: "inv s \<Longrightarrow> finite (dom (store s)) \<and> entries s = card (dom (store s)) \<and> entries s \<le> USERS_MAX"
    and add_ok: "inv s \<Longrightarrow> strlen n < NAME_LEN \<Longrightarrow> returns (add s n p) (\<lambda>(ok, s'). inv s'
        \<and> ok = (cstr n \<in> dom (store s) \<or> entries s < USERS_MAX)
        \<and> store s' = (if ok then (store s)(cstr n \<mapsto> take 255 (cstr p)) else store s))"
    and del_ok: "inv s \<Longrightarrow> returns (del s n) (\<lambda>(ok, s'). inv s'
        \<and> ok = (cstr n \<in> dom (store s)) \<and> store s' = (store s)(cstr n := None))"
    and check_ok: "inv s \<Longrightarrow> returns (check s n p) (\<lambda>ok. ok = (store s (cstr n) = Some (cstr p)))"

text \<open>Any sequence of administrative operations; the results are dropped.\<close>

datatype user_op = Add string string | Del string

fun op_fits :: "user_op \<Rightarrow> bool" where
  "op_fits (Add n p) = (strlen n < NAME_LEN)"
| "op_fits (Del n) = True"

fun map_op :: "user_op \<Rightarrow> (string \<rightharpoonup> string) \<Rightarrow> (string \<rightharpoonup> string)" where
  "map_op (Add n p) m =
     (if cstr n \<in> dom m \<or> card (dom m) < USERS_MAX then m(cstr n \<mapsto> take 255 (cstr p)) else m)"
| "map_op (Del n) m = m(cstr n := None)"

fun user_run :: "('s \<Rightarrow> char list \<Rightarrow> char list \<Rightarrow> (bool \<times> 's) option) \<Rightarrow>
    ('s \<Rightarrow> char list \<Rightarrow> (bool \<times> 's) option) \<Rightarrow> user_op list \<Rightarrow> 's \<Rightarrow> 's option" where
  "user_run add del [] s = Some s"
| "user_run add del (Add n p # ops) s = do { (ok, s') \<leftarrow> add s n p; user_run add del ops s' }"
| "user_run add del (Del n # ops) s = do { (ok, s') \<leftarrow> del s n; user_run add del ops s' }"

context credential_store
begin

lemma add_then_check:
  assumes "inv s" and "strlen n < NAME_LEN" and "strlen p < PASS_LEN" and "add s n p = Some (True, s')"
  shows "check s' m q = Some (if cstr m = cstr n then cstr q = cstr p else the (check s m q))"
proof -
  from add_ok [OF assms(1,2), of p] assms(4)
  have s': "inv s'" "store s' = (store s)(cstr n \<mapsto> take 255 (cstr p))" by auto
  have p: "take 255 (cstr p) = cstr p" using assms(3) by (simp add: strlen_def)
  obtain c where c: "check s m q = Some c" "c = (store s (cstr m) = Some (cstr q))"
    using check_ok [OF assms(1), of m q] by (auto simp: returns_iff)
  from check_ok [OF s'(1), of m q] c s'(2) p show ?thesis
    by (auto simp: returns_iff)
qed

lemma del_then_check:
  assumes "inv s" and "del s n = Some (ok, s')" and "cstr m = cstr n"
  shows "check s' m q = Some False"
proof -
  from del_ok [OF assms(1), of n] assms(2)
  have "inv s'" "store s' = (store s)(cstr n := None)" by auto
  from check_ok [OF this(1), of m q] this(2) assms(3) show ?thesis
    by (auto simp: returns_iff)
qed

lemma run_refines:
  "inv s \<Longrightarrow> list_all op_fits ops \<Longrightarrow>
   returns (user_run add del ops s) (\<lambda>s'. inv s' \<and> store s' = fold map_op ops (store s))"
proof (induction ops arbitrary: s)
  case Nil
  then show ?case by simp
next
  case (Cons op ops)
  show ?case
  proof (cases op)
    case (Add n p)
    from add_ok [OF Cons.prems(1), of n p] Add Cons.prems(2)
    obtain ok s' where a: "add s n p = Some (ok, s')" "inv s'"
        "ok = (cstr n \<in> dom (store s) \<or> entries s < USERS_MAX)"
        "store s' = (if ok then (store s)(cstr n \<mapsto> take 255 (cstr p)) else store s)"
      by (auto simp: returns_prod)
    have "store s' = map_op op (store s)"
      using a entries_card [OF Cons.prems(1)] Add by simp
    with Cons.IH [OF a(2)] Cons.prems(2) a(1) Add show ?thesis by simp
  next
    case (Del n)
    from del_ok [OF Cons.prems(1), of n]
    obtain ok s' where "del s n = Some (ok, s')" "inv s'" "store s' = map_op op (store s)"
      using Del by (auto simp: returns_prod)
    with Cons.IH [of s'] Cons.prems(2) Del show ?thesis by (simp del: map_op.simps)
  qed
qed

end

text \<open>The array implements the contract.\<close>

definition users_inv :: "users \<Rightarrow> bool" where
  "users_inv u \<longleftrightarrow> users_wf u \<and> distinct (map fst (creds u))"

definition users_map :: "users \<Rightarrow> (string \<rightharpoonup> string)" where
  "users_map u = map_of (creds u)"

lemma index_of_map_of: "map_of cs n = (case index_of n cs of None \<Rightarrow> None | Some j \<Rightarrow> Some (snd (cs ! j)))"
  by (induction cs) (auto split: option.splits)

lemma index_of_upd:
  "index_of n cs = Some j \<Longrightarrow> map_of (cs[j := (n, p)]) = (map_of cs)(n \<mapsto> p)
     \<and> map fst (cs[j := (n, p)]) = map fst cs"
  by (induction cs arbitrary: j) (auto split: if_splits)

lemma map_of_snoc: "n \<notin> fst ` set cs \<Longrightarrow> map_of (cs @ [(n, p)]) = (map_of cs)(n \<mapsto> p)"
  by (rule ext) (auto simp: map_add_def map_of_eq_None_iff [symmetric] split: option.split)

lemma map_of_move:
  assumes "n \<notin> fst ` set a" "n \<notin> fst ` set b" "k \<notin> fst ` set a" "k \<notin> fst ` set b" "k \<noteq> n"
  shows "map_of (a @ (k, w) # b) = (map_of (a @ (n, v) # b @ [(k, w)]))(n := None)"
proof
  fix x
  have "map_of a n = None" "map_of b n = None" "map_of a k = None" "map_of b k = None"
    using assms by (simp_all add: map_of_eq_None_iff)
  with assms(5) show "map_of (a @ (k, w) # b) x = ((map_of (a @ (n, v) # b @ [(k, w)]))(n := None)) x"
    by (cases "x = n"; cases "x = k") (simp_all add: map_add_def split: option.split)
qed

lemma map_of_swap_out:
  assumes d: "distinct (map fst cs)" and i: "index_of n cs = Some j"
  shows "map_of (butlast (cs[j := last cs])) = (map_of cs)(n := None)
     \<and> distinct (map fst (butlast (cs[j := last cs])))"
proof -
  have j: "j < length cs" "fst (cs ! j) = n" using index_of_Some [OF i] by auto
  then obtain ys z where cs: "cs = ys @ [z]" by (cases cs rule: rev_cases) auto
  show ?thesis
  proof (cases "j = length ys")
    case True
    with cs j d show ?thesis
      by (auto simp: fun_upd_def map_add_def intro!: ext split: option.splits) (metis fst_conv map_of_SomeD rev_image_eqI)
  next
    case False
    with cs j have jl: "j < length ys" by simp
    obtain a b where ys: "ys = a @ (n, snd (ys ! j)) # b" "length a = j"
      using id_take_nth_drop [OF jl] j(2) cs jl by (metis length_take min.absorb4 nth_append prod.collapse)
    have "ys[j := z] = a @ z # b" using ys by (metis list_update_length)
    then have upd: "butlast (cs[j := last cs]) = a @ z # b"
      using cs jl by (simp add: list_update_append butlast_append)
    obtain k w where z: "z = (k, w)" by (cases z)
    obtain v where v: "snd (ys ! j) = v" by simp
    have cs': "cs = a @ (n, v) # b @ [(k, w)]" using cs ys(1) unfolding v z by simp
    have dd: "distinct (map fst (a @ (n, v) # b @ [(k, w)]))" using d unfolding cs' .
    then have "distinct (map fst (a @ (k, w) # b))" by auto
    moreover have "map_of (a @ (k, w) # b) = (map_of (a @ (n, v) # b @ [(k, w)]))(n := None)"
      by (rule map_of_move) (use dd in auto)
    ultimately show ?thesis unfolding upd unfolding z cs' by blast
  qed
qed

lemma dom_users_map: "dom (users_map u) = fst ` set (creds u)"
  by (simp add: users_map_def dom_map_of_conv_image_fst)

lemma users_inv_entries:
  assumes "users_inv u"
  shows "finite (dom (users_map u)) \<and> nat (u_count u) = card (dom (users_map u)) \<and> nat (u_count u) \<le> USERS_MAX"
proof -
  have "card (set (map fst (creds u))) = nat (u_count u)"
    using assms distinct_card [of "map fst (creds u)"] by (auto simp: users_inv_def length_creds)
  moreover have "u_count u \<le> int USERS_MAX" using assms by (simp add: users_inv_def users_wf_def)
  ultimately show ?thesis by (simp add: dom_users_map)
qed

lemma index_of_dom: "index_of n (creds u) = None \<longleftrightarrow> n \<notin> dom (users_map u)"
  by (simp add: dom_users_map index_of_None)

lemma users_add_contract:
  assumes inv: "users_inv u" and fits: "strlen name < NAME_LEN"
  shows "returns (users_add u name pass) (\<lambda>(ok, u'). users_inv u'
     \<and> ok = (cstr name \<in> dom (users_map u) \<or> nat (u_count u) < USERS_MAX)
     \<and> users_map u' = (if ok then (users_map u)(cstr name \<mapsto> take 255 (cstr pass)) else users_map u))"
proof (cases "index_of (cstr name) (creds u)")
  case (Some j)
  then have "cstr name \<in> dom (users_map u)" using index_of_dom [of "cstr name" u] by auto
  with users_add_known [OF _ Some, of pass] index_of_upd [OF Some, of "take 255 (cstr pass)"] inv show ?thesis
    by (auto simp: users_inv_def users_map_def elim!: returns_mono)
next
  case None
  then have new: "cstr name \<notin> dom (users_map u)" "cstr name \<notin> fst ` set (creds u)"
    by (simp_all add: index_of_dom dom_users_map)
  have whole: "take 255 (cstr name) = cstr name" using fits by (simp add: strlen_def)
  show ?thesis
  proof (cases "u_count u < int USERS_MAX")
    case True
    with users_add_new [OF _ None True, of pass] inv new map_of_snoc [OF new(2), of "take 255 (cstr pass)"] whole
    show ?thesis by (auto simp: users_inv_def users_map_def elim!: returns_mono)
  next
    case False
    with inv have "u_count u = int USERS_MAX" by (simp add: users_inv_def users_wf_def)
    with users_add_full [OF _ None, of pass] inv new show ?thesis by (auto simp: users_inv_def)
  qed
qed

lemma users_del_contract:
  assumes inv: "users_inv u"
  shows "returns (users_del u name) (\<lambda>(ok, u'). users_inv u'
     \<and> ok = (cstr name \<in> dom (users_map u)) \<and> users_map u' = (users_map u)(cstr name := None))"
proof (cases "index_of (cstr name) (creds u)")
  case (Some j)
  then have "cstr name \<in> dom (users_map u)" using index_of_dom [of "cstr name" u] by auto
  with users_del_known [OF _ Some] map_of_swap_out [OF _ Some] inv show ?thesis
    by (auto simp: users_inv_def users_map_def elim!: returns_mono)
next
  case None
  then have "users_map u (cstr name) = None" by (auto simp: index_of_dom)
  with users_del_unknown [OF _ None] inv show ?thesis
    by (auto simp: users_inv_def fun_upd_idem)
qed

lemma users_check_contract:
  "users_inv u \<Longrightarrow> returns (users_check u name pass) (\<lambda>ok. ok = (users_map u (cstr name) = Some (cstr pass)))"
  by (auto simp: users_inv_def users_check_ok users_map_def index_of_map_of split: option.splits)

interpretation cred: credential_store users_inv users_map "\<lambda>u. nat (u_count u)" users_add users_del users_check
  by unfold_locales
    (erule users_inv_entries users_add_contract users_del_contract users_check_contract; assumption?)+

lemma users_inv_create [simp]: "users_inv users_create"
  by (simp add: users_inv_def)

lemma users_map_create [simp]: "users_map users_create = Map.empty"
  by (simp add: users_map_def)

section \<open>Properties\<close>

text \<open>C13: from a fresh store, every sequence of \<^verbatim>\<open>users_add\<close> and \<^verbatim>\<open>users_del\<close> with names that fit
  (fewer than 256 characters) runs without leaving the array and leaves exactly the finite map of the
  abstract specification: an add overwrites or inserts while there are fewer than ten names, a delete
  removes, passwords keep 255 characters. \<^verbatim>\<open>users_check\<close> then answers by that map, and \<^verbatim>\<open>users_count\<close>
  is the number of names, at most ten.\<close>

theorem users_refine_map:
  assumes "list_all op_fits ops"
  shows "returns (user_run users_add users_del ops users_create) (\<lambda>u.
     users_count u = int (card (dom (fold map_op ops Map.empty))) \<and> users_count u \<le> int USERS_MAX
     \<and> (\<forall>n p. users_check u n p = Some (fold map_op ops Map.empty (cstr n) = Some (cstr p))))"
proof (rule returns_mono [OF cred.run_refines [OF users_inv_create assms]])
  fix u assume u: "users_inv u \<and> users_map u = fold map_op ops (users_map users_create)"
  with users_inv_entries [of u] have "nat (u_count u) = card (dom (users_map u))" "nat (u_count u) \<le> USERS_MAX"
    by blast+
  moreover have "0 \<le> u_count u" using u by (simp add: users_inv_def users_wf_def)
  moreover have "users_check u n p = Some (users_map u (cstr n) = Some (cstr p))" for n p
    using users_check_contract [of u n p] u by (auto simp: returns_iff)
  ultimately show "users_count u = int (card (dom (fold map_op ops Map.empty))) \<and> users_count u \<le> int USERS_MAX
     \<and> (\<forall>n p. users_check u n p = Some (fold map_op ops Map.empty (cstr n) = Some (cstr p)))"
    using u by (auto simp: users_count_def)
qed

definition demo_ops :: "user_op list" where
  "demo_ops = [Add ''ana'' ''x'', Add ''bob'' ''y'', Add ''ana'' ''z'', Del ''bob'']"

theorem users_refine_map_witness:
  "list_all op_fits demo_ops \<and> returns (user_run users_add users_del demo_ops users_create) (\<lambda>u.
     users_check u ''ana'' ''z'' = Some True \<and> users_check u ''bob'' ''y'' = Some False)"
proof
  show fits: "list_all op_fits demo_ops" by (simp add: demo_ops_def strlen_def)
  have "fold map_op demo_ops Map.empty = [''ana'' \<mapsto> ''z'']"
    by (rule ext) (simp add: demo_ops_def)
  with users_refine_map [OF fits] show "returns (user_run users_add users_del demo_ops users_create) (\<lambda>u.
     users_check u ''ana'' ''z'' = Some True \<and> users_check u ''bob'' ''y'' = Some False)"
    by (elim returns_mono) simp
qed

text \<open>C39: a name of 256 characters or more is accepted by \<^verbatim>\<open>users_add\<close> and takes an entry of the
  array, but it is stored cut to 255 characters while \<^verbatim>\<open>find_user\<close> compares 256: the user can neither
  log in nor be deleted under the name it was added with, and adding it again takes one more entry.\<close>

theorem users_add_long_name:
  assumes inv: "users_inv u" and long: "NAME_LEN \<le> strlen name" and room: "u_count u < int USERS_MAX"
  shows "returns (users_add u name pass) (\<lambda>(ok, u'). ok \<and> users_count u' = users_count u + 1
     \<and> (\<forall>p. users_check u' name p = Some False) \<and> users_del u' name = Some (False, u')
     \<and> (users_count u' < int USERS_MAX \<longrightarrow>
          returns (users_add u' name pass) (\<lambda>(ok'', u''). ok'' \<and> users_count u'' = users_count u + 2)))"
proof -
  have absent: "index_of (cstr name) (creds v) = None" if "users_wf v" for v
  proof -
    have "length n < NAME_LEN" if "n \<in> fst ` set (creds v)" for n
      using that \<open>users_wf v\<close> by (auto simp: creds_def cred_def users_wf_def list_all_iff entry_wf_def strlen_def
          dest!: in_set_takeD)
    then show ?thesis using long by (force simp: index_of_None strlen_def)
  qed
  have wf: "users_wf u" using inv by (simp add: users_inv_def)
  show ?thesis
  proof (rule returns_mono [OF users_add_new [OF wf absent [OF wf] room]], clarify, intro conjI allI impI)
    fix u' assume u': "users_wf u'" "u_count u' = u_count u + 1"
    show "users_count u' = users_count u + 1" by (simp add: users_count_def u')
    show "users_check u' name p = Some False" for p
      using users_check_ok [OF u'(1), of name p] absent [OF u'(1)] by simp
    show "users_del u' name = Some (False, u')"
      by (rule users_del_unknown [OF u'(1) absent [OF u'(1)]])
    assume "users_count u' < int USERS_MAX"
    then have "u_count u' < int USERS_MAX" by (simp add: users_count_def)
    from users_add_new [OF u'(1) absent [OF u'(1)] this, of pass]
    show "returns (users_add u' name pass) (\<lambda>(ok'', u''). ok'' \<and> users_count u'' = users_count u + 2)"
      by (rule returns_mono) (auto simp: users_count_def u')
  qed
qed

theorem users_add_long_name_witness:
  "users_inv users_create \<and> NAME_LEN \<le> strlen (replicate 300 CHR ''n'')
   \<and> returns (users_add users_create (replicate 300 CHR ''n'') ''pw'') (\<lambda>(ok, u').
       ok \<and> users_check u' (replicate 300 CHR ''n'') ''pw'' = Some False)"
proof -
  have long: "NAME_LEN \<le> strlen (replicate 300 CHR ''n'')" by (simp add: strlen_def cstr_id)
  have room: "u_count users_create < int USERS_MAX" by (simp add: users_create_def)
  from users_add_long_name [OF users_inv_create long room, of "''pw''"]
  have "returns (users_add users_create (replicate 300 CHR ''n'') ''pw'') (\<lambda>(ok, u').
       ok \<and> users_check u' (replicate 300 CHR ''n'') ''pw'' = Some False)"
    by (rule returns_mono) auto
  with long show ?thesis by simp
qed

end
