(* ===== verification/Config.thy ===== *)
theory Config
  imports C_Library
begin

text \<open>
  \<^verbatim>\<open>src/shared/config.c\<close>: the four settings that can be changed at run time, addressed by the name of
  a key. A pointer argument that the code compares with \<^verbatim>\<open>NULL\<close> is an option; the \<^verbatim>\<open>int *value\<close> of
  \<^verbatim>\<open>config_get_key\<close> is the integer it points to, returned updated. The contract is that of a fixed set
  of independent cells (\<open>setting_store\<close>).
\<close>

record config =
  negotiation_timeout :: int
  connect_timeout :: int
  idle_timeout :: int
  max_connections :: int

definition config_init :: config where
  "config_init = \<lparr>negotiation_timeout = 0, connect_timeout = 0, idle_timeout = 0, max_connections = 0\<rparr>"

definition config_set_defaults :: "int \<Rightarrow> int \<Rightarrow> int \<Rightarrow> int \<Rightarrow> config" where
  "config_set_defaults n c i m =
     \<lparr>negotiation_timeout = n, connect_timeout = c, idle_timeout = i, max_connections = m\<rparr>"

definition config_set_key :: "config \<Rightarrow> char list option \<Rightarrow> int \<Rightarrow> bool \<times> config" where
  "config_set_key c key value =
     (case key of
        None \<Rightarrow> (False, c)
      | Some k \<Rightarrow>
          if value < 0 then (False, c)
          else if strcmp_eq k ''negotiation-timeout'' then (True, c\<lparr>negotiation_timeout := value\<rparr>)
          else if strcmp_eq k ''connect-timeout'' then (True, c\<lparr>connect_timeout := value\<rparr>)
          else if strcmp_eq k ''idle-timeout'' then (True, c\<lparr>idle_timeout := value\<rparr>)
          else if strcmp_eq k ''max-connections'' then (True, c\<lparr>max_connections := value\<rparr>)
          else (False, c))"

fun config_get_key :: "config option \<Rightarrow> char list option \<Rightarrow> int option \<Rightarrow> bool \<times> int option" where
  "config_get_key (Some c) (Some k) (Some v) =
     (if strcmp_eq k ''negotiation-timeout'' then (True, Some (negotiation_timeout c))
      else if strcmp_eq k ''connect-timeout'' then (True, Some (connect_timeout c))
      else if strcmp_eq k ''idle-timeout'' then (True, Some (idle_timeout c))
      else if strcmp_eq k ''max-connections'' then (True, Some (max_connections c))
      else (False, Some v))"
| "config_get_key _ _ v = (False, v)"

definition config_is_key :: "char list option \<Rightarrow> bool" where
  "config_is_key key = fst (config_get_key (Some config_init) key (Some 0))"

section \<open>The contract\<close>

text \<open>The last accepted update of a key in a sequence of updates, or the initial setting \<open>d\<close>.\<close>

definition last_accepted :: "(char list \<times> int) list \<Rightarrow> char list \<Rightarrow> int option \<Rightarrow> int option" where
  "last_accepted ups k d = fold (\<lambda>(k', v) a. if cstr k = cstr k' \<and> 0 \<le> v then Some v else a) ups d"

locale setting_store =
  fixes known :: "char list \<Rightarrow> bool"
    and look :: "'c \<Rightarrow> char list \<Rightarrow> int option"
    and update :: "'c \<Rightarrow> char list \<Rightarrow> int \<Rightarrow> bool \<times> 'c"
  assumes look_known: "look c k \<noteq> None \<longleftrightarrow> known k"
    and update_ok: "update c k v = (ok, c') \<Longrightarrow> ok = (known k \<and> 0 \<le> v)
        \<and> (\<forall>k'. look c' k' = (if ok \<and> cstr k' = cstr k then Some v else look c k'))"
begin

lemma updates:
  "known k \<Longrightarrow> look (fold (\<lambda>(k', v) c. snd (update c k' v)) ups c) k = last_accepted ups k (look c k)"
proof (induction ups arbitrary: c)
  case Nil
  then show ?case by (simp add: last_accepted_def)
next
  case (Cons u ups)
  obtain k' v where u: "u = (k', v)" by (cases u)
  obtain ok c' where up: "update c k' v = (ok, c')" by (cases "update c k' v")
  from update_ok [OF up] have l: "look c' k = (if ok \<and> cstr k = cstr k' then Some v else look c k)"
    and ok: "ok = (known k' \<and> 0 \<le> v)" and l': "look c' k' = (if ok then Some v else look c k')" by auto
  have "cstr k = cstr k' \<Longrightarrow> known k'"
    using update_ok [of c k 0 True] update_ok [of c k 0 "fst (update c k 0)" "snd (update c k 0)"]
      look_known Cons.prems by (metis not_None_eq order_refl prod.collapse)
  then show ?case using Cons.IH [OF Cons.prems, of c'] u up l ok
    by (auto simp: last_accepted_def)
qed

end

definition config_look :: "config \<Rightarrow> char list \<Rightarrow> int option" where
  "config_look c k = (case config_get_key (Some c) (Some k) (Some 0) of (ok, v) \<Rightarrow> if ok then v else None)"

interpretation cfg: setting_store "\<lambda>k. config_is_key (Some k)" config_look "\<lambda>c k v. config_set_key c (Some k) v"
proof (unfold_locales, goal_cases)
  case (1 c k)
  show ?case by (simp add: config_look_def config_is_key_def)
next
  case (2 c k v ok c')
  then show ?case
    by (auto simp: config_set_key_def config_look_def config_is_key_def strcmp_eq_def split: if_splits)
qed

section \<open>Properties\<close>

text \<open>C35: reading back what was set. After any sequence of \<^verbatim>\<open>config_set_key\<close> calls, with valid and
  invalid keys and values mixed, \<^verbatim>\<open>config_get_key\<close> of a known key returns the value of the last call for
  that key whose value was not negative, or the initial setting if there was none; no call for one key
  affects another. The known keys are exactly the four names, and a null pointer is rejected.\<close>

theorem config_last_write_wins:
  "config_get_key (Some (fold (\<lambda>(k', v) c. snd (config_set_key c (Some k') v)) ups c)) (Some k) (Some d) =
     (if config_is_key (Some k)
      then (True, last_accepted ups k (snd (config_get_key (Some c) (Some k) (Some d))))
      else (False, Some d))
   \<and> (config_is_key key \<longleftrightarrow> (\<exists>s. key = Some s \<and>
        cstr s \<in> {''negotiation-timeout'', ''connect-timeout'', ''idle-timeout'', ''max-connections''}))
   \<and> config_set_key c None v = (False, c)"
proof (intro conjI)
  have shape: "config_get_key (Some c') (Some k) (Some d) =
      (if config_is_key (Some k) then (True, config_look c' k) else (False, Some d))" for c'
    by (simp add: config_look_def config_is_key_def)
  show "config_get_key (Some (fold (\<lambda>(k', v) c. snd (config_set_key c (Some k') v)) ups c)) (Some k) (Some d) =
     (if config_is_key (Some k)
      then (True, last_accepted ups k (snd (config_get_key (Some c) (Some k) (Some d))))
      else (False, Some d))"
    using cfg.updates [of k ups c] unfolding shape by simp
  show "config_is_key key \<longleftrightarrow> (\<exists>s. key = Some s \<and>
        cstr s \<in> {''negotiation-timeout'', ''connect-timeout'', ''idle-timeout'', ''max-connections''})"
    by (cases key) (auto simp: config_is_key_def strcmp_eq_def)
  show "config_set_key c None v = (False, c)" by (simp add: config_set_key_def)
qed

end
