(* ===== verification/Metrics.thy ===== *)
theory Metrics
  imports Prelude
begin

text \<open>
  \<^verbatim>\<open>src/shared/metrics.c\<close>: the counters of the server, 64-bit unsigned integers that wrap around, and
  the snapshot the management protocol reports.
\<close>

record metrics =
  m_conn_accepted :: u64
  m_conn_closed :: u64
  m_conn_rejected :: u64
  m_auth_fail :: u64
  m_origin_ok :: u64
  m_origin_fail :: u64
  m_bytes_c2o :: u64
  m_bytes_o2c :: u64
  m_admin_sessions :: u64

record metrics_snapshot_t =
  s_conn_accepted :: u64
  s_conn_active :: u64
  s_conn_rejected :: u64
  s_auth_fail :: u64
  s_origin_ok :: u64
  s_origin_fail :: u64
  s_bytes_c2o :: u64
  s_bytes_o2c :: u64
  s_admin_sessions :: u64

definition metrics_create :: metrics where
  "metrics_create = \<lparr>m_conn_accepted = 0, m_conn_closed = 0, m_conn_rejected = 0, m_auth_fail = 0,
     m_origin_ok = 0, m_origin_fail = 0, m_bytes_c2o = 0, m_bytes_o2c = 0, m_admin_sessions = 0\<rparr>"

definition metrics_conn_accepted :: "metrics \<Rightarrow> metrics" where
  "metrics_conn_accepted m = m\<lparr>m_conn_accepted := m_conn_accepted m + 1\<rparr>"

definition metrics_conn_closed :: "metrics \<Rightarrow> metrics" where
  "metrics_conn_closed m = m\<lparr>m_conn_closed := m_conn_closed m + 1\<rparr>"

definition metrics_conn_rejected :: "metrics \<Rightarrow> metrics" where
  "metrics_conn_rejected m = m\<lparr>m_conn_rejected := m_conn_rejected m + 1\<rparr>"

definition metrics_auth_fail :: "metrics \<Rightarrow> metrics" where
  "metrics_auth_fail m = m\<lparr>m_auth_fail := m_auth_fail m + 1\<rparr>"

definition metrics_origin_ok :: "metrics \<Rightarrow> metrics" where
  "metrics_origin_ok m = m\<lparr>m_origin_ok := m_origin_ok m + 1\<rparr>"

definition metrics_origin_fail :: "metrics \<Rightarrow> metrics" where
  "metrics_origin_fail m = m\<lparr>m_origin_fail := m_origin_fail m + 1\<rparr>"

definition metrics_add_bytes_c2o :: "u64 \<Rightarrow> metrics \<Rightarrow> metrics" where
  "metrics_add_bytes_c2o n m = m\<lparr>m_bytes_c2o := m_bytes_c2o m + n\<rparr>"

definition metrics_add_bytes_o2c :: "u64 \<Rightarrow> metrics \<Rightarrow> metrics" where
  "metrics_add_bytes_o2c n m = m\<lparr>m_bytes_o2c := m_bytes_o2c m + n\<rparr>"

definition metrics_admin_session_open :: "metrics \<Rightarrow> metrics" where
  "metrics_admin_session_open m = m\<lparr>m_admin_sessions := m_admin_sessions m + 1\<rparr>"

definition metrics_admin_session_close :: "metrics \<Rightarrow> metrics" where
  "metrics_admin_session_close m =
     (if m_admin_sessions m > 0 then m\<lparr>m_admin_sessions := m_admin_sessions m - 1\<rparr> else m)"

definition metrics_snapshot :: "metrics \<Rightarrow> metrics_snapshot_t" where
  "metrics_snapshot m =
     \<lparr>s_conn_accepted = m_conn_accepted m,
      s_conn_active = m_conn_accepted m - m_conn_closed m,
      s_conn_rejected = m_conn_rejected m,
      s_auth_fail = m_auth_fail m,
      s_origin_ok = m_origin_ok m,
      s_origin_fail = m_origin_fail m,
      s_bytes_c2o = m_bytes_c2o m,
      s_bytes_o2c = m_bytes_o2c m,
      s_admin_sessions = m_admin_sessions m\<rparr>"

section \<open>The events the counters count\<close>

datatype metric_event =
  Accepted | Closed | Rejected | Auth_Fail | Origin_Ok | Origin_Fail | C2O u64 | O2C u64 | Admin_Open | Admin_Close

fun metrics_event :: "metric_event \<Rightarrow> metrics \<Rightarrow> metrics" where
  "metrics_event Accepted = metrics_conn_accepted"
| "metrics_event Closed = metrics_conn_closed"
| "metrics_event Rejected = metrics_conn_rejected"
| "metrics_event Auth_Fail = metrics_auth_fail"
| "metrics_event Origin_Ok = metrics_origin_ok"
| "metrics_event Origin_Fail = metrics_origin_fail"
| "metrics_event (C2O n) = metrics_add_bytes_c2o n"
| "metrics_event (O2C n) = metrics_add_bytes_o2c n"
| "metrics_event Admin_Open = metrics_admin_session_open"
| "metrics_event Admin_Close = metrics_admin_session_close"

lemmas metrics_defs = metrics_create_def metrics_conn_accepted_def metrics_conn_closed_def
  metrics_conn_rejected_def metrics_auth_fail_def metrics_origin_ok_def metrics_origin_fail_def
  metrics_add_bytes_c2o_def metrics_add_bytes_o2c_def metrics_admin_session_open_def
  metrics_admin_session_close_def metrics_snapshot_def

fun c2o_of :: "metric_event \<Rightarrow> u64" where
  "c2o_of (C2O n) = n"
| "c2o_of _ = 0"

fun o2c_of :: "metric_event \<Rightarrow> u64" where
  "o2c_of (O2C n) = n"
| "o2c_of _ = 0"

fun admin_of :: "metric_event \<Rightarrow> nat \<Rightarrow> nat" where
  "admin_of Admin_Open n = Suc n"
| "admin_of Admin_Close n = n - 1"
| "admin_of _ n = n"

definition tally :: "metric_event \<Rightarrow> metric_event list \<Rightarrow> u64" where
  "tally e evs = of_nat (count_list evs e)"

lemma tally_simps [simp]: "tally e [] = 0" "tally e (x # xs) = (if x = e then tally e xs + 1 else tally e xs)"
  by (simp_all add: tally_def)

lemma metrics_fold:
  "m_conn_accepted (fold metrics_event evs m) = m_conn_accepted m + tally Accepted evs
   \<and> m_conn_closed (fold metrics_event evs m) = m_conn_closed m + tally Closed evs
   \<and> m_conn_rejected (fold metrics_event evs m) = m_conn_rejected m + tally Rejected evs
   \<and> m_auth_fail (fold metrics_event evs m) = m_auth_fail m + tally Auth_Fail evs
   \<and> m_origin_ok (fold metrics_event evs m) = m_origin_ok m + tally Origin_Ok evs
   \<and> m_origin_fail (fold metrics_event evs m) = m_origin_fail m + tally Origin_Fail evs
   \<and> m_bytes_c2o (fold metrics_event evs m) = m_bytes_c2o m + sum_list (map c2o_of evs)
   \<and> m_bytes_o2c (fold metrics_event evs m) = m_bytes_o2c m + sum_list (map o2c_of evs)"
proof (induction evs arbitrary: m)
  case (Cons e evs)
  then show ?case by (cases e) (simp_all add: metrics_defs add.assoc add.commute)
qed simp

lemma admin_fold:
  "unat (m_admin_sessions m) + length evs < 2 ^ 64 \<Longrightarrow>
   unat (m_admin_sessions (fold metrics_event evs m)) = fold admin_of evs (unat (m_admin_sessions m))"
proof (induction evs arbitrary: m)
  case (Cons e evs)
  let ?s = "unat (m_admin_sessions m)" and ?s' = "unat (m_admin_sessions (metrics_event e m))"
  have step: "?s' = admin_of e ?s"
  proof (cases e)
    case Admin_Open
    then have "unat (m_admin_sessions m + 1) = Suc ?s"
      using Cons.prems by (simp add: unat_word_ariths)
    with Admin_Open show ?thesis by (simp add: metrics_defs)
  next
    case Admin_Close
    then show ?thesis by (simp add: metrics_defs unat_minus_one word_gt_0 unat_eq_0)
  qed (simp_all add: metrics_defs)
  moreover have "admin_of e ?s \<le> Suc ?s" by (cases e) auto
  ultimately show ?case using Cons.IH [of "metrics_event e m"] Cons.prems by simp
qed simp

section \<open>Properties\<close>

text \<open>the snapshot reports the history. After any sequence of events from a fresh set of counters,
  every counter is the number of its events and every byte total the sum of its transfers, modulo
  2^64, and the active connections are the accepted less the closed ones.\<close>

lemma metrics_snapshot_counts:
  fixes evs :: "metric_event list"
  defines "s \<equiv> metrics_snapshot (fold metrics_event evs metrics_create)"
  shows "s_conn_accepted s = of_nat (count_list evs Accepted)
    \<and> s_conn_active s = of_nat (count_list evs Accepted) - of_nat (count_list evs Closed)
    \<and> s_conn_rejected s = of_nat (count_list evs Rejected)
    \<and> s_auth_fail s = of_nat (count_list evs Auth_Fail)
    \<and> s_origin_ok s = of_nat (count_list evs Origin_Ok)
    \<and> s_origin_fail s = of_nat (count_list evs Origin_Fail)
    \<and> s_bytes_c2o s = sum_list (map c2o_of evs)
    \<and> s_bytes_o2c s = sum_list (map o2c_of evs)"
  using metrics_fold [of evs metrics_create]
  by (simp add: s_def metrics_snapshot_def tally_def metrics_create_def)

end
