(* ===== verification/Access_Log.thy ===== *)
theory Access_Log
  imports C_Library
begin

text \<open>
  \<^verbatim>\<open>src/shared/access_log.c\<close>: the access log, one line of six tab-separated fields per event. The
  stream is the text written to it so far. The time stamp is an argument: it is the text that
  \<^verbatim>\<open>strftime\<close> gives for the current time.
\<close>

abbreviation (input) TAB :: char where "TAB \<equiv> CHR 0x09"
abbreviation (input) LF :: char where "LF \<equiv> CHR 0x0A"

record access_log =
  al_file :: string
  al_is_stderr :: bool

text \<open>
  \<open>alloc\<close>: whether \<^verbatim>\<open>calloc\<close> succeeds; \<open>err\<close>: what is on \<^verbatim>\<open>stderr\<close>; \<open>fopen\<close> gives the text of the file
  opened for appending, or nothing when it cannot be opened.
\<close>

definition access_log_create :: "bool \<Rightarrow> string \<Rightarrow> (char list \<Rightarrow> string option) \<Rightarrow> char list option \<Rightarrow> access_log option" where
  "access_log_create alloc err fopen path =
     (if \<not> alloc then None
      else case path of
        None \<Rightarrow> Some \<lparr>al_file = err, al_is_stderr = True\<rparr>
      | Some p \<Rightarrow> (case fopen p of None \<Rightarrow> None | Some txt \<Rightarrow> Some \<lparr>al_file = txt, al_is_stderr = False\<rparr>))"

definition write_timestamp :: "string \<Rightarrow> string \<Rightarrow> string" where
  "write_timestamp now f = f @ now"

text \<open>\<^verbatim>\<open>user ? user : "-"\<close>, printed with \<^verbatim>\<open>%s\<close>.\<close>

definition or_text :: "string \<Rightarrow> char list option \<Rightarrow> string" where
  "or_text d s = (case s of None \<Rightarrow> d | Some x \<Rightarrow> cstr x)"

definition access_log_open :: "string \<Rightarrow> char list option \<Rightarrow> char list \<Rightarrow> u16 \<Rightarrow> access_log \<Rightarrow> access_log" where
  "access_log_open now user dest port log =
     log\<lparr>al_file := write_timestamp now (al_file log)
        @ [TAB] @ or_text ''-'' user @ [TAB] @ cstr dest @ '':'' @ dec (unat port)
        @ [TAB] @ ''-'' @ [TAB] @ ''-'' @ [TAB] @ ''OPEN'' @ [LF]\<rparr>"

definition access_log_close :: "string \<Rightarrow> char list option \<Rightarrow> char list \<Rightarrow> u16 \<Rightarrow> u64 \<Rightarrow> u64 \<Rightarrow> access_log \<Rightarrow> access_log" where
  "access_log_close now user dest port bytes_c2o bytes_o2c log =
     log\<lparr>al_file := write_timestamp now (al_file log)
        @ [TAB] @ or_text ''-'' user @ [TAB] @ cstr dest @ '':'' @ dec (unat port)
        @ [TAB] @ dec (unat bytes_c2o) @ [TAB] @ dec (unat bytes_o2c) @ [TAB] @ ''CLOSE'' @ [LF]\<rparr>"

definition access_log_fail :: "string \<Rightarrow> char list option \<Rightarrow> char list option \<Rightarrow> u16 \<Rightarrow> char list option \<Rightarrow> access_log \<Rightarrow> access_log" where
  "access_log_fail now user dest port reason log =
     log\<lparr>al_file := write_timestamp now (al_file log)
        @ [TAB] @ or_text ''-'' user @ [TAB] @ or_text ''-'' dest @ '':'' @ dec (unat port)
        @ [TAB] @ ''-'' @ [TAB] @ ''-'' @ [TAB] @ ''FAIL: '' @ or_text ''unknown'' reason @ [LF]\<rparr>"

section \<open>Reading a log back\<close>

fun split_on :: "char \<Rightarrow> string \<Rightarrow> string list" where
  "split_on d [] = [[]]"
| "split_on d (c # cs) =
     (if c = d then [] # split_on d cs
      else case split_on d cs of [] \<Rightarrow> [[c]] | f # fs \<Rightarrow> (c # f) # fs)"

text \<open>The records of a log: its lines (what follows the last newline is dropped), split at tabs.\<close>

definition log_records :: "string \<Rightarrow> string list list" where
  "log_records txt = map (split_on TAB) (butlast (split_on LF txt))"

definition plain :: "string \<Rightarrow> bool" where
  "plain s \<longleftrightarrow> TAB \<notin> set s \<and> LF \<notin> set s"

lemma split_on_nonempty [simp]: "split_on d s \<noteq> []"
  by (induction s) (auto split: list.splits)

lemma split_on_plain: "d \<notin> set s \<Longrightarrow> split_on d s = [s]"
  by (induction s) auto

lemma split_on_append: "split_on d (s @ d # t) = split_on d s @ split_on d t"
proof (induction s)
  case (Cons c s)
  then show ?case by (cases "split_on d s") auto
qed simp

lemma split_on_front: "d \<notin> set s \<Longrightarrow> split_on d (s @ d # t) = s # split_on d t"
  by (simp add: split_on_append split_on_plain)

lemma dec_plain_text [simp]: "plain (dec n)"
  using dec_plain [of TAB n] dec_plain [of LF n] by (auto simp: plain_def isspace_def)

lemma plain_simps [simp]: "plain []" "plain (c # s) \<longleftrightarrow> c \<noteq> TAB \<and> c \<noteq> LF \<and> plain s"
  "plain (s @ t) \<longleftrightarrow> plain s \<and> plain t"
  by (auto simp: plain_def)

lemma plain_cstr [simp]: "plain s \<Longrightarrow> plain (cstr s)"
  by (auto simp: plain_def cstr_def dest: set_takeWhileD)

definition opt_plain :: "char list option \<Rightarrow> bool" where
  "opt_plain s = (case s of None \<Rightarrow> True | Some x \<Rightarrow> plain x)"

lemma plain_or_text [simp]: "opt_plain s \<Longrightarrow> plain d \<Longrightarrow> plain (or_text d s)"
  by (auto simp: opt_plain_def or_text_def split: option.splits)

text \<open>One line appended to a text that ends a line is one more record with the six fields.\<close>

definition at_line_start :: "string \<Rightarrow> bool" where
  "at_line_start txt \<longleftrightarrow> txt = [] \<or> last txt = LF"

lemma log_records_append:
  assumes "at_line_start txt" and "plain a" "plain b" "plain c" "plain d" "plain e" "plain f"
  shows "log_records (txt @ a @ TAB # b @ TAB # c @ TAB # d @ TAB # e @ TAB # f @ [LF])
    = log_records txt @ [[a, b, c, d, e, f]]
    \<and> at_line_start (txt @ a @ TAB # b @ TAB # c @ TAB # d @ TAB # e @ TAB # f @ [LF])"
proof -
  let ?l = "a @ TAB # b @ TAB # c @ TAB # d @ TAB # e @ TAB # f"
  have l: "split_on TAB ?l = [a, b, c, d, e, f]" "split_on LF (?l @ [LF]) = [?l, []]"
    using assms(2-) by (simp add: split_on_front split_on_plain plain_def,
      subst split_on_front, auto simp: plain_def)
  have "log_records (txt @ ?l @ [LF]) = log_records txt @ [[a, b, c, d, e, f]]"
  proof (cases "txt = []")
    case True
    with l show ?thesis by (simp add: log_records_def)
  next
    case False
    with assms(1) obtain u where "txt = u @ [LF]" by (metis append_butlast_last_id at_line_start_def)
    with l show ?thesis
      using split_on_append [of LF u "?l @ [LF]"] split_on_append [of LF u "[]"]
      by (simp add: log_records_def butlast_append)
  qed
  moreover have "at_line_start (txt @ ?l @ [LF])" by (simp add: at_line_start_def)
  ultimately show ?thesis by simp
qed

section \<open>Properties\<close>

text \<open>C36: one event, one record. On a log that ends at a line, with a time stamp, user, destination and
  reason free of tabs and newlines, each of the three calls adds exactly one record of six fields to
  what a reader that splits lines at newlines and fields at tabs sees: time, user (or a dash),
  destination with the port in decimal, the two byte counts in decimal (or dashes), and the event. What
  was in the log stays, and the log ends at a line again.\<close>

theorem access_log_one_record:
  assumes "at_line_start (al_file log)" and "plain now" and "opt_plain user" and "plain dest" and "opt_plain reason"
  shows "log_records (al_file (access_log_open now user dest port log)) = log_records (al_file log)
       @ [[now, or_text ''-'' user, cstr dest @ '':'' @ dec (unat port), ''-'', ''-'', ''OPEN'']]
    \<and> log_records (al_file (access_log_close now user dest port c2o o2c log)) = log_records (al_file log)
       @ [[now, or_text ''-'' user, cstr dest @ '':'' @ dec (unat port), dec (unat c2o), dec (unat o2c), ''CLOSE'']]
    \<and> log_records (al_file (access_log_fail now user (Some dest) port reason log)) = log_records (al_file log)
       @ [[now, or_text ''-'' user, cstr dest @ '':'' @ dec (unat port), ''-'', ''-'',
           ''FAIL: '' @ or_text ''unknown'' reason]]
    \<and> at_line_start (al_file (access_log_open now user dest port log))
    \<and> at_line_start (al_file (access_log_close now user dest port c2o o2c log))
    \<and> at_line_start (al_file (access_log_fail now user (Some dest) port reason log))"
proof -
  have u: "plain (or_text ''-'' user)" and r: "plain (or_text ''unknown'' reason)" using assms by simp_all
  have d: "plain (cstr dest @ '':'' @ dec (unat port))" using assms by simp
  note rec = log_records_append [OF assms(1,2) u d]
  show ?thesis
    using rec [of "''-''" "''-''" "''OPEN''"] rec [of "dec (unat c2o)" "dec (unat o2c)" "''CLOSE''"]
      rec [of "''-''" "''-''" "''FAIL: '' @ or_text ''unknown'' reason"] r
    by (simp add: access_log_open_def access_log_close_def access_log_fail_def write_timestamp_def
        or_text_def [of "''-''" "Some dest"])
qed

theorem access_log_one_record_witness:
  "log_records (al_file (access_log_open ''2026'' (Some ''ana'') ''a.b'' 80 \<lparr>al_file = [], al_is_stderr = True\<rparr>))
     = [[''2026'', ''ana'', ''a.b:'' @ dec 80, ''-'', ''-'', ''OPEN'']]"
  using access_log_one_record [of "\<lparr>al_file = [], al_is_stderr = True\<rparr>" "''2026''" "Some ''ana''" "''a.b''" None 80]
  by (simp add: at_line_start_def opt_plain_def or_text_def log_records_def)

text \<open>C40: the fields are not escaped, so a destination can forge a record. A single \<^verbatim>\<open>access_log_open\<close>
  for a destination that contains the end of one line and the start of another leaves exactly the log
  that two genuine connections would have left, the second one with a time, a user and a destination of
  the client's choosing.\<close>

theorem access_log_forged_record:
  assumes "NUL \<notin> set d1" and "NUL \<notin> set t2" and "NUL \<notin> set u2" and "NUL \<notin> set d2"
  shows "access_log_open t1 u1
      (d1 @ '':'' @ dec (unat p1) @ [TAB] @ ''-'' @ [TAB] @ ''-'' @ [TAB] @ ''OPEN'' @ [LF]
        @ t2 @ [TAB] @ u2 @ [TAB] @ d2) p2 log
    = access_log_open t2 (Some u2) d2 p2 (access_log_open t1 u1 d1 p1 log)"
proof -
  have "NUL \<notin> set (dec n)" for n using dec_plain [of NUL n] by auto
  with assms show ?thesis
    by (simp add: access_log_open_def write_timestamp_def or_text_def cstr_append cstr_id)
qed

theorem access_log_forged_record_witness:
  "access_log_open ''2026'' None (''x:'' @ dec 80 @ [TAB] @ ''-'' @ [TAB] @ ''-'' @ [TAB] @ ''OPEN'' @ [LF]
        @ ''2020'' @ [TAB] @ ''root'' @ [TAB] @ ''y'') 22 \<lparr>al_file = [], al_is_stderr = True\<rparr>
   = access_log_open ''2020'' (Some ''root'') ''y'' 22
       (access_log_open ''2026'' None ''x'' 80 \<lparr>al_file = [], al_is_stderr = True\<rparr>)"
  using access_log_forged_record [of "''x''" "''2020''" "''root''" "''y''" "''2026''" None 80 22] by simp

end
