(* ===== verification/Netutils.thy ===== *)
theory Netutils
  imports Buffer C_Library Hello
begin

text \<open>
  \<^verbatim>\<open>src/shared/netutils.c\<close>: the text form of a socket address, the two blocking transfers, and the
  SOCKS reply for a failed \<^verbatim>\<open>connect\<close>. The kernel is a state \<open>'w\<close> with functions for the system calls;
  what the code relies on is stated in \<open>stream_sends\<close> and \<open>stream_recvs\<close>.
\<close>

section \<open>Errors and replies\<close>

datatype errno = ECONNREFUSED | ENETUNREACH | EHOSTUNREACH | ETIMEDOUT | EAGAIN | EINTR | EINPROGRESS
  | EBADF | EPIPE | ECONNRESET | ENOTCONN | EMFILE | ENOMEM | E_other nat

fun errno_to_socks_reply :: "errno \<Rightarrow> byte" where
  "errno_to_socks_reply ECONNREFUSED = SOCKS_REPLY_CONN_REFUSED"
| "errno_to_socks_reply ENETUNREACH = SOCKS_REPLY_NET_UNREACHABLE"
| "errno_to_socks_reply EHOSTUNREACH = SOCKS_REPLY_HOST_UNREACHABLE"
| "errno_to_socks_reply ETIMEDOUT = SOCKS_REPLY_TTL_EXPIRED"
| "errno_to_socks_reply _ = SOCKS_REPLY_GENERAL_FAILURE"

section \<open>Blocking transfers\<close>

lemma buffer_read_adv_decreases:
  "0 < n \<Longrightarrow> buffer_read_adv b n = Some b' \<Longrightarrow> buffer_can_read b' \<Longrightarrow>
   b_write b' - b_read b' < b_write b - b_read b"
  by (auto simp: buffer_read_adv_def buffer_compact_def buffer_can_read_def Let_def split: if_splits)

text \<open>
  \<open>tx w bs\<close> is \<^verbatim>\<open>send(fd, ptr, n, MSG_NOSIGNAL)\<close> with \<open>bs\<close> the \<open>n\<close> bytes at \<open>ptr\<close>: the value it
  returns, the value of \<^verbatim>\<open>errno\<close> after the call, and the new kernel state. An \<^verbatim>\<open>errno\<close> of \<open>None\<close> is 0.
  The result is the value of \<^verbatim>\<open>ret\<close>, the buffer and the kernel.
\<close>

function sock_blocking_write ::
  "('w \<Rightarrow> byte list \<Rightarrow> int \<times> errno option \<times> 'w) \<Rightarrow> 'w \<Rightarrow> buffer \<Rightarrow> (errno option \<times> buffer \<times> 'w) option" where
  "sock_blocking_write tx w b = do {
     (ptr, n) \<leftarrow> buffer_read_ptr b;
     let (nwritten, err, w') = tx w (buffer_peek b n);
     if nwritten > 0 then do {
       b' \<leftarrow> buffer_read_adv b nwritten;
       if buffer_can_read b' then sock_blocking_write tx w' b' else Some (None, b', w')
     }
     else Some (err, b, w')
   }"
  by pat_completeness auto

termination
  by (relation "measure (\<lambda>(tx, w, b). b_write b - b_read b)") (auto dest: buffer_read_adv_decreases)

declare sock_blocking_write.simps [simp del]

text \<open>The inner loop of \<^verbatim>\<open>sock_blocking_copy\<close>: \<open>bs\<close> are the \<^verbatim>\<open>nread\<close> bytes at \<^verbatim>\<open>out_ptr\<close>. A kernel that
  claims to have sent more than it was given ends the loop, as \<^verbatim>\<open>nread\<close> is signed.\<close>

function copy_out ::
  "('w \<Rightarrow> byte list \<Rightarrow> int \<times> errno option \<times> 'w) \<Rightarrow> 'w \<Rightarrow> byte list \<Rightarrow> bool \<times> errno option \<times> 'w" where
  "copy_out tx w bs =
     (let (nwritten, err, w') = tx w bs
      in if nwritten > 0
         then (if int (length bs) - nwritten > 0 then copy_out tx w' (drop (nat nwritten) bs)
               else (True, None, w'))
         else (False, err, w'))"
  by pat_completeness auto
termination
  by (relation "measure (\<lambda>(tx, w, bs). length bs)") auto

declare copy_out.simps [simp del]

text \<open>
  \<open>rx w\<close> is \<^verbatim>\<open>recv(source, buf, 4096, 0)\<close>: the bytes received, or nothing for the end of the stream and
  for an error, which the loop does not tell apart. Whether it ends depends on the peer, so a copy that
  goes on forever is \<open>None\<close>. The result is \<^verbatim>\<open>ret\<close>: \<open>None\<close> for 0.
\<close>

partial_function (option) sock_blocking_copy ::
  "('w \<Rightarrow> byte list option \<times> 'w) \<Rightarrow> ('w \<Rightarrow> byte list \<Rightarrow> int \<times> errno option \<times> 'w) \<Rightarrow> 'w
    \<Rightarrow> (errno option \<times> 'w) option" where
  "sock_blocking_copy rx tx w =
     (case rx w of
        (None, w1) \<Rightarrow> Some (None, w1)
      | (Some bs, w1) \<Rightarrow>
          (case copy_out tx w1 bs of
             (ok, err, w2) \<Rightarrow> if ok then sock_blocking_copy rx tx w2 else Some (err, w2)))"

section \<open>What the kernel promises\<close>

text \<open>
  \<open>sent\<close> is what the peer of the socket will read: a \<^verbatim>\<open>send\<close> takes a prefix of what it is offered, never
  more, and takes nothing when it fails. \<open>await\<close> is what the source has yet to deliver, in the pieces in
  which it will arrive.
\<close>

definition stream_sends :: "('w \<Rightarrow> byte list \<Rightarrow> int \<times> errno option \<times> 'w) \<Rightarrow> ('w \<Rightarrow> byte list) \<Rightarrow> bool" where
  "stream_sends tx sent \<longleftrightarrow> (\<forall>w bs. case tx w bs of (n, err, w') \<Rightarrow>
     n \<le> int (length bs) \<and> sent w' = sent w @ take (nat n) bs)"

definition stream_recvs :: "('w \<Rightarrow> byte list option \<times> 'w) \<Rightarrow> ('w \<Rightarrow> byte list \<Rightarrow> int \<times> errno option \<times> 'w)
    \<Rightarrow> ('w \<Rightarrow> byte list) \<Rightarrow> ('w \<Rightarrow> byte list list) \<Rightarrow> bool" where
  "stream_recvs rx tx sent await \<longleftrightarrow>
     (\<forall>w. case rx w of (r, w') \<Rightarrow> sent w' = sent w \<and>
        (case r of None \<Rightarrow> await w = [] \<and> await w' = [] | Some bs \<Rightarrow> await w = bs # await w'))
     \<and> (\<forall>w bs. await (snd (snd (tx w bs))) = await w)"

text \<open>A concrete kernel: a plan of how much each \<^verbatim>\<open>send\<close> takes at most, then a full pipe.\<close>

record pipe =
  pi_plan :: "nat list"
  pi_in :: "byte list list"
  pi_out :: "byte list"

fun pipe_send :: "pipe \<Rightarrow> byte list \<Rightarrow> int \<times> errno option \<times> pipe" where
  "pipe_send w bs =
     (case pi_plan w of
        [] \<Rightarrow> (-1, Some EPIPE, w)
      | k # ks \<Rightarrow> (int (min k (length bs)), if k = 0 \<or> bs = [] then Some EAGAIN else None,
                  w\<lparr>pi_plan := ks, pi_out := pi_out w @ take k bs\<rparr>))"

fun pipe_recv :: "pipe \<Rightarrow> byte list option \<times> pipe" where
  "pipe_recv w = (case pi_in w of [] \<Rightarrow> (None, w) | bs # more_in \<Rightarrow>
     (Some bs, w\<lparr>pi_in := more_in\<rparr>))"

lemma pipe_sends: "stream_sends pipe_send pi_out"
  by (auto simp: stream_sends_def min_def split: list.splits)

lemma stream_sendsD:
  "stream_sends tx sent \<Longrightarrow> tx w bs = (n, err, w') \<Longrightarrow> n \<le> int (length bs) \<and> sent w' = sent w @ take (nat n) bs"
  unfolding stream_sends_def by (metis (mono_tags, lifting) case_prod_conv)

section \<open>The text form of an address\<close>

text \<open>\<^verbatim>\<open>strncat(dst, src, n)\<close>: at most \<open>n\<close> characters and a NUL behind the string in \<open>dst\<close>.\<close>

definition strncat :: "char list \<Rightarrow> char list \<Rightarrow> nat \<Rightarrow> char list option" where
  "strncat dst src n =
     (if NUL \<in> set dst then arr_blit dst (strlen dst) (take n (cstr src) @ [NUL]) else None)"

definition ntohs :: "u16 \<Rightarrow> u16" where
  "ntohs p = or (push_bit 8 p) (drop_bit 8 p)"

text \<open>The family, the address and the port in network byte order; any other family is a number.\<close>

datatype sockaddr = AF_INET "byte list" u16 | AF_INET6 "byte list" u16 | AF_OTHER nat

fun sa_handled :: "sockaddr \<Rightarrow> bool" where
  "sa_handled (AF_OTHER _) = False"
| "sa_handled _ = True"

fun sa_port :: "sockaddr \<Rightarrow> u16" where
  "sa_port (AF_INET _ p) = p"
| "sa_port (AF_INET6 _ p) = p"
| "sa_port (AF_OTHER _) = 0"

text \<open>
  \<open>ntop\<close> is the text that \<^verbatim>\<open>inet_ntop\<close> gives for an address; the call fails, and writes nothing, when
  the text and its NUL do not fit in \<^verbatim>\<open>buffsize\<close>.
\<close>

definition inet_ntop :: "(sockaddr \<Rightarrow> string) \<Rightarrow> sockaddr \<Rightarrow> char list \<Rightarrow> nat \<Rightarrow> (bool \<times> char list) option" where
  "inet_ntop ntop addr buff buffsize =
     (if length (ntop addr) < buffsize
      then do { b \<leftarrow> arr_blit buff 0 (ntop addr @ [NUL]); Some (True, b) }
      else Some (False, buff))"

definition sockaddr_to_human :: "(sockaddr \<Rightarrow> string) \<Rightarrow> char list \<Rightarrow> nat \<Rightarrow> sockaddr option \<Rightarrow> char list option" where
  "sockaddr_to_human ntop buff buffsize addr =
     (case addr of
        None \<Rightarrow> strncpy buff ''null'' buffsize
      | Some a \<Rightarrow> do {
          buff \<leftarrow> (if sa_handled a then do {
                     (ok, b) \<leftarrow> inet_ntop ntop a buff buffsize;
                     if ok then Some b
                     else do { b \<leftarrow> strncpy b ''unknown ip'' buffsize; arr_set b (int buffsize - 1) NUL }
                   } else strncpy buff ''unknown'' buffsize);
          buff \<leftarrow> strncat buff '':'' buffsize;
          buff \<leftarrow> arr_set buff (int buffsize - 1) NUL;
          let len = strlen buff;
          buff \<leftarrow> (if sa_handled a
                   then (if buffsize - len = 0 then Some buff
                         else arr_blit buff len (take (buffsize - len - 1) (dec (unat (ntohs (sa_port a)))) @ [NUL]))
                   else Some buff);
          arr_set buff (int buffsize - 1) NUL
        })"

lemma strncat_string:
  assumes "NUL \<notin> set s" and "NUL \<notin> set t" and "length s + length t < length s + length r" and "length t \<le> n"
  shows "\<exists>r'. strncat (s @ NUL # r) t n = Some (s @ t @ NUL # r') \<and> length t + length r' = length r"
proof -
  have "strlen (s @ NUL # r) = length s" "cstr t = t" using assms by (simp_all add: strlen_def cstr_id)
  with assms show ?thesis
    by (intro exI [of _ "drop (length t) r"]) (simp add: strncat_def arr_blit_def)
qed

lemma dec_length: "n < 10 ^ k \<Longrightarrow> 0 < k \<Longrightarrow> length (dec n) \<le> k"
proof (induction n arbitrary: k rule: dec.induct)
  case (1 n)
  show ?case
  proof (cases "n < 10")
    case True
    then show ?thesis using 1(3) by (subst dec.simps) simp
  next
    case False
    then obtain j where k: "k = Suc j" "0 < j" using 1(2,3) by (cases k; cases "k - 1") auto
    then have "n div 10 < 10 ^ j" using 1(2) by (simp add: less_mult_imp_div_less)
    from 1(1) [OF False this k(2)] False k show ?thesis by (subst dec.simps) simp
  qed
qed

section \<open>Properties\<close>

text \<open>with a buffer of at least \<^verbatim>\<open>SOCKADDR_TO_HUMAN_MIN\<close> (52) bytes, \<^verbatim>\<open>sockaddr_to_human\<close> on an IPv4
  or IPv6 address stays inside the buffer and leaves in it the address, a colon and the port, in
  decimal and in host order, for every text of an address that fits \<^verbatim>\<open>INET6_ADDRSTRLEN\<close>.\<close>

lemma sockaddr_to_human_text:
  assumes "length buff = n" and "52 \<le> n" and "sa_handled a"
    and "length (ntop a) \<le> 45" and "NUL \<notin> set (ntop a)"
  shows "returns (sockaddr_to_human ntop buff n (Some a)) (\<lambda>b. length b = n
    \<and> cstr b = ntop a @ '':'' @ dec (unat (ntohs (sa_port a))))"
proof -
  let ?s = "ntop a" and ?d = "dec (unat (ntohs (sa_port a)))"
  have d: "NUL \<notin> set ?d" using dec_plain [of NUL] by blast
  have "unat (ntohs (sa_port a)) < 10 ^ 5" using unsigned_less [of "ntohs (sa_port a)", where 'a = nat]
    by (simp add: less_trans [where y = 65536])
  then have dl: "length ?d \<le> 5" by (rule dec_length) simp
  let ?r = "drop (length ?s + 1) buff"
  have b1: "inet_ntop ntop a buff n = Some (True, ?s @ NUL # ?r)"
    using assms by (simp add: inet_ntop_def arr_blit_def)
  have rl: "length ?r = n - length ?s - 1" using assms by simp
  have "length ?s + length '':'' < length ?s + length ?r" using assms rl by simp
  from strncat_string [OF assms(5) _ this, of n] assms(2) obtain r1
    where b2: "strncat (?s @ NUL # ?r) '':'' n = Some (?s @ '':'' @ NUL # r1)" "length r1 = n - length ?s - 2"
    using rl by auto
  have idx: "int n - 1 = int (n - 1)" using assms by simp
  have r1: "5 \<le> length r1" using b2(2) assms by simp
  then obtain r2 z where z: "r1 = r2 @ [z]" by (cases r1 rule: rev_cases) auto
  have pos: "n - 1 = length (?s @ '':'' @ NUL # r2)" using b2(2) z r1 by simp
  have b3: "arr_set (?s @ '':'' @ NUL # r1) (int n - 1) NUL = Some (?s @ '':'' @ NUL # r2 @ [NUL])"
    unfolding idx pos z by (subst arr_set_in) (simp_all add: list_update_append)
  have len: "strlen (?s @ '':'' @ NUL # r2 @ [NUL]) = length ?s + 1"
    using assms by (simp add: strlen_def cstr_append)
  have n: "n = length ?s + length r2 + 3" using pos assms(2) by simp
  have fit: "length ?d \<le> Suc (length r2)" using r1 z dl by simp
  define r3 where "r3 = drop (length ?d) (r2 @ [NUL])"
  have r3l: "length r3 = Suc (length r2) - length ?d" by (simp add: r3_def)
  have b4: "arr_blit (?s @ '':'' @ NUL # r2 @ [NUL]) (length ?s + 1) (take (n - (length ?s + 1) - 1) ?d @ [NUL])
      = Some (?s @ '':'' @ ?d @ NUL # r3)"
    using fit n by (simp add: arr_blit_def r3_def)
  have pos4: "n - 1 = length (?s @ '':'' @ ?d) + length r3" using n r3l fit by simp
  obtain r4 where r4: "(NUL # r3)[length r3 := NUL] = NUL # r4" "length r4 = length r3"
    by (cases r3 rule: rev_cases) (simp_all add: list_update_append)
  have b5: "arr_set (?s @ '':'' @ ?d @ NUL # r3) (int n - 1) NUL = Some (?s @ '':'' @ ?d @ NUL # r4)"
    unfolding idx pos4 using r4(1) by (subst arr_set_in) (simp_all add: list_update_append)
  have "n - (length ?s + 1) \<noteq> 0" using n by simp
  then have run: "sockaddr_to_human ntop buff n (Some a) = Some (?s @ '':'' @ ?d @ NUL # r4)"
    using assms(3) b1 b2(1) b3 b4 b5 len by (simp add: sockaddr_to_human_def)
  show ?thesis unfolding run using pos4 r4(2) n assms d by (simp add: cstr_append)
qed

lemma sockaddr_to_human_text_witness:
  "returns (sockaddr_to_human (\<lambda>_. ''10.0.0.1'') (replicate 60 NUL) 60 (Some (AF_INET [10, 0, 0, 1] 0x5000)))
     (\<lambda>b. length b = 60 \<and> cstr b = ''10.0.0.1:'' @ dec (unat (ntohs 0x5000)))"
  by (rule returns_mono, rule sockaddr_to_human_text) auto

text \<open>In a smaller buffer that the address fills to the last byte, the colon goes one byte too far.\<close>

lemma sockaddr_to_human_overruns:
  assumes "length buff = n" and "sa_handled a" and "length (ntop a) + 1 = n" and "NUL \<notin> set (ntop a)"
  shows "sockaddr_to_human ntop buff n (Some a) = None"
proof -
  have "inet_ntop ntop a buff n = Some (True, ntop a @ [NUL])"
    using assms by (simp add: inet_ntop_def arr_blit_def)
  moreover have "strncat (ntop a @ [NUL]) '':'' n = None"
    using assms by (simp add: strncat_def strlen_def cstr_append arr_blit_def flip: assms(3))
  ultimately show ?thesis using assms(2) by (simp add: sockaddr_to_human_def)
qed

text \<open>\<^verbatim>\<open>errno_to_socks_reply\<close> gives the reply codes of RFC 1928 for the four errors it knows and a
  general failure for every other error; it never reports success, so a failed connection is never
  announced as established.\<close>

lemma errno_reply_never_success:
  "errno_to_socks_reply e \<noteq> SOCKS_REPLY_SUCCEEDED
   \<and> (errno_to_socks_reply e \<noteq> SOCKS_REPLY_GENERAL_FAILURE
        \<longleftrightarrow> e \<in> {ECONNREFUSED, ENETUNREACH, EHOSTUNREACH, ETIMEDOUT})
   \<and> errno_to_socks_reply ECONNREFUSED = 5 \<and> errno_to_socks_reply ENETUNREACH = 3
   \<and> errno_to_socks_reply EHOSTUNREACH = 4 \<and> errno_to_socks_reply ETIMEDOUT = 6"
  by (cases e) auto

text \<open>\<^verbatim>\<open>sock_blocking_write\<close> on a buffer with something in it. However the kernel splits the data,
  no assertion fails, the loop ends, and what the peer receives followed by what is still buffered is
  exactly what was buffered: nothing is lost, repeated or reordered across partial writes. If it
  returns 0 without the kernel having failed with \<^verbatim>\<open>errno\<close> 0, the buffer is empty.\<close>

lemma sock_blocking_write_delivers:
  assumes "buffer_wf b" and "stream_sends tx sent" and "buffer_can_read b"
  shows "returns (sock_blocking_write tx w b) (\<lambda>(ret, b', w'). buffer_wf b'
    \<and> sent w' @ buffer_contents b' = sent w @ buffer_contents b
    \<and> (ret = None \<and> (\<forall>w bs. fst (tx w bs) \<le> 0 \<longrightarrow> fst (snd (tx w bs)) \<noteq> None) \<longrightarrow> buffer_contents b' = []))"
  using assms(1,3)
proof (induction "length (buffer_contents b)" arbitrary: b w rule: less_induct)
  case less
  let ?c = "buffer_contents b"
  have rp: "buffer_read_ptr b = Some (b_read b, length ?c)"
    using less.prems by (auto simp: buffer_read_ptr_def buffer_wf_def)
  have pk: "buffer_peek b (length ?c) = ?c" using buf.peek_ok [OF less.prems(1) le_refl] by simp
  obtain n err w' where s: "tx w ?c = (n, err, w')" by (cases "tx w ?c") auto
  from stream_sendsD [OF assms(2) s] have n: "n \<le> int (length ?c)" "sent w' = sent w @ take (nat n) ?c" by auto
  show ?case
  proof (cases "n > 0")
    case False
    then have "fst (tx w ?c) \<le> 0" "fst (snd (tx w ?c)) = err" using s by auto
    then have no: "(err = None \<and> (\<forall>w bs. fst (tx w bs) \<le> 0 \<longrightarrow> fst (snd (tx w bs)) \<noteq> None)) = False" by blast
    show ?thesis using n s less.prems False
      by (subst sock_blocking_write.simps) (simp add: rp pk no del: not_None_eq)
  next
    case True
    then have nn: "nat n \<le> length ?c" "int (nat n) = n" using n(1) by auto
    from buf.advance_ok [OF less.prems(1) nn(1)] obtain b1
      where b1: "buffer_read_adv b n = Some b1" "buffer_wf b1" "buffer_contents b1 = drop (nat n) ?c"
      unfolding nn(2) by (auto simp: returns_iff)
    show ?thesis
    proof (cases "buffer_can_read b1")
      case False
      then have "buffer_contents b1 = []" using buf.can_read_iff [OF b1(2)] by simp
      with b1 n s True False show ?thesis
        by (subst sock_blocking_write.simps) (simp add: rp pk)
    next
      case more: True
      have "length (buffer_contents b1) < length ?c" unfolding b1(3) using True nn by simp
      from less.hyps [OF this b1(2) more, of w'] b1 n s True more show ?thesis
        by (subst sock_blocking_write.simps) (simp add: rp pk)
    qed
  qed
qed

lemma sock_blocking_write_delivers_witness:
  "returns (sock_blocking_write pipe_send \<lparr>pi_plan = [1, 2, 9], pi_in = [], pi_out = [9]\<rparr> (buffer_of 4 [1, 2, 3, 4]))
     (\<lambda>(ret, b', w'). pi_out w' @ buffer_contents b' = [9, 1, 2, 3, 4])"
proof -
  have "buffer_can_read (buffer_of 4 [1, 2, 3, 4])" by (simp add: buffer_can_read_def buffer_of_def)
  from sock_blocking_write_delivers [OF _ pipe_sends this, of "\<lparr>pi_plan = [1, 2, 9], pi_in = [], pi_out = [9]\<rparr>"]
  show ?thesis by (auto elim!: returns_mono)
qed

lemma copy_out_fails: "copy_out tx w bs = (False, err, w') \<Longrightarrow> \<exists>w1 bs1. fst (tx w1 bs1) \<le> 0 \<and> fst (snd (tx w1 bs1)) = err"
proof (induction tx w bs rule: copy_out.induct)
  case (1 tx w bs)
  obtain n e w1 where s: "tx w bs = (n, e, w1)" by (cases "tx w bs") auto
  show ?case
  proof (cases "0 < n")
    case False
    with s "1.prems" show ?thesis
      by (intro exI [of _ w] exI [of _ bs]) (simp add: copy_out.simps [of tx w bs])
  next
    case True
    with s "1.prems" "1.IH" [OF s [symmetric] refl refl True] show ?thesis
      by (auto simp: copy_out.simps [of tx w bs] split: if_splits)
  qed
qed

lemma copy_out_delivers:
  "stream_sends tx sent \<Longrightarrow> (\<And>w bs. await (snd (snd (tx w bs))) = await w) \<Longrightarrow> bs \<noteq> [] \<Longrightarrow>
   copy_out tx w bs = (ok, err, w') \<Longrightarrow> await w' = await w
   \<and> (\<exists>k. sent w' = sent w @ take k bs) \<and> (ok \<longrightarrow> sent w' = sent w @ bs)"
proof (induction tx w bs arbitrary: ok err w' rule: copy_out.induct)
  case (1 tx w bs)
  obtain n e w1 where s: "tx w bs = (n, e, w1)" by (cases "tx w bs") auto
  from stream_sendsD [OF 1(2) s] have n: "n \<le> int (length bs)" "sent w1 = sent w @ take (nat n) bs" by auto
  have a1: "await w1 = await w" using 1(3) [of w bs] s by simp
  consider "\<not> 0 < n" | "0 < n" "\<not> n < int (length bs)" | "0 < n" "n < int (length bs)" by blast
  then show ?case
  proof cases
    case 1
    with s n a1 "1.prems"(4) show ?thesis by (auto simp: copy_out.simps [of tx w bs])
  next
    case 2
    with s n a1 "1.prems"(4) show ?thesis
      by (auto simp: copy_out.simps [of tx w bs] intro: exI [of _ "length bs"])
  next
    case 3
    then have rec: "copy_out tx w1 (drop (nat n) bs) = (ok, err, w')"
      using s "1.prems"(4) by (simp add: copy_out.simps [of tx w bs])
    have ne: "drop (nat n) bs \<noteq> []" and lt: "0 < int (length bs) - n" using 3 by simp_all
    from "1.IH" [OF s [symmetric] refl refl 3(1) lt "1.prems"(1,2) ne rec] obtain k
      where w': "await w' = await w1" "sent w' = sent w1 @ take k (drop (nat n) bs)"
        "ok \<longrightarrow> sent w' = sent w1 @ drop (nat n) bs" by blast
    have "sent w' = sent w @ take (nat n + k) bs" using w'(2) n(2) by (simp add: take_add)
    moreover have "ok \<longrightarrow> sent w' = sent w @ bs" using w'(3) n(2) by (metis append.assoc append_take_drop_id)
    ultimately show ?thesis using w'(1) a1 by auto
  qed
qed

text \<open>\<^verbatim>\<open>sock_blocking_copy\<close> from a source that ends after finitely many pieces. The loops end, what the
  destination receives is a prefix of the source's data, and if no \<^verbatim>\<open>send\<close> fails (a failing one sets
  \<^verbatim>\<open>errno\<close>, so \<^verbatim>\<open>ret\<close> is not 0) it is all of it, whatever the sizes of the pieces and of the partial
  writes.\<close>

lemma sock_blocking_copy_delivers:
  assumes "stream_sends tx sent" and "stream_recvs rx tx sent await" and "[] \<notin> set (await w)"
    and errno_set: "\<And>w bs. fst (tx w bs) \<le> 0 \<Longrightarrow> fst (snd (tx w bs)) \<noteq> None"
  shows "returns (sock_blocking_copy rx tx w) (\<lambda>(ret, w').
    (\<exists>k. sent w' = sent w @ take k (concat (await w))) \<and> (ret = None \<longrightarrow> sent w' = sent w @ concat (await w)))"
  using assms(3)
proof (induction "await w" arbitrary: w)
  case Nil
  obtain r w1 where r: "rx w = (r, w1)" by (cases "rx w")
  with assms(2) Nil have "r = None" "sent w1 = sent w"
    by (auto simp: stream_recvs_def split: prod.splits option.splits) (metis list.distinct(1) not_None_eq)+
  with r Nil show ?case by (subst sock_blocking_copy.simps) simp
next
  case (Cons bs rest)
  obtain r w1 where r: "rx w = (r, w1)" by (cases "rx w")
  have law: "case rx w of (r, w') \<Rightarrow> sent w' = sent w \<and>
        (case r of None \<Rightarrow> await w = [] \<and> await w' = [] | Some bs \<Rightarrow> await w = bs # await w')"
    by (rule assms(2) [unfolded stream_recvs_def, THEN conjunct1, THEN spec])
  with r Cons(2) have w1: "r = Some bs" "sent w1 = sent w" "await w1 = rest"
    by (auto split: option.splits)
  have keep: "\<And>w bs. await (snd (snd (tx w bs))) = await w" using assms(2) by (simp add: stream_recvs_def)
  have ne: "bs \<noteq> []" using Cons by (metis list.set_intros(1))
  obtain ok err w2 where c: "copy_out tx w1 bs = (ok, err, w2)" by (cases "copy_out tx w1 bs") auto
  from copy_out_delivers [OF assms(1) keep ne c] obtain k
    where w2: "await w2 = rest" "sent w2 = sent w @ take k bs" "ok \<longrightarrow> sent w2 = sent w @ bs"
    unfolding w1(2,3) by blast
  show ?case
  proof (cases ok)
    case True
    have "[] \<notin> set (await w2)" using Cons w2(1) by (metis list.set_intros(2))
    from Cons.hyps(1) [OF w2(1) [symmetric] this]
    have "returns (sock_blocking_copy rx tx w2) (\<lambda>(ret, w').
      (\<exists>k. sent w' = sent w @ bs @ take k (concat rest)) \<and> (ret = None \<longrightarrow> sent w' = sent w @ bs @ concat rest))"
      using True w2 by simp
    then have "returns (sock_blocking_copy rx tx w2) (\<lambda>(ret, w').
      (\<exists>k. sent w' = sent w @ take k (concat (await w))) \<and> (ret = None \<longrightarrow> sent w' = sent w @ concat (await w)))"
    proof (rule returns_mono, clarify)
      fix ret w' k
      assume a: "sent w' = sent w @ bs @ take k (concat rest)" "ret = None \<longrightarrow> sent w' = sent w @ bs @ concat rest"
      have "bs @ take k (concat rest) = take (length bs + k) (concat (await w))"
        by (simp flip: Cons(2))
      with a show "(\<exists>k. sent w' = sent w @ take k (concat (await w)))
          \<and> (ret = None \<longrightarrow> sent w' = sent w @ concat (await w))"
        by (metis Cons.hyps(2) concat.simps(2))
    qed
    then show ?thesis using r w1 c True by (subst sock_blocking_copy.simps) simp
  next
    case False
    obtain w1' bs1 where "fst (tx w1' bs1) \<le> 0" "fst (snd (tx w1' bs1)) = err"
      using c False copy_out_fails [of tx w1 bs err w2] by auto
    with errno_set have "err \<noteq> None" by blast
    moreover have "take k bs = take (min k (length bs)) (concat (await w))"
      by (cases "k \<le> length bs") (simp_all flip: Cons(2))
    ultimately show ?thesis using r w1 c False w2(2)
      by (subst sock_blocking_copy.simps) auto
  qed
qed

lemma sock_blocking_copy_delivers_witness:
  "returns (sock_blocking_copy pipe_recv pipe_send \<lparr>pi_plan = [1, 9, 9], pi_in = [[1, 2], [3]], pi_out = []\<rparr>)
     (\<lambda>(ret, w'). ret = None \<longrightarrow> pi_out w' = [1, 2, 3])"
proof -
  let ?w = "\<lparr>pi_plan = [1, 9, 9], pi_in = [[1, 2], [3]], pi_out = []\<rparr>"
  have recvs: "stream_recvs pipe_recv pipe_send pi_out pi_in"
    by (auto simp: stream_recvs_def split: list.splits)
  have errs: "fst (snd (pipe_send w bs)) \<noteq> None" if "fst (pipe_send w bs) \<le> 0" for w bs
    using that by (cases "pi_plan w") (auto simp: min_def split: if_splits)
  have "[] \<notin> set (pi_in ?w)" by simp
  from sock_blocking_copy_delivers [OF pipe_sends recvs this errs] show ?thesis
    by (rule returns_mono) auto
qed

end
