(* ===== verification/Stm.thy ===== *)
theory Stm
  imports Prelude
begin

text \<open>
  \<^verbatim>\<open>src/shared/stm.c\<close>: the state machine engine that drives a connection. A machine is a table of
  states, each with optional callbacks; \<^verbatim>\<open>current\<close> is the index of the current state in the table, or
  none before the first event.

  The callbacks act on a world \<open>'w\<close> (with the selector key \<open>'k\<close> as their argument) that holds the
  machine itself, so \<^verbatim>\<open>current\<close> is a cell of the world: \<open>sm_get\<close> and \<open>sm_set\<close> access it. They fail when
  the memory of the machine is gone, as they would after a callback that frees it. \<^verbatim>\<open>abort()\<close> is \<open>None\<close>.
\<close>

section \<open>The engine\<close>

record ('k, 'w) state_definition =
  sd_state :: nat
  on_arrival :: "(nat \<Rightarrow> 'k \<Rightarrow> 'w \<Rightarrow> 'w option) option"
  on_departure :: "(nat \<Rightarrow> 'k \<Rightarrow> 'w \<Rightarrow> 'w option) option"
  on_read_ready :: "('k \<Rightarrow> 'w \<Rightarrow> (nat \<times> 'w) option) option"
  on_write_ready :: "('k \<Rightarrow> 'w \<Rightarrow> (nat \<times> 'w) option) option"
  on_block_ready :: "('k \<Rightarrow> 'w \<Rightarrow> (nat \<times> 'w) option) option"

record ('k, 'w) state_machine =
  sm_initial :: nat
  sm_states :: "('k, 'w) state_definition list"
  sm_max_state :: nat
  sm_get :: "'w \<Rightarrow> nat option option"
  sm_set :: "nat option \<Rightarrow> 'w \<Rightarrow> 'w option"

text \<open>The check that the table is numbered, from index \<open>i\<close> with \<open>k\<close> iterations left.\<close>

fun stm_check :: "('k, 'w) state_machine \<Rightarrow> nat \<Rightarrow> nat \<Rightarrow> unit option" where
  "stm_check stm i 0 = Some ()"
| "stm_check stm i (Suc k) = do {
     d \<leftarrow> arr_get (sm_states stm) (int i);
     if i \<noteq> sd_state d then None else stm_check stm (Suc i) k
   }"

definition stm_init :: "('k, 'w) state_machine \<Rightarrow> 'w \<Rightarrow> 'w option" where
  "stm_init stm w = do {
     stm_check stm 0 (Suc (sm_max_state stm));
     if sm_initial stm < sm_max_state stm then sm_set stm None w else None
   }"

text \<open>Run an optional arrival or departure callback of the state at index \<open>i\<close>.\<close>

definition run_hook :: "(nat \<Rightarrow> 'k \<Rightarrow> 'w \<Rightarrow> 'w option) option \<Rightarrow> nat \<Rightarrow> 'k \<Rightarrow> 'w \<Rightarrow> 'w option" where
  "run_hook h st key w = (case h of None \<Rightarrow> Some w | Some f \<Rightarrow> f st key w)"

definition handle_first :: "('k, 'w) state_machine \<Rightarrow> 'k \<Rightarrow> 'w \<Rightarrow> 'w option" where
  "handle_first stm key w = do {
     cur \<leftarrow> sm_get stm w;
     case cur of
       Some _ \<Rightarrow> Some w
     | None \<Rightarrow> do {
         w1 \<leftarrow> sm_set stm (Some (sm_initial stm)) w;
         d \<leftarrow> arr_get (sm_states stm) (int (sm_initial stm));
         run_hook (on_arrival d) (sd_state d) key w1
       }
   }"

definition jump :: "('k, 'w) state_machine \<Rightarrow> nat \<Rightarrow> 'k \<Rightarrow> 'w \<Rightarrow> 'w option" where
  "jump stm next_st key w =
     (if next_st > sm_max_state stm then None
      else do {
        cur \<leftarrow> sm_get stm w;
        if cur = Some next_st then Some w
        else do {
          w1 \<leftarrow> (case cur of
                  None \<Rightarrow> Some w
                | Some c \<Rightarrow> do {
                    d \<leftarrow> arr_get (sm_states stm) (int c);
                    run_hook (on_departure d) (sd_state d) key w
                  });
          w2 \<leftarrow> sm_set stm (Some next_st) w1;
          d \<leftarrow> arr_get (sm_states stm) (int next_st);
          run_hook (on_arrival d) (sd_state d) key w2
        }
      })"

text \<open>The three event handlers differ in the callback they pick.\<close>

definition stm_handle ::
  "(('k, 'w) state_definition \<Rightarrow> ('k \<Rightarrow> 'w \<Rightarrow> (nat \<times> 'w) option) option)
    \<Rightarrow> ('k, 'w) state_machine \<Rightarrow> 'k \<Rightarrow> 'w \<Rightarrow> (nat \<times> 'w) option" where
  "stm_handle pick stm key w = do {
     w1 \<leftarrow> handle_first stm key w;
     cur \<leftarrow> sm_get stm w1;
     c \<leftarrow> cur;
     d \<leftarrow> arr_get (sm_states stm) (int c);
     f \<leftarrow> pick d;
     (ret, w2) \<leftarrow> f key w1;
     w3 \<leftarrow> jump stm ret key w2;
     Some (ret, w3)
   }"

definition stm_handler_read :: "('k, 'w) state_machine \<Rightarrow> 'k \<Rightarrow> 'w \<Rightarrow> (nat \<times> 'w) option" where
  "stm_handler_read = stm_handle on_read_ready"

definition stm_handler_write :: "('k, 'w) state_machine \<Rightarrow> 'k \<Rightarrow> 'w \<Rightarrow> (nat \<times> 'w) option" where
  "stm_handler_write = stm_handle on_write_ready"

definition stm_handler_block :: "('k, 'w) state_machine \<Rightarrow> 'k \<Rightarrow> 'w \<Rightarrow> (nat \<times> 'w) option" where
  "stm_handler_block = stm_handle on_block_ready"

definition stm_handler_close :: "('k, 'w) state_machine \<Rightarrow> 'k \<Rightarrow> 'w \<Rightarrow> 'w option" where
  "stm_handler_close stm key w = do {
     cur \<leftarrow> sm_get stm w;
     case cur of
       None \<Rightarrow> Some w
     | Some c \<Rightarrow> do {
         d \<leftarrow> arr_get (sm_states stm) (int c);
         run_hook (on_departure d) (sd_state d) key w
       }
   }"

definition stm_state :: "('k, 'w) state_machine \<Rightarrow> 'w \<Rightarrow> nat option" where
  "stm_state stm w = do {
     cur \<leftarrow> sm_get stm w;
     case cur of
       None \<Rightarrow> Some (sm_initial stm)
     | Some c \<Rightarrow> do { d \<leftarrow> arr_get (sm_states stm) (int c); Some (sd_state d) }
   }"

section \<open>Well-formed machines\<close>

definition stm_wf :: "('k, 'w) state_machine \<Rightarrow> bool" where
  "stm_wf stm \<longleftrightarrow> sm_initial stm < sm_max_state stm \<and> sm_max_state stm < length (sm_states stm)
     \<and> (\<forall>i \<le> sm_max_state stm. sd_state (sm_states stm ! i) = i)"

lemma stm_check_iff:
  "stm_check stm i k = Some () \<longleftrightarrow>
   (\<forall>j. i \<le> j \<and> j < i + k \<longrightarrow> j < length (sm_states stm) \<and> sd_state (sm_states stm ! j) = j)"
proof (induction k arbitrary: i)
  case (Suc k)
  show ?case
  proof (cases "i < length (sm_states stm) \<and> sd_state (sm_states stm ! i) = i")
    case True
    have "(\<forall>j. i \<le> j \<and> j < i + Suc k \<longrightarrow> j < length (sm_states stm) \<and> sd_state (sm_states stm ! j) = j)
      \<longleftrightarrow> (\<forall>j. Suc i \<le> j \<and> j < Suc i + k \<longrightarrow> j < length (sm_states stm) \<and> sd_state (sm_states stm ! j) = j)"
      using True by (metis Suc_leD Suc_leI add_Suc_right add_Suc_shift le_neq_implies_less)
    with Suc.IH [of "Suc i"] True show ?thesis by simp
  next
    case False
    then have "stm_check stm i (Suc k) = None"
      by (cases "i < length (sm_states stm)") (auto simp: arr_get_def)
    moreover have "i \<le> i \<and> i < i + Suc k" by simp
    ultimately show ?thesis using False by (metis option.distinct(1))
  qed
qed simp

text \<open>
  A callback that behaves: it returns, and leaves the current state of the machine alone. \<open>P\<close> is an
  invariant of the world that the callbacks keep.
\<close>

definition hook_ok :: "('w \<Rightarrow> bool) \<Rightarrow> ('k, 'w) state_machine \<Rightarrow> (nat \<Rightarrow> 'k \<Rightarrow> 'w \<Rightarrow> 'w option) option \<Rightarrow> bool" where
  "hook_ok P stm h \<longleftrightarrow> (\<forall>f st key w. h = Some f \<longrightarrow> P w \<longrightarrow>
     returns (f st key w) (\<lambda>w'. P w' \<and> sm_get stm w' = sm_get stm w))"

definition event_ok :: "('w \<Rightarrow> bool) \<Rightarrow> ('k, 'w) state_machine \<Rightarrow> ('k \<Rightarrow> 'w \<Rightarrow> (nat \<times> 'w) option) option \<Rightarrow> bool" where
  "event_ok P stm h \<longleftrightarrow> (\<forall>f key w. h = Some f \<longrightarrow> P w \<longrightarrow>
     returns (f key w) (\<lambda>(r, w'). r \<le> sm_max_state stm \<and> P w' \<and> sm_get stm w' = sm_get stm w))"

text \<open>The cell of the current state is a cell, and holds an index of the table.\<close>

definition cell_ok :: "('w \<Rightarrow> bool) \<Rightarrow> ('k, 'w) state_machine \<Rightarrow> bool" where
  "cell_ok P stm \<longleftrightarrow> (\<forall>w. P w \<longrightarrow>
     returns (sm_get stm w) (\<lambda>cur. \<forall>c. cur = Some c \<longrightarrow> c \<le> sm_max_state stm)
     \<and> (\<forall>n \<le> sm_max_state stm. returns (sm_set stm (Some n) w) (\<lambda>w'. P w' \<and> sm_get stm w' = Some (Some n))))"

lemma run_hook_ok:
  "hook_ok P stm h \<Longrightarrow> P w \<Longrightarrow> returns (run_hook h st key w) (\<lambda>w'. P w' \<and> sm_get stm w' = sm_get stm w)"
  by (auto simp: hook_ok_def run_hook_def split: option.splits)

definition machine_ok :: "('w \<Rightarrow> bool) \<Rightarrow> ('k, 'w) state_machine \<Rightarrow> bool" where
  "machine_ok P stm \<longleftrightarrow> stm_wf stm \<and> cell_ok P stm
     \<and> (\<forall>i \<le> sm_max_state stm. hook_ok P stm (on_arrival (sm_states stm ! i))
          \<and> hook_ok P stm (on_departure (sm_states stm ! i)))"

lemma machine_state: "machine_ok P stm \<Longrightarrow> i \<le> sm_max_state stm \<Longrightarrow>
   arr_get (sm_states stm) (int i) = Some (sm_states stm ! i) \<and> sd_state (sm_states stm ! i) = i"
  by (auto simp: machine_ok_def stm_wf_def)

lemma machine_set: "machine_ok P stm \<Longrightarrow> P w \<Longrightarrow> n \<le> sm_max_state stm \<Longrightarrow>
   returns (sm_set stm (Some n) w) (\<lambda>w'. P w' \<and> sm_get stm w' = Some (Some n))"
  by (simp add: machine_ok_def cell_ok_def)

lemma event_okD: "event_ok P stm (Some f) \<Longrightarrow> P w \<Longrightarrow>
   returns (f key w) (\<lambda>(r, w'). r \<le> sm_max_state stm \<and> P w' \<and> sm_get stm w' = sm_get stm w)"
  by (simp add: event_ok_def)

lemma handle_first_ok:
  assumes ok: "machine_ok P stm" and w: "P w"
  shows "returns (handle_first stm key w) (\<lambda>w'. P w' \<and> (\<exists>c \<le> sm_max_state stm. sm_get stm w' = Some (Some c)
     \<and> sm_get stm w \<in> {Some None, Some (Some c)} \<and> (sm_get stm w = Some None \<longrightarrow> c = sm_initial stm)))"
proof -
  from ok w obtain cur where cur: "sm_get stm w = Some cur" "\<forall>c. cur = Some c \<longrightarrow> c \<le> sm_max_state stm"
    by (auto simp: machine_ok_def cell_ok_def returns_iff)
  show ?thesis
  proof (cases cur)
    case (Some c)
    then show ?thesis using cur w by (simp add: handle_first_def)
  next
    case None
    have i: "sm_initial stm \<le> sm_max_state stm" using ok by (simp add: machine_ok_def stm_wf_def)
    then obtain w1 where w1: "sm_set stm (Some (sm_initial stm)) w = Some w1" "P w1"
        "sm_get stm w1 = Some (Some (sm_initial stm))"
      using machine_set [OF ok w] by (auto simp: returns_iff)
    have "hook_ok P stm (on_arrival (sm_states stm ! sm_initial stm))" using ok i by (simp add: machine_ok_def)
    from run_hook_ok [OF this w1(2), of "sm_initial stm" key] show ?thesis
      using None cur w1 i machine_state [OF ok i] by (auto simp: handle_first_def elim!: returns_mono)
  qed
qed

lemma jump_ok:
  assumes ok: "machine_ok P stm" and w: "P w" and n: "n \<le> sm_max_state stm" and c: "sm_get stm w = Some (Some c)"
  shows "returns (jump stm n key w) (\<lambda>w'. P w' \<and> sm_get stm w' = Some (Some n))"
proof (cases "c = n")
  case True
  then show ?thesis using n c w by (simp add: jump_def)
next
  case False
  have cm: "c \<le> sm_max_state stm" using ok w c by (auto simp: machine_ok_def cell_ok_def)
  have "hook_ok P stm (on_departure (sm_states stm ! c))" using ok cm by (simp add: machine_ok_def)
  from run_hook_ok [OF this w, of c key] obtain w1
    where w1: "run_hook (on_departure (sm_states stm ! c)) c key w = Some w1" "P w1"
    by (auto simp: returns_iff)
  obtain w2 where w2: "sm_set stm (Some n) w1 = Some w2" "P w2" "sm_get stm w2 = Some (Some n)"
    using machine_set [OF ok w1(2) n] by (auto simp: returns_iff)
  have "hook_ok P stm (on_arrival (sm_states stm ! n))" using ok n by (simp add: machine_ok_def)
  from run_hook_ok [OF this w2(2), of n key] show ?thesis
    using False n c w1 w2 machine_state [OF ok cm] machine_state [OF ok n]
    by (auto simp: jump_def elim!: returns_mono)
qed

section \<open>Properties\<close>

text \<open>\<^verbatim>\<open>stm_init\<close> accepts exactly the tables the engine can run: all the identifiers up to
  \<^verbatim>\<open>max_state\<close> are in the table at their own index, and the initial state is below \<^verbatim>\<open>max_state\<close>. On any
  other table it aborts, and an accepted machine starts with no current state.\<close>

lemma stm_init_accepts:
  "(stm_init stm w \<noteq> None \<longleftrightarrow> stm_wf stm \<and> sm_set stm None w \<noteq> None)
   \<and> (stm_wf stm \<longrightarrow> stm_init stm w = sm_set stm None w)"
proof -
  have "stm_check stm 0 (Suc (sm_max_state stm)) = Some () \<and> sm_initial stm < sm_max_state stm \<longleftrightarrow> stm_wf stm"
    unfolding stm_check_iff stm_wf_def by auto
  then show ?thesis
    by (cases "stm_check stm 0 (Suc (sm_max_state stm))") (auto simp: stm_init_def split: if_splits)
qed

lemma stm_init_accepts_witness:
  "let d = (\<lambda>i. \<lparr>sd_state = i, on_arrival = None, on_departure = None, on_read_ready = None,
        on_write_ready = None, on_block_ready = None\<rparr>);
       stm = \<lparr>sm_initial = 0, sm_states = [d 0, d 1], sm_max_state = 1, sm_get = Some, sm_set = \<lambda>c _. Some c\<rparr>
   in stm_init stm (Some 1) = Some None"
  unfolding Let_def
  by (rule stm_init_accepts [THEN conjunct2, THEN mp, THEN trans])
    (auto simp: stm_wf_def le_Suc_eq)


text \<open>A machine with two states that flip on every read; the world is the current state alone.\<close>

definition flip_state :: "nat \<Rightarrow> (unit, nat option) state_definition" where
  "flip_state i = \<lparr>sd_state = i, on_arrival = None, on_departure = None,
     on_read_ready = Some (\<lambda>_ w. Some (1 - i, w)), on_write_ready = None, on_block_ready = None\<rparr>"

definition flip_machine :: "(unit, nat option) state_machine" where
  "flip_machine = \<lparr>sm_initial = 0, sm_states = [flip_state 0, flip_state 1], sm_max_state = 1,
     sm_get = Some, sm_set = \<lambda>c _. Some c\<rparr>"


end
