(* ===== verification/Selector.thy ===== *)
theory Selector
  imports Netutils
begin

unbundle bit_operations_syntax

text \<open>
  \<^verbatim>\<open>src/shared/selector.c\<close>: the multiplexer. The table of items is a list indexed by file descriptor
  (the null table of a selector not yet allocated is the empty list), the \<^verbatim>\<open>fd_set\<close>s are sets of
  descriptors, the list of finished blocking jobs is the list of their descriptors, newest first.

  Handlers are identifiers \<open>'h\<close>. The operations that call them act on a world \<open>'w\<close> that holds the
  selector; a \<open>host\<close> says where, and what each callback of each handler does. A failed \<^verbatim>\<open>assert\<close>, a call
  through a null pointer or an access outside the table is \<open>None\<close>. The functions get a selector, so the
  comparisons of their argument with \<^verbatim>\<open>NULL\<close> are false.
\<close>

section \<open>Data\<close>

datatype selector_status = SELECTOR_SUCCESS | SELECTOR_ENOMEM | SELECTOR_MAXFD | SELECTOR_IARGS
  | SELECTOR_FDINUSE | SELECTOR_IO

fun selector_error :: "selector_status \<Rightarrow> string" where
  "selector_error SELECTOR_SUCCESS = ''Success''"
| "selector_error SELECTOR_ENOMEM = ''Not enough memory''"
| "selector_error SELECTOR_MAXFD = ''Can't handle any more file descriptors''"
| "selector_error SELECTOR_IARGS = ''Illegal argument''"
| "selector_error SELECTOR_IO = ''I/O error''"
| "selector_error _ = ''something failed''"

abbreviation (input) OP_NOOP :: u32 where "OP_NOOP \<equiv> 0"
abbreviation (input) OP_READ :: u32 where "OP_READ \<equiv> 1"
abbreviation (input) OP_WRITE :: u32 where "OP_WRITE \<equiv> 4"
abbreviation (input) FD_UNUSED :: int where "FD_UNUSED \<equiv> -1"
abbreviation (input) ITEMS_MAX_SIZE :: nat where "ITEMS_MAX_SIZE \<equiv> 1024"

record ('h, 'd) item =
  i_fd :: int
  i_interest :: u32
  i_handler :: "'h option"
  i_data :: "'d option"

record ('h, 'd) fdselector =
  fds :: "('h, 'd) item list"
  max_fd :: int
  master_r :: "int set"
  master_w :: "int set"
  slave_r :: "int set"
  slave_w :: "int set"
  master_t :: "int \<times> int"
  slave_t :: "int \<times> int"
  resolution_jobs :: "int list"

definition fd_size :: "('h, 'd) fdselector \<Rightarrow> nat" where
  "fd_size s = length (fds s)"

record 'd selector_key =
  k_fd :: int
  k_data :: "'d option"

section \<open>The library and its configuration\<close>

record selector_conf =
  conf_signal :: int
  conf_timeout :: "int \<times> int"

text \<open>\<open>masked\<close> and \<open>installed\<close>: whether \<^verbatim>\<open>sigprocmask\<close> and \<^verbatim>\<open>sigaction\<close> succeed.\<close>

definition selector_init :: "bool \<Rightarrow> bool \<Rightarrow> selector_conf \<Rightarrow> selector_status \<times> selector_conf" where
  "selector_init masked installed c =
     (if \<not> masked then (SELECTOR_IO, c) else if \<not> installed then (SELECTOR_IO, c) else (SELECTOR_SUCCESS, c))"

definition selector_close :: selector_status where
  "selector_close = SELECTOR_SUCCESS"

section \<open>The table\<close>

text \<open>The loop that counts the bits of \<open>n\<close>.\<close>

fun bit_count :: "nat \<Rightarrow> nat" where
  "bit_count tmp = (if tmp = 0 then 0 else Suc (bit_count (tmp div 2)))"

declare bit_count.simps [simp del]

definition next_capacity :: "nat \<Rightarrow> nat option" where
  "next_capacity n =
     (let tmp = 2 ^ bit_count n
      in if tmp \<ge> n then Some ((if tmp > ITEMS_MAX_SIZE then ITEMS_MAX_SIZE else tmp) + 1) else None)"

definition item_used :: "('h, 'd) item \<Rightarrow> bool" where
  "item_used it \<longleftrightarrow> FD_UNUSED \<noteq> i_fd it"

text \<open>A cleared item after \<^verbatim>\<open>item_init\<close>.\<close>

definition free_item :: "('h, 'd) item" where
  "free_item = \<lparr>i_fd = FD_UNUSED, i_interest = OP_NOOP, i_handler = None, i_data = None\<rparr>"

text \<open>The largest descriptor in use, over the items up to the current \<^verbatim>\<open>max_fd\<close>.\<close>

fun max_from :: "('h, 'd) item list \<Rightarrow> nat \<Rightarrow> nat \<Rightarrow> int \<Rightarrow> int option" where
  "max_from its i 0 mx = Some mx"
| "max_from its i (Suc k) mx = do {
     it \<leftarrow> arr_get its (int i);
     max_from its (Suc i) k (if item_used it \<and> i_fd it > mx then i_fd it else mx)
   }"

definition items_max_fd :: "('h, 'd) fdselector \<Rightarrow> int option" where
  "items_max_fd s = max_from (fds s) 0 (nat (max_fd s + 1)) 0"

definition items_update_fdset_for_fd :: "('h, 'd) item \<Rightarrow> ('h, 'd) fdselector \<Rightarrow> ('h, 'd) fdselector" where
  "items_update_fdset_for_fd it s =
     (let r = master_r s - {i_fd it};
          w = master_w s - {i_fd it}
      in if item_used it
         then s\<lparr>master_r := if i_interest it AND OP_READ \<noteq> 0 then insert (i_fd it) r else r,
                master_w := if i_interest it AND OP_WRITE \<noteq> 0 then insert (i_fd it) w else w\<rparr>
         else s\<lparr>master_r := r, master_w := w\<rparr>)"

text \<open>
  \<open>mem\<close>: whether \<^verbatim>\<open>calloc\<close> or \<^verbatim>\<open>realloc\<close> succeeds. The sizes stay below \<^verbatim>\<open>SIZE_MAX\<close>, as they are at most
  \<^verbatim>\<open>ITEMS_MAX_SIZE + 1\<close>. What \<^verbatim>\<open>realloc\<close> leaves in the fields of a new item other than \<^verbatim>\<open>fd\<close> is never
  read before \<^verbatim>\<open>selector_register\<close> writes them; here they are cleared.
\<close>

definition ensure_capacity :: "bool \<Rightarrow> ('h, 'd) fdselector \<Rightarrow> nat \<Rightarrow> (selector_status \<times> ('h, 'd) fdselector) option" where
  "ensure_capacity mem s n =
     (if n < fd_size s then Some (SELECTOR_SUCCESS, s)
      else if n > ITEMS_MAX_SIZE then Some (SELECTOR_MAXFD, s)
      else do {
        new_size \<leftarrow> next_capacity n;
        if \<not> mem then Some (SELECTOR_ENOMEM, s)
        else if fds s = [] then Some (SELECTOR_SUCCESS, s\<lparr>fds := replicate new_size free_item\<rparr>)
        else if fd_size s \<le> new_size
             then Some (SELECTOR_SUCCESS, s\<lparr>fds := fds s @ replicate (new_size - fd_size s) free_item\<rparr>)
             else None
      })"

text \<open>\<open>mem0\<close>: whether the \<^verbatim>\<open>malloc\<close> of the selector itself succeeds.\<close>

definition selector_new :: "bool \<Rightarrow> bool \<Rightarrow> selector_conf \<Rightarrow> nat \<Rightarrow> ('h, 'd) fdselector option option" where
  "selector_new mem0 mem conf initial_elements =
     (if \<not> mem0 then Some None
      else do {
        (st, s) \<leftarrow> ensure_capacity mem \<lparr>fds = [], max_fd = 0, master_r = {}, master_w = {}, slave_r = {},
          slave_w = {}, master_t = conf_timeout conf, slave_t = (0, 0), resolution_jobs = []\<rparr> initial_elements;
        Some (if st = SELECTOR_SUCCESS then Some s else None)
      })"

definition INVALID_FD :: "int \<Rightarrow> bool" where
  "INVALID_FD fd \<longleftrightarrow> fd < 0 \<or> fd \<ge> int ITEMS_MAX_SIZE"

section \<open>Registration and interests\<close>

definition selector_register :: "bool \<Rightarrow> int \<Rightarrow> 'h option \<Rightarrow> u32 \<Rightarrow> 'd option \<Rightarrow> ('h, 'd) fdselector \<Rightarrow>
    (selector_status \<times> ('h, 'd) fdselector) option" where
  "selector_register mem fd handler interest data s =
     (if INVALID_FD fd \<or> handler = None then Some (SELECTOR_IARGS, s)
      else do {
        (ret, s) \<leftarrow> (if nat fd > fd_size s then ensure_capacity mem s (nat fd) else Some (SELECTOR_SUCCESS, s));
        if ret \<noteq> SELECTOR_SUCCESS then Some (ret, s)
        else do {
          it \<leftarrow> arr_get (fds s) fd;
          if item_used it then Some (SELECTOR_FDINUSE, s)
          else do {
            let it = \<lparr>i_fd = fd, i_interest = interest, i_handler = handler, i_data = data\<rparr>;
            its \<leftarrow> arr_set (fds s) fd it;
            let s = s\<lparr>fds := its, max_fd := if fd > max_fd s then fd else max_fd s\<rparr>;
            Some (SELECTOR_SUCCESS, items_update_fdset_for_fd it s)
          }
        }
      })"

definition selector_set_interest :: "int \<Rightarrow> u32 \<Rightarrow> ('h, 'd) fdselector \<Rightarrow>
    (selector_status \<times> ('h, 'd) fdselector) option" where
  "selector_set_interest fd i s =
     (if INVALID_FD fd then Some (SELECTOR_IARGS, s)
      else do {
        it \<leftarrow> arr_get (fds s) fd;
        if \<not> item_used it then Some (SELECTOR_IARGS, s)
        else do {
          let it = it\<lparr>i_interest := i\<rparr>;
          its \<leftarrow> arr_set (fds s) fd it;
          Some (SELECTOR_SUCCESS, items_update_fdset_for_fd it (s\<lparr>fds := its\<rparr>))
        }
      })"

definition selector_set_interest_key :: "'d selector_key \<Rightarrow> u32 \<Rightarrow> ('h, 'd) fdselector \<Rightarrow>
    (selector_status \<times> ('h, 'd) fdselector) option" where
  "selector_set_interest_key key i s =
     (if INVALID_FD (k_fd key) then Some (SELECTOR_IARGS, s) else selector_set_interest (k_fd key) i s)"

text \<open>The second half of \<^verbatim>\<open>selector_unregister_fd\<close>, after the close callback.\<close>

definition item_remove :: "int \<Rightarrow> ('h, 'd) fdselector \<Rightarrow> ('h, 'd) fdselector option" where
  "item_remove fd s = do {
     it \<leftarrow> arr_get (fds s) fd;
     let it = it\<lparr>i_interest := OP_NOOP\<rparr>;
     let s = items_update_fdset_for_fd it s;
     its \<leftarrow> arr_set (fds s) fd free_item;
     let s = s\<lparr>fds := its\<rparr>;
     m \<leftarrow> items_max_fd s;
     Some (s\<lparr>max_fd := m\<rparr>)
   }"

section \<open>Operations that call the handlers\<close>

type_synonym ('d, 'w) callback = "('d selector_key \<Rightarrow> 'w \<Rightarrow> 'w option) option"

record ('h, 'd, 'w) host =
  h_sel :: "'w \<Rightarrow> ('h, 'd) fdselector"
  h_put :: "('h, 'd) fdselector \<Rightarrow> 'w \<Rightarrow> 'w"
  handle_read :: "'h \<Rightarrow> ('d, 'w) callback"
  handle_write :: "'h \<Rightarrow> ('d, 'w) callback"
  handle_block :: "'h \<Rightarrow> ('d, 'w) callback"
  handle_close :: "'h \<Rightarrow> ('d, 'w) callback"

definition selector_unregister_fd :: "('h, 'd, 'w) host \<Rightarrow> int \<Rightarrow> 'w \<Rightarrow> (selector_status \<times> 'w) option" where
  "selector_unregister_fd H fd w =
     (if INVALID_FD fd then Some (SELECTOR_IARGS, w)
      else do {
        it \<leftarrow> arr_get (fds (h_sel H w)) fd;
        if \<not> item_used it then Some (SELECTOR_IARGS, w)
        else do {
          h \<leftarrow> i_handler it;
          w \<leftarrow> (case handle_close H h of
                 None \<Rightarrow> Some w
               | Some f \<Rightarrow> f \<lparr>k_fd = i_fd it, k_data = i_data it\<rparr> w);
          s \<leftarrow> item_remove fd (h_sel H w);
          Some (SELECTOR_SUCCESS, h_put H s w)
        }
      })"

text \<open>The loop of \<^verbatim>\<open>selector_destroy\<close>; the memory that is freed after it is not used again.\<close>

fun destroy_from :: "('h, 'd, 'w) host \<Rightarrow> nat list \<Rightarrow> 'w \<Rightarrow> 'w option" where
  "destroy_from H [] w = Some w"
| "destroy_from H (i # is) w = do {
     it \<leftarrow> arr_get (fds (h_sel H w)) (int i);
     if item_used it then do {
       (_, w) \<leftarrow> selector_unregister_fd H (int i) w;
       destroy_from H is w
     } else destroy_from H is w
   }"

definition selector_destroy :: "('h, 'd, 'w) host \<Rightarrow> 'w \<Rightarrow> 'w option" where
  "selector_destroy H w = do {
     w \<leftarrow> destroy_from H [0 ..< fd_size (h_sel H w)] w;
     Some (h_put H ((h_sel H w)\<lparr>resolution_jobs := [], fds := []\<rparr>) w)
   }"

text \<open>One item of \<^verbatim>\<open>handle_iteration\<close>: the key is read once, the item again before each test.\<close>

definition dispatch_one :: "('h, 'd, 'w) host \<Rightarrow> ('h \<Rightarrow> ('d, 'w) callback) \<Rightarrow> u32 \<Rightarrow> int set \<Rightarrow> int \<Rightarrow> nat \<Rightarrow>
    'd selector_key \<Rightarrow> 'w \<Rightarrow> 'w option" where
  "dispatch_one H call oper ready tested i key w =
     (if tested \<in> ready then do {
        it \<leftarrow> arr_get (fds (h_sel H w)) (int i);
        if oper AND i_interest it \<noteq> 0 then do {
          h \<leftarrow> i_handler it;
          f \<leftarrow> call h;
          f key w
        } else Some w
      } else Some w)"

fun handle_items :: "('h, 'd, 'w) host \<Rightarrow> nat list \<Rightarrow> 'w \<Rightarrow> 'w option" where
  "handle_items H [] w = Some w"
| "handle_items H (i # is) w = do {
     it \<leftarrow> arr_get (fds (h_sel H w)) (int i);
     if item_used it then do {
       let key = \<lparr>k_fd = i_fd it, k_data = i_data it\<rparr>;
       w \<leftarrow> dispatch_one H (handle_read H) OP_READ (slave_r (h_sel H w)) (i_fd it) i key w;
       w \<leftarrow> dispatch_one H (handle_write H) OP_WRITE (slave_w (h_sel H w)) (int i) i key w;
       handle_items H is w
     } else handle_items H is w
   }"

definition handle_iteration :: "('h, 'd, 'w) host \<Rightarrow> 'w \<Rightarrow> 'w option" where
  "handle_iteration H w = handle_items H [0 ..< nat (max_fd (h_sel H w) + 1)] w"

fun handle_jobs :: "('h, 'd, 'w) host \<Rightarrow> int list \<Rightarrow> 'w \<Rightarrow> 'w option" where
  "handle_jobs H [] w = Some w"
| "handle_jobs H (j # js) w = do {
     it \<leftarrow> arr_get (fds (h_sel H w)) j;
     if item_used it then do {
       h \<leftarrow> i_handler it;
       f \<leftarrow> handle_block H h;
       w \<leftarrow> f \<lparr>k_fd = i_fd it, k_data = i_data it\<rparr> w;
       handle_jobs H js w
     } else handle_jobs H js w
   }"

text \<open>The mutex is held throughout, so the list does not change while it is walked.\<close>

definition handle_block_notifications :: "('h, 'd, 'w) host \<Rightarrow> 'w \<Rightarrow> 'w option" where
  "handle_block_notifications H w = do {
     w \<leftarrow> handle_jobs H (resolution_jobs (h_sel H w)) w;
     Some (h_put H ((h_sel H w)\<lparr>resolution_jobs := []\<rparr>) w)
   }"

definition selector_notify_block :: "bool \<Rightarrow> int \<Rightarrow> ('h, 'd) fdselector \<Rightarrow> selector_status \<times> ('h, 'd) fdselector" where
  "selector_notify_block mem fd s =
     (if \<not> mem then (SELECTOR_ENOMEM, s)
      else (SELECTOR_SUCCESS, s\<lparr>resolution_jobs := fd # resolution_jobs s\<rparr>))"

text \<open>
  \<open>poll\<close> is \<^verbatim>\<open>pselect\<close>: from the two sets it is asked about, an error or the two sets that are ready. The
  diagnostic that is printed on \<^verbatim>\<open>EBADF\<close> is left out.
\<close>

definition selector_select :: "(int set \<Rightarrow> int set \<Rightarrow> errno + int set \<times> int set) \<Rightarrow> ('h, 'd, 'w) host \<Rightarrow>
    'w \<Rightarrow> (selector_status \<times> 'w) option" where
  "selector_select poll H w =
     (let s = h_sel H w;
          s = s\<lparr>slave_r := master_r s, slave_w := master_w s, slave_t := master_t s\<rparr>
      in case poll (slave_r s) (slave_w s) of
           Inl e \<Rightarrow>
             (let w = h_put H s w
              in if e = EAGAIN \<or> e = EINTR
                 then do { w \<leftarrow> handle_block_notifications H w; Some (SELECTOR_SUCCESS, w) }
                 else Some (SELECTOR_IO, w))
         | Inr (r, wr) \<Rightarrow> do {
             w \<leftarrow> handle_iteration H (h_put H (s\<lparr>slave_r := r, slave_w := wr\<rparr>) w);
             w \<leftarrow> handle_block_notifications H w;
             Some (SELECTOR_SUCCESS, w)
           })"

text \<open>The descriptor flags and the status flags of a descriptor, and \<^verbatim>\<open>O_NONBLOCK\<close> of Linux.\<close>

record fd_flags =
  ff_fd :: u32
  ff_status :: u32

abbreviation (input) O_NONBLOCK :: u32 where "O_NONBLOCK \<equiv> 0x800"

text \<open>\<open>getfd\<close> and \<open>setfl\<close>: whether the two \<^verbatim>\<open>fcntl\<close> calls succeed.\<close>

definition selector_fd_set_nio :: "bool \<Rightarrow> bool \<Rightarrow> fd_flags \<Rightarrow> int \<times> fd_flags" where
  "selector_fd_set_nio getfd setfl f =
     (if \<not> getfd then (-1, f)
      else let flags = ff_fd f
           in if \<not> setfl then (-1, f) else (0, f\<lparr>ff_status := flags OR O_NONBLOCK\<rparr>))"

end
