(* ===== verification/Registry.thy ===== *)
theory Registry
  imports Selector
begin

text \<open>
  What the selector promises. A selector implements a map from descriptors to registrations (handler,
  interest, attachment); the sets it polls are exactly the descriptors whose interest asks for them.
  \<open>fd_registry\<close> is that contract; the second half lifts it to the operations that call handlers.
\<close>

section \<open>The registrations of a selector\<close>

definition regs :: "('h, 'd) fdselector \<Rightarrow> int \<Rightarrow> ('h \<times> u32 \<times> 'd option) option" where
  "regs s fd =
     (if 0 \<le> fd \<and> fd < int (fd_size s) \<and> item_used (fds s ! nat fd)
      then Some (the (i_handler (fds s ! nat fd)), i_interest (fds s ! nat fd), i_data (fds s ! nat fd))
      else None)"

definition wants :: "('h \<times> u32 \<times> 'd option) option \<Rightarrow> u32 \<Rightarrow> bool" where
  "wants r oper = (case r of None \<Rightarrow> False | Some (h, i, d) \<Rightarrow> i AND oper \<noteq> 0)"

definition item_wf :: "('h, 'd) fdselector \<Rightarrow> nat \<Rightarrow> bool" where
  "item_wf s i \<longleftrightarrow> (item_used (fds s ! i) \<longrightarrow> i_fd (fds s ! i) = int i
     \<and> i_handler (fds s ! i) \<noteq> None \<and> int i \<le> max_fd s \<and> i < ITEMS_MAX_SIZE)
     \<and> (\<not> item_used (fds s ! i) \<longrightarrow> i_interest (fds s ! i) = OP_NOOP)"

definition sel_wf :: "('h, 'd) fdselector \<Rightarrow> bool" where
  "sel_wf s \<longleftrightarrow> 0 \<le> max_fd s \<and> max_fd s < int (fd_size s) \<and> max_fd s < int ITEMS_MAX_SIZE \<and> (\<forall>i < fd_size s. item_wf s i)
     \<and> (\<forall>fd. fd \<in> master_r s \<longleftrightarrow> wants (regs s fd) OP_READ)
     \<and> (\<forall>fd. fd \<in> master_w s \<longleftrightarrow> wants (regs s fd) OP_WRITE)"

lemma sel_wfD:
  assumes "sel_wf s"
  shows "0 \<le> max_fd s" "max_fd s < int (fd_size s)" "\<And>i. i < fd_size s \<Longrightarrow> item_wf s i"
    "\<And>fd. fd \<in> master_r s \<longleftrightarrow> wants (regs s fd) OP_READ" "\<And>fd. fd \<in> master_w s \<longleftrightarrow> wants (regs s fd) OP_WRITE"
    "max_fd s < int ITEMS_MAX_SIZE"
  using assms by (auto simp: sel_wf_def)

lemma wants_simps [simp]: "wants (Some (h, i, d)) oper \<longleftrightarrow> i AND oper \<noteq> 0" "\<not> wants None oper"
  by (simp_all add: wants_def)

lemma regs_int [simp]: "i < fd_size s \<Longrightarrow> regs s (int i) =
   (if item_used (fds s ! i) then Some (the (i_handler (fds s ! i)), i_interest (fds s ! i), i_data (fds s ! i)) else None)"
  by (simp add: regs_def)

lemma regs_bounds: "regs s fd = Some r \<Longrightarrow> \<exists>i < fd_size s. fd = int i \<and> item_used (fds s ! i)"
  by (auto simp: regs_def split: if_splits intro!: exI [of _ "nat fd"])

lemma regs_max: "sel_wf s \<Longrightarrow> regs s fd = Some r \<Longrightarrow> 0 \<le> fd \<and> fd \<le> max_fd s \<and> fd < int ITEMS_MAX_SIZE"
  using regs_bounds [of s fd r] sel_wfD(3) [of s] by (auto simp: item_wf_def)

section \<open>Capacity\<close>

lemma bit_count_upper: "n < 2 ^ bit_count n"
proof (induction n rule: bit_count.induct)
  case (1 n)
  then show ?case by (cases "n = 0") (simp_all add: bit_count.simps [of n])
qed

lemma bit_count_lower: "0 < n \<Longrightarrow> 2 ^ bit_count n \<le> 2 * n"
proof (induction n rule: bit_count.induct)
  case (1 n)
  show ?case
  proof (cases "n = 1")
    case True
    then show ?thesis by (simp add: bit_count.simps)
  next
    case False
    then show ?thesis using 1 by (simp add: bit_count.simps [of n])
  qed
qed

lemma next_capacity_ok:
  "n \<le> ITEMS_MAX_SIZE \<Longrightarrow> returns (next_capacity n) (\<lambda>c. n < c \<and> c \<le> ITEMS_MAX_SIZE + 1)"
  using bit_count_upper [of n] by (auto simp: next_capacity_def Let_def)

lemma free_item_unused [simp]: "\<not> item_used free_item" "i_interest free_item = OP_NOOP"
  by (simp_all add: item_used_def free_item_def)

lemma regs_grow: "regs (s\<lparr>fds := fds s @ replicate k free_item\<rparr>) = regs s"
  by (rule ext) (auto simp: regs_def fd_size_def nth_append)

lemma ensure_capacity_ok:
  assumes wf: "sel_wf s" and n: "n \<le> ITEMS_MAX_SIZE"
  shows "returns (ensure_capacity mem s n) (\<lambda>(st, s'). sel_wf s' \<and> fd_size s \<le> fd_size s' \<and> regs s' = regs s
     \<and> resolution_jobs s' = resolution_jobs s \<and> slave_r s' = slave_r s \<and> slave_w s' = slave_w s
     \<and> (st = SELECTOR_SUCCESS \<and> n < fd_size s' \<or> st = SELECTOR_ENOMEM \<and> s' = s \<and> \<not> mem))"
proof (cases "n < fd_size s")
  case True
  then show ?thesis using wf by (simp add: ensure_capacity_def)
next
  case False
  from next_capacity_ok [OF n] obtain c where c: "next_capacity n = Some c" "n < c"
    by (auto simp: returns_iff)
  have ne: "fds s \<noteq> []" using sel_wfD(1,2) [OF wf] by (auto simp: fd_size_def)
  let ?s = "s\<lparr>fds := fds s @ replicate (c - fd_size s) free_item\<rparr>"
  have sz: "fd_size ?s = c" using False c by (simp add: fd_size_def)
  have "item_wf ?s i" if "i < c" for i
    using sel_wfD(3) [OF wf, of i] that by (cases "i < fd_size s") (auto simp: item_wf_def fd_size_def nth_append)
  then have "sel_wf ?s"
    using wf False c(2) by (auto simp: sel_wf_def regs_grow sz)
  then show ?thesis using False n c ne wf sz by (simp add: ensure_capacity_def regs_grow)
qed

section \<open>Registration\<close>

lemma regs_upd:
  assumes "k < fd_size s"
  shows "regs (s\<lparr>fds := (fds s)[k := it]\<rparr>) = (regs s)(int k :=
     if item_used it then Some (the (i_handler it), i_interest it, i_data it) else None)"
  by (rule ext) (use assms in \<open>auto simp: regs_def fd_size_def nth_list_update\<close>)

lemma update_fdset_simps [simp]:
  "fds (items_update_fdset_for_fd it s) = fds s"
  "max_fd (items_update_fdset_for_fd it s) = max_fd s"
  "resolution_jobs (items_update_fdset_for_fd it s) = resolution_jobs s"
  "slave_r (items_update_fdset_for_fd it s) = slave_r s"
  "slave_w (items_update_fdset_for_fd it s) = slave_w s"
  "fd_size (items_update_fdset_for_fd it s) = fd_size s"
  "regs (items_update_fdset_for_fd it s) = regs s"
  by (auto simp: items_update_fdset_for_fd_def Let_def fd_size_def regs_def intro!: ext)

lemma update_fdset_sets:
  "fd \<in> master_r (items_update_fdset_for_fd it s) \<longleftrightarrow>
     (if fd = i_fd it then item_used it \<and> i_interest it AND OP_READ \<noteq> 0 else fd \<in> master_r s)"
  "fd \<in> master_w (items_update_fdset_for_fd it s) \<longleftrightarrow>
     (if fd = i_fd it then item_used it \<and> i_interest it AND OP_WRITE \<noteq> 0 else fd \<in> master_w s)"
  by (auto simp: items_update_fdset_for_fd_def Let_def)

text \<open>An item written in its slot, with the sets brought up to date, keeps the invariant.\<close>

lemma sel_wf_write:
  assumes wf: "sel_wf s" and k: "k < fd_size s" "k < ITEMS_MAX_SIZE" and it: "i_fd it = int k" "i_handler it \<noteq> None"
    and m: "m = (if int k > max_fd s then int k else max_fd s)"
  shows "sel_wf (items_update_fdset_for_fd it (s\<lparr>fds := (fds s)[k := it], max_fd := m\<rparr>))"
proof -
  let ?s = "s\<lparr>fds := (fds s)[k := it], max_fd := m\<rparr>"
  have used: "item_used it" using it by (simp add: item_used_def)
  have "regs ?s = regs (s\<lparr>fds := (fds s)[k := it]\<rparr>)" by (rule ext) (simp add: regs_def fd_size_def)
  then have r: "regs ?s = (regs s)(int k \<mapsto> (the (i_handler it), i_interest it, i_data it))"
    using regs_upd [OF k(1), of it] used by simp
  have "item_wf ?s i" if "i < fd_size s" for i
    using sel_wfD(3) [OF wf that] it k m that used
    by (cases "i = k") (auto simp: item_wf_def fd_size_def)
  moreover have "0 \<le> m" "m < int (fd_size s)" "m < int ITEMS_MAX_SIZE" using sel_wfD(1,2,6) [OF wf] k m by auto
  ultimately show ?thesis
    using sel_wfD(4,5) [OF wf] it used r
    by (auto simp: sel_wf_def update_fdset_sets item_wf_def) (simp_all add: fd_size_def)
qed

lemma fd_size_upd [simp]: "fd_size (s\<lparr>fds := (fds s)[k := it], max_fd := m\<rparr>) = fd_size s"
  "fd_size (s\<lparr>fds := (fds s)[k := it]\<rparr>) = fd_size s"
  by (simp_all add: fd_size_def)

lemma selector_register_ok:
  assumes wf: "sel_wf s" and fd: "\<not> INVALID_FD fd" "nat fd \<noteq> fd_size s"
  shows "returns (selector_register mem fd (Some h) i d s) (\<lambda>(st, s'). sel_wf s' \<and> fd_size s \<le> fd_size s'
     \<and> resolution_jobs s' = resolution_jobs s \<and> slave_r s' = slave_r s \<and> slave_w s' = slave_w s
     \<and> (if nat fd > fd_size s \<and> \<not> mem then st = SELECTOR_ENOMEM \<and> s' = s
        else if regs s fd \<noteq> None then st = SELECTOR_FDINUSE \<and> regs s' = regs s
        else st = SELECTOR_SUCCESS \<and> regs s' = (regs s)(fd \<mapsto> (h, i, d))))"
proof -
  obtain k where k: "fd = int k" "k < ITEMS_MAX_SIZE" using fd(1) by (cases fd) (auto simp: INVALID_FD_def)
  let ?grow = "if k > fd_size s then ensure_capacity mem s k else Some (SELECTOR_SUCCESS, s)"
  have "returns ?grow (\<lambda>(st, s'). sel_wf s' \<and> fd_size s \<le> fd_size s' \<and> regs s' = regs s
     \<and> resolution_jobs s' = resolution_jobs s \<and> slave_r s' = slave_r s \<and> slave_w s' = slave_w s
     \<and> (st = SELECTOR_SUCCESS \<and> k < fd_size s' \<and> (k > fd_size s \<longrightarrow> mem)
        \<or> st = SELECTOR_ENOMEM \<and> s' = s \<and> \<not> mem \<and> k > fd_size s))"
  proof (cases "k > fd_size s")
    case True
    then have "ensure_capacity mem s k = Some (SELECTOR_SUCCESS, s') \<Longrightarrow> mem" for s'
      by (auto simp: ensure_capacity_def bind_eq_Some_conv split: if_splits)
    with True ensure_capacity_ok [OF wf, of k mem] k(2) show ?thesis by (auto simp: returns_iff)
  next
    case False
    then show ?thesis using wf fd(2) k by simp
  qed
  then obtain st s1 where g: "?grow = Some (st, s1)" "sel_wf s1" "regs s1 = regs s"
      "fd_size s \<le> fd_size s1" "resolution_jobs s1 = resolution_jobs s" "slave_r s1 = slave_r s" "slave_w s1 = slave_w s"
      "st = SELECTOR_SUCCESS \<and> k < fd_size s1 \<and> (k > fd_size s \<longrightarrow> mem)
        \<or> st = SELECTOR_ENOMEM \<and> s1 = s \<and> \<not> mem \<and> k > fd_size s"
    by (auto simp: returns_prod)
  show ?thesis
  proof (cases "st = SELECTOR_SUCCESS")
    case False
    have "selector_register mem fd (Some h) i d s = Some (st, s1)"
      unfolding selector_register_def k(1) nat_int g(1) using fd(1) k(1) False by simp
    then show ?thesis using g False wf k by simp
  next
    case True
    then have k1: "k < fd_size s1" "\<not> (k > fd_size s \<and> \<not> mem)" using g(8) by auto
    let ?it = "\<lparr>i_fd = int k, i_interest = i, i_handler = Some h, i_data = d\<rparr>"
    let ?m = "if int k > max_fd s1 then int k else max_fd s1"
    have look: "arr_get (fds s1) (int k) = Some (fds s1 ! k)" using k1 by (simp add: fd_size_def)
    have used: "item_used (fds s1 ! k) \<longleftrightarrow> regs s (int k) \<noteq> None" using k1 g(3) regs_int [OF k1(1)] by auto
    show ?thesis
    proof (cases "item_used (fds s1 ! k)")
      case inuse: True
      have "selector_register mem fd (Some h) i d s = Some (SELECTOR_FDINUSE, s1)"
        unfolding selector_register_def k(1) nat_int g(1)
        using fd(1) k(1) True look inuse by simp
      then show ?thesis using g(2-7) k k1(2) used inuse by simp
    next
      case free: False
      have st: "arr_set (fds s1) (int k) ?it = Some ((fds s1)[k := ?it])" using k1 by (simp add: fd_size_def)
      have wf': "sel_wf (items_update_fdset_for_fd ?it (s1\<lparr>fds := (fds s1)[k := ?it], max_fd := ?m\<rparr>))"
        by (rule sel_wf_write [OF g(2) k1(1) k(2)]) simp_all
      have "regs (s1\<lparr>fds := (fds s1)[k := ?it], max_fd := ?m\<rparr>) = regs (s1\<lparr>fds := (fds s1)[k := ?it]\<rparr>)"
        by (rule ext) (simp add: regs_def fd_size_def)
      also have "\<dots> = (regs s)(int k \<mapsto> (h, i, d))"
        unfolding regs_upd [OF k1(1)] by (simp add: item_used_def g(3))
      finally have r: "regs (s1\<lparr>fds := (fds s1)[k := ?it], max_fd := ?m\<rparr>) = (regs s)(int k \<mapsto> (h, i, d))" .
      have "selector_register mem fd (Some h) i d s = Some (SELECTOR_SUCCESS,
          items_update_fdset_for_fd ?it (s1\<lparr>fds := (fds s1)[k := ?it], max_fd := ?m\<rparr>))"
        unfolding selector_register_def k(1) nat_int g(1)
        using fd(1) k(1) True look free st by (simp add: Let_def)
      then show ?thesis using g(4-7) k k1(2) used free wf' r by simp
    qed
  qed
qed

lemma selector_register_illegal:
  "INVALID_FD fd \<or> h = None \<Longrightarrow> selector_register mem fd h i d s = Some (SELECTOR_IARGS, s)"
  by (simp add: selector_register_def)

text \<open>The one descriptor for which the table is not grown.\<close>

lemma selector_register_boundary:
  assumes "int (fd_size s) < int ITEMS_MAX_SIZE"
  shows "selector_register mem (int (fd_size s)) (Some h) i d s = None"
  using assms by (simp add: selector_register_def INVALID_FD_def arr_get_def fd_size_def)

lemma selector_set_interest_ok:
  assumes wf: "sel_wf s" and fd: "\<not> INVALID_FD fd" "nat fd < fd_size s"
  shows "returns (selector_set_interest fd i s) (\<lambda>(st, s'). sel_wf s' \<and> fd_size s' = fd_size s
     \<and> resolution_jobs s' = resolution_jobs s \<and> slave_r s' = slave_r s \<and> slave_w s' = slave_w s
     \<and> (case regs s fd of None \<Rightarrow> st = SELECTOR_IARGS \<and> s' = s
        | Some (h, _, d) \<Rightarrow> st = SELECTOR_SUCCESS \<and> regs s' = (regs s)(fd \<mapsto> (h, i, d))))"
proof -
  obtain k where k: "fd = int k" "k < ITEMS_MAX_SIZE" "k < fd_size s"
    using fd by (cases fd) (auto simp: INVALID_FD_def)
  have look: "arr_get (fds s) (int k) = Some (fds s ! k)" using k by (simp add: fd_size_def)
  show ?thesis
  proof (cases "item_used (fds s ! k)")
    case False
    then show ?thesis using fd k look wf by (simp add: selector_set_interest_def)
  next
    case True
    let ?it = "(fds s ! k)\<lparr>i_interest := i\<rparr>"
    have ik: "i_fd (fds s ! k) = int k" "i_handler (fds s ! k) \<noteq> None" "int k \<le> max_fd s"
      using sel_wfD(3) [OF wf k(3)] True by (auto simp: item_wf_def)
    have used: "item_used ?it" using True by (simp add: item_used_def)
    have st: "arr_set (fds s) (int k) ?it = Some ((fds s)[k := ?it])" using k by (simp add: fd_size_def)
    have "sel_wf (items_update_fdset_for_fd ?it (s\<lparr>fds := (fds s)[k := ?it], max_fd := max_fd s\<rparr>))"
      by (rule sel_wf_write [OF wf k(3,2)]) (use ik in simp_all)
    then show ?thesis using fd k look st True used regs_upd [OF k(3), of ?it]
      by (simp add: selector_set_interest_def Let_def)
  qed
qed

section \<open>Removal\<close>

lemma max_from_ok:
  "i + k \<le> length its \<Longrightarrow> returns (max_from its i k mx) (\<lambda>m. mx \<le> m
     \<and> (\<forall>j. i \<le> j \<and> j < i + k \<and> item_used (its ! j) \<longrightarrow> i_fd (its ! j) \<le> m)
     \<and> (m = mx \<or> (\<exists>j. i \<le> j \<and> j < i + k \<and> item_used (its ! j) \<and> i_fd (its ! j) = m)))"
proof (induction k arbitrary: i mx)
  case (Suc k)
  let ?mx = "if item_used (its ! i) \<and> i_fd (its ! i) > mx then i_fd (its ! i) else mx"
  have "returns (max_from its (Suc i) k ?mx) (\<lambda>m. mx \<le> m
     \<and> (\<forall>j. i \<le> j \<and> j < i + Suc k \<and> item_used (its ! j) \<longrightarrow> i_fd (its ! j) \<le> m)
     \<and> (m = mx \<or> (\<exists>j. i \<le> j \<and> j < i + Suc k \<and> item_used (its ! j) \<and> i_fd (its ! j) = m)))"
  proof (rule returns_mono [OF Suc.IH [of "Suc i" ?mx]])
    show "Suc i + k \<le> length its" using Suc.prems by simp
  next
    fix m
    assume m: "?mx \<le> m
     \<and> (\<forall>j. Suc i \<le> j \<and> j < Suc i + k \<and> item_used (its ! j) \<longrightarrow> i_fd (its ! j) \<le> m)
     \<and> (m = ?mx \<or> (\<exists>j. Suc i \<le> j \<and> j < Suc i + k \<and> item_used (its ! j) \<and> i_fd (its ! j) = m))"
    have up: "i_fd (its ! j) \<le> m" if "i \<le> j" "j < i + Suc k" "item_used (its ! j)" for j
    proof (cases "j = i")
      case True
      then show ?thesis using m that(3) by (auto split: if_splits)
    next
      case False
      then have "Suc i \<le> j" "j < Suc i + k" using that by auto
      then show ?thesis using m that(3) by blast
    qed
    have "m = mx \<or> (\<exists>j. i \<le> j \<and> j < i + Suc k \<and> item_used (its ! j) \<and> i_fd (its ! j) = m)"
    proof (cases "m = ?mx")
      case True
      then show ?thesis by (auto intro: exI [of _ i])
    next
      case False
      with m obtain j where "Suc i \<le> j" "j < Suc i + k" "item_used (its ! j)" "i_fd (its ! j) = m" by blast
      then show ?thesis by (intro disjI2 exI [of _ j]) simp
    qed
    moreover have "mx \<le> m" using m by (auto split: if_splits)
    ultimately show "mx \<le> m
     \<and> (\<forall>j. i \<le> j \<and> j < i + Suc k \<and> item_used (its ! j) \<longrightarrow> i_fd (its ! j) \<le> m)
     \<and> (m = mx \<or> (\<exists>j. i \<le> j \<and> j < i + Suc k \<and> item_used (its ! j) \<and> i_fd (its ! j) = m))"
      using up by blast
  qed
  then show ?case using Suc.prems by simp
qed simp

lemma item_remove_ok:
  assumes wf: "sel_wf s" and fd: "\<not> INVALID_FD fd" "nat fd < fd_size s"
  shows "returns (item_remove fd s) (\<lambda>s'. sel_wf s' \<and> fd_size s' = fd_size s \<and> regs s' = (regs s)(fd := None)
     \<and> resolution_jobs s' = resolution_jobs s \<and> slave_r s' = slave_r s \<and> slave_w s' = slave_w s)"
proof -
  obtain k where k: "fd = int k" "k < ITEMS_MAX_SIZE" "k < fd_size s"
    using fd by (cases fd) (auto simp: INVALID_FD_def)
  let ?it = "(fds s ! k)\<lparr>i_interest := OP_NOOP\<rparr>"
  let ?s1 = "items_update_fdset_for_fd ?it s"
  let ?its = "(fds s)[k := free_item]"
  let ?s2 = "?s1\<lparr>fds := ?its\<rparr>"
  have r2: "regs ?s2 = (regs s)(int k := None)"
    using regs_upd [of k ?s1 free_item] k by (simp add: fd_size_def)
  have "regs s (-1) = None" by (simp add: regs_def)
  then have sets: "fd \<in> master_r ?s2 \<longleftrightarrow> wants (regs ?s2 fd) OP_READ" "fd \<in> master_w ?s2 \<longleftrightarrow> wants (regs ?s2 fd) OP_WRITE" for fd
    unfolding r2 using sel_wfD(3) [OF wf k(3)] sel_wfD(4,5) [OF wf] k(3)
    by (auto simp: update_fdset_sets item_used_def item_wf_def)
  have items: "(item_used (?its ! i) \<longrightarrow> i_fd (?its ! i) = int i \<and> i_handler (?its ! i) \<noteq> None
      \<and> int i \<le> max_fd s \<and> i < ITEMS_MAX_SIZE) \<and> (\<not> item_used (?its ! i) \<longrightarrow> i_interest (?its ! i) = OP_NOOP)" if "i < fd_size s" for i
    using sel_wfD(3) [OF wf that] that k(3) by (cases "i = k") (auto simp: item_wf_def fd_size_def)
  have "nat (max_fd s + 1) \<le> length ?its" using sel_wfD(1,2) [OF wf] by (simp add: fd_size_def)
  from max_from_ok [of 0 "nat (max_fd s + 1)" ?its 0] this obtain m
    where m: "items_max_fd ?s2 = Some m" "0 \<le> m"
      "\<And>j. j < nat (max_fd s + 1) \<Longrightarrow> item_used (?its ! j) \<Longrightarrow> i_fd (?its ! j) \<le> m"
      "m = 0 \<or> (\<exists>j. j < nat (max_fd s + 1) \<and> item_used (?its ! j) \<and> i_fd (?its ! j) = m)"
    by (auto simp: items_max_fd_def returns_iff)
  have mle: "m \<le> max_fd s"
    using m(4) items sel_wfD(1,2) [OF wf] by auto
  have "item_wf (?s2\<lparr>max_fd := m\<rparr>) i" if i: "i < fd_size s" for i
  proof -
    have "int i \<le> m" if u: "item_used (?its ! i)"
    proof -
      have "i_fd (?its ! i) = int i" "int i \<le> max_fd s" using items [OF i] u by auto
      then show ?thesis using m(3) [of i] u by simp
    qed
    then show ?thesis using items [OF i] by (auto simp: item_wf_def)
  qed
  moreover have "regs (?s2\<lparr>max_fd := m\<rparr>) = regs ?s2" by (rule ext) (simp add: regs_def fd_size_def)
  moreover have "fd_size (?s2\<lparr>max_fd := m\<rparr>) = fd_size s" by (simp add: fd_size_def)
  ultimately have "sel_wf (?s2\<lparr>max_fd := m\<rparr>)"
    using m(2) mle sel_wfD(2,6) [OF wf] sets by (auto simp: sel_wf_def)
  moreover have "item_remove fd s = Some (?s2\<lparr>max_fd := m\<rparr>)"
    using k m(1) by (simp add: item_remove_def Let_def fd_size_def)
  ultimately show ?thesis
    using \<open>regs (?s2\<lparr>max_fd := m\<rparr>) = regs ?s2\<close> r2 k(1) by (simp add: fd_size_def)
qed

section \<open>The contract\<close>

text \<open>
  A table of registrations with room for every legal descriptor: what each operation does to the
  registrations, and which descriptors are polled.
\<close>

locale fd_registry =
  fixes inv :: "'s \<Rightarrow> bool"
    and entry :: "'s \<Rightarrow> int \<Rightarrow> ('h \<times> u32 \<times> 'd option) option"
    and legal :: "int \<Rightarrow> bool"
    and enter :: "int \<Rightarrow> 'h \<Rightarrow> u32 \<Rightarrow> 'd option \<Rightarrow> 's \<Rightarrow> (selector_status \<times> 's) option"
    and change :: "int \<Rightarrow> u32 \<Rightarrow> 's \<Rightarrow> (selector_status \<times> 's) option"
    and remove :: "int \<Rightarrow> 's \<Rightarrow> 's option"
    and polled_r :: "'s \<Rightarrow> int set"
    and polled_w :: "'s \<Rightarrow> int set"
  assumes entry_legal: "inv s \<Longrightarrow> entry s fd \<noteq> None \<Longrightarrow> legal fd"
    and enter_ok: "inv s \<Longrightarrow> legal fd \<Longrightarrow> returns (enter fd h i d s) (\<lambda>(st, s'). inv s' \<and>
        (if entry s fd = None then st = SELECTOR_SUCCESS \<and> entry s' = (entry s)(fd \<mapsto> (h, i, d))
         else st = SELECTOR_FDINUSE \<and> entry s' = entry s))"
    and change_ok: "inv s \<Longrightarrow> legal fd \<Longrightarrow> returns (change fd i s) (\<lambda>(st, s'). inv s' \<and>
        (case entry s fd of None \<Rightarrow> st = SELECTOR_IARGS \<and> entry s' = entry s
         | Some (h, _, d) \<Rightarrow> st = SELECTOR_SUCCESS \<and> entry s' = (entry s)(fd \<mapsto> (h, i, d))))"
    and remove_ok: "inv s \<Longrightarrow> legal fd \<Longrightarrow> returns (remove fd s) (\<lambda>s'. inv s' \<and> entry s' = (entry s)(fd := None))"
    and polled: "inv s \<Longrightarrow> (fd \<in> polled_r s \<longleftrightarrow> wants (entry s fd) OP_READ) \<and> (fd \<in> polled_w s \<longleftrightarrow> wants (entry s fd) OP_WRITE)"

text \<open>The operations as a script, and what it does to a map of registrations.\<close>

datatype ('h, 'd) reg_op = Enter int 'h u32 "'d option" | Change int u32 | Remove int

fun reg_legal :: "(int \<Rightarrow> bool) \<Rightarrow> ('h, 'd) reg_op \<Rightarrow> bool" where
  "reg_legal legal (Enter fd h i d) = legal fd"
| "reg_legal legal (Change fd i) = legal fd"
| "reg_legal legal (Remove fd) = legal fd"

fun reg_step :: "('h, 'd) reg_op \<Rightarrow> (int \<Rightarrow> ('h \<times> u32 \<times> 'd option) option) \<Rightarrow> int \<Rightarrow> ('h \<times> u32 \<times> 'd option) option" where
  "reg_step (Enter fd h i d) m = (if m fd = None then m(fd \<mapsto> (h, i, d)) else m)"
| "reg_step (Change fd i) m = (case m fd of None \<Rightarrow> m | Some (h, _, d) \<Rightarrow> m(fd \<mapsto> (h, i, d)))"
| "reg_step (Remove fd) m = m(fd := None)"

fun reg_run :: "(int \<Rightarrow> 'h \<Rightarrow> u32 \<Rightarrow> 'd option \<Rightarrow> 's \<Rightarrow> (selector_status \<times> 's) option) \<Rightarrow>
    (int \<Rightarrow> u32 \<Rightarrow> 's \<Rightarrow> (selector_status \<times> 's) option) \<Rightarrow> (int \<Rightarrow> 's \<Rightarrow> 's option) \<Rightarrow>
    ('h, 'd) reg_op list \<Rightarrow> 's \<Rightarrow> 's option" where
  "reg_run enter change remove [] s = Some s"
| "reg_run enter change remove (Enter fd h i d # ops) s = do { (_, s) \<leftarrow> enter fd h i d s; reg_run enter change remove ops s }"
| "reg_run enter change remove (Change fd i # ops) s = do { (_, s) \<leftarrow> change fd i s; reg_run enter change remove ops s }"
| "reg_run enter change remove (Remove fd # ops) s = do { s \<leftarrow> remove fd s; reg_run enter change remove ops s }"

context fd_registry
begin

lemma run_step:
  "inv s \<Longrightarrow> reg_legal legal op \<Longrightarrow> returns (reg_run enter change remove [op] s) (\<lambda>s'. inv s' \<and> entry s' = reg_step op (entry s))"
proof (cases op)
  case (Enter fd h i d)
  then show "inv s \<Longrightarrow> reg_legal legal op \<Longrightarrow> ?thesis" 
    using enter_ok [of s fd h i d] by (fastforce simp: returns_prod split: if_splits)
next
  case (Change fd i)
  then show "inv s \<Longrightarrow> reg_legal legal op \<Longrightarrow> ?thesis"
    using change_ok [of s fd i] by (fastforce simp: returns_prod split: option.splits)
next
  case (Remove fd)
  then show "inv s \<Longrightarrow> reg_legal legal op \<Longrightarrow> ?thesis"
    using remove_ok [of s fd] by (auto elim!: returns_mono)
qed

lemma run_Cons: "reg_run enter change remove (op # ops) s =
   reg_run enter change remove [op] s \<bind> reg_run enter change remove ops"
  by (cases op) (simp_all add: split_beta')

lemma run_refines:
  "inv s \<Longrightarrow> list_all (reg_legal legal) ops \<Longrightarrow>
   returns (reg_run enter change remove ops s) (\<lambda>s'. inv s' \<and> entry s' = fold reg_step ops (entry s))"
proof (induction ops arbitrary: s)
  case (Cons op ops)
  from run_step [OF Cons.prems(1)] Cons.prems(2) obtain s1
    where "reg_run enter change remove [op] s = Some s1" "inv s1" "entry s1 = reg_step op (entry s)"
    by (auto simp: returns_iff)
  with Cons.IH [of s1] Cons.prems(2) show ?case by (simp add: run_Cons [of op ops])
qed simp

lemma removed_not_polled:
  "inv s \<Longrightarrow> legal fd \<Longrightarrow> returns (remove fd s) (\<lambda>s'. fd \<notin> polled_r s' \<and> fd \<notin> polled_w s')"
  using remove_ok [of s fd] by (rule returns_mono) (auto simp: polled)

end

text \<open>A selector whose table has room for every descriptor that \<^verbatim>\<open>select\<close> can take.\<close>

definition full_sel :: "('h, 'd) fdselector \<Rightarrow> bool" where
  "full_sel s \<longleftrightarrow> sel_wf s \<and> ITEMS_MAX_SIZE < fd_size s"

lemma full_sel_room: "full_sel s \<Longrightarrow> \<not> INVALID_FD fd \<Longrightarrow> nat fd < fd_size s"
  by (auto simp: full_sel_def INVALID_FD_def)

lemma full_enter:
  assumes s: "full_sel s" and fd: "\<not> INVALID_FD fd"
  shows "returns (selector_register mem fd (Some h) i d s) (\<lambda>(st, s'). full_sel s' \<and>
        (if regs s fd = None then st = SELECTOR_SUCCESS \<and> regs s' = (regs s)(fd \<mapsto> (h, i, d))
         else st = SELECTOR_FDINUSE \<and> regs s' = regs s))"
proof -
  note room = full_sel_room [OF s fd]
  have "sel_wf s" "nat fd \<noteq> fd_size s" using s room by (auto simp: full_sel_def)
  from selector_register_ok [OF this(1) fd this(2), of mem h i d] show ?thesis
    by (rule returns_mono) (use s room in \<open>auto simp: full_sel_def split: if_splits\<close>)
qed

lemma full_change:
  assumes s: "full_sel s" and fd: "\<not> INVALID_FD fd"
  shows "returns (selector_set_interest fd i s) (\<lambda>(st, s'). full_sel s' \<and>
        (case regs s fd of None \<Rightarrow> st = SELECTOR_IARGS \<and> regs s' = regs s
         | Some (h, _, d) \<Rightarrow> st = SELECTOR_SUCCESS \<and> regs s' = (regs s)(fd \<mapsto> (h, i, d))))"
proof -
  have "sel_wf s" "nat fd < fd_size s" using s full_sel_room [OF s fd] by (auto simp: full_sel_def)
  from selector_set_interest_ok [OF this(1) fd this(2), of i] show ?thesis
    by (rule returns_mono) (use s in \<open>auto simp: full_sel_def split: option.splits\<close>)
qed

lemma full_remove:
  assumes s: "full_sel s" and fd: "\<not> INVALID_FD fd"
  shows "returns (item_remove fd s) (\<lambda>s'. full_sel s' \<and> regs s' = (regs s)(fd := None))"
proof -
  have "sel_wf s" "nat fd < fd_size s" using s full_sel_room [OF s fd] by (auto simp: full_sel_def)
  from item_remove_ok [OF this(1) fd this(2)] show ?thesis
    by (rule returns_mono) (use s in \<open>auto simp: full_sel_def\<close>)
qed

text \<open>The finished jobs are none of the business of the registrations.\<close>

lemma change_jobs: "selector_set_interest fd i s = Some (st, s') \<Longrightarrow> resolution_jobs s' = resolution_jobs s"
  by (auto simp: selector_set_interest_def Let_def bind_eq_Some_conv split: if_splits)

lemma change_key_jobs: "selector_set_interest_key key i s = Some (st, s') \<Longrightarrow> resolution_jobs s' = resolution_jobs s"
  by (auto simp: selector_set_interest_key_def dest: change_jobs split: if_splits)

lemma remove_jobs: "item_remove fd s = Some s' \<Longrightarrow> resolution_jobs s' = resolution_jobs s"
  by (auto simp: item_remove_def Let_def bind_eq_Some_conv)

lemma capacity_jobs: "ensure_capacity mem s n = Some (st, s') \<Longrightarrow> resolution_jobs s' = resolution_jobs s"
  by (auto simp: ensure_capacity_def bind_eq_Some_conv split: if_splits)

lemma enter_jobs: "selector_register mem fd h i d s = Some (st, s') \<Longrightarrow> resolution_jobs s' = resolution_jobs s"
  by (auto simp: selector_register_def Let_def bind_eq_Some_conv dest: capacity_jobs split: if_splits)

interpretation sel: fd_registry full_sel regs "\<lambda>fd. \<not> INVALID_FD fd"
  "\<lambda>fd h i d s. selector_register True fd (Some h) i d s" selector_set_interest item_remove master_r master_w
proof (unfold_locales, goal_cases)
  case (1 s fd)
  then show ?case using regs_max [of s fd] by (auto simp: full_sel_def INVALID_FD_def)
next
  case (2 s fd h i d)
  then show ?case by (rule full_enter)
next
  case (3 s fd i)
  then show ?case by (rule full_change)
next
  case (4 s fd)
  then show ?case by (rule full_remove)
next
  case (5 s fd)
  then show ?case using sel_wfD(4,5) [of s fd] by (auto simp: full_sel_def)
qed

section \<open>The operations that call handlers\<close>

text \<open>
  What the owner of a selector guarantees about its world: \<open>P\<close> is an invariant that implies the one of
  the selector and that survives a change of the parts of the selector that are not registrations.
\<close>

definition host_ok :: "('h, 'd, 'w) host \<Rightarrow> ('w \<Rightarrow> bool) \<Rightarrow> bool" where
  "host_ok H P \<longleftrightarrow> (\<forall>w. P w \<longrightarrow> full_sel (h_sel H w)) \<and> (\<forall>s w. h_sel H (h_put H s w) = s)
     \<and> (\<forall>s w. P w \<longrightarrow> full_sel s \<longrightarrow> regs s = regs (h_sel H w) \<longrightarrow>
          resolution_jobs s = resolution_jobs (h_sel H w) \<longrightarrow> P (h_put H s w))"

text \<open>
  What a callback may count on: it is called for a registered descriptor, with the attachment of that
  registration, and while the interest asks for the event. In return it keeps \<open>P\<close>. A read callback that
  leaves its own descriptor registered leaves the attachment alone, as the key is used once more.
\<close>

definition keeps_data :: "('h, 'd, 'w) host \<Rightarrow> int \<Rightarrow> 'd option \<Rightarrow> 'w \<Rightarrow> bool" where
  "keeps_data H fd d w \<longleftrightarrow> (\<forall>h' i' d'. regs (h_sel H w) fd = Some (h', i', d') \<longrightarrow> d' = d)"

definition callback_ok :: "('h, 'd, 'w) host \<Rightarrow> ('w \<Rightarrow> bool) \<Rightarrow> (int \<Rightarrow> 'd option \<Rightarrow> 'w \<Rightarrow> bool) \<Rightarrow> ('h \<Rightarrow> ('d, 'w) callback) \<Rightarrow>
    u32 \<Rightarrow> bool" where
  "callback_ok H P Q call oper \<longleftrightarrow> (\<forall>w fd h i d. P w \<longrightarrow> regs (h_sel H w) fd = Some (h, i, d) \<longrightarrow> oper AND i \<noteq> 0 \<longrightarrow>
     (\<exists>f. call h = Some f \<and> returns (f \<lparr>k_fd = fd, k_data = d\<rparr> w) (\<lambda>w'. P w' \<and> Q fd d w')))"

definition read_ok :: "('h, 'd, 'w) host \<Rightarrow> ('w \<Rightarrow> bool) \<Rightarrow> bool" where
  "read_ok H P \<longleftrightarrow> callback_ok H P (keeps_data H) (handle_read H) OP_READ"

definition write_ok :: "('h, 'd, 'w) host \<Rightarrow> ('w \<Rightarrow> bool) \<Rightarrow> bool" where
  "write_ok H P \<longleftrightarrow> callback_ok H P (\<lambda>_ _ _. True) (handle_write H) OP_WRITE"

text \<open>
  Handing out the finished jobs: \<open>Q js\<close> holds while the jobs \<open>js\<close> are still to be handed out. The
  descriptor of a job is either not registered any more or has a handler for it.
\<close>

definition jobs_ok :: "('h, 'd, 'w) host \<Rightarrow> ('w \<Rightarrow> bool) \<Rightarrow> (int list \<Rightarrow> 'w \<Rightarrow> bool) \<Rightarrow> bool" where
  "jobs_ok H P Q \<longleftrightarrow> (\<forall>w. P w \<longrightarrow> Q (resolution_jobs (h_sel H w)) w)
     \<and> (\<forall>j js w. Q (j # js) w \<longrightarrow> full_sel (h_sel H w) \<and> \<not> INVALID_FD j \<and> (case regs (h_sel H w) j of
          None \<Rightarrow> Q js w
        | Some (h, i, d) \<Rightarrow> (\<exists>f. handle_block H h = Some f \<and> returns (f \<lparr>k_fd = j, k_data = d\<rparr> w) (Q js))))
     \<and> (\<forall>w. Q [] w \<longrightarrow> P (h_put H ((h_sel H w)\<lparr>resolution_jobs := []\<rparr>) w))"

lemma host_okD:
  assumes "host_ok H P"
  shows "P w \<Longrightarrow> full_sel (h_sel H w)" "h_sel H (h_put H s w) = s"
    "P w \<Longrightarrow> full_sel s \<Longrightarrow> regs s = regs (h_sel H w) \<Longrightarrow>
       resolution_jobs s = resolution_jobs (h_sel H w) \<Longrightarrow> P (h_put H s w)"
  using assms by (auto simp: host_ok_def)

lemma callback_okD:
  assumes "callback_ok H P Q call oper" "P w" "regs (h_sel H w) fd = Some (h, i, d)" "oper AND i \<noteq> 0"
  obtains f where "call h = Some f" "returns (f \<lparr>k_fd = fd, k_data = d\<rparr> w) (\<lambda>w'. P w' \<and> Q fd d w')"
  using assms unfolding callback_ok_def by blast

lemma item_view:
  assumes "full_sel s" and "i < ITEMS_MAX_SIZE"
  obtains it where "arr_get (fds s) (int i) = Some it"
    "item_used it \<longrightarrow> (\<exists>h. i_handler it = Some h \<and> i_fd it = int i \<and> regs s (int i) = Some (h, i_interest it, i_data it))"
    "\<not> item_used it \<longrightarrow> regs s (int i) = None \<and> i_interest it = OP_NOOP"
proof -
  have i: "i < fd_size s" "i < length (fds s)" using assms by (auto simp: full_sel_def fd_size_def)
  have "item_wf s i" using assms i by (auto simp: full_sel_def sel_wf_def)
  with i show thesis by (intro that [of "fds s ! i"]) (auto simp: item_wf_def)
qed

lemma dispatch_one_ok:
  assumes H: "host_ok H P" and cb: "callback_ok H P Q call oper"
    and w: "P w" and i: "i < ITEMS_MAX_SIZE" and d: "keeps_data H (int i) d w" and Q: "Q (int i) d w"
  shows "returns (dispatch_one H call oper ready t i \<lparr>k_fd = int i, k_data = d\<rparr> w) (\<lambda>w'. P w' \<and> Q (int i) d w')"
proof -
  obtain it where it: "arr_get (fds (h_sel H w)) (int i) = Some it"
    "item_used it \<longrightarrow> (\<exists>h. i_handler it = Some h \<and> i_fd it = int i
        \<and> regs (h_sel H w) (int i) = Some (h, i_interest it, i_data it))"
    "\<not> item_used it \<longrightarrow> regs (h_sel H w) (int i) = None \<and> i_interest it = OP_NOOP"
    using item_view [OF host_okD(1) [OF H w] i] by blast
  show ?thesis
  proof (cases "t \<in> ready \<and> oper AND i_interest it \<noteq> 0")
    case False
    then show ?thesis using w Q it(1) by (auto simp: dispatch_one_def)
  next
    case True
    with it(3) have "item_used it" by auto
    with it(2) obtain h where h: "i_handler it = Some h" "regs (h_sel H w) (int i) = Some (h, i_interest it, i_data it)"
      by blast
    with d have r: "regs (h_sel H w) (int i) = Some (h, i_interest it, d)" by (simp add: keeps_data_def)
    from callback_okD [OF cb w r] True obtain f where "call h = Some f"
      "returns (f \<lparr>k_fd = int i, k_data = d\<rparr> w) (\<lambda>w'. P w' \<and> Q (int i) d w')" by blast
    with True it(1) h(1) show ?thesis by (simp add: dispatch_one_def)
  qed
qed

lemma handle_items_ok:
  assumes H: "host_ok H P" and rd: "read_ok H P" and wr: "write_ok H P"
  shows "P w \<Longrightarrow> \<forall>i \<in> set is. i < ITEMS_MAX_SIZE \<Longrightarrow> returns (handle_items H is w) P"
proof (induction "is" arbitrary: w)
  case (Cons i "is")
  have i: "i < ITEMS_MAX_SIZE" using Cons.prems(2) by simp
  obtain it where it: "arr_get (fds (h_sel H w)) (int i) = Some it"
    "item_used it \<longrightarrow> (\<exists>h. i_handler it = Some h \<and> i_fd it = int i
        \<and> regs (h_sel H w) (int i) = Some (h, i_interest it, i_data it))"
    using item_view [OF host_okD(1) [OF H Cons.prems(1)] i] by blast
  show ?case
  proof (cases "item_used it")
    case False
    then show ?thesis using Cons it(1) by simp
  next
    case True
    with it(2) have fd: "i_fd it = int i" and same: "keeps_data H (int i) (i_data it) w"
      by (auto simp: keeps_data_def)
    from dispatch_one_ok [OF H rd [unfolded read_ok_def] Cons.prems(1) i same same, of "slave_r (h_sel H w)" "i_fd it"]
    obtain w1 where w1: "dispatch_one H (handle_read H) OP_READ (slave_r (h_sel H w)) (i_fd it) i
        \<lparr>k_fd = int i, k_data = i_data it\<rparr> w = Some w1" "P w1" "keeps_data H (int i) (i_data it) w1"
      by (auto simp: returns_iff)
    from dispatch_one_ok [OF H wr [unfolded write_ok_def] w1(2) i w1(3) TrueI, of "slave_w (h_sel H w1)" "int i"]
    obtain w2 where w2: "dispatch_one H (handle_write H) OP_WRITE (slave_w (h_sel H w1)) (int i) i
        \<lparr>k_fd = int i, k_data = i_data it\<rparr> w1 = Some w2" "P w2"
      by (auto simp: returns_iff)
    from Cons.IH [OF w2(2)] Cons.prems(2) it(1) fd True w1(1) w2(1) show ?thesis
      by (simp add: Let_def)
  qed
qed simp

lemma handle_iteration_ok:
  assumes H: "host_ok H P" and rd: "read_ok H P" and wr: "write_ok H P" and w: "P w"
  shows "returns (handle_iteration H w) P"
proof -
  have "sel_wf (h_sel H w)" using host_okD(1) [OF H w] by (simp add: full_sel_def)
  then have "max_fd (h_sel H w) < int ITEMS_MAX_SIZE" by (rule sel_wfD(6))
  then show ?thesis unfolding handle_iteration_def
    by (intro handle_items_ok [OF H rd wr w]) auto
qed

lemma handle_jobs_ok: "jobs_ok H P Q \<Longrightarrow> Q js w \<Longrightarrow> returns (handle_jobs H js w) (Q [])"
proof (induction js arbitrary: w)
  case (Cons j js)
  from Cons.prems have fs: "full_sel (h_sel H w)" and leg: "\<not> INVALID_FD j" and c: "case regs (h_sel H w) j of
          None \<Rightarrow> Q js w
        | Some (h, i, d) \<Rightarrow> (\<exists>f. handle_block H h = Some f \<and> returns (f \<lparr>k_fd = j, k_data = d\<rparr> w) (Q js))"
    unfolding jobs_ok_def by blast+
  obtain k where k: "j = int k" "k < ITEMS_MAX_SIZE" using leg by (cases j) (auto simp: INVALID_FD_def)
  obtain it where it: "arr_get (fds (h_sel H w)) (int k) = Some it"
    "item_used it \<longrightarrow> (\<exists>h. i_handler it = Some h \<and> i_fd it = int k
        \<and> regs (h_sel H w) (int k) = Some (h, i_interest it, i_data it))"
    "\<not> item_used it \<longrightarrow> regs (h_sel H w) (int k) = None \<and> i_interest it = OP_NOOP"
    using item_view [OF fs k(2)] by blast
  show ?case
  proof (cases "item_used it")
    case False
    then show ?thesis using Cons.IH [OF Cons.prems(1), of w] c it k by simp
  next
    case True
    with it(2) obtain h where h: "i_handler it = Some h" "i_fd it = int k"
      "regs (h_sel H w) (int k) = Some (h, i_interest it, i_data it)" by blast
    then obtain f w1 where f: "handle_block H h = Some f" "f \<lparr>k_fd = int k, k_data = i_data it\<rparr> w = Some w1" "Q js w1"
      using c k(1) by (auto simp: returns_iff)
    from Cons.IH [OF Cons.prems(1) f(3)] f(1,2) it(1) k h True show ?thesis by simp
  qed
qed simp

lemma regs_cong: "fds s = fds s' \<Longrightarrow> regs s = regs s'"
  by (rule ext) (simp add: regs_def fd_size_def)

lemma full_sel_cong:
  "full_sel s \<Longrightarrow> fds s' = fds s \<Longrightarrow> max_fd s' = max_fd s \<Longrightarrow> master_r s' = master_r s \<Longrightarrow>
   master_w s' = master_w s \<Longrightarrow> full_sel s'"
  using regs_cong [of s' s] by (auto simp: full_sel_def sel_wf_def fd_size_def item_wf_def)

lemma handle_block_notifications_ok:
  assumes H: "host_ok H P" and js: "jobs_ok H P Q" and w: "P w"
  shows "returns (handle_block_notifications H w) (\<lambda>w'. P w' \<and> resolution_jobs (h_sel H w') = [])"
proof -
  have "Q (resolution_jobs (h_sel H w)) w" using js w by (simp add: jobs_ok_def)
  from handle_jobs_ok [OF js this] obtain w1
    where w1: "handle_jobs H (resolution_jobs (h_sel H w)) w = Some w1" "Q [] w1" by (auto simp: returns_iff)
  have "P (h_put H ((h_sel H w1)\<lparr>resolution_jobs := []\<rparr>) w1)" using js w1(2) unfolding jobs_ok_def by blast
  then show ?thesis using w1(1) host_okD(2) [OF H] by (simp add: handle_block_notifications_def)
qed

lemma selector_new_full:
  "\<exists>s. selector_new True True conf ITEMS_MAX_SIZE = Some (Some s) \<and> full_sel s \<and> regs s = (\<lambda>_. None)
     \<and> resolution_jobs s = [] \<and> master_t s = conf_timeout conf"
proof -
  obtain c where c: "next_capacity ITEMS_MAX_SIZE = Some c" "ITEMS_MAX_SIZE < c"
    using next_capacity_ok [of ITEMS_MAX_SIZE] by (auto simp: returns_iff)
  have "full_sel s \<and> regs s = (\<lambda>_. None)" if "fds s = replicate c free_item" "max_fd s = 0" "master_r s = {}" "master_w s = {}"
    for s :: "('a, 'b) fdselector"
  proof -
    have r: "regs s = (\<lambda>_. None)" using that by (auto simp: regs_def fd_size_def)
    then show ?thesis using that c(2) by (auto simp: full_sel_def sel_wf_def fd_size_def item_wf_def)
  qed
  then show ?thesis using c by (simp add: selector_new_def ensure_capacity_def fd_size_def)
qed

lemma selector_newD:
  fixes s :: "('h, 'd) fdselector"
  assumes "selector_new True True conf ITEMS_MAX_SIZE = Some (Some s)"
  shows "full_sel s \<and> regs s = (\<lambda>_. None) \<and> resolution_jobs s = [] \<and> master_t s = conf_timeout conf"
proof -
  obtain s' :: "('h, 'd) fdselector" where "selector_new True True conf ITEMS_MAX_SIZE = Some (Some s')"
    "full_sel s' \<and> regs s' = (\<lambda>_. None) \<and> resolution_jobs s' = [] \<and> master_t s' = conf_timeout conf"
    using selector_new_full by blast
  with assms show ?thesis by simp
qed

text \<open>One round of the event loop.\<close>

lemma selector_round:
  assumes H: "host_ok H P" and rd: "read_ok H P" and wr: "write_ok H P" and js: "jobs_ok H P Q" and w: "P w"
  shows "returns (selector_select poll H w) (\<lambda>(st, w'). P w'
    \<and> (st = SELECTOR_SUCCESS \<and> resolution_jobs (h_sel H w') = [] \<or> st = SELECTOR_IO))"
proof -
  let ?s = "(h_sel H w)\<lparr>slave_r := master_r (h_sel H w), slave_w := master_w (h_sel H w), slave_t := master_t (h_sel H w)\<rparr>"
  have put: "P (h_put H s' w)" if "fds s' = fds (h_sel H w)" "max_fd s' = max_fd (h_sel H w)"
    "master_r s' = master_r (h_sel H w)" "master_w s' = master_w (h_sel H w)"
    "resolution_jobs s' = resolution_jobs (h_sel H w)" for s'
    using full_sel_cong [OF host_okD(1) [OF H w] that(1-4)] regs_cong [OF that(1)] that(5)
    by (intro host_okD(3) [OF H w]) simp_all
  note done' = handle_block_notifications_ok [OF H js]
  show ?thesis
  proof (cases "poll (master_r (h_sel H w)) (master_w (h_sel H w))")
    case (Inl e)
    have "P (h_put H ?s w)" by (rule put) simp_all
    with done' [OF this] Inl show ?thesis
      by (auto simp: selector_select_def Let_def returns_iff)
  next
    case (Inr rw)
    obtain r wr' where rw: "rw = (r, wr')" by (cases rw)
    have "P (h_put H (?s\<lparr>slave_r := r, slave_w := wr'\<rparr>) w)" by (rule put) simp_all
    from handle_iteration_ok [OF H rd wr this] obtain w1
      where w1: "handle_iteration H (h_put H (?s\<lparr>slave_r := r, slave_w := wr'\<rparr>) w) = Some w1" "P w1"
      by (auto simp: returns_iff)
    from done' [OF w1(2)] w1(1) Inr rw show ?thesis
      by (auto simp: selector_select_def Let_def returns_iff)
  qed
qed

section \<open>Properties\<close>

text \<open>C10: a selector created with room for \<^verbatim>\<open>FD_SETSIZE\<close> descriptors, as the server creates it, is a map of
  registrations. Every sequence of registrations, changes of interest and removals of legal descriptors
  runs without leaving the table and has exactly the effect of the same sequence on a map: a
  registration of a descriptor in use and a change of one that is not are refused and change nothing.
  At the end the two sets given to \<^verbatim>\<open>pselect\<close> are exactly the descriptors registered with that interest,
  and all of them are at most \<^verbatim>\<open>max_fd\<close>.\<close>

theorem selector_refines_map:
  assumes new: "selector_new True True conf ITEMS_MAX_SIZE = Some (Some s)"
    and legal: "list_all (reg_legal (\<lambda>fd. \<not> INVALID_FD fd)) ops"
  shows "returns (reg_run (\<lambda>fd h i d s. selector_register True fd (Some h) i d s) selector_set_interest item_remove ops s)
    (\<lambda>s'. let m = fold reg_step ops (\<lambda>_. None) in regs s' = m
       \<and> master_r s' = {fd. wants (m fd) OP_READ} \<and> master_w s' = {fd. wants (m fd) OP_WRITE}
       \<and> (\<forall>fd \<in> master_r s' \<union> master_w s'. 0 \<le> fd \<and> fd \<le> max_fd s'))"
proof -
  have s: "full_sel s" "regs s = (\<lambda>_. None)" using selector_newD [OF new] by auto
  show ?thesis
  proof (rule returns_mono [OF sel.run_refines [OF s(1) legal]])
    fix s'
    assume s': "full_sel s' \<and> regs s' = fold reg_step ops (regs s)"
    have "0 \<le> fd \<and> fd \<le> max_fd s'" if "fd \<in> master_r s' \<union> master_w s'" for fd
    proof -
      have "regs s' fd \<noteq> None" using sel.polled [of s' fd] s' that by (auto simp: wants_def split: option.splits)
      then show ?thesis using regs_max [of s' fd] s' by (auto simp: full_sel_def)
    qed
    with s' s(2) show "let m = fold reg_step ops (\<lambda>_. None) in regs s' = m
       \<and> master_r s' = {fd. wants (m fd) OP_READ} \<and> master_w s' = {fd. wants (m fd) OP_WRITE}
       \<and> (\<forall>fd \<in> master_r s' \<union> master_w s'. 0 \<le> fd \<and> fd \<le> max_fd s')"
      using sel.polled [of s'] by (auto simp: Let_def)
  qed
qed

theorem selector_refines_map_witness:
  "\<exists>s. selector_new True True \<lparr>conf_signal = 14, conf_timeout = (10, 0)\<rparr> ITEMS_MAX_SIZE = Some (Some s)
   \<and> returns (reg_run (\<lambda>fd h i d s. selector_register True fd (Some h) i d s) selector_set_interest item_remove
       [Enter 3 () OP_READ (Some ()), Change 3 OP_WRITE, Enter 3 () OP_READ None, Enter 5 () OP_READ None, Remove 5] s)
     (\<lambda>s'. master_r s' = {} \<and> master_w s' = {3})"
proof -
  let ?ops = "[Enter 3 () OP_READ (Some ()), Change 3 OP_WRITE, Enter 3 () OP_READ None, Enter 5 () OP_READ None, Remove 5]"
  obtain s :: "(unit, unit) fdselector"
    where s: "selector_new True True \<lparr>conf_signal = 14, conf_timeout = (10, 0)\<rparr> ITEMS_MAX_SIZE = Some (Some s)"
    using selector_new_full by blast
  have "list_all (reg_legal (\<lambda>fd. \<not> INVALID_FD fd)) ?ops" by (simp add: INVALID_FD_def)
  from selector_refines_map [OF s this]
  have "returns (reg_run (\<lambda>fd h i d s. selector_register True fd (Some h) i d s) selector_set_interest item_remove ?ops s)
     (\<lambda>s'. master_r s' = {} \<and> master_w s' = {3})"
    by (rule returns_mono) (auto simp: Let_def wants_def split: if_splits)
  with s show ?thesis by blast
qed

text \<open>C11: one round of the event loop. If every callback, called for a registered descriptor with the
  attachment of that registration while its interest asks for the event, keeps the invariant of the
  program, and every finished job finds its handler, then \<^verbatim>\<open>selector_select\<close> returns whatever descriptors
  the kernel reports as ready: it never calls a missing handler, never leaves the table, never calls a
  handler for a descriptor that a callback of the same round has unregistered, and keeps the invariant.
  When it reports success every finished job has been handed out.\<close>

theorem selector_select_safe:
  assumes H: "host_ok H P" and rd: "read_ok H P" and wr: "write_ok H P" and js: "jobs_ok H P Q" and w: "P w"
  shows "returns (selector_select poll H w) (\<lambda>(st, w'). P w'
    \<and> (st = SELECTOR_SUCCESS \<and> resolution_jobs (h_sel H w') = [] \<or> st = SELECTOR_IO))"
  by (rule selector_round [OF assms])

text \<open>A host whose world is the selector alone; its read handler stops reading its descriptor.\<close>

definition stop_reading :: "unit selector_key \<Rightarrow> (unit, unit) fdselector \<Rightarrow> (unit, unit) fdselector option" where
  "stop_reading key s = do { (_, s') \<leftarrow> selector_set_interest_key key OP_NOOP s; Some s' }"

definition quiet_host :: "(unit, unit, (unit, unit) fdselector) host" where
  "quiet_host = \<lparr>h_sel = \<lambda>s. s, h_put = \<lambda>s _. s, handle_read = \<lambda>_. Some stop_reading,
     handle_write = \<lambda>_. Some stop_reading, handle_block = \<lambda>_. Some stop_reading, handle_close = \<lambda>_. None\<rparr>"

lemma stop_reading_ok:
  assumes "full_sel s" and "regs s fd = Some (h, i, d)" and "resolution_jobs s = []"
  shows "returns (stop_reading \<lparr>k_fd = fd, k_data = d\<rparr> s) (\<lambda>s'. (full_sel s' \<and> resolution_jobs s' = [])
     \<and> (\<forall>h' i' d'. regs s' fd = Some (h', i', d') \<longrightarrow> d' = d))"
proof -
  have fd: "\<not> INVALID_FD fd" using sel.entry_legal [OF assms(1), of fd] assms(2) by simp
  have j: "resolution_jobs s' = []" if "selector_set_interest fd OP_NOOP s = Some (st, s')" for st s'
  proof -
    have "sel_wf s" "nat fd < fd_size s" using assms(1) full_sel_room [OF assms(1) fd] by (auto simp: full_sel_def)
    from selector_set_interest_ok [OF this(1) fd this(2), of OP_NOOP] that assms(3) show ?thesis by simp
  qed
  from full_change [OF assms(1) fd, of OP_NOOP] assms(2) j fd show ?thesis
    by (auto simp: stop_reading_def selector_set_interest_key_def returns_iff)
qed

theorem selector_select_safe_witness:
  "\<exists>s. full_sel s \<and> returns (selector_select (\<lambda>r w. Inr (r, w)) quiet_host s) (\<lambda>(st, s'). full_sel s')"
proof -
  let ?P = "\<lambda>s. full_sel s \<and> resolution_jobs s = []"
  let ?Q = "\<lambda>js s. ?P s \<and> js = []"
  obtain s :: "(unit, unit) fdselector" where s: "?P s"
    using selector_new_full by blast
  have H: "host_ok quiet_host ?P" by (auto simp: host_ok_def quiet_host_def)
  have cb: "callback_ok quiet_host ?P (keeps_data quiet_host) (\<lambda>_. Some stop_reading) q" for q
    unfolding callback_ok_def keeps_data_def using stop_reading_ok by (simp add: quiet_host_def)
  then have "callback_ok quiet_host ?P (\<lambda>_ _ _. True) (\<lambda>_. Some stop_reading) q" for q
    unfolding callback_ok_def by (auto elim!: returns_mono) (metis (no_types, lifting) returns_mono)
  then have rw: "read_ok quiet_host ?P" "write_ok quiet_host ?P" using cb by (simp_all add: read_ok_def write_ok_def quiet_host_def)
  have js: "jobs_ok quiet_host ?P ?Q" using H by (auto simp: jobs_ok_def quiet_host_def intro: full_sel_cong)
  have "returns (selector_select (\<lambda>r w. Inr (r, w)) quiet_host s) (\<lambda>(st, s'). ?P s'
    \<and> (st = SELECTOR_SUCCESS \<and> resolution_jobs (h_sel quiet_host s') = [] \<or> st = SELECTOR_IO))"
    by (rule selector_select_safe [OF H rw js s])
  then have "returns (selector_select (\<lambda>r w. Inr (r, w)) quiet_host s) (\<lambda>(st, s'). full_sel s')"
    by (rule returns_mono) auto
  with s show ?thesis by blast
qed

text \<open>\<^verbatim>\<open>selector_unregister_fd\<close> on a registered descriptor calls the close callback of its handler
  exactly once, with the descriptor and its attachment, and then removes the registration from the
  table the callback left, so that the descriptor is polled no more; on any other descriptor it refuses
  and changes nothing. The callback must leave a table that is well formed.\<close>

lemma selector_unregister_calls_close:
  assumes H: "host_ok H P" and w: "P w" and fd: "\<not> INVALID_FD fd"
    and reg: "regs (h_sel H w) fd = Some (h, i, d)" and f: "handle_close H h = Some f"
    and w1: "f \<lparr>k_fd = fd, k_data = d\<rparr> w = Some w1" "full_sel (h_sel H w1)"
  shows "\<exists>s'. selector_unregister_fd H fd w = Some (SELECTOR_SUCCESS, h_put H s' w1)
      \<and> full_sel s' \<and> regs s' = (regs (h_sel H w1))(fd := None) \<and> fd \<notin> master_r s' \<and> fd \<notin> master_w s'
    \<and> (\<forall>fd'. regs (h_sel H w) fd' = None \<longrightarrow> selector_unregister_fd H fd' w = Some (SELECTOR_IARGS, w))"
proof -
  obtain k where k: "fd = int k" "k < ITEMS_MAX_SIZE" using fd by (cases fd) (auto simp: INVALID_FD_def)
  obtain it where it: "arr_get (fds (h_sel H w)) (int k) = Some it"
    "item_used it \<longrightarrow> (\<exists>h. i_handler it = Some h \<and> i_fd it = int k
        \<and> regs (h_sel H w) (int k) = Some (h, i_interest it, i_data it))"
    "\<not> item_used it \<longrightarrow> regs (h_sel H w) (int k) = None \<and> i_interest it = OP_NOOP"
    using item_view [OF host_okD(1) [OF H w] k(2)] by blast
  with reg k have u: "item_used it" "i_handler it = Some h" "i_fd it = fd" "i_data it = d" by auto
  from full_remove [OF w1(2) fd] obtain s' where s': "item_remove fd (h_sel H w1) = Some s'" "full_sel s'"
      "regs s' = (regs (h_sel H w1))(fd := None)" by (auto simp: returns_iff)
  have "selector_unregister_fd H fd' w = Some (SELECTOR_IARGS, w)" if none: "regs (h_sel H w) fd' = None" for fd'
  proof (cases "INVALID_FD fd'")
    case True
    then show ?thesis by (simp add: selector_unregister_fd_def)
  next
    case False
    then obtain k' where k': "fd' = int k'" "k' < ITEMS_MAX_SIZE" by (cases fd') (auto simp: INVALID_FD_def)
    obtain it' where "arr_get (fds (h_sel H w)) (int k') = Some it'" "\<not> item_used it'"
      using item_view [OF host_okD(1) [OF H w] k'(2)] none k'(1) by (metis option.distinct(1))
    then show ?thesis using False k' by (simp add: selector_unregister_fd_def)
  qed
  moreover have "selector_unregister_fd H fd w = Some (SELECTOR_SUCCESS, h_put H s' w1)"
    using it(1) u fd f w1(1) s'(1) k(1) by (simp add: selector_unregister_fd_def)
  moreover have "fd \<notin> master_r s'" "fd \<notin> master_w s'" using sel.polled [OF s'(2), of fd] s'(3) by auto
  ultimately show ?thesis using s' by blast
qed

lemma selector_unregister_calls_close_witness:
  "\<exists>s H. regs s 3 = Some ((), OP_READ, None) \<and> handle_close H () = Some stop_reading
     \<and> returns (selector_unregister_fd H 3 s) (\<lambda>(st, s'). st = SELECTOR_SUCCESS \<and> regs s' 3 = None)"
proof -
  let ?H = "quiet_host\<lparr>handle_close := \<lambda>_. Some stop_reading\<rparr>"
  let ?P = "\<lambda>s. full_sel s \<and> resolution_jobs s = []"
  obtain s0 :: "(unit, unit) fdselector" where s0: "full_sel s0" "regs s0 = (\<lambda>_. None)" "resolution_jobs s0 = []"
    using selector_new_full by blast
  have fd: "\<not> INVALID_FD 3" by (simp add: INVALID_FD_def)
  have wf: "sel_wf s0" "nat 3 \<noteq> fd_size s0" using s0 full_sel_room [OF s0(1) fd] by (auto simp: full_sel_def)
  obtain s :: "(unit, unit) fdselector" where s: "full_sel s" "regs s = [3 \<mapsto> ((), OP_READ, None)]" "resolution_jobs s = []"
    using full_enter [OF s0(1) fd, of True "()" OP_READ None] selector_register_ok [OF wf(1) fd wf(2), of True "()" OP_READ None]
      s0 by (auto simp: returns_iff)
  have H: "host_ok ?H ?P" by (auto simp: host_ok_def quiet_host_def)
  have reg: "regs s 3 = Some ((), OP_READ, None)" using s by simp
  from stop_reading_ok [OF s(1) reg s(3)] obtain s1
    where s1: "stop_reading \<lparr>k_fd = 3, k_data = None\<rparr> s = Some s1" "full_sel s1" by (auto simp: returns_iff)
  have "h_sel ?H = (\<lambda>s. s)" "h_put ?H = (\<lambda>s _. s)" "handle_close ?H () = Some stop_reading" by (simp_all add: quiet_host_def)
  with selector_unregister_calls_close [of ?H ?P s 3 "()" OP_READ None stop_reading s1] H s fd reg s1
  show ?thesis by (intro exI [of _ s] exI [of _ ?H]) auto
qed

text \<open>growth of the table. In a smaller selector a legal descriptor above the size of the table makes
  it grow (all registrations kept) and is registered; but the descriptor equal to the size of the table
  passes the test \<^verbatim>\<open>ufd > s->fd_size\<close> and is written one item past the end. A new capacity is always
  above the number asked for and at most \<^verbatim>\<open>FD_SETSIZE + 1\<close>, which is why the server, whose table starts
  with \<^verbatim>\<open>FD_SETSIZE + 1\<close> items, never meets that case.\<close>

lemma selector_growth:
  assumes wf: "sel_wf s" and size: "fd_size s < ITEMS_MAX_SIZE"
  shows "selector_register mem (int (fd_size s)) (Some h) i d s = None
    \<and> (\<forall>fd. int (fd_size s) < fd \<and> fd < int ITEMS_MAX_SIZE \<longrightarrow>
         returns (selector_register True fd (Some h) i d s) (\<lambda>(st, s'). st = SELECTOR_SUCCESS \<and> sel_wf s'
           \<and> nat fd < fd_size s' \<and> regs s' = (regs s)(fd \<mapsto> (h, i, d))))
    \<and> (\<forall>n \<le> ITEMS_MAX_SIZE. returns (next_capacity n) (\<lambda>c. n < c \<and> c \<le> ITEMS_MAX_SIZE + 1))"
proof (intro conjI allI impI)
  show "selector_register mem (int (fd_size s)) (Some h) i d s = None"
    by (rule selector_register_boundary) (use size in simp)
  show "returns (next_capacity n) (\<lambda>c. n < c \<and> c \<le> ITEMS_MAX_SIZE + 1)" if "n \<le> ITEMS_MAX_SIZE" for n
    using that by (rule next_capacity_ok)
  fix fd
  assume fd: "int (fd_size s) < fd \<and> fd < int ITEMS_MAX_SIZE"
  then have leg: "\<not> INVALID_FD fd" "nat fd \<noteq> fd_size s" by (auto simp: INVALID_FD_def)
  have none: "regs s fd = None" using fd by (simp add: regs_def)
  show "returns (selector_register True fd (Some h) i d s) (\<lambda>(st, s'). st = SELECTOR_SUCCESS \<and> sel_wf s'
           \<and> nat fd < fd_size s' \<and> regs s' = (regs s)(fd \<mapsto> (h, i, d)))"
  proof (rule returns_mono [OF selector_register_ok [OF wf leg, of True h i d]], clarify)
    fix st s'
    assume a: "sel_wf s'" "if nat fd > fd_size s \<and> \<not> True then st = SELECTOR_ENOMEM \<and> s' = s
        else if regs s fd \<noteq> None then st = SELECTOR_FDINUSE \<and> regs s' = regs s
        else st = SELECTOR_SUCCESS \<and> regs s' = (regs s)(fd \<mapsto> (h, i, d))"
    then have r: "st = SELECTOR_SUCCESS" "regs s' = (regs s)(fd \<mapsto> (h, i, d))" using none by auto
    then have "regs s' fd = Some (h, i, d)" by simp
    from regs_bounds [OF this] have "nat fd < fd_size s'" by auto
    with a(1) r show "st = SELECTOR_SUCCESS \<and> sel_wf s' \<and> nat fd < fd_size s' \<and> regs s' = (regs s)(fd \<mapsto> (h, i, d))"
      by simp
  qed
qed

lemma selector_growth_witness:
  "\<exists>s. selector_new True True \<lparr>conf_signal = 14, conf_timeout = (10, 0)\<rparr> 0 = Some (Some s) \<and> fd_size s = 2
     \<and> selector_register True 2 (Some ()) OP_READ (Some ()) s = None
     \<and> returns (selector_register True 3 (Some ()) OP_READ (Some ()) s) (\<lambda>(st, s'). st = SELECTOR_SUCCESS)"
proof -
  have "bit_count 0 = 0" by (simp add: bit_count.simps)
  then obtain s :: "(unit, unit) fdselector"
    where s: "selector_new True True \<lparr>conf_signal = 14, conf_timeout = (10, 0)\<rparr> 0 = Some (Some s)"
      "fds s = replicate 2 free_item" "max_fd s = 0" "master_r s = {}" "master_w s = {}"
    by (simp add: selector_new_def ensure_capacity_def next_capacity_def fd_size_def numeral_2_eq_2)
  have "regs s = (\<lambda>_. None)" using s(2) by (auto simp: regs_def fd_size_def nth_replicate)
  then have wf: "sel_wf s" using s by (auto simp: sel_wf_def fd_size_def item_wf_def)
  have sz: "fd_size s = 2" using s(2) by (simp add: fd_size_def)
  then have lt: "fd_size s < ITEMS_MAX_SIZE" by simp
  note g = selector_growth [OF wf lt, of True "()" OP_READ "Some ()"]
  have "returns (selector_register True 3 (Some ()) OP_READ (Some ()) s) (\<lambda>(st, s'). st = SELECTOR_SUCCESS \<and> sel_wf s'
           \<and> nat 3 < fd_size s' \<and> regs s' = (regs s)(3 \<mapsto> ((), OP_READ, Some ())))"
    using g [THEN conjunct2, THEN conjunct1, THEN spec [of _ 3]] sz by simp
  then have "returns (selector_register True 3 (Some ()) OP_READ (Some ()) s) (\<lambda>(st, s'). st = SELECTOR_SUCCESS)"
    by (rule returns_mono) auto
  with g s(1) sz show ?thesis by auto
qed

end
