(* ===== verification/World.thy ===== *)
theory World
  imports Users Config Metrics Access_Log Registry
begin

text \<open>
  The state of the running server, and the kernel under it. The kernel is driven by scripts: for every
  descriptor what the next calls of \<^verbatim>\<open>recv\<close> and \<^verbatim>\<open>send\<close> will do, for a listening one what \<^verbatim>\<open>accept\<close> will
  do, and for the process which allocations succeed and what the next calls of \<^verbatim>\<open>socket\<close>, \<^verbatim>\<open>connect\<close>,
  \<^verbatim>\<open>getsockopt\<close> and \<^verbatim>\<open>shutdown\<close> give. A script that is used up means that the call would block (\<^verbatim>\<open>connect\<close>
  is then in progress) or, for the calls that cannot block, that it succeeds. Theorems quantify over the
  scripts. \<open>k_rx\<close> and \<open>k_tx\<close> record what each descriptor has delivered and taken since it was opened,
  \<open>k_peer\<close> the address it was last connected to, and \<open>k_fin\<close> the descriptors whose sending side is shut.
\<close>

section \<open>The kernel\<close>

datatype recv_event = R_data "byte list" | R_eof | R_err errno
datatype send_event = S_take nat | S_err errno

record kernel =
  k_open :: "int list"
  k_in :: "int \<Rightarrow> recv_event list"
  k_out :: "int \<Rightarrow> send_event list"
  k_accept :: "int \<Rightarrow> errno option list"
  k_fcntl :: "bool list"
  k_mem :: "bool list"
  k_sock :: "errno option list"
  k_conn :: "errno option list"
  k_soerr :: "(errno + errno option) list"
  k_shut :: "errno option list"
  k_rx :: "int \<Rightarrow> byte list"
  k_tx :: "int \<Rightarrow> byte list"
  k_peer :: "int \<Rightarrow> sockaddr option"
  k_fin :: "int list"

text \<open>\<^verbatim>\<open>recv(fd, buf, n, 0)\<close>: an error, or the bytes delivered (none at the end of the stream).\<close>

definition k_recv :: "int \<Rightarrow> nat \<Rightarrow> kernel \<Rightarrow> (errno + byte list) \<times> kernel" where
  "k_recv fd n k =
     (if fd \<notin> set (k_open k) then (Inl EBADF, k)
      else case k_in k fd of
        [] \<Rightarrow> (Inl EAGAIN, k)
      | R_eof # _ \<Rightarrow> (Inr [], k)
      | R_err e # evs \<Rightarrow> (Inl e, k\<lparr>k_in := (k_in k)(fd := evs)\<rparr>)
      | R_data bs # evs \<Rightarrow>
          if bs = [] \<or> n = 0 then (Inl EAGAIN, k\<lparr>k_in := (k_in k)(fd := evs)\<rparr>)
          else (Inr (take n bs),
                k\<lparr>k_in := (k_in k)(fd := if length bs \<le> n then evs else R_data (drop n bs) # evs),
                  k_rx := (k_rx k)(fd := k_rx k fd @ take n bs)\<rparr>))"

text \<open>\<^verbatim>\<open>send(fd, bs, n, 0)\<close>: an error, or how many of the bytes it took.\<close>

definition k_send :: "int \<Rightarrow> byte list \<Rightarrow> kernel \<Rightarrow> (errno + nat) \<times> kernel" where
  "k_send fd bs k =
     (if fd \<notin> set (k_open k) then (Inl EBADF, k)
      else case k_out k fd of
        [] \<Rightarrow> (Inl EAGAIN, k)
      | S_err e # evs \<Rightarrow> (Inl e, k\<lparr>k_out := (k_out k)(fd := evs)\<rparr>)
      | S_take m # evs \<Rightarrow> (Inr (min m (length bs)),
          k\<lparr>k_out := (k_out k)(fd := evs), k_tx := (k_tx k)(fd := k_tx k fd @ take m bs)\<rparr>))"

definition k_close :: "int \<Rightarrow> kernel \<Rightarrow> kernel" where
  "k_close fd k = k\<lparr>k_open := removeAll fd (k_open k)\<rparr>"

text \<open>The lowest descriptor that is not open.\<close>

definition fresh_fd :: "int list \<Rightarrow> int" where
  "fresh_fd opn = hd (filter (\<lambda>i. i \<notin> set opn) (map int [0 ..< Suc (length opn)]))"

definition k_socket :: "kernel \<Rightarrow> int \<times> kernel" where
  "k_socket k = (let fd = fresh_fd (k_open k)
     in (fd, k\<lparr>k_open := fd # k_open k, k_rx := (k_rx k)(fd := []), k_tx := (k_tx k)(fd := []),
               k_peer := (k_peer k)(fd := None), k_fin := removeAll fd (k_fin k)\<rparr>))"

definition k_do_accept :: "int \<Rightarrow> kernel \<Rightarrow> (errno + int) \<times> kernel" where
  "k_do_accept fd k =
     (case k_accept k fd of
        [] \<Rightarrow> (Inl EAGAIN, k)
      | Some e # evs \<Rightarrow> (Inl e, k\<lparr>k_accept := (k_accept k)(fd := evs)\<rparr>)
      | None # evs \<Rightarrow> (case k_socket (k\<lparr>k_accept := (k_accept k)(fd := evs)\<rparr>) of (c, k') \<Rightarrow> (Inr c, k')))"

text \<open>The next outcome of a script of successes, and what is left of it.\<close>

fun next_ok :: "bool list \<Rightarrow> bool \<times> bool list" where
  "next_ok [] = (True, [])"
| "next_ok (b # bs) = (b, bs)"

definition k_alloc :: "kernel \<Rightarrow> bool \<times> kernel" where
  "k_alloc k = (case next_ok (k_mem k) of (ok, bs) \<Rightarrow> (ok, k\<lparr>k_mem := bs\<rparr>))"

definition k_set_nio :: "int \<Rightarrow> kernel \<Rightarrow> bool \<times> kernel" where
  "k_set_nio fd k = (case next_ok (k_fcntl k) of (ok, bs) \<Rightarrow> (ok \<and> fd \<in> set (k_open k), k\<lparr>k_fcntl := bs\<rparr>))"

text \<open>
  \<^verbatim>\<open>socket\<close>; \<^verbatim>\<open>connect\<close>, with the errno it fails with; \<^verbatim>\<open>getsockopt(fd, SOL_SOCKET, SO_ERROR)\<close>, with the
  errno it fails with or the error it reads (none is 0); \<^verbatim>\<open>shutdown(fd, SHUT_WR)\<close>, with its errno.
\<close>

fun next_of :: "'a \<Rightarrow> 'a list \<Rightarrow> 'a \<times> 'a list" where
  "next_of d [] = (d, [])"
| "next_of d (x # xs) = (x, xs)"

definition k_new_socket :: "kernel \<Rightarrow> (errno + int) \<times> kernel" where
  "k_new_socket k = (case next_of None (k_sock k) of
     (Some e, evs) \<Rightarrow> (Inl e, k\<lparr>k_sock := evs\<rparr>)
   | (None, evs) \<Rightarrow> (case k_socket (k\<lparr>k_sock := evs\<rparr>) of (fd, k') \<Rightarrow> (Inr fd, k')))"

definition k_connect :: "int \<Rightarrow> sockaddr \<Rightarrow> kernel \<Rightarrow> errno option \<times> kernel" where
  "k_connect fd addr k = (case next_of (Some EINPROGRESS) (k_conn k) of
     (r, evs) \<Rightarrow> (r, k\<lparr>k_conn := evs, k_peer := (k_peer k)(fd := Some addr)\<rparr>))"

definition k_so_error :: "int \<Rightarrow> kernel \<Rightarrow> (errno + errno option) \<times> kernel" where
  "k_so_error fd k = (case next_of (Inr None) (k_soerr k) of (r, evs) \<Rightarrow> (r, k\<lparr>k_soerr := evs\<rparr>))"

definition k_shutdown :: "int \<Rightarrow> kernel \<Rightarrow> errno option \<times> kernel" where
  "k_shutdown fd k = (case next_of None (k_shut k) of
     (r, evs) \<Rightarrow> (r, k\<lparr>k_shut := evs, k_fin := if r = None then fd # k_fin k else k_fin k\<rparr>))"

lemma fresh_fd_new: "fresh_fd opn \<notin> set opn \<and> 0 \<le> fresh_fd opn"
proof -
  let ?xs = "filter (\<lambda>i. i \<notin> set opn) (map int [0 ..< Suc (length opn)])"
  have "?xs \<noteq> []"
  proof
    assume "?xs = []"
    then have "set (map int [0 ..< Suc (length opn)]) \<subseteq> set opn"
      by (auto simp: filter_empty_conv simp del: upt_Suc)
    then have "card (set (map int [0 ..< Suc (length opn)])) \<le> card (set opn)" by (rule card_mono [rotated]) simp
    moreover have "card (set (map int [0 ..< Suc (length opn)])) = Suc (length opn)"
      using distinct_card [of "map int [0 ..< Suc (length opn)]"]
      by (simp add: distinct_map inj_on_def del: upt_Suc set_map)
    ultimately show False using card_length [of opn] by linarith
  qed
  then have "hd ?xs \<in> set ?xs" by (rule hd_in_set)
  then show ?thesis by (auto simp: fresh_fd_def)
qed

text \<open>What a receive and a send do to the traces.\<close>

lemma k_recv_trace:
  assumes "k_recv fd n k = (r, k')"
  shows "k_open k' = k_open k \<and> k_tx k' = k_tx k \<and> k_out k' = k_out k
    \<and> k_rx k' = (case r of Inl e \<Rightarrow> k_rx k | Inr bs \<Rightarrow> (k_rx k)(fd := k_rx k fd @ bs))
    \<and> (\<forall>bs. r = Inr bs \<longrightarrow> length bs \<le> n)"
  using assms by (auto simp: k_recv_def split: if_splits list.splits recv_event.splits)

lemma k_send_trace:
  assumes "k_send fd bs k = (r, k')"
  shows "k_open k' = k_open k \<and> k_rx k' = k_rx k \<and> k_in k' = k_in k
    \<and> k_tx k' = (case r of Inl e \<Rightarrow> k_tx k | Inr n \<Rightarrow> (k_tx k)(fd := k_tx k fd @ take n bs))
    \<and> (\<forall>n. r = Inr n \<longrightarrow> n \<le> length bs)"
proof -
  have "take (min m (length bs)) bs = take m bs" for m by (cases "m \<le> length bs") auto
  with assms show ?thesis by (auto simp: k_send_def split: if_splits list.splits send_event.splits)
qed

section \<open>The server\<close>

text \<open>The four handlers that are registered with the selector, and what is attached to a registration.\<close>

datatype handler = socks_passive_handler | mng_passive_handler | socks5_handler | mng_handler

datatype attachment = Mng_Ptr nat | Socks_Ptr nat

text \<open>A management session: \<^verbatim>\<open>struct mng_session\<close> of \<^verbatim>\<open>src/server/mng.c\<close>.\<close>

record mng_session =
  ms_fd :: int
  ms_line :: "char list"
  ms_line_len :: nat
  ms_in_buf :: "char list"
  ms_in_len :: nat
  ms_in_pos :: nat
  ms_out :: "char list"
  ms_out_len :: nat
  ms_out_sent :: nat
  ms_authenticated :: bool
  ms_locked :: bool
  ms_closing :: bool
  ms_auth_failures :: u32

text \<open>
  \<^verbatim>\<open>main\<close> gives the management and the SOCKS code the same users, metrics and configuration, so each
  of these pointers is one field: the object, or none for a null pointer. Sessions live in a heap
  indexed by pointers; a session that is not there has been freed.
\<close>

record srv =
  kern :: kernel
  sel :: "(handler, attachment) fdselector"
  g_admin_secret :: "char list option"
  g_users :: "users option"
  g_metrics :: "metrics option"
  g_config :: "config option"
  g_active_sessions :: u32
  mng_heap :: "nat \<Rightarrow> mng_session option"
  next_ptr :: nat

type_synonym mng_key = "attachment selector_key"

end
