(* ===== verification/Mng.thy ===== *)
theory Mng
  imports World
begin

text \<open>
  \<^verbatim>\<open>src/server/mng.c\<close>: the management protocol. A session reads lines of text, answers each with one
  line, and asks the selector for writing while an answer is pending and for reading otherwise.

  The cursor into the line is what is left of the line from there; a token that \<^verbatim>\<open>next_token\<close> cuts out is
  a string of its own. \<^verbatim>\<open>printf\<close> formats are written out as the text they produce. An operation is
  \<open>None\<close> when it leaves an array or uses a session that has been freed.
\<close>

abbreviation (input) MNG_LINE_SIZE :: nat where "MNG_LINE_SIZE \<equiv> 1024"
abbreviation (input) MNG_WRITE_SIZE :: nat where "MNG_WRITE_SIZE \<equiv> 4096"
abbreviation (input) MNG_IN_SIZE :: nat where "MNG_IN_SIZE \<equiv> 256"
abbreviation (input) MNG_MAX_AUTH_FAILURES :: u32 where "MNG_MAX_AUTH_FAILURES \<equiv> 3"
abbreviation (input) INT32_MAX :: int where "INT32_MAX \<equiv> 2147483647"

section \<open>Lexing\<close>

text \<open>The loop of \<^verbatim>\<open>trim_right\<close> works from the end; here on the reversed string.\<close>

definition trim_right :: "string \<Rightarrow> string" where
  "trim_right s = rev (dropWhile isspace (rev (cstr s)))"

definition next_token :: "string \<Rightarrow> string option \<times> string" where
  "next_token cursor =
     (let s = dropWhile isspace (cstr cursor)
      in if s = [] then (None, [])
         else let start = takeWhile (\<lambda>c. \<not> isspace c) s;
                  rest = dropWhile (\<lambda>c. \<not> isspace c) s
              in (Some start, case rest of [] \<Rightarrow> [] | _ # cs \<Rightarrow> cs))"

definition parse_nonnegative :: "string option \<Rightarrow> int option" where
  "parse_nonnegative s =
     (case s of
        None \<Rightarrow> None
      | Some s \<Rightarrow>
          if cstr s = [] then None
          else case strtol10 s of (n, rest, converted, erange) \<Rightarrow>
            if erange \<or> \<not> converted \<or> rest \<noteq> [] \<or> n < 0 \<or> n > INT32_MAX then None else Some n)"

section \<open>Responses\<close>

definition session_of :: "mng_key \<Rightarrow> 'a srv_scheme \<Rightarrow> (nat \<times> mng_session) option" where
  "session_of key s =
     (case k_data key of
        Some (Mng_Ptr p) \<Rightarrow> (case mng_heap s p of None \<Rightarrow> None | Some m \<Rightarrow> Some (p, m))
      | _ \<Rightarrow> None)"

definition put_session :: "nat \<Rightarrow> mng_session \<Rightarrow> 'a srv_scheme \<Rightarrow> 'a srv_scheme" where
  "put_session p m s = s\<lparr>mng_heap := (mng_heap s)(p \<mapsto> m)\<rparr>"

definition set_interest :: "mng_key \<Rightarrow> u32 \<Rightarrow> 'a srv_scheme \<Rightarrow> 'a srv_scheme option" where
  "set_interest key i s = do {
     (_, sl) \<leftarrow> selector_set_interest_key key i (sel s);
     Some (s\<lparr>sel := sl\<rparr>)
   }"

definition truncated :: string where
  "truncated = ''-ERR response too large'' @ [LF]"

text \<open>\<^verbatim>\<open>vsnprintf\<close> into \<^verbatim>\<open>session->out\<close>, with \<open>txt\<close> the text of the format and its arguments.\<close>

definition fill_out :: "string \<Rightarrow> mng_session \<Rightarrow> mng_session option" where
  "fill_out txt m = do {
     out \<leftarrow> snprintf (ms_out m) MNG_WRITE_SIZE txt;
     if length txt \<ge> MNG_WRITE_SIZE then do {
       out \<leftarrow> arr_blit out 0 truncated;
       Some (m\<lparr>ms_out := out, ms_out_len := length truncated, ms_out_sent := 0\<rparr>)
     } else Some (m\<lparr>ms_out := out, ms_out_len := length txt, ms_out_sent := 0\<rparr>)
   }"

definition queue_response :: "mng_key \<Rightarrow> string \<Rightarrow> 'a srv_scheme \<Rightarrow> 'a srv_scheme option" where
  "queue_response key txt s = do {
     (p, m) \<leftarrow> session_of key s;
     m \<leftarrow> fill_out txt m;
     set_interest key OP_WRITE (put_session p m s)
   }"

definition require_auth :: "mng_key \<Rightarrow> mng_session \<Rightarrow> 'a srv_scheme \<Rightarrow> (bool \<times> 'a srv_scheme) option" where
  "require_auth key m s =
     (if ms_locked m then do { s \<leftarrow> queue_response key (''-ERR locked'' @ [LF]) s; Some (False, s) }
      else if \<not> ms_authenticated m then do { s \<leftarrow> queue_response key (''-ERR auth required'' @ [LF]) s; Some (False, s) }
      else Some (True, s))"

section \<open>Commands\<close>

definition handle_auth :: "mng_key \<Rightarrow> string \<Rightarrow> 'a srv_scheme \<Rightarrow> 'a srv_scheme option" where
  "handle_auth key cursor s = do {
     let (secret, cursor) = next_token cursor;
     let (extra, cursor) = next_token cursor;
     (p, m) \<leftarrow> session_of key s;
     case secret of
       None \<Rightarrow> queue_response key (''-ERR usage AUTH <secret>'' @ [LF]) s
     | Some sec \<Rightarrow>
         if extra \<noteq> None then queue_response key (''-ERR usage AUTH <secret>'' @ [LF]) s
         else case g_admin_secret s of
           None \<Rightarrow> queue_response key (''-ERR auth required'' @ [LF]) s
         | Some adm \<Rightarrow>
             if cstr adm = [] then queue_response key (''-ERR auth required'' @ [LF]) s
             else if strcmp_eq sec adm
             then queue_response key (''+OK authenticated'' @ [LF])
                    (put_session p (m\<lparr>ms_authenticated := True, ms_auth_failures := 0\<rparr>) s)
             else do {
               let m = m\<lparr>ms_auth_failures := ms_auth_failures m + 1\<rparr>;
               if ms_auth_failures m \<ge> MNG_MAX_AUTH_FAILURES
               then queue_response key (''-ERR locked'' @ [LF])
                      (put_session p (m\<lparr>ms_locked := True, ms_closing := True\<rparr>) s)
               else queue_response key (''-ERR invalid credentials'' @ [LF]) (put_session p m s)
             }
   }"

definition stats_text :: "metrics_snapshot_t \<Rightarrow> string" where
  "stats_text t = ''+OK conn-accepted='' @ dec (unat (s_conn_accepted t))
     @ '' conn-active='' @ dec (unat (s_conn_active t))
     @ '' conn-rejected='' @ dec (unat (s_conn_rejected t))
     @ '' auth-fail='' @ dec (unat (s_auth_fail t))
     @ '' origin-ok='' @ dec (unat (s_origin_ok t))
     @ '' origin-fail='' @ dec (unat (s_origin_fail t))
     @ '' bytes-c2o='' @ dec (unat (s_bytes_c2o t))
     @ '' bytes-o2c='' @ dec (unat (s_bytes_o2c t))
     @ '' admin-sessions='' @ dec (unat (s_admin_sessions t)) @ [LF]"

definition handle_stats :: "mng_key \<Rightarrow> 'a srv_scheme \<Rightarrow> 'a srv_scheme option" where
  "handle_stats key s =
     (case g_metrics s of
        None \<Rightarrow> queue_response key (''-ERR metrics unavailable'' @ [LF]) s
      | Some m \<Rightarrow> queue_response key (stats_text (metrics_snapshot m)) s)"

text \<open>
  The loop over the names from index \<open>i\<close> with \<open>k\<close> iterations left: the output and the length used, or
  nothing when a name does not fit (the response that is queued then).
\<close>

fun users_loop :: "users \<Rightarrow> nat \<Rightarrow> nat \<Rightarrow> char list \<Rightarrow> nat \<Rightarrow> (char list \<times> nat) option option" where
  "users_loop u i 0 out used = Some (Some (out, used))"
| "users_loop u i (Suc k) out used = do {
     name \<leftarrow> users_get_name u (int i);
     let txt = (if i = 0 then [] else '','') @ (case name of None \<Rightarrow> [] | Some n \<Rightarrow> cstr n);
     tail_out \<leftarrow> snprintf (drop used out) (MNG_WRITE_SIZE - used) txt;
     let out = take used out @ tail_out;
     if used + length txt \<ge> MNG_WRITE_SIZE then Some None
     else users_loop u (Suc i) k out (used + length txt)
   }"

definition handle_users :: "mng_key \<Rightarrow> 'a srv_scheme \<Rightarrow> 'a srv_scheme option" where
  "handle_users key s =
     (case g_users s of
        None \<Rightarrow> queue_response key (''-ERR users unavailable'' @ [LF]) s
      | Some u \<Rightarrow> do {
          (p, m) \<leftarrow> session_of key s;
          let count = users_count u;
          out \<leftarrow> snprintf (ms_out m) MNG_WRITE_SIZE ''+OK users='';
          let s = put_session p (m\<lparr>ms_out := out\<rparr>) s;
          if count = 0 then queue_response key (''+OK users=-'' @ [LF]) s
          else do {
            r \<leftarrow> users_loop u 0 (nat count) out (length ''+OK users='');
            case r of
              None \<Rightarrow> queue_response key (''-ERR response too large'' @ [LF]) s
            | Some (out, used) \<Rightarrow>
                if used + 1 \<ge> MNG_WRITE_SIZE
                then queue_response key (''-ERR response too large'' @ [LF]) (put_session p (m\<lparr>ms_out := out\<rparr>) s)
                else do {
                  out \<leftarrow> arr_set out (int used) LF;
                  out \<leftarrow> arr_set out (int (used + 1)) NUL;
                  set_interest key OP_WRITE
                    (put_session p (m\<lparr>ms_out := out, ms_out_len := used + 1, ms_out_sent := 0\<rparr>) s)
                }
          }
        })"

definition handle_user :: "mng_key \<Rightarrow> string \<Rightarrow> 'a srv_scheme \<Rightarrow> 'a srv_scheme option" where
  "handle_user key cursor s = do {
     let (action, cursor) = next_token cursor;
     case g_users s of
       None \<Rightarrow> queue_response key (''-ERR users unavailable'' @ [LF]) s
     | Some u \<Rightarrow> (case action of
         None \<Rightarrow> queue_response key (''-ERR usage USER SET <name> <pass> | USER DELETE <name>'' @ [LF]) s
       | Some act \<Rightarrow>
           if strcmp_eq act ''SET'' then do {
             let (name, cursor) = next_token cursor;
             let (pass, cursor) = next_token cursor;
             let (extra, cursor) = next_token cursor;
             case (name, pass, extra) of
               (Some n, Some pw, None) \<Rightarrow> do {
                 (ok, u) \<leftarrow> users_add u n pw;
                 queue_response key ((if ok then ''+OK user set'' else ''-ERR user limit reached'') @ [LF])
                   (s\<lparr>g_users := Some u\<rparr>)
               }
             | _ \<Rightarrow> queue_response key (''-ERR usage USER SET <name> <pass>'' @ [LF]) s
           }
           else if strcmp_eq act ''DELETE'' then do {
             let (name, cursor) = next_token cursor;
             let (extra, cursor) = next_token cursor;
             case (name, extra) of
               (Some n, None) \<Rightarrow> do {
                 (ok, u) \<leftarrow> users_del u n;
                 queue_response key ((if ok then ''+OK user deleted'' else ''-ERR user not found'') @ [LF])
                   (s\<lparr>g_users := Some u\<rparr>)
               }
             | _ \<Rightarrow> queue_response key (''-ERR usage USER DELETE <name>'' @ [LF]) s
           }
           else queue_response key (''-ERR unknown USER command'' @ [LF]) s)
   }"

text \<open>\<^verbatim>\<open>%d\<close>.\<close>

definition int_text :: "int \<Rightarrow> string" where
  "int_text i = (if i < 0 then ''-'' @ dec (nat (- i)) else dec (nat i))"

definition config_text :: "config \<Rightarrow> string" where
  "config_text c = ''+OK negotiation-timeout='' @ int_text (negotiation_timeout c)
     @ '' connect-timeout='' @ int_text (connect_timeout c)
     @ '' idle-timeout='' @ int_text (idle_timeout c)
     @ '' max-connections='' @ int_text (max_connections c) @ [LF]"

definition handle_config_get :: "mng_key \<Rightarrow> 'a srv_scheme \<Rightarrow> 'a srv_scheme option" where
  "handle_config_get key s =
     (case g_config s of
        None \<Rightarrow> queue_response key (''-ERR config unavailable'' @ [LF]) s
      | Some c \<Rightarrow> queue_response key (config_text c) s)"

definition handle_config :: "mng_key \<Rightarrow> string \<Rightarrow> 'a srv_scheme \<Rightarrow> 'a srv_scheme option" where
  "handle_config key cursor s = do {
     let (action, cursor) = next_token cursor;
     case g_config s of
       None \<Rightarrow> queue_response key (''-ERR config unavailable'' @ [LF]) s
     | Some c \<Rightarrow> (case action of
         None \<Rightarrow> queue_response key (''-ERR usage CONFIG GET | CONFIG SET <key> <value>'' @ [LF]) s
       | Some act \<Rightarrow>
           if strcmp_eq act ''GET'' then
             (if fst (next_token cursor) \<noteq> None then queue_response key (''-ERR usage CONFIG GET'' @ [LF]) s
              else handle_config_get key s)
           else if strcmp_eq act ''SET'' then do {
             let (key_name, cursor) = next_token cursor;
             let (raw_value, cursor) = next_token cursor;
             let (extra, cursor) = next_token cursor;
             if key_name = None \<or> raw_value = None \<or> extra \<noteq> None
             then queue_response key (''-ERR usage CONFIG SET <key> <value>'' @ [LF]) s
             else case parse_nonnegative raw_value of
               None \<Rightarrow> queue_response key (''-ERR invalid value'' @ [LF]) s
             | Some v \<Rightarrow> (case config_set_key c key_name v of
                 (ok, c) \<Rightarrow> queue_response key ((if ok then ''+OK config set'' else ''-ERR unknown config key'') @ [LF])
                   (s\<lparr>g_config := Some c\<rparr>))
           }
           else queue_response key (''-ERR unknown CONFIG command'' @ [LF]) s)
   }"

definition handle_line :: "mng_key \<Rightarrow> 'a srv_scheme \<Rightarrow> 'a srv_scheme option" where
  "handle_line key s = do {
     (p, m) \<leftarrow> session_of key s;
     let (cmd, cursor) = next_token (trim_right (ms_line m));
     case cmd of
       None \<Rightarrow> queue_response key (''-ERR empty command'' @ [LF]) s
     | Some cmd \<Rightarrow>
         if strcmp_eq cmd ''AUTH'' then handle_auth key cursor s
         else if strcmp_eq cmd ''QUIT'' then
           (if fst (next_token cursor) \<noteq> None then queue_response key (''-ERR usage QUIT'' @ [LF]) s
            else queue_response key (''+OK bye'' @ [LF]) (put_session p (m\<lparr>ms_closing := True\<rparr>) s))
         else do {
           (ok, s) \<leftarrow> require_auth key m s;
           if \<not> ok then Some s
           else if strcmp_eq cmd ''STATS'' then handle_stats key s
           else if strcmp_eq cmd ''USERS'' then handle_users key s
           else if strcmp_eq cmd ''USER'' then handle_user key cursor s
           else if strcmp_eq cmd ''CONFIG'' then handle_config key cursor s
           else queue_response key (''-ERR unknown command'' @ [LF]) s
         }
   }"

section \<open>Input and output\<close>

text \<open>One iteration of \<^verbatim>\<open>mng_process_input\<close>.\<close>

definition process_char :: "mng_key \<Rightarrow> nat \<Rightarrow> mng_session \<Rightarrow> 'a srv_scheme \<Rightarrow> 'a srv_scheme option" where
  "process_char key p m s = do {
     c \<leftarrow> arr_get (ms_in_buf m) (int (ms_in_pos m));
     let m = m\<lparr>ms_in_pos := ms_in_pos m + 1\<rparr>;
     if c = CHR 0x0D then Some (put_session p m s)
     else if c = LF then do {
       line \<leftarrow> arr_set (ms_line m) (int (ms_line_len m)) NUL;
       handle_line key (put_session p (m\<lparr>ms_line := line, ms_line_len := 0\<rparr>) s)
     }
     else if ms_line_len m + 1 \<ge> MNG_LINE_SIZE
     then queue_response key (''-ERR line too long'' @ [LF]) (put_session p (m\<lparr>ms_line_len := 0\<rparr>) s)
     else do {
       line \<leftarrow> arr_set (ms_line m) (int (ms_line_len m)) c;
       Some (put_session p (m\<lparr>ms_line := line, ms_line_len := ms_line_len m + 1\<rparr>) s)
     }
   }"

text \<open>
  The loop, with \<open>k\<close> iterations left. Every iteration takes one character of \<^verbatim>\<open>in_buf\<close>, so as many
  iterations as there are characters left are enough.
\<close>

fun process_loop :: "mng_key \<Rightarrow> nat \<Rightarrow> 'a srv_scheme \<Rightarrow> 'a srv_scheme option" where
  "process_loop key 0 s = Some s"
| "process_loop key (Suc k) s = do {
     (p, m) \<leftarrow> session_of key s;
     if ms_in_pos m < ms_in_len m \<and> ms_out_len m = 0
     then do { s \<leftarrow> process_char key p m s; process_loop key k s }
     else Some s
   }"

definition mng_process_input :: "mng_key \<Rightarrow> 'a srv_scheme \<Rightarrow> 'a srv_scheme option" where
  "mng_process_input key s = do {
     (p, m) \<leftarrow> session_of key s;
     s \<leftarrow> process_loop key (ms_in_len m - ms_in_pos m) s;
     (p, m) \<leftarrow> session_of key s;
     Some (if ms_in_pos m \<ge> ms_in_len m then put_session p (m\<lparr>ms_in_pos := 0, ms_in_len := 0\<rparr>) s else s)
   }"

type_synonym 'a mng_host = "(handler, attachment, 'a srv_scheme) host"

definition drop_connection :: "'a mng_host \<Rightarrow> mng_key \<Rightarrow> 'a srv_scheme \<Rightarrow> 'a srv_scheme option" where
  "drop_connection H key s = do { (_, s) \<leftarrow> selector_unregister_fd H (k_fd key) s; Some s }"

definition transient :: "errno \<Rightarrow> bool" where
  "transient e \<longleftrightarrow> e = EAGAIN \<or> e = EINTR"

definition mng_read :: "'a mng_host \<Rightarrow> mng_key \<Rightarrow> 'a srv_scheme \<Rightarrow> 'a srv_scheme option" where
  "mng_read H key s = do {
     (p, m) \<leftarrow> session_of key s;
     if ms_in_pos m \<ge> ms_in_len m then do {
       let (r, k) = k_recv (k_fd key) MNG_IN_SIZE (kern s);
       let s = s\<lparr>kern := k\<rparr>;
       case r of
         Inl e \<Rightarrow> if transient e then Some s else drop_connection H key s
       | Inr bs \<Rightarrow>
           if bs = [] then drop_connection H key s
           else do {
             buf \<leftarrow> arr_blit (ms_in_buf m) 0 (map chr bs);
             mng_process_input key (put_session p (m\<lparr>ms_in_buf := buf, ms_in_len := length bs, ms_in_pos := 0\<rparr>) s)
           }
     } else mng_process_input key s
   }"

text \<open>
  The loop of \<^verbatim>\<open>mng_write\<close>, with \<open>k\<close> iterations left: whether it ended with something other than a
  return, the session, and the server. A \<^verbatim>\<open>send\<close> that takes something shortens what is left, and any
  other ends the loop.
\<close>

datatype flush_end = Flushed | Blocked | Broken

fun flush_out :: "int \<Rightarrow> nat \<Rightarrow> mng_session \<Rightarrow> kernel \<Rightarrow> flush_end \<times> mng_session \<times> kernel" where
  "flush_out fd 0 m kn = (Flushed, m, kn)"
| "flush_out fd (Suc k) m kn =
     (if ms_out_sent m < ms_out_len m then
        (case k_send fd (map ord (take (ms_out_len m - ms_out_sent m) (drop (ms_out_sent m) (ms_out m)))) kn of
           (Inl e, kn) \<Rightarrow> (if transient e then Blocked else Broken, m, kn)
         | (Inr n, kn) \<Rightarrow> if n = 0 then (Flushed, m, kn)
                         else flush_out fd k (m\<lparr>ms_out_sent := ms_out_sent m + n\<rparr>) kn)
      else (Flushed, m, kn))"

definition mng_write :: "'a mng_host \<Rightarrow> mng_key \<Rightarrow> 'a srv_scheme \<Rightarrow> 'a srv_scheme option" where
  "mng_write H key s = do {
     (p, m) \<leftarrow> session_of key s;
     let (e, m, kn) = flush_out (k_fd key) (Suc (ms_out_len m - ms_out_sent m)) m (kern s);
     let s = put_session p m (s\<lparr>kern := kn\<rparr>);
     case e of
       Blocked \<Rightarrow> Some s
     | Broken \<Rightarrow> drop_connection H key s
     | Flushed \<Rightarrow>
         if ms_out_sent m = ms_out_len m then do {
           let m = m\<lparr>ms_out_len := 0, ms_out_sent := 0\<rparr>;
           let s = put_session p m s;
           if ms_closing m then drop_connection H key s
           else do {
             s \<leftarrow> mng_process_input key s;
             (p, m) \<leftarrow> session_of key s;
             if ms_out_len m = 0 then set_interest key OP_READ s else Some s
           }
         } else Some s
   }"

definition mng_close :: "mng_key \<Rightarrow> 'a srv_scheme \<Rightarrow> 'a srv_scheme option" where
  "mng_close key s = do {
     s \<leftarrow> (case k_data key of
            None \<Rightarrow> Some s
          | Some _ \<Rightarrow> do {
              (p, m) \<leftarrow> session_of key s;
              let s = (if ms_fd m \<ge> 0 then s\<lparr>kern := k_close (ms_fd m) (kern s)\<rparr> else s);
              Some (s\<lparr>mng_heap := (mng_heap s)(p := None)\<rparr>)
            });
     let s = (if g_active_sessions s > 0 then s\<lparr>g_active_sessions := g_active_sessions s - 1\<rparr> else s);
     Some (case g_metrics s of None \<Rightarrow> s | Some mt \<Rightarrow> s\<lparr>g_metrics := Some (metrics_admin_session_close mt)\<rparr>)
   }"

text \<open>A session after \<^verbatim>\<open>calloc\<close>, with its descriptor.\<close>

definition new_session :: "int \<Rightarrow> mng_session" where
  "new_session fd = \<lparr>ms_fd = fd, ms_line = replicate MNG_LINE_SIZE NUL, ms_line_len = 0,
     ms_in_buf = replicate MNG_IN_SIZE NUL, ms_in_len = 0, ms_in_pos = 0, ms_out = replicate MNG_WRITE_SIZE NUL,
     ms_out_len = 0, ms_out_sent = 0, ms_authenticated = False, ms_locked = False, ms_closing = False,
     ms_auth_failures = 0\<rparr>"

definition mng_passive_accept :: "mng_key \<Rightarrow> 'a srv_scheme \<Rightarrow> 'a srv_scheme option" where
  "mng_passive_accept key s = do {
     let (r, k) = k_do_accept (k_fd key) (kern s);
     case r of
       Inl _ \<Rightarrow> Some (s\<lparr>kern := k\<rparr>)
     | Inr client \<Rightarrow> do {
         let (nio, k) = k_set_nio client k;
         if \<not> nio then Some (s\<lparr>kern := k_close client k\<rparr>)
         else do {
           let (mem, k) = k_alloc k;
           if \<not> mem then Some (s\<lparr>kern := k_close client k\<rparr>)
           else do {
             let p = next_ptr s;
             let (mem, k) = k_alloc k;
             (st, sl) \<leftarrow> selector_register mem client (Some mng_handler) OP_READ (Some (Mng_Ptr p)) (sel s);
             if st \<noteq> SELECTOR_SUCCESS then Some (s\<lparr>kern := k_close client k, sel := sl\<rparr>)
             else do {
               let s = s\<lparr>kern := k, sel := sl, mng_heap := (mng_heap s)(p \<mapsto> new_session client), next_ptr := p + 1,
                         g_active_sessions := g_active_sessions s + 1\<rparr>;
               Some (case g_metrics s of None \<Rightarrow> s | Some mt \<Rightarrow> s\<lparr>g_metrics := Some (metrics_admin_session_open mt)\<rparr>)
             }
           }
         }
       }
   }"

definition mng_set_context :: "char list option \<Rightarrow> users option \<Rightarrow> metrics option \<Rightarrow> config option \<Rightarrow>
    'a srv_scheme \<Rightarrow> 'a srv_scheme" where
  "mng_set_context secret u m c s = s\<lparr>g_admin_secret := secret, g_users := u, g_metrics := m, g_config := c\<rparr>"

definition mng_active_sessions :: "'a srv_scheme \<Rightarrow> u32" where
  "mng_active_sessions s = g_active_sessions s"

end
