(* ===== verification/Mng_Spec.thy ===== *)
theory Mng_Spec
  imports Mng
begin

lemma words_decreases:
  "dropWhile isspace s = c # cs \<Longrightarrow> length (dropWhile (\<lambda>c. \<not> isspace c) (c # cs)) < length s"
proof -
  assume d: "dropWhile isspace s = c # cs"
  then have "\<not> isspace c" by (metis hd_dropWhile list.distinct(1) list.sel(1))
  then have "length (dropWhile (\<lambda>c. \<not> isspace c) (c # cs)) \<le> length cs"
    using length_dropWhile_le [of "\<lambda>c. \<not> isspace c" cs] by simp
  moreover have "Suc (length cs) \<le> length s" using length_dropWhile_le [of isspace s] d by simp
  ultimately show ?thesis by simp
qed

text \<open>
  The contract of the management protocol (\<^verbatim>\<open>docs/management-protocol.md\<close>): a line is a list of words,
  and \<open>answer\<close> gives the response and the effect of a list of words on the administered objects and on the
  session. \<open>handle_line\<close>, with its cursors, buffers and selector, implements it.
\<close>

section \<open>Words\<close>

function words :: "string \<Rightarrow> string list" where
  "words s = (case dropWhile isspace s of [] \<Rightarrow> []
     | c # cs \<Rightarrow> takeWhile (\<lambda>c. \<not> isspace c) (c # cs) # words (dropWhile (\<lambda>c. \<not> isspace c) (c # cs)))"
  by pat_completeness auto

termination
  by (relation "measure length") (auto dest: words_decreases)

declare words.simps [simp del]

lemma words_none: "dropWhile isspace s = [] \<Longrightarrow> words s = []"
proof -
  assume d: "dropWhile isspace s = []"
  show ?thesis by (subst words.simps) (simp only: d list.case)
qed

lemma words_some: "dropWhile isspace s = c # cs \<Longrightarrow>
   words s = takeWhile (\<lambda>c. \<not> isspace c) (c # cs) # words (dropWhile (\<lambda>c. \<not> isspace c) (c # cs))"
  by (subst words.simps) (simp del: takeWhile.simps dropWhile.simps)

lemma words_Nil [simp]: "words [] = []"
  by (simp add: words_none)

lemma words_space [simp]: "isspace c \<Longrightarrow> words (c # s) = words s"
  by (cases "dropWhile isspace s") (simp_all add: words_none words_some)

lemma words_spaces: "list_all isspace t \<Longrightarrow> words t = []"
  by (induction t) auto

lemma words_append_spaces: "list_all isspace t \<Longrightarrow> words (s @ t) = words s"
proof (induction s rule: words.induct)
  case (1 s)
  show ?case
  proof (cases "dropWhile isspace s")
    case Nil
    then have s: "\<forall>x\<in>set s. isspace x" by (simp add: dropWhile_eq_Nil_conv)
    then have "list_all isspace (s @ t)" "list_all isspace s" using 1(2) by (auto simp: list_all_iff)
    then show ?thesis using words_spaces by metis
  next
    case (Cons c cs)
    then have d: "dropWhile isspace (s @ t) = (c # cs) @ t"
      by (metis append_Nil dropWhile_append dropWhile_eq_Nil_conv list.distinct(1) dropWhile_append1)
    show ?thesis
    proof (cases "\<exists>x\<in>set (c # cs). isspace x")
      case True
      then have "takeWhile (\<lambda>c. \<not> isspace c) ((c # cs) @ t) = takeWhile (\<lambda>c. \<not> isspace c) (c # cs)"
        "dropWhile (\<lambda>c. \<not> isspace c) ((c # cs) @ t) = dropWhile (\<lambda>c. \<not> isspace c) (c # cs) @ t"
        by (metis takeWhile_append1, metis dropWhile_append1)
      with 1(1) [OF Cons 1(2)] show ?thesis
        unfolding words_some [OF Cons] words_some [OF d [unfolded append_Cons]] append_Cons by simp
    next
      case False
      then have "takeWhile (\<lambda>c. \<not> isspace c) ((c # cs) @ t) = (c # cs) @ takeWhile (\<lambda>c. \<not> isspace c) t"
        "dropWhile (\<lambda>c. \<not> isspace c) ((c # cs) @ t) = dropWhile (\<lambda>c. \<not> isspace c) t"
        "takeWhile (\<lambda>c. \<not> isspace c) (c # cs) = c # cs" "dropWhile (\<lambda>c. \<not> isspace c) (c # cs) = []"
        by (metis takeWhile_append2, metis dropWhile_append2, metis takeWhile_eq_all_conv, metis dropWhile_eq_Nil_conv)
      moreover have "takeWhile (\<lambda>c. \<not> isspace c) t = []" "dropWhile (\<lambda>c. \<not> isspace c) t = t"
        using 1(2) by (cases t; simp)+
      ultimately show ?thesis
        unfolding words_some [OF Cons] words_some [OF d [unfolded append_Cons]] append_Cons
        by (simp add: words_spaces [OF 1(2)])
    qed
  qed
qed

lemma words_plain: "w \<in> set (words s) \<Longrightarrow> w \<noteq> [] \<and> (\<forall>c \<in> set w. c \<in> set s \<and> \<not> isspace c)"
proof (induction s rule: words.induct)
  case (1 s)
  show ?case
  proof (cases "dropWhile isspace s")
    case Nil
    then show ?thesis using 1(2) by (simp add: words_none)
  next
    case (Cons c cs)
    let ?u = "takeWhile (\<lambda>c. \<not> isspace c) (c # cs)" and ?v = "dropWhile (\<lambda>c. \<not> isspace c) (c # cs)"
    have c: "\<not> isspace c" using Cons by (metis hd_dropWhile list.distinct(1) list.sel(1))
    have sub: "x \<in> set s" if "x \<in> set (c # cs)" for x using Cons that by (metis set_dropWhileD)
    consider "w = ?u" | "w \<in> set (words ?v)" using 1(2) unfolding words_some [OF Cons] by auto
    then show ?thesis
    proof cases
      case 1
      have "x \<in> set s \<and> \<not> isspace x" if "x \<in> set w" for x
        using set_takeWhileD [OF that [unfolded 1]] sub by blast
      moreover have "w \<noteq> []" using 1 c by simp
      ultimately show ?thesis by blast
    next
      case 2
      have "x \<in> set s" if "x \<in> set ?v" for x using set_dropWhileD [OF that] sub by blast
      then show ?thesis using "1.IH" [OF Cons 2] by blast
    qed
  qed
qed

lemma next_token_words:
  assumes "NUL \<notin> set c"
  shows "\<exists>r. next_token c = (case words c of [] \<Rightarrow> None | w # _ \<Rightarrow> Some w, r) \<and> words r = tl (words c)
    \<and> NUL \<notin> set r"
proof (cases "dropWhile isspace c")
  case Nil
  then show ?thesis using assms by (simp add: next_token_def cstr_id words_none)
next
  case (Cons d ds)
  let ?rest = "dropWhile (\<lambda>c. \<not> isspace c) (d # ds)"
  have rest: "NUL \<notin> set ?rest" using assms Cons by (metis set_dropWhileD)
  have w: "words c = takeWhile (\<lambda>c. \<not> isspace c) (d # ds) # words ?rest" using Cons by (rule words_some)
  let ?r = "case ?rest of [] \<Rightarrow> [] | _ # cs \<Rightarrow> cs"
  have r: "words ?r = words ?rest \<and> NUL \<notin> set ?r"
  proof (cases ?rest)
    case Nil
    then show ?thesis by simp
  next
    case (Cons x xs)
    then have "\<not> \<not> isspace x" using hd_dropWhile [of "\<lambda>c. \<not> isspace c" "d # ds"] by (simp del: dropWhile.simps)
    then show ?thesis using Cons rest by simp
  qed
  have "next_token c = (Some (takeWhile (\<lambda>c. \<not> isspace c) (d # ds)), ?r)"
    using assms Cons by (simp add: next_token_def cstr_id)
  with w r show ?thesis by simp
qed

lemma words_trim_right: "words (trim_right s) = words (cstr s)" and NUL_trim_right: "NUL \<notin> set (trim_right s)"
proof -
  let ?r = "rev (cstr s)"
  have s: "cstr s = rev (dropWhile isspace ?r) @ rev (takeWhile isspace ?r)"
    by (metis rev_append rev_rev_ident takeWhile_dropWhile_id)
  have "list_all isspace (rev (takeWhile isspace ?r))" by (auto simp: list_all_iff dest: set_takeWhileD)
  then show "words (trim_right s) = words (cstr s)"
    unfolding trim_right_def using words_append_spaces s by metis
  show "NUL \<notin> set (trim_right s)"
    unfolding trim_right_def by (metis NUL_notin_cstr set_dropWhileD set_rev)
qed

section \<open>The answer to a command\<close>

text \<open>What the commands of a session see and change.\<close>

record admin =
  a_secret :: "char list option"
  a_users :: "users option"
  a_metrics :: "metrics option"
  a_config :: "config option"
  a_auth :: bool
  a_locked :: bool
  a_closing :: bool
  a_failures :: u32

fun commas :: "string list \<Rightarrow> string" where
  "commas [] = []"
| "commas (n # ns) = n @ concat (map (\<lambda>m. '','' @ m) ns)"

definition user_names :: "users \<Rightarrow> string list" where
  "user_names u = map fst (creds u)"

definition users_text :: "users \<Rightarrow> string" where
  "users_text u = (if user_names u = [] then ''+OK users=-'' else ''+OK users='' @ commas (user_names u))"

text \<open>A response without its newline, and the new state.\<close>

definition answer_auth :: "string list \<Rightarrow> admin \<Rightarrow> string \<times> admin" where
  "answer_auth args a =
     (case args of
        [sec] \<Rightarrow>
          (case a_secret a of
             None \<Rightarrow> (''-ERR auth required'', a)
           | Some adm \<Rightarrow>
               if cstr adm = [] then (''-ERR auth required'', a)
               else if sec = cstr adm then (''+OK authenticated'', a\<lparr>a_auth := True, a_failures := 0\<rparr>)
               else if a_failures a + 1 \<ge> MNG_MAX_AUTH_FAILURES
               then (''-ERR locked'', a\<lparr>a_failures := a_failures a + 1, a_locked := True, a_closing := True\<rparr>)
               else (''-ERR invalid credentials'', a\<lparr>a_failures := a_failures a + 1\<rparr>))
      | _ \<Rightarrow> (''-ERR usage AUTH <secret>'', a))"

definition answer_user :: "string list \<Rightarrow> admin \<Rightarrow> (string \<times> admin) option" where
  "answer_user args a =
     (case a_users a of
        None \<Rightarrow> Some (''-ERR users unavailable'', a)
      | Some u \<Rightarrow> (case args of
          [] \<Rightarrow> Some (''-ERR usage USER SET <name> <pass> | USER DELETE <name>'', a)
        | act # rest \<Rightarrow>
            if act = ''SET'' then
              (case rest of
                 [n, p] \<Rightarrow> do { (ok, u) \<leftarrow> users_add u n p;
                   Some (if ok then ''+OK user set'' else ''-ERR user limit reached'', a\<lparr>a_users := Some u\<rparr>) }
               | _ \<Rightarrow> Some (''-ERR usage USER SET <name> <pass>'', a))
            else if act = ''DELETE'' then
              (case rest of
                 [n] \<Rightarrow> do { (ok, u) \<leftarrow> users_del u n;
                   Some (if ok then ''+OK user deleted'' else ''-ERR user not found'', a\<lparr>a_users := Some u\<rparr>) }
               | _ \<Rightarrow> Some (''-ERR usage USER DELETE <name>'', a))
            else Some (''-ERR unknown USER command'', a)))"

definition answer_config :: "string list \<Rightarrow> admin \<Rightarrow> string \<times> admin" where
  "answer_config args a =
     (case a_config a of
        None \<Rightarrow> (''-ERR config unavailable'', a)
      | Some c \<Rightarrow> (case args of
          [] \<Rightarrow> (''-ERR usage CONFIG GET | CONFIG SET <key> <value>'', a)
        | act # rest \<Rightarrow>
            if act = ''GET'' then (if rest = [] then (butlast (config_text c), a) else (''-ERR usage CONFIG GET'', a))
            else if act = ''SET'' then
              (case rest of
                 [k, v] \<Rightarrow> (case parse_nonnegative (Some v) of
                   None \<Rightarrow> (''-ERR invalid value'', a)
                 | Some n \<Rightarrow> (case config_set_key c (Some k) n of
                     (ok, c) \<Rightarrow> (if ok then ''+OK config set'' else ''-ERR unknown config key'', a\<lparr>a_config := Some c\<rparr>)))
               | _ \<Rightarrow> (''-ERR usage CONFIG SET <key> <value>'', a))
            else (''-ERR unknown CONFIG command'', a)))"

fun answer :: "string list \<Rightarrow> admin \<Rightarrow> (string \<times> admin) option" where
  "answer [] a = Some (''-ERR empty command'', a)"
| "answer (cmd # args) a =
     (if cmd = ''AUTH'' then Some (answer_auth args a)
      else if cmd = ''QUIT'' then
        Some (if args = [] then (''+OK bye'', a\<lparr>a_closing := True\<rparr>) else (''-ERR usage QUIT'', a))
      else if a_locked a then Some (''-ERR locked'', a)
      else if \<not> a_auth a then Some (''-ERR auth required'', a)
      else if cmd = ''STATS'' then
        Some (case a_metrics a of None \<Rightarrow> ''-ERR metrics unavailable'' | Some m \<Rightarrow> butlast (stats_text (metrics_snapshot m)), a)
      else if cmd = ''USERS'' then
        Some (case a_users a of None \<Rightarrow> ''-ERR users unavailable'' | Some u \<Rightarrow> users_text u, a)
      else if cmd = ''USER'' then answer_user args a
      else if cmd = ''CONFIG'' then Some (answer_config args a)
      else Some (''-ERR unknown command'', a))"

section \<open>Sessions in good order\<close>

definition session_wf :: "mng_session \<Rightarrow> bool" where
  "session_wf m \<longleftrightarrow> length (ms_line m) = MNG_LINE_SIZE \<and> ms_line_len m < MNG_LINE_SIZE
     \<and> length (ms_in_buf m) = MNG_IN_SIZE \<and> ms_in_len m \<le> MNG_IN_SIZE \<and> ms_in_pos m \<le> ms_in_len m
     \<and> length (ms_out m) = MNG_WRITE_SIZE \<and> ms_out_len m < MNG_WRITE_SIZE \<and> ms_out_sent m \<le> ms_out_len m"

text \<open>The text of the pending response.\<close>

definition response :: "mng_session \<Rightarrow> string" where
  "response m = take (ms_out_len m) (ms_out m)"

definition clip :: "string \<Rightarrow> string" where
  "clip txt = (if length txt \<ge> MNG_WRITE_SIZE then truncated else txt)"

lemma length_truncated: "length truncated = 24"
  by (simp add: truncated_def)

lemma fill_out_ok:
  assumes "session_wf m"
  shows "\<exists>out. fill_out txt m = Some (m\<lparr>ms_out := out, ms_out_len := length (clip txt), ms_out_sent := 0\<rparr>)
    \<and> length out = MNG_WRITE_SIZE \<and> take (length (clip txt)) out = clip txt \<and> length (clip txt) < MNG_WRITE_SIZE"
proof -
  have len: "length (ms_out m) = MNG_WRITE_SIZE" using assms by (simp add: session_wf_def)
  let ?t = "take (MNG_WRITE_SIZE - 1) txt @ [NUL]"
  have tl: "length ?t \<le> MNG_WRITE_SIZE" by simp
  obtain out where out: "snprintf (ms_out m) MNG_WRITE_SIZE txt = Some out" "length out = MNG_WRITE_SIZE"
    "out = ?t @ drop (length ?t) (ms_out m)"
    using len tl by (simp add: snprintf_def arr_blit_def)
  show ?thesis
  proof (cases "length txt \<ge> MNG_WRITE_SIZE")
    case True
    have "arr_blit out 0 truncated = Some (truncated @ drop 24 out)"
      using out(2) by (simp add: arr_blit_def length_truncated)
    then show ?thesis using True out(1,2)
      by (intro exI [of _ "truncated @ drop 24 out"]) (simp add: fill_out_def clip_def length_truncated)
  next
    case False
    then have "take (length txt) out = txt" unfolding out(3) by simp
    then show ?thesis using False out(1,2) by (intro exI [of _ out]) (simp add: fill_out_def clip_def)
  qed
qed

text \<open>The server with a live session at \<open>p\<close> that \<open>key\<close> refers to.\<close>

definition mng_ok :: "mng_key \<Rightarrow> nat \<Rightarrow> mng_session \<Rightarrow> 'a srv_scheme \<Rightarrow> bool" where
  "mng_ok key p m s \<longleftrightarrow> full_sel (sel s) \<and> k_data key = Some (Mng_Ptr p) \<and> mng_heap s p = Some m \<and> session_wf m
     \<and> (\<forall>u. g_users s = Some u \<longrightarrow> users_wf u)"

definition admin_of :: "'a srv_scheme \<Rightarrow> mng_session \<Rightarrow> admin" where
  "admin_of s m = \<lparr>a_secret = g_admin_secret s, a_users = g_users s, a_metrics = g_metrics s, a_config = g_config s,
     a_auth = ms_authenticated m, a_locked = ms_locked m, a_closing = ms_closing m, a_failures = ms_auth_failures m\<rparr>"

text \<open>What a command leaves alone: the kernel, the other sessions, the counters, and of its own session
  everything about input.\<close>

definition mng_frame :: "nat \<Rightarrow> mng_session \<Rightarrow> mng_session \<Rightarrow> 'a srv_scheme \<Rightarrow> 'a srv_scheme \<Rightarrow> bool" where
  "mng_frame p m m' s s' \<longleftrightarrow> kern s' = kern s \<and> (\<forall>q. q \<noteq> p \<longrightarrow> mng_heap s' q = mng_heap s q)
     \<and> g_admin_secret s' = g_admin_secret s \<and> g_metrics s' = g_metrics s
     \<and> g_active_sessions s' = g_active_sessions s \<and> next_ptr s' = next_ptr s \<and> srv.more s' = srv.more s
     \<and> ms_fd m' = ms_fd m \<and> ms_line_len m' = ms_line_len m \<and> ms_in_buf m' = ms_in_buf m
     \<and> ms_in_len m' = ms_in_len m \<and> ms_in_pos m' = ms_in_pos m"

text \<open>A registration with another interest.\<close>

definition with_interest :: "u32 \<Rightarrow> (handler \<times> u32 \<times> attachment option) option \<Rightarrow> (handler \<times> u32 \<times> attachment option) option" where
  "with_interest i r = map_option (\<lambda>(h, _, d). (h, i, d)) r"

text \<open>The outcome of a command: the response \<open>fst r\<close> is pending, the descriptor waits for writing, and the
  state is \<open>snd r\<close>.\<close>

definition answers :: "mng_key \<Rightarrow> nat \<Rightarrow> mng_session \<Rightarrow> 'a srv_scheme \<Rightarrow> string \<times> admin \<Rightarrow> 'a srv_scheme \<Rightarrow> bool" where
  "answers key p m s r s' \<longleftrightarrow> (\<exists>m'. mng_ok key p m' s' \<and> mng_frame p m m' s s'
     \<and> response m' = clip (fst r @ [LF]) \<and> ms_out_len m' = length (clip (fst r @ [LF])) \<and> ms_out_sent m' = 0
     \<and> admin_of s' m' = snd r
     \<and> regs (sel s') = (regs (sel s))(k_fd key := with_interest OP_WRITE (regs (sel s) (k_fd key)))
     \<and> resolution_jobs (sel s') = resolution_jobs (sel s))"

lemma set_interest_ok:
  assumes "full_sel (sel s)"
  shows "\<exists>sl. set_interest key i s = Some (s\<lparr>sel := sl\<rparr>) \<and> full_sel sl
    \<and> regs sl = (regs (sel s))(k_fd key := with_interest i (regs (sel s) (k_fd key)))
    \<and> resolution_jobs sl = resolution_jobs (sel s)"
proof (cases "INVALID_FD (k_fd key)")
  case True
  then have "regs (sel s) (k_fd key) = None" using sel.entry_legal [OF assms] by blast
  then show ?thesis using assms True
    by (intro exI [of _ "sel s"]) (auto simp: set_interest_def selector_set_interest_key_def with_interest_def)
next
  case False
  from full_change [OF assms False, of i] obtain st sl
    where sl: "selector_set_interest (k_fd key) i (sel s) = Some (st, sl)" "full_sel sl"
      "case regs (sel s) (k_fd key) of None \<Rightarrow> st = SELECTOR_IARGS \<and> regs sl = regs (sel s)
         | Some (h, _, d) \<Rightarrow> st = SELECTOR_SUCCESS \<and> regs sl = (regs (sel s))(k_fd key \<mapsto> (h, i, d))"
    by (auto simp: returns_prod)
  then have "regs sl = (regs (sel s))(k_fd key := with_interest i (regs (sel s) (k_fd key)))"
    by (cases "regs (sel s) (k_fd key)") (auto simp: with_interest_def)
  then show ?thesis using False sl(1,2) change_jobs [OF sl(1)]
    by (intro exI [of _ sl]) (simp add: set_interest_def selector_set_interest_key_def)
qed

lemma sel_put_session [simp]: "sel (put_session p m s) = sel s"
  by (simp add: put_session_def)

text \<open>
  Queueing a response, after the command has replaced the session by \<open>m1\<close> (the same but for its
  flags) and the administered objects by those of \<open>s1\<close>.
\<close>

lemma queue_response_ok:
  assumes ok: "mng_ok key p m s"
  shows "returns (queue_response key (txt @ [LF]) s) (answers key p m s (txt, admin_of s m))"
proof -
  have h: "session_of key s = Some (p, m)" and wf: "session_wf m" and fs: "full_sel (sel s)"
    using ok by (auto simp: mng_ok_def session_of_def)
  let ?c = "clip (txt @ [LF])"
  obtain out where out: "fill_out (txt @ [LF]) m = Some (m\<lparr>ms_out := out, ms_out_len := length ?c, ms_out_sent := 0\<rparr>)"
    "length out = MNG_WRITE_SIZE" "take (length ?c) out = ?c" "length ?c < MNG_WRITE_SIZE"
    using fill_out_ok [OF wf] by blast
  let ?m = "m\<lparr>ms_out := out, ms_out_len := length ?c, ms_out_sent := 0\<rparr>"
  have "full_sel (sel (put_session p ?m s))" using fs by (simp add: put_session_def)
  from set_interest_ok [OF this, of key OP_WRITE] obtain sl
    where sl: "set_interest key OP_WRITE (put_session p ?m s) = Some ((put_session p ?m s)\<lparr>sel := sl\<rparr>)" "full_sel sl"
      "regs sl = (regs (sel s))(k_fd key := with_interest OP_WRITE (regs (sel s) (k_fd key)))"
      "resolution_jobs sl = resolution_jobs (sel s)" by auto
  have "session_wf ?m" using wf out by (simp add: session_wf_def)
  then have "answers key p m s (txt, admin_of s m) ((put_session p ?m s)\<lparr>sel := sl\<rparr>)"
    unfolding answers_def using ok sl(2-4) out(2-4)
    by (intro exI [of _ ?m]) (simp add: mng_ok_def mng_frame_def response_def admin_of_def put_session_def)
  with h out(1) sl(1) show ?thesis by (simp add: queue_response_def)
qed

lemma mng_frame_refl [simp]: "mng_frame p m m s s"
  by (simp add: mng_frame_def)

lemma mng_frame_trans: "mng_frame p m m1 s s1 \<Longrightarrow> mng_frame p m1 m2 s1 s2 \<Longrightarrow> mng_frame p m m2 s s2"
  by (simp add: mng_frame_def)

lemma queue_from:
  assumes "mng_ok key p m1 s1" and "mng_frame p m m1 s s1" and "r = (txt, admin_of s1 m1)" and "sel s1 = sel s"
  shows "returns (queue_response key (txt @ [LF]) s1) (answers key p m s r)"
  using queue_response_ok [OF assms(1), of "txt"] unfolding assms(3)
  by (rule returns_mono) (auto simp: answers_def assms(4) intro: mng_frame_trans [OF assms(2)])

lemma queue_here:
  "mng_ok key p m s \<Longrightarrow> returns (queue_response key (txt @ [LF]) s) (answers key p m s (txt, admin_of s m))"
  by (rule queue_response_ok)

lemma mng_ok_session: "mng_ok key p m s \<Longrightarrow> session_of key s = Some (p, m)"
  by (simp add: mng_ok_def session_of_def)

text \<open>Changing only the flags of the session.\<close>

definition same_buffers :: "mng_session \<Rightarrow> mng_session \<Rightarrow> bool" where
  "same_buffers m m' \<longleftrightarrow> (ms_fd m', ms_line m', ms_line_len m', ms_in_buf m', ms_in_len m', ms_in_pos m',
      length (ms_out m'), ms_out_len m', ms_out_sent m')
    = (ms_fd m, ms_line m, ms_line_len m, ms_in_buf m, ms_in_len m, ms_in_pos m, length (ms_out m), ms_out_len m, ms_out_sent m)"

lemma put_session_ok:
  assumes "mng_ok key p m s" and "same_buffers m m1"
  shows "mng_ok key p m1 (put_session p m1 s)" "mng_frame p m m1 s (put_session p m1 s)"
  using assms by (auto simp: mng_ok_def mng_frame_def put_session_def session_wf_def same_buffers_def)

lemma admin_of_put [simp]: "admin_of (put_session p m1 s) m = admin_of s m"
  by (simp add: admin_of_def put_session_def)

lemma mng_ok_objects:
  assumes "mng_ok key p m s"
  shows "users_wf u \<Longrightarrow> mng_ok key p m (s\<lparr>g_users := Some u\<rparr>)" "mng_frame p m m s (s\<lparr>g_users := Some u\<rparr>)"
    "mng_ok key p m (s\<lparr>g_config := Some c\<rparr>)" "mng_frame p m m s (s\<lparr>g_config := Some c\<rparr>)"
  using assms by (auto simp: mng_ok_def mng_frame_def)

lemma word_no_NUL: "w \<in> set (words c) \<Longrightarrow> NUL \<notin> set c \<Longrightarrow> cstr w = w"
  using words_plain [of w c] by (auto intro: cstr_id)

lemma literal_cstr: "NUL \<notin> set l \<Longrightarrow> cstr w = w \<Longrightarrow> strcmp_eq w l \<longleftrightarrow> w = l"
  by (simp add: strcmp_eq_def cstr_id)

section \<open>The handlers implement the answers\<close>

lemma handle_auth_ok:
  assumes ok: "mng_ok key p m s" and c: "NUL \<notin> set cur"
  shows "returns (handle_auth key cur s) (answers key p m s (answer_auth (words cur) (admin_of s m)))"
proof -
  obtain r1 where r1: "next_token cur = (case words cur of [] \<Rightarrow> None | w # _ \<Rightarrow> Some w, r1)" "words r1 = tl (words cur)" "NUL \<notin> set r1"
    using next_token_words [OF c] by blast
  obtain r2 where r2: "next_token r1 = (case words r1 of [] \<Rightarrow> None | w # _ \<Rightarrow> Some w, r2)"
    using next_token_words [OF r1(3)] by blast
  note q = queue_here [OF ok] and sess = mng_ok_session [OF ok]
  note run = handle_auth_def r1(1) r2 r1(2) sess
  consider "words cur = []" | sec where "words cur = [sec]" | a b ws where "words cur = a # b # ws"
    by (metis list.exhaust)
  then show ?thesis
  proof cases
    case 1
    then show ?thesis using q [of "''-ERR usage AUTH <secret>''"] by (simp add: run answer_auth_def)
  next
    case 3
    then show ?thesis using q [of "''-ERR usage AUTH <secret>''"] by (simp add: run answer_auth_def)
  next
    case (2 sec)
    have sec: "cstr sec = sec" using 2 c word_no_NUL [of sec cur] by simp
    show ?thesis
    proof (cases "g_admin_secret s")
      case None
      then show ?thesis using 2 q [of "''-ERR auth required''"] by (simp add: run answer_auth_def admin_of_def)
    next
      case (Some adm)
      let ?m = "m\<lparr>ms_authenticated := True, ms_auth_failures := 0\<rparr>"
      let ?m1 = "m\<lparr>ms_auth_failures := ms_auth_failures m + 1\<rparr>"
      let ?m2 = "?m1\<lparr>ms_locked := True, ms_closing := True\<rparr>"
      have sb: "same_buffers m ?m" "same_buffers m ?m1" "same_buffers m ?m2" by (simp_all add: same_buffers_def)
      consider "cstr adm = []" | "cstr adm \<noteq> []" "sec = cstr adm"
        | "cstr adm \<noteq> []" "sec \<noteq> cstr adm" "ms_auth_failures m + 1 \<ge> 3"
        | "cstr adm \<noteq> []" "sec \<noteq> cstr adm" "\<not> ms_auth_failures m + 1 \<ge> 3" by blast
      then show ?thesis
      proof cases
        case 1
        then show ?thesis using 2 Some q [of "''-ERR auth required''"] by (simp add: run answer_auth_def admin_of_def)
      next
        case 2
        have "returns (queue_response key (''+OK authenticated'' @ [LF]) (put_session p ?m s))
          (answers key p m s (''+OK authenticated'', admin_of s ?m))"
          by (rule queue_from [OF put_session_ok [OF ok sb(1)]]) simp_all
        then show ?thesis using \<open>words cur = [sec]\<close> Some 2 sec
          by (simp add: run answer_auth_def admin_of_def strcmp_eq_def)
      next
        case 3
        have "returns (queue_response key (''-ERR locked'' @ [LF]) (put_session p ?m2 s))
          (answers key p m s (''-ERR locked'', admin_of s ?m2))"
          by (rule queue_from [OF put_session_ok [OF ok sb(3)]]) simp_all
        then show ?thesis using \<open>words cur = [sec]\<close> Some 3 sec
          by (simp add: run answer_auth_def admin_of_def strcmp_eq_def Let_def)
      next
        case 4
        have "returns (queue_response key (''-ERR invalid credentials'' @ [LF]) (put_session p ?m1 s))
          (answers key p m s (''-ERR invalid credentials'', admin_of s ?m1))"
          by (rule queue_from [OF put_session_ok [OF ok sb(2)]]) simp_all
        then show ?thesis using \<open>words cur = [sec]\<close> Some 4 sec
          by (simp add: run answer_auth_def admin_of_def strcmp_eq_def Let_def)
      qed
    qed
  qed
qed

lemma users_ops_return:
  assumes "users_wf u"
  shows "returns (users_add u n p) (\<lambda>(ok, u'). users_wf u')" "returns (users_del u n) (\<lambda>(ok, u'). users_wf u')"
proof -
  show "returns (users_add u n p) (\<lambda>(ok, u'). users_wf u')"
  proof (cases "index_of (cstr n) (creds u)")
    case (Some j)
    from users_add_known [OF assms Some, of p] show ?thesis by (rule returns_mono) auto
  next
    case None
    show ?thesis
    proof (cases "u_count u < int USERS_MAX")
      case True
      from users_add_new [OF assms None True, of p] show ?thesis by (rule returns_mono) auto
    next
      case False
      then have "u_count u = int USERS_MAX" using assms by (simp add: users_wf_def)
      from users_add_full [OF assms None this, of p] assms show ?thesis by simp
    qed
  qed
  show "returns (users_del u n) (\<lambda>(ok, u'). users_wf u')"
  proof (cases "index_of (cstr n) (creds u)")
    case (Some j)
    from users_del_known [OF assms Some] show ?thesis by (rule returns_mono) auto
  next
    case None
    from users_del_unknown [OF assms None] assms show ?thesis by simp
  qed
qed

lemma handle_user_ok:
  assumes ok: "mng_ok key p m s" and c: "NUL \<notin> set cur"
  shows "returns (handle_user key cur s) (\<lambda>s'. \<exists>r. answer_user (words cur) (admin_of s m) = Some r \<and> answers key p m s r s')"
proof -
  obtain r1 where r1: "next_token cur = (case words cur of [] \<Rightarrow> None | w # _ \<Rightarrow> Some w, r1)" "words r1 = tl (words cur)" "NUL \<notin> set r1"
    using next_token_words [OF c] by blast
  obtain r2 where r2: "next_token r1 = (case words r1 of [] \<Rightarrow> None | w # _ \<Rightarrow> Some w, r2)" "words r2 = tl (words r1)" "NUL \<notin> set r2"
    using next_token_words [OF r1(3)] by blast
  obtain r3 where r3: "next_token r2 = (case words r2 of [] \<Rightarrow> None | w # _ \<Rightarrow> Some w, r3)" "words r3 = tl (words r2)" "NUL \<notin> set r3"
    using next_token_words [OF r2(3)] by blast
  obtain r4 where r4: "next_token r3 = (case words r3 of [] \<Rightarrow> None | w # _ \<Rightarrow> Some w, r4)"
    using next_token_words [OF r3(3)] by blast
  note q = queue_here [OF ok]
  note run = handle_user_def r1(1,2) r2(1,2) r3(1,2) r4 answer_user_def
  have a: "a_users (admin_of s m) = g_users s" by (simp add: admin_of_def)
  show ?thesis
  proof (cases "g_users s")
    case None
    then show ?thesis using q [of "''-ERR users unavailable''"] by (simp add: run a)
  next
    case u: (Some u)
    have wf: "users_wf u" using ok u by (simp add: mng_ok_def)
    show ?thesis
    proof (cases "words cur")
      case Nil
      then show ?thesis using u q [of "''-ERR usage USER SET <name> <pass> | USER DELETE <name>''"] by (simp add: run a)
    next
      case (Cons act rest)
      have act: "cstr act = act" using Cons c word_no_NUL [of act cur] by simp
      note sel_act = literal_cstr [OF _ act]
      consider n pw where "act = ''SET''" "rest = [n, pw]" | "act = ''SET''" "\<not> (\<exists>n pw. rest = [n, pw])"
        | n where "act = ''DELETE''" "rest = [n]" | "act = ''DELETE''" "\<not> (\<exists>n. rest = [n])"
        | "act \<noteq> ''SET''" "act \<noteq> ''DELETE''" by blast
      then show ?thesis
      proof cases
        case (1 n pw)
        obtain ok' u' where add: "users_add u n pw = Some (ok', u')" "users_wf u'"
          using users_ops_return(1) [OF wf, of n pw] by (auto simp: returns_prod)
        let ?t = "if ok' then ''+OK user set'' else ''-ERR user limit reached''"
        have "returns (queue_response key (?t @ [LF]) (s\<lparr>g_users := Some u'\<rparr>))
            (answers key p m s (?t, admin_of (s\<lparr>g_users := Some u'\<rparr>) m))"
          by (rule queue_from [OF mng_ok_objects(1) [OF ok add(2)] mng_ok_objects(2) [OF ok]]) simp_all
        then show ?thesis using u Cons 1 add(1) by (simp add: run a strcmp_eq_def admin_of_def)
      next
        case 2
        then show ?thesis using u Cons q [of "''-ERR usage USER SET <name> <pass>''"]
          by (cases rest; cases "tl rest"; cases "tl (tl rest)") (simp_all add: run a strcmp_eq_def)
      next
        case (3 n)
        obtain ok' u' where del: "users_del u n = Some (ok', u')" "users_wf u'"
          using users_ops_return(2) [OF wf, of n] by (auto simp: returns_prod)
        let ?t = "if ok' then ''+OK user deleted'' else ''-ERR user not found''"
        have "returns (queue_response key (?t @ [LF]) (s\<lparr>g_users := Some u'\<rparr>))
            (answers key p m s (?t, admin_of (s\<lparr>g_users := Some u'\<rparr>) m))"
          by (rule queue_from [OF mng_ok_objects(1) [OF ok del(2)] mng_ok_objects(2) [OF ok]]) simp_all
        then show ?thesis using u Cons 3 del(1) by (simp add: run a strcmp_eq_def admin_of_def)
      next
        case 4
        then show ?thesis using u Cons q [of "''-ERR usage USER DELETE <name>''"]
          by (cases rest; cases "tl rest") (simp_all add: run a strcmp_eq_def)
      next
        case 5
        then show ?thesis using u Cons act q [of "''-ERR unknown USER command''"]
          by (simp add: run a strcmp_eq_def)
      qed
    qed
  qed
qed

lemma stats_text_line: "stats_text t = butlast (stats_text t) @ [LF]"
  by (simp add: stats_text_def butlast_append)

lemma config_text_line: "config_text c = butlast (config_text c) @ [LF]"
  by (simp add: config_text_def butlast_append)

lemma handle_stats_ok:
  assumes ok: "mng_ok key p m s"
  shows "returns (handle_stats key s) (answers key p m s
    (case g_metrics s of None \<Rightarrow> ''-ERR metrics unavailable'' | Some mt \<Rightarrow> butlast (stats_text (metrics_snapshot mt)), admin_of s m))"
proof (cases "g_metrics s")
  case None
  then show ?thesis using queue_here [OF ok, of "''-ERR metrics unavailable''"] by (simp add: handle_stats_def)
next
  case (Some mt)
  then show ?thesis
    using queue_here [OF ok, of "butlast (stats_text (metrics_snapshot mt))"]
    by (simp add: handle_stats_def stats_text_line [symmetric])
qed

lemma handle_config_ok:
  assumes ok: "mng_ok key p m s" and c: "NUL \<notin> set cur"
  shows "returns (handle_config key cur s) (answers key p m s (answer_config (words cur) (admin_of s m)))"
proof -
  obtain r1 where r1: "next_token cur = (case words cur of [] \<Rightarrow> None | w # _ \<Rightarrow> Some w, r1)" "words r1 = tl (words cur)" "NUL \<notin> set r1"
    using next_token_words [OF c] by blast
  obtain r2 where r2: "next_token r1 = (case words r1 of [] \<Rightarrow> None | w # _ \<Rightarrow> Some w, r2)" "words r2 = tl (words r1)" "NUL \<notin> set r2"
    using next_token_words [OF r1(3)] by blast
  obtain r3 where r3: "next_token r2 = (case words r2 of [] \<Rightarrow> None | w # _ \<Rightarrow> Some w, r3)" "words r3 = tl (words r2)" "NUL \<notin> set r3"
    using next_token_words [OF r2(3)] by blast
  obtain r4 where r4: "next_token r3 = (case words r3 of [] \<Rightarrow> None | w # _ \<Rightarrow> Some w, r4)"
    using next_token_words [OF r3(3)] by blast
  note q = queue_here [OF ok]
  note run = handle_config_def r1(1,2) r2(1,2) r3(1,2) r4 answer_config_def
  have a: "a_config (admin_of s m) = g_config s" by (simp add: admin_of_def)
  show ?thesis
  proof (cases "g_config s")
    case None
    then show ?thesis using q [of "''-ERR config unavailable''"] by (simp add: run a)
  next
    case cf: (Some cf)
    show ?thesis
    proof (cases "words cur")
      case Nil
      then show ?thesis using cf q [of "''-ERR usage CONFIG GET | CONFIG SET <key> <value>''"] by (simp add: run a)
    next
      case (Cons act rest)
      have act: "cstr act = act" using Cons c word_no_NUL [of act cur] by simp
      consider "act = ''GET''" "rest = []" | "act = ''GET''" "rest \<noteq> []"
        | k v where "act = ''SET''" "rest = [k, v]" | "act = ''SET''" "\<not> (\<exists>k v. rest = [k, v])"
        | "act \<noteq> ''GET''" "act \<noteq> ''SET''" by blast
      then show ?thesis
      proof cases
        case 1
        then show ?thesis using cf Cons q [of "butlast (config_text cf)"]
          by (simp add: run a strcmp_eq_def handle_config_get_def config_text_line [symmetric])
      next
        case 2
        then show ?thesis using cf Cons q [of "''-ERR usage CONFIG GET''"]
          by (cases rest) (simp_all add: run a strcmp_eq_def)
      next
        case (3 k v)
        show ?thesis
        proof (cases "parse_nonnegative (Some v)")
          case None
          then show ?thesis using cf Cons 3 q [of "''-ERR invalid value''"] by (simp add: run a strcmp_eq_def)
        next
          case (Some n)
          obtain ok' cf' where set: "config_set_key cf (Some k) n = (ok', cf')" by (cases "config_set_key cf (Some k) n")
          let ?t = "if ok' then ''+OK config set'' else ''-ERR unknown config key''"
          have "returns (queue_response key (?t @ [LF]) (s\<lparr>g_config := Some cf'\<rparr>))
              (answers key p m s (?t, admin_of (s\<lparr>g_config := Some cf'\<rparr>) m))"
            by (rule queue_from [OF mng_ok_objects(3) [OF ok] mng_ok_objects(4) [OF ok]]) simp_all
          then show ?thesis using cf Cons 3 Some set by (simp add: run a strcmp_eq_def admin_of_def)
        qed
      next
        case 4
        then show ?thesis using cf Cons q [of "''-ERR usage CONFIG SET <key> <value>''"]
          by (cases rest; cases "tl rest"; cases "tl (tl rest)") (simp_all add: run a strcmp_eq_def)
      next
        case 5
        then show ?thesis using cf Cons act q [of "''-ERR unknown CONFIG command''"]
          by (simp add: run a strcmp_eq_def)
      qed
    qed
  qed
qed

section \<open>Listing the users\<close>

lemma commas_snoc: "ns \<noteq> [] \<Longrightarrow> commas (ns @ [n]) = commas ns @ '','' @ n"
  by (cases ns) auto

lemma names_take: "i < length (user_names u) \<Longrightarrow>
   commas (take (Suc i) (user_names u)) = commas (take i (user_names u)) @ (if i = 0 then [] else '','') @ user_names u ! i"
proof -
  assume i: "i < length (user_names u)"
  then have "take (Suc i) (user_names u) = take i (user_names u) @ [user_names u ! i]" by (rule take_Suc_conv_app_nth)
  moreover have "take i (user_names u) \<noteq> []" if "i \<noteq> 0" using i that by auto
  ultimately show ?thesis by (cases "i = 0") (simp_all add: commas_snoc)
qed

lemma user_name_length: "users_wf u \<Longrightarrow> n \<in> set (user_names u) \<Longrightarrow> length n \<le> 255 \<and> NUL \<notin> set n"
  by (auto simp: user_names_def creds_def cred_def users_wf_def list_all_iff entry_wf_def strlen_def dest!: in_set_takeD)

lemma commas_length: "\<forall>n \<in> set ns. length n \<le> 255 \<Longrightarrow> length (commas ns) \<le> 256 * length ns"
proof (induction ns rule: rev_induct)
  case (snoc n ns)
  then show ?case by (cases "ns = []") (simp_all add: commas_snoc)
qed simp

lemma users_loop_ok:
  assumes wf: "users_wf u"
  shows "i + k = length (user_names u) \<Longrightarrow> length out = MNG_WRITE_SIZE \<Longrightarrow>
     take used out = pre @ commas (take i (user_names u)) \<Longrightarrow> used = length pre + length (commas (take i (user_names u))) \<Longrightarrow>
     length pre \<le> 16 \<Longrightarrow>
     \<exists>out'. users_loop u i k out used = Some (Some (out', length pre + length (commas (user_names u))))
       \<and> length out' = MNG_WRITE_SIZE
       \<and> take (length pre + length (commas (user_names u))) out' = pre @ commas (user_names u)"
proof (induction k arbitrary: i out used)
  case 0
  then show ?case by simp
next
  case (Suc k)
  let ?ns = "user_names u"
  have i: "i < length ?ns" using Suc.prems(1) by simp
  then have ic: "i < nat (u_count u)" "i < length (u_entries u)" using wf
    by (auto simp: user_names_def length_creds users_wf_def)
  have name: "users_get_name u (int i) = Some (Some (ue_name (u_entries u ! i)))" "cstr (ue_name (u_entries u ! i)) = ?ns ! i"
    using ic by (auto simp: users_get_name_def user_names_def creds_def cred_def)
  define t where "t = (if i = 0 then [] else '','') @ ?ns ! i"
  have nx: "commas (take (Suc i) ?ns) = commas (take i ?ns) @ t" using names_take [OF i] by (simp add: t_def)
  have "length ?ns \<le> 10" using wf length_creds [OF wf] by (auto simp: user_names_def users_wf_def)
  moreover have "length (commas (take (Suc i) ?ns)) \<le> 256 * length (take (Suc i) ?ns)"
    by (rule commas_length) (use user_name_length [OF wf] in \<open>auto dest: in_set_takeD\<close>)
  moreover have "length (take (Suc i) ?ns) \<le> length ?ns" by simp
  ultimately have "length (commas (take (Suc i) ?ns)) \<le> 2560" by linarith
  then have fits: "used + length t \<le> 16 + 2560" using Suc.prems(4,5) unfolding nx length_append by linarith
  let ?s = "t @ NUL # drop (used + length t + 1) out"
  have "snprintf (drop used out) (MNG_WRITE_SIZE - used) t = Some ?s"
    using fits Suc.prems(2) by (simp add: snprintf_def arr_blit_def add.commute)
  moreover have "length (take used out) = used" using fits Suc.prems(2) by simp
  moreover have "take (used + length t) (take used out @ ?s) = pre @ commas (take (Suc i) ?ns)"
    using Suc.prems(3) nx \<open>length (take used out) = used\<close> by simp
  moreover have "length (take used out @ ?s) = MNG_WRITE_SIZE" using fits Suc.prems(2) by simp
  moreover have "used + length t = length pre + length (commas (take (Suc i) ?ns))" using Suc.prems(4) nx by simp
  ultimately obtain out' where
    "users_loop u (Suc i) k (take used out @ ?s) (used + length t)
       = Some (Some (out', length pre + length (commas ?ns)))"
    "length out' = MNG_WRITE_SIZE" "take (length pre + length (commas ?ns)) out' = pre @ commas ?ns"
    using Suc.IH [of "Suc i" "take used out @ ?s" "used + length t"] Suc.prems(1,5) by auto
  then show ?case using name fits \<open>snprintf (drop used out) (MNG_WRITE_SIZE - used) t = Some ?s\<close>
    by (simp add: Let_def t_def)
qed

lemma handle_users_ok:
  assumes ok: "mng_ok key p m s"
  shows "returns (handle_users key s) (answers key p m s
    (case g_users s of None \<Rightarrow> ''-ERR users unavailable'' | Some u \<Rightarrow> users_text u, admin_of s m))"
proof (cases "g_users s")
  case None
  then show ?thesis using queue_here [OF ok, of "''-ERR users unavailable''"] by (simp add: handle_users_def)
next
  case (Some u)
  have wf: "users_wf u" and mw: "session_wf m" and fs: "full_sel (sel s)" using ok Some by (auto simp: mng_ok_def)
  have sess: "session_of key s = Some (p, m)" using ok by (rule mng_ok_session)
  obtain pre where pre: "pre = ''+OK users=''" and pl: "length pre = 10" by simp
  have ol: "length (ms_out m) = MNG_WRITE_SIZE" using mw by (simp add: session_wf_def)
  define out where "out = pre @ NUL # drop 11 (ms_out m)"
  have out: "snprintf (ms_out m) MNG_WRITE_SIZE pre = Some out" "length out = MNG_WRITE_SIZE" "take 10 out = pre"
    using ol by (simp_all add: snprintf_def arr_blit_def out_def pl)
  let ?m1 = "m\<lparr>ms_out := out\<rparr>"
  have sb: "same_buffers m ?m1" using ol out(2) by (simp add: same_buffers_def)
  note s1 = put_session_ok [OF ok sb]
  have count: "nat (users_count u) = length (user_names u)" "users_count u = 0 \<longleftrightarrow> user_names u = []"
    using wf length_creds [OF wf] by (auto simp: users_count_def user_names_def users_wf_def)
  show ?thesis
  proof (cases "user_names u = []")
    case True
    have "returns (queue_response key (''+OK users=-'' @ [LF]) (put_session p ?m1 s))
        (answers key p m s (''+OK users=-'', admin_of s m))"
      by (rule queue_from [OF s1]) (simp_all add: admin_of_def put_session_def)
    then show ?thesis using Some sess out(1) count True by (simp add: handle_users_def pre [symmetric] users_text_def Let_def)
  next
    case False
    let ?len = "length pre + length (commas (user_names u))"
    have start: "0 + nat (users_count u) = length (user_names u)" "take 10 out = pre @ commas (take 0 (user_names u))"
      "10 = length pre + length (commas (take 0 (user_names u)))" "length pre \<le> 16"
      using count out(3) pl by simp_all
    obtain out' where out': "users_loop u 0 (nat (users_count u)) out 10 = Some (Some (out', ?len))"
      "length out' = MNG_WRITE_SIZE" "take ?len out' = pre @ commas (user_names u)"
      using users_loop_ok [OF wf start(1) out(2) start(2-4)] by blast
    have "length (commas (user_names u)) \<le> 256 * length (user_names u)"
      by (rule commas_length) (use user_name_length [OF wf] in auto)
    moreover have "length (user_names u) \<le> 10" using wf length_creds [OF wf] by (auto simp: user_names_def users_wf_def)
    ultimately have fits: "?len + 1 < MNG_WRITE_SIZE" using pl by simp
    let ?out = "out'[?len := LF, ?len + 1 := NUL]"
    let ?m2 = "m\<lparr>ms_out := ?out, ms_out_len := ?len + 1, ms_out_sent := 0\<rparr>"
    have sets: "arr_set out' (int ?len) LF = Some (out'[?len := LF])"
      "arr_set (out'[?len := LF]) (int (?len + 1)) NUL = Some ?out"
      by (rule arr_set_in, use fits out'(2) in simp)+
    have txt_out: "take (?len + 1) ?out = pre @ commas (user_names u) @ [LF]"
      using fits out'(2,3) take_list_update_Suc [of ?len out' LF] by simp
    have "full_sel (sel (put_session p ?m2 s))" using fs by (simp add: put_session_def)
    from set_interest_ok [OF this, of key OP_WRITE] obtain sl
      where sl: "set_interest key OP_WRITE (put_session p ?m2 s) = Some ((put_session p ?m2 s)\<lparr>sel := sl\<rparr>)" "full_sel sl"
        "regs sl = (regs (sel s))(k_fd key := with_interest OP_WRITE (regs (sel s) (k_fd key)))"
      "resolution_jobs sl = resolution_jobs (sel s)" by auto
    have "session_wf ?m2" using mw fits out'(2) by (simp add: session_wf_def)
    moreover have "clip (users_text u @ [LF]) = pre @ commas (user_names u) @ [LF]"
      using False fits by (simp add: clip_def users_text_def pre [symmetric])
    ultimately have "answers key p m s (users_text u, admin_of s m) ((put_session p ?m2 s)\<lparr>sel := sl\<rparr>)"
      unfolding answers_def using ok sl(2-4) txt_out
      by (intro exI [of _ ?m2]) (simp add: mng_ok_def mng_frame_def response_def admin_of_def put_session_def)
    moreover have "handle_users key s = Some ((put_session p ?m2 s)\<lparr>sel := sl\<rparr>)"
      using Some sess out(1) out'(1) fits count(2) False sets sl(1) pl
      by (simp add: handle_users_def pre [symmetric] Let_def put_session_def)
    ultimately show ?thesis using Some by simp
  qed
qed

lemma handle_line_ok:
  assumes ok: "mng_ok key p m s"
  shows "returns (handle_line key s) (\<lambda>s'. \<exists>r. answer (words (cstr (ms_line m))) (admin_of s m) = Some r \<and> answers key p m s r s')"
proof -
  let ?line = "trim_right (ms_line m)"
  obtain r1 where r1: "next_token ?line = (case words (cstr (ms_line m)) of [] \<Rightarrow> None | w # _ \<Rightarrow> Some w, r1)"
      "words r1 = tl (words (cstr (ms_line m)))" "NUL \<notin> set r1"
    using next_token_words [OF NUL_trim_right, of "ms_line m"] words_trim_right [of "ms_line m"] by auto
  obtain r2 where r2: "next_token r1 = (case words r1 of [] \<Rightarrow> None | w # _ \<Rightarrow> Some w, r2)"
    using next_token_words [OF r1(3)] by blast
  have sess: "session_of key s = Some (p, m)" using ok by (rule mng_ok_session)
  note q = queue_here [OF ok]
  note run = handle_line_def r1(1) sess
  show ?thesis
  proof (cases "words (cstr (ms_line m))")
    case Nil
    then show ?thesis using q [of "''-ERR empty command''"] by (simp add: run)
  next
    case (Cons cmd args)
    have w: "words r1 = args" using r1(2) Cons by simp
    have cmd: "cstr cmd = cmd" using Cons word_no_NUL [of cmd "cstr (ms_line m)"] by simp
    have flags: "a_locked (admin_of s m) = ms_locked m" "a_auth (admin_of s m) = ms_authenticated m"
      "a_users (admin_of s m) = g_users s" "a_metrics (admin_of s m) = g_metrics s" by (simp_all add: admin_of_def)
    show ?thesis
    proof (cases "cmd = ''AUTH'' \<or> cmd = ''QUIT''")
      case True
      show ?thesis
      proof (cases "cmd = ''AUTH''")
        case True
        then show ?thesis using Cons cmd handle_auth_ok [OF ok r1(3)] w by (simp add: run strcmp_eq_def)
      next
        case False
        with True have quit: "cmd = ''QUIT''" by simp
        let ?m = "m\<lparr>ms_closing := True\<rparr>"
        have "same_buffers m ?m" by (simp add: same_buffers_def)
        have "returns (queue_response key (''+OK bye'' @ [LF]) (put_session p ?m s))
            (answers key p m s (''+OK bye'', admin_of s ?m))"
          by (rule queue_from [OF put_session_ok [OF ok \<open>same_buffers m ?m\<close>]]) simp_all
        then show ?thesis using Cons quit r2 w q [of "''-ERR usage QUIT''"]
          by (cases args) (simp_all add: run strcmp_eq_def admin_of_def)
      qed
    next
      case False
      then have other: "\<not> strcmp_eq cmd ''AUTH''" "\<not> strcmp_eq cmd ''QUIT''" using cmd by (auto simp: strcmp_eq_def)
      show ?thesis
      proof (cases "ms_locked m \<or> \<not> ms_authenticated m")
        case True
        then show ?thesis
          using Cons False other q [of "''-ERR locked''"] q [of "''-ERR auth required''"]
          by (cases "ms_locked m") (simp_all add: run require_auth_def flags)
      next
        case auth: False
        have run': "handle_line key s = (if strcmp_eq cmd ''STATS'' then handle_stats key s
             else if strcmp_eq cmd ''USERS'' then handle_users key s
             else if strcmp_eq cmd ''USER'' then handle_user key r1 s
             else if strcmp_eq cmd ''CONFIG'' then handle_config key r1 s
             else queue_response key (''-ERR unknown command'' @ [LF]) s)"
          using Cons other auth by (simp add: run require_auth_def)
        have ans: "answer (words (cstr (ms_line m))) (admin_of s m) =
            (if cmd = ''STATS'' then Some (case g_metrics s of None \<Rightarrow> ''-ERR metrics unavailable''
                 | Some mt \<Rightarrow> butlast (stats_text (metrics_snapshot mt)), admin_of s m)
             else if cmd = ''USERS'' then Some (case g_users s of None \<Rightarrow> ''-ERR users unavailable'' | Some u \<Rightarrow> users_text u, admin_of s m)
             else if cmd = ''USER'' then answer_user args (admin_of s m)
             else if cmd = ''CONFIG'' then Some (answer_config args (admin_of s m))
             else Some (''-ERR unknown command'', admin_of s m))"
          using False auth unfolding Cons by (simp add: flags)
        have eqs: "strcmp_eq cmd ''STATS'' \<longleftrightarrow> cmd = ''STATS''" "strcmp_eq cmd ''USERS'' \<longleftrightarrow> cmd = ''USERS''"
          "strcmp_eq cmd ''USER'' \<longleftrightarrow> cmd = ''USER''" "strcmp_eq cmd ''CONFIG'' \<longleftrightarrow> cmd = ''CONFIG''"
          using cmd by (simp_all add: strcmp_eq_def)
        show ?thesis unfolding run' ans eqs
          using handle_stats_ok [OF ok] handle_users_ok [OF ok] handle_user_ok [OF ok r1(3)] handle_config_ok [OF ok r1(3)]
            q [of "''-ERR unknown command''"] w by (simp del: split_paired_Ex)
      qed
    qed
  qed
qed

end
