(* ===== verification/Mng_Session.thy ===== *)
theory Mng_Session
  imports Mng_Spec
begin

text \<open>
  The input and output of a management session: the loop that cuts the input into lines, the reading
  and writing handlers, and the life of a session from \<^verbatim>\<open>accept\<close> to \<^verbatim>\<open>mng_close\<close>.
\<close>

section \<open>Processing the input\<close>

text \<open>
  What processing input may do to the server: the kernel, the other sessions and the counters stay, and
  of the registrations only the interest of the session's own descriptor changes, to writing, when a
  response becomes pending.
\<close>

definition progress :: "mng_key \<Rightarrow> nat \<Rightarrow> mng_session \<Rightarrow> 'a srv_scheme \<Rightarrow> mng_session \<Rightarrow> 'a srv_scheme \<Rightarrow> bool" where
  "progress key p m s m' s' \<longleftrightarrow> mng_ok key p m' s' \<and> ms_fd m' = ms_fd m \<and> kern s' = kern s
     \<and> (\<forall>q. q \<noteq> p \<longrightarrow> mng_heap s' q = mng_heap s q) \<and> next_ptr s' = next_ptr s \<and> srv.more s' = srv.more s
     \<and> g_metrics s' = g_metrics s \<and> g_active_sessions s' = g_active_sessions s
     \<and> resolution_jobs (sel s') = resolution_jobs (sel s)
     \<and> (\<forall>f. f \<noteq> k_fd key \<longrightarrow> regs (sel s') f = regs (sel s) f)
     \<and> (ms_out_len m = 0 \<longrightarrow> regs (sel s') = (if ms_out_len m' = 0 then regs (sel s)
          else (regs (sel s))(k_fd key := with_interest OP_WRITE (regs (sel s) (k_fd key)))))"

lemma progress_trans: "progress key p m s m1 s1 \<Longrightarrow> ms_out_len m1 = 0 \<Longrightarrow> progress key p m1 s1 m2 s2 \<Longrightarrow> progress key p m s m2 s2"
  by (auto simp: progress_def)

lemma progress_put:
  "mng_ok key p m s \<Longrightarrow> session_wf m1 \<Longrightarrow> ms_fd m1 = ms_fd m \<Longrightarrow> ms_out_len m1 = ms_out_len m \<Longrightarrow>
   progress key p m s m1 (put_session p m1 s)"
  by (auto simp: progress_def mng_ok_def put_session_def)

lemma answers_progress:
  assumes "answers key p m1 (put_session p m1 s) r s'" and "mng_ok key p m s" and "ms_fd m1 = ms_fd m"
  shows "\<exists>m'. progress key p m s m' s' \<and> ms_in_pos m' = ms_in_pos m1 \<and> ms_in_len m' = ms_in_len m1"
proof -
  from assms(1) obtain m' where m': "mng_ok key p m' s'" "mng_frame p m1 m' (put_session p m1 s) s'"
    "ms_out_len m' = length (clip (fst r @ [LF]))"
    "regs (sel s') = (regs (sel s))(k_fd key := with_interest OP_WRITE (regs (sel s) (k_fd key)))"
    "resolution_jobs (sel s') = resolution_jobs (sel s)"
    unfolding answers_def by auto
  have "0 < ms_out_len m'" unfolding m'(3) by (simp add: clip_def truncated_def)
  with m' assms(2,3) show ?thesis
    by (intro exI [of _ m']) (auto simp: progress_def mng_frame_def put_session_def)
qed

lemma session_wf_line:
  assumes "session_wf m" and "n < MNG_LINE_SIZE" and "length line = MNG_LINE_SIZE" and "ms_in_pos m < ms_in_len m"
  shows "session_wf (m\<lparr>ms_in_pos := ms_in_pos m + 1, ms_line := line, ms_line_len := n\<rparr>)"
    "session_wf (m\<lparr>ms_in_pos := ms_in_pos m + 1, ms_line_len := n\<rparr>)" "session_wf (m\<lparr>ms_in_pos := ms_in_pos m + 1\<rparr>)"
  using assms by (auto simp: session_wf_def)

lemma mng_ok_put: "mng_ok key p m s \<Longrightarrow> session_wf m1 \<Longrightarrow> mng_ok key p m1 (put_session p m1 s)"
  by (auto simp: mng_ok_def put_session_def)

text \<open>The four ways a character is taken.\<close>

lemma process_char_cases:
  assumes ok: "mng_ok key p m s" and pos: "ms_in_pos m < ms_in_len m"
  defines "c \<equiv> ms_in_buf m ! ms_in_pos m" and "m1 \<equiv> m\<lparr>ms_in_pos := ms_in_pos m + 1\<rparr>"
  shows "c = CHR 0x0D \<Longrightarrow> process_char key p m s = Some (put_session p m1 s)"
    "c = LF \<Longrightarrow> process_char key p m s = handle_line key
        (put_session p (m1\<lparr>ms_line := (ms_line m)[ms_line_len m := NUL], ms_line_len := 0\<rparr>) s)"
    "c \<noteq> CHR 0x0D \<Longrightarrow> c \<noteq> LF \<Longrightarrow> ms_line_len m + 1 \<ge> MNG_LINE_SIZE \<Longrightarrow> process_char key p m s =
        queue_response key (''-ERR line too long'' @ [LF]) (put_session p (m1\<lparr>ms_line_len := 0\<rparr>) s)"
    "c \<noteq> CHR 0x0D \<Longrightarrow> c \<noteq> LF \<Longrightarrow> ms_line_len m + 1 < MNG_LINE_SIZE \<Longrightarrow> process_char key p m s =
        Some (put_session p (m1\<lparr>ms_line := (ms_line m)[ms_line_len m := c], ms_line_len := ms_line_len m + 1\<rparr>) s)"
proof -
  have wf: "session_wf m" using ok by (simp add: mng_ok_def)
  then have "ms_in_pos m < length (ms_in_buf m)" "ms_line_len m < length (ms_line m)" using pos by (auto simp: session_wf_def)
  then have g: "arr_get (ms_in_buf m) (int (ms_in_pos m)) = Some c"
      "arr_set (ms_line m) (int (ms_line_len m)) v = Some ((ms_line m)[ms_line_len m := v])" for v
    by (simp_all add: c_def)
  show "c = CHR 0x0D \<Longrightarrow> process_char key p m s = Some (put_session p m1 s)"
    "c = LF \<Longrightarrow> process_char key p m s = handle_line key
        (put_session p (m1\<lparr>ms_line := (ms_line m)[ms_line_len m := NUL], ms_line_len := 0\<rparr>) s)"
    "c \<noteq> CHR 0x0D \<Longrightarrow> c \<noteq> LF \<Longrightarrow> ms_line_len m + 1 \<ge> MNG_LINE_SIZE \<Longrightarrow> process_char key p m s =
        queue_response key (''-ERR line too long'' @ [LF]) (put_session p (m1\<lparr>ms_line_len := 0\<rparr>) s)"
    "c \<noteq> CHR 0x0D \<Longrightarrow> c \<noteq> LF \<Longrightarrow> ms_line_len m + 1 < MNG_LINE_SIZE \<Longrightarrow> process_char key p m s =
        Some (put_session p (m1\<lparr>ms_line := (ms_line m)[ms_line_len m := c], ms_line_len := ms_line_len m + 1\<rparr>) s)"
    using g by (simp_all add: process_char_def m1_def Let_def)
qed

lemma process_char_ok:
  assumes ok: "mng_ok key p m s" and pos: "ms_in_pos m < ms_in_len m"
  shows "returns (process_char key p m s) (\<lambda>s'. \<exists>m'. progress key p m s m' s' \<and> ms_in_pos m' = ms_in_pos m + 1
     \<and> ms_in_len m' = ms_in_len m)"
proof -
  let ?c = "ms_in_buf m ! ms_in_pos m"
  have wf: "session_wf m" using ok by (simp add: mng_ok_def)
  have ll: "length (ms_line m) = MNG_LINE_SIZE" "ms_line_len m < MNG_LINE_SIZE" using wf by (simp_all add: session_wf_def)
  note cs = process_char_cases [OF ok pos]
  consider "?c = CHR 0x0D" | "?c = LF" | "?c \<noteq> CHR 0x0D" "?c \<noteq> LF" "ms_line_len m + 1 \<ge> MNG_LINE_SIZE"
    | "?c \<noteq> CHR 0x0D" "?c \<noteq> LF" "ms_line_len m + 1 < MNG_LINE_SIZE" by linarith
  then show ?thesis
  proof cases
    case 1
    let ?m = "m\<lparr>ms_in_pos := ms_in_pos m + 1\<rparr>"
    have "progress key p m s ?m (put_session p ?m s)"
      by (rule progress_put [OF ok session_wf_line(3) [OF wf ll(2,1) pos]]) simp_all
    then show ?thesis unfolding cs(1) [OF 1] by (auto intro!: exI [of _ ?m])
  next
    case 2
    let ?m = "m\<lparr>ms_in_pos := ms_in_pos m + 1, ms_line := (ms_line m)[ms_line_len m := NUL], ms_line_len := 0\<rparr>"
    have "mng_ok key p ?m (put_session p ?m s)"
      by (rule mng_ok_put [OF ok]) (rule session_wf_line(1) [OF wf _ _ pos], use ll in simp_all)
    from handle_line_ok [OF this] show ?thesis unfolding cs(2) [OF 2]
      by (rule returns_mono) (use answers_progress [OF _ ok, of ?m] in fastforce)
  next
    case 3
    let ?m = "m\<lparr>ms_in_pos := ms_in_pos m + 1, ms_line_len := 0\<rparr>"
    have "mng_ok key p ?m (put_session p ?m s)"
      by (rule mng_ok_put [OF ok]) (rule session_wf_line(2) [OF wf _ ll(1) pos], simp)
    from queue_here [OF this] show ?thesis unfolding cs(3) [OF 3]
      by (rule returns_mono) (use answers_progress [OF _ ok, of ?m] in fastforce)
  next
    case 4
    let ?m = "m\<lparr>ms_in_pos := ms_in_pos m + 1, ms_line := (ms_line m)[ms_line_len m := ?c], ms_line_len := ms_line_len m + 1\<rparr>"
    have "session_wf ?m" by (rule session_wf_line(1) [OF wf 4(3) _ pos]) (use ll in simp)
    then have "progress key p m s ?m (put_session p ?m s)" by (rule progress_put [OF ok]) simp_all
    then show ?thesis unfolding cs(4) [OF 4] by (auto intro!: exI [of _ ?m])
  qed
qed

lemma process_loop_ok:
  "mng_ok key p m s \<Longrightarrow> returns (process_loop key k s) (\<lambda>s'. \<exists>m'. progress key p m s m' s' \<and> ms_in_len m' = ms_in_len m
     \<and> (ms_in_len m - ms_in_pos m \<le> k \<longrightarrow> ms_in_pos m' \<ge> ms_in_len m' \<or> ms_out_len m' \<noteq> 0))"
proof (induction k arbitrary: s m)
  case 0
  then show ?case by (auto simp: progress_def)
next
  case (Suc k)
  have sess: "session_of key s = Some (p, m)" using Suc.prems by (rule mng_ok_session)
  have refl: "progress key p m s m s" using Suc.prems by (simp add: progress_def)
  show ?case
  proof (cases "ms_in_pos m < ms_in_len m \<and> ms_out_len m = 0")
    case False
    then show ?thesis using refl sess by (auto intro!: exI [of _ m])
  next
    case True
    from process_char_ok [OF Suc.prems, THEN returnsE] True obtain s1 m1
      where s1: "process_char key p m s = Some s1" "progress key p m s m1 s1" "ms_in_pos m1 = ms_in_pos m + 1"
        "ms_in_len m1 = ms_in_len m" by blast
    show ?thesis
    proof (cases "ms_out_len m1 = 0")
      case z: True
      have "mng_ok key p m1 s1" using s1(2) by (simp add: progress_def)
      from Suc.IH [OF this] have "returns (process_loop key k s1) (\<lambda>s'. \<exists>m'. progress key p m s m' s' \<and> ms_in_len m' = ms_in_len m
         \<and> (ms_in_len m - ms_in_pos m \<le> Suc k \<longrightarrow> ms_in_pos m' \<ge> ms_in_len m' \<or> ms_out_len m' \<noteq> 0))"
        by (rule returns_mono) (use s1 progress_trans [OF s1(2) z] in fastforce)
      then show ?thesis using True sess s1(1) by simp
    next
      case False
      have "session_of key s1 = Some (p, m1)" using s1(2) by (auto simp: progress_def intro: mng_ok_session)
      then have "process_loop key k s1 = Some s1" using False by (cases k) simp_all
      then show ?thesis using True sess s1 False by (auto intro!: exI [of _ m1])
    qed
  qed
qed

lemma mng_process_input_ok:
  assumes ok: "mng_ok key p m s"
  shows "returns (mng_process_input key s) (\<lambda>s'. \<exists>m'. progress key p m s m' s' \<and> (ms_in_len m' = 0 \<or> ms_out_len m' \<noteq> 0))"
proof -
  from process_loop_ok [OF ok, of "ms_in_len m - ms_in_pos m", THEN returnsE] obtain s1 m1
    where s1: "process_loop key (ms_in_len m - ms_in_pos m) s = Some s1" "progress key p m s m1 s1"
      "ms_in_pos m1 \<ge> ms_in_len m1 \<or> ms_out_len m1 \<noteq> 0" by blast
  have ok1: "mng_ok key p m1 s1" using s1(2) by (simp add: progress_def)
  have sess: "session_of key s = Some (p, m)" "session_of key s1 = Some (p, m1)"
    using mng_ok_session [OF ok] mng_ok_session [OF ok1] by auto
  show ?thesis
  proof (cases "ms_in_pos m1 \<ge> ms_in_len m1")
    case True
    let ?m = "m1\<lparr>ms_in_pos := 0, ms_in_len := 0\<rparr>"
    have "session_wf ?m" using ok1 by (simp add: mng_ok_def session_wf_def)
    then have "mng_ok key p ?m (put_session p ?m s1)" by (rule mng_ok_put [OF ok1])
    then have "progress key p m s ?m (put_session p ?m s1)"
      using s1(2) by (simp add: progress_def) (simp add: put_session_def)
    then show ?thesis
      using True sess s1(1) by (auto simp: mng_process_input_def intro!: exI [of _ ?m])
  next
    case False
    then show ?thesis using sess s1 by (auto simp: mng_process_input_def intro!: exI [of _ m1])
  qed
qed

section \<open>A line\<close>

text \<open>The characters left to process.\<close>

definition pending_input :: "mng_session \<Rightarrow> string" where
  "pending_input m = take (ms_in_len m - ms_in_pos m) (drop (ms_in_pos m) (ms_in_buf m))"

definition line_so_far :: "mng_session \<Rightarrow> string" where
  "line_so_far m = take (ms_line_len m) (ms_line m)"

definition clean :: "string \<Rightarrow> bool" where
  "clean s \<longleftrightarrow> CHR 0x0D \<notin> set s \<and> LF \<notin> set s \<and> NUL \<notin> set s"

lemma pending_Cons:
  assumes "session_wf m" and "pending_input m = c # cs"
  shows "ms_in_pos m < ms_in_len m \<and> ms_in_buf m ! ms_in_pos m = c
    \<and> (\<forall>m'. ms_in_pos m' = ms_in_pos m + 1 \<longrightarrow> ms_in_len m' = ms_in_len m \<longrightarrow> ms_in_buf m' = ms_in_buf m \<longrightarrow> pending_input m' = cs)"
proof -
  have lt: "ms_in_pos m < ms_in_len m" using assms(2) by (cases "ms_in_pos m < ms_in_len m") (auto simp: pending_input_def)
  then have i: "ms_in_pos m < length (ms_in_buf m)" using assms(1) by (simp add: session_wf_def)
  obtain k where k: "ms_in_len m - ms_in_pos m = Suc k" using lt by (cases "ms_in_len m - ms_in_pos m") auto
  then have "ms_in_len m - (ms_in_pos m + 1) = k" by simp
  with assms(2) lt k show ?thesis
    by (auto simp: pending_input_def Cons_nth_drop_Suc [OF i, symmetric])
qed

lemma process_loop_line:
  "mng_ok key p m s \<Longrightarrow> ms_out_len m = 0 \<Longrightarrow> pending_input m = cs @ [LF] \<Longrightarrow> clean (line_so_far m) \<Longrightarrow> clean cs \<Longrightarrow>
   ms_line_len m + length cs < MNG_LINE_SIZE \<Longrightarrow> k = Suc (length cs) \<Longrightarrow>
   returns (process_loop key k s) (\<lambda>s'. \<exists>r m'. answer (words (line_so_far m @ cs)) (admin_of s m) = Some r \<and> mng_ok key p m' s'
     \<and> response m' = clip (fst r @ [LF]) \<and> admin_of s' m' = snd r \<and> ms_line_len m' = 0 \<and> ms_in_pos m' = ms_in_len m'
     \<and> 0 < ms_out_len m' \<and> ms_out_sent m' = 0)"
proof (induction cs arbitrary: m s k)
  case Nil
  have wf: "session_wf m" and sess: "session_of key s = Some (p, m)" using Nil.prems(1) mng_ok_session by (auto simp: mng_ok_def)
  note p = pending_Cons [OF wf Nil.prems(3) [unfolded append_Nil]]
  let ?m = "m\<lparr>ms_in_pos := ms_in_pos m + 1, ms_line := (ms_line m)[ms_line_len m := NUL], ms_line_len := 0\<rparr>"
  have ll: "length (ms_line m) = MNG_LINE_SIZE" "ms_line_len m < MNG_LINE_SIZE" using wf by (simp_all add: session_wf_def)
  have ok1: "mng_ok key p ?m (put_session p ?m s)"
    by (rule mng_ok_put [OF Nil.prems(1)]) (rule session_wf_line(1) [OF wf], use ll p in simp_all)
  have "pending_input ?m = []" using p by simp
  moreover have "session_wf ?m" using ok1 by (simp add: mng_ok_def)
  ultimately have last: "ms_in_pos ?m = ms_in_len ?m"
    by (auto simp: pending_input_def session_wf_def)
  have line: "cstr (ms_line ?m) = line_so_far m"
  proof -
    have "take (ms_line_len m + 1) (ms_line ?m) = line_so_far m @ [NUL]"
      using ll by (simp add: line_so_far_def take_list_update_Suc)
    then have "ms_line ?m = line_so_far m @ NUL # drop (ms_line_len m + 1) (ms_line ?m)"
      by (metis append.assoc append_Cons append_Nil append_take_drop_id)
    then have "cstr (ms_line ?m) = cstr (line_so_far m)" by (metis cstr_append_NUL)
    then show ?thesis using Nil.prems(4) by (simp add: clean_def cstr_id)
  qed
  have adm: "admin_of (put_session p ?m s) ?m = admin_of s m" by (simp add: admin_of_def put_session_def)
  have pc: "process_char key p m s = handle_line key (put_session p ?m s)"
    using process_char_cases(2) [OF Nil.prems(1)] p by simp
  have "returns (handle_line key (put_session p ?m s)) (\<lambda>s'. \<exists>r m'. answer (words (line_so_far m @ [])) (admin_of s m) = Some r \<and> mng_ok key p m' s'
     \<and> response m' = clip (fst r @ [LF]) \<and> admin_of s' m' = snd r \<and> ms_line_len m' = 0 \<and> ms_in_pos m' = ms_in_len m'
     \<and> 0 < ms_out_len m' \<and> ms_out_sent m' = 0)"
  proof (rule returns_mono [OF handle_line_ok [OF ok1]])
    fix s' assume "\<exists>r. answer (words (cstr (ms_line ?m))) (admin_of (put_session p ?m s) ?m) = Some r \<and> answers key p ?m (put_session p ?m s) r s'"
    then obtain r where r: "answer (words (line_so_far m)) (admin_of s m) = Some r" "answers key p ?m (put_session p ?m s) r s'"
      unfolding line adm by blast
    from r(2) obtain m' where m': "mng_ok key p m' s'" "mng_frame p ?m m' (put_session p ?m s) s'"
      "response m' = clip (fst r @ [LF])" "ms_out_len m' = length (clip (fst r @ [LF]))" "ms_out_sent m' = 0" "admin_of s' m' = snd r"
      unfolding answers_def by blast
    have "0 < ms_out_len m'" unfolding m'(4) by (simp add: clip_def truncated_def)
    moreover have "ms_line_len m' = 0 \<and> ms_in_pos m' = ms_in_len m'" using m'(2) last by (simp add: mng_frame_def)
    ultimately show "\<exists>r m'. answer (words (line_so_far m @ [])) (admin_of s m) = Some r \<and> mng_ok key p m' s'
     \<and> response m' = clip (fst r @ [LF]) \<and> admin_of s' m' = snd r \<and> ms_line_len m' = 0 \<and> ms_in_pos m' = ms_in_len m'
     \<and> 0 < ms_out_len m' \<and> ms_out_sent m' = 0"
      using r(1) m' by (intro exI [of _ r] exI [of _ m']) simp
  qed
  then show ?case using sess p Nil.prems(2,7) pc by simp
next
  case (Cons c cs)
  have wf: "session_wf m" and sess: "session_of key s = Some (p, m)" using Cons.prems(1) mng_ok_session by (auto simp: mng_ok_def)
  note p = pending_Cons [OF wf Cons.prems(3) [unfolded append_Cons]]
  let ?m = "m\<lparr>ms_in_pos := ms_in_pos m + 1, ms_line := (ms_line m)[ms_line_len m := c], ms_line_len := ms_line_len m + 1\<rparr>"
  have ll: "length (ms_line m) = MNG_LINE_SIZE" "ms_line_len m + 1 < MNG_LINE_SIZE" using wf Cons.prems(6) by (simp_all add: session_wf_def)
  have ok1: "mng_ok key p ?m (put_session p ?m s)"
    by (rule mng_ok_put [OF Cons.prems(1)]) (rule session_wf_line(1) [OF wf], use ll p in simp_all)
  have c: "c \<noteq> CHR 0x0D" "c \<noteq> LF" "c \<noteq> NUL" using Cons.prems(5) by (auto simp: clean_def)
  have pc: "process_char key p m s = Some (put_session p ?m s)"
    using process_char_cases(4) [OF Cons.prems(1)] p c ll by simp
  have line: "line_so_far ?m = line_so_far m @ [c]" using ll by (simp add: line_so_far_def take_list_update_Suc)
  have adm: "admin_of (put_session p ?m s) ?m = admin_of s m" by (simp add: admin_of_def put_session_def)
  have "clean (line_so_far ?m)" "clean cs" using Cons.prems(4,5) line c by (auto simp: clean_def)
  moreover have "pending_input ?m = cs @ [LF]" using p by simp
  ultimately have "returns (process_loop key (length (c # cs)) (put_session p ?m s))
      (\<lambda>s'. \<exists>r m'. answer (words (line_so_far ?m @ cs)) (admin_of (put_session p ?m s) ?m) = Some r \<and> mng_ok key p m' s'
     \<and> response m' = clip (fst r @ [LF]) \<and> admin_of s' m' = snd r \<and> ms_line_len m' = 0 \<and> ms_in_pos m' = ms_in_len m'
     \<and> 0 < ms_out_len m' \<and> ms_out_sent m' = 0)"
    using Cons.IH [OF ok1] Cons.prems(2,6) by simp
  then show ?case using sess p Cons.prems(2,7) pc line adm by simp
qed

section \<open>The life of a session\<close>

text \<open>The dispatch table closes management sessions with \<^verbatim>\<open>mng_close\<close>.\<close>

definition mng_host_ok :: "'a mng_host \<Rightarrow> bool" where
  "mng_host_ok H \<longleftrightarrow> h_sel H = sel \<and> h_put H = (\<lambda>sl s. s\<lparr>sel := sl\<rparr>) \<and> handle_close H mng_handler = Some mng_close"

definition mng_owned :: "mng_key \<Rightarrow> u32 \<Rightarrow> 'a srv_scheme \<Rightarrow> bool" where
  "mng_owned key i s \<longleftrightarrow> regs (sel s) (k_fd key) = Some (mng_handler, i, k_data key)"

text \<open>A live session: registered for writing exactly while a response is pending, for reading otherwise.\<close>

definition mng_inv :: "mng_key \<Rightarrow> nat \<Rightarrow> mng_session \<Rightarrow> 'a srv_scheme \<Rightarrow> bool" where
  "mng_inv key p m s \<longleftrightarrow> mng_ok key p m s \<and> ms_fd m = k_fd key
     \<and> mng_owned key (if ms_out_len m = 0 then OP_READ else OP_WRITE) s"

text \<open>A session that is over: its memory, its registration and its descriptor have been released.\<close>

definition mng_gone :: "mng_key \<Rightarrow> nat \<Rightarrow> 'a srv_scheme \<Rightarrow> bool" where
  "mng_gone key p s \<longleftrightarrow> mng_heap s p = None \<and> regs (sel s) (k_fd key) = None \<and> k_fd key \<notin> set (k_open (kern s))
     \<and> full_sel (sel s)"

text \<open>
  What an event of the session at \<open>p\<close> leaves alone: the rest of the program, the other sessions, the
  other registrations and, as far as they are registered, the other descriptors.
\<close>

definition elsewhere :: "int \<Rightarrow> kernel \<Rightarrow> kernel \<Rightarrow> bool" where
  "elsewhere fd k k' \<longleftrightarrow> (\<forall>f. f \<noteq> fd \<longrightarrow> k_rx k' f = k_rx k f \<and> k_tx k' f = k_tx k f \<and> k_peer k' f = k_peer k f)"

lemma elsewhere_recv: "k_recv fd n k = (r, k') \<Longrightarrow> elsewhere fd k k'"
  by (auto simp: elsewhere_def k_recv_def split: if_splits list.splits recv_event.splits)

lemma elsewhere_send: "k_send fd bs k = (r, k') \<Longrightarrow> elsewhere fd k k'"
  by (auto simp: elsewhere_def k_send_def split: if_splits list.splits send_event.splits)

lemma elsewhere_refl [simp]: "elsewhere fd k k"
  by (simp add: elsewhere_def)

lemma elsewhere_trans: "elsewhere fd k k1 \<Longrightarrow> elsewhere fd k1 k2 \<Longrightarrow> elsewhere fd k k2"
  by (simp add: elsewhere_def)

definition mng_local :: "mng_key \<Rightarrow> nat \<Rightarrow> 'a srv_scheme \<Rightarrow> 'a srv_scheme \<Rightarrow> bool" where
  "mng_local key p s s' \<longleftrightarrow> srv.more s' = srv.more s \<and> next_ptr s' = next_ptr s \<and> (\<forall>q. q \<noteq> p \<longrightarrow> mng_heap s' q = mng_heap s q)
     \<and> full_sel (sel s') \<and> (\<forall>f. f \<noteq> k_fd key \<longrightarrow> regs (sel s') f = regs (sel s) f)
     \<and> resolution_jobs (sel s') = resolution_jobs (sel s) \<and> (\<forall>u. g_users s' = Some u \<longrightarrow> users_wf u)
     \<and> (\<forall>f \<in> set (k_open (kern s)). f \<in> set (k_open (kern s')) \<or> f = k_fd key \<and> regs (sel s') f = None)
     \<and> elsewhere (k_fd key) (kern s) (kern s')"

lemma mng_local_trans: "mng_local key p s s1 \<Longrightarrow> k_open (kern s1) = k_open (kern s) \<Longrightarrow> mng_local key p s1 s2 \<Longrightarrow> mng_local key p s s2"
  by (auto simp: mng_local_def intro: elsewhere_trans)

text \<open>A system call that opens and closes nothing, and a change of the session itself.\<close>

lemma mng_local_quiet:
  "mng_ok key p m s \<Longrightarrow> k_open kn = k_open (kern s) \<Longrightarrow> elsewhere (k_fd key) (kern s) kn \<Longrightarrow> mng_local key p s (s\<lparr>kern := kn\<rparr>)"
  "mng_ok key p m s \<Longrightarrow> k_open kn = k_open (kern s) \<Longrightarrow> elsewhere (k_fd key) (kern s) kn \<Longrightarrow>
     mng_local key p s (put_session p m1 (s\<lparr>kern := kn\<rparr>))"
  "mng_ok key p m s \<Longrightarrow> mng_local key p s (put_session p m1 s)"
  by (auto simp: mng_local_def mng_ok_def put_session_def)

lemma progress_local: "progress key p m s m' s' \<Longrightarrow> mng_local key p s s'"
  by (auto simp: progress_def mng_local_def mng_ok_def)

lemma drop_connection_ok:
  assumes H: "mng_host_ok H" and ok: "mng_ok key p m s" and fd: "ms_fd m = k_fd key" and own: "mng_owned key i s"
  shows "returns (drop_connection H key s) (\<lambda>s'. mng_gone key p s'
     \<and> (\<forall>q. q \<noteq> p \<longrightarrow> mng_heap s' q = mng_heap s q) \<and> (\<forall>f. f \<noteq> k_fd key \<longrightarrow> regs (sel s') f = regs (sel s) f)
     \<and> g_active_sessions s' = (if g_active_sessions s = 0 then 0 else g_active_sessions s - 1)
     \<and> g_metrics s' = map_option metrics_admin_session_close (g_metrics s) \<and> mng_local key p s s')"
proof -
  have fs: "full_sel (sel s)" and hp: "mng_heap s p = Some m" and kd: "k_data key = Some (Mng_Ptr p)" using ok by (auto simp: mng_ok_def)
  have leg: "\<not> INVALID_FD (k_fd key)" using sel.entry_legal [OF fs, of "k_fd key"] own by (simp add: mng_owned_def)
  have Hs: "h_sel H = sel" "h_put H = (\<lambda>sl s. s\<lparr>sel := sl\<rparr>)" "handle_close H mng_handler = Some mng_close"
    using H by (auto simp: mng_host_ok_def)
  define s1 where "s1 = the (mng_close key s)"
  have "0 \<le> k_fd key" using leg by (simp add: INVALID_FD_def)
  then have cl: "mng_close key s = Some s1" "sel s1 = sel s" "mng_heap s1 p = None"
      "\<forall>q. q \<noteq> p \<longrightarrow> mng_heap s1 q = mng_heap s q" "k_fd key \<notin> set (k_open (kern s1))"
      "g_active_sessions s1 = (if g_active_sessions s = 0 then 0 else g_active_sessions s - 1)"
      "g_metrics s1 = map_option metrics_admin_session_close (g_metrics s)"
    using hp kd fd
    by (auto simp: s1_def mng_close_def session_of_def k_close_def Let_def word_gt_0 split: option.splits)
  have key: "\<lparr>k_fd = k_fd key, k_data = k_data key\<rparr> = key" by simp
  obtain k where k: "k_fd key = int k" "k < ITEMS_MAX_SIZE" using leg by (cases "k_fd key") (auto simp: INVALID_FD_def)
  obtain it where it: "arr_get (fds (sel s)) (int k) = Some it"
    "item_used it \<longrightarrow> (\<exists>h. i_handler it = Some h \<and> i_fd it = int k \<and> regs (sel s) (int k) = Some (h, i_interest it, i_data it))"
    "\<not> item_used it \<longrightarrow> regs (sel s) (int k) = None \<and> i_interest it = OP_NOOP"
    using item_view [OF fs k(2)] by blast
  with own k have u: "item_used it" "i_handler it = Some mng_handler" "i_fd it = k_fd key" "i_data it = k_data key"
    by (auto simp: mng_owned_def)
  from full_remove [of "sel s1", OF _ leg] fs cl(2) obtain sl where sl: "item_remove (k_fd key) (sel s1) = Some sl"
    "full_sel sl" "regs sl = (regs (sel s1))(k_fd key := None)" by (auto simp: returns_iff)
  have users: "\<forall>u. g_users s = Some u \<longrightarrow> users_wf u" using ok by (simp add: mng_ok_def)
  have frame: "srv.more s1 = srv.more s \<and> next_ptr s1 = next_ptr s \<and> g_users s1 = g_users s
      \<and> (\<forall>f \<in> set (k_open (kern s)). f \<in> set (k_open (kern s1)) \<or> f = k_fd key) \<and> elsewhere (k_fd key) (kern s) (kern s1)"
    using cl(1) hp kd fd
    by (auto simp: mng_close_def session_of_def k_close_def elsewhere_def Let_def split: option.splits if_splits)
  have "mng_close \<lparr>k_fd = int k, k_data = k_data key\<rparr> s = Some s1" using cl(1) key k(1) by metis
  then have "selector_unregister_fd H (k_fd key) s = Some (SELECTOR_SUCCESS, s1\<lparr>sel := sl\<rparr>)"
    using it(1) u leg sl(1) k(1) by (simp add: selector_unregister_fd_def Hs)
  moreover have "mng_local key p s (s1\<lparr>sel := sl\<rparr>)"
    using frame cl sl remove_jobs [OF sl(1)] users by (auto simp: mng_local_def)
  ultimately show ?thesis using sl cl by (simp add: drop_connection_def mng_gone_def)
qed

lemma progress_inv:
  assumes "progress key p m s m' s'" and "ms_out_len m = 0" and "ms_fd m = k_fd key" and "mng_owned key i s"
  shows "mng_ok key p m' s'" "ms_fd m' = k_fd key"
    "ms_out_len m' \<noteq> 0 \<Longrightarrow> mng_owned key OP_WRITE s'" "ms_out_len m' = 0 \<Longrightarrow> mng_owned key i s'"
  using assms by (auto simp: progress_def mng_owned_def with_interest_def)

lemma mng_read_ok:
  assumes H: "mng_host_ok H" and inv: "mng_inv key p m s" and idle: "ms_out_len m = 0"
  shows "returns (mng_read H key s) (\<lambda>s'. (mng_gone key p s' \<or> (\<exists>m'. mng_inv key p m' s')) \<and> mng_local key p s s')"
proof -
  have ok: "mng_ok key p m s" and fd: "ms_fd m = k_fd key" and own: "mng_owned key OP_READ s" and wf: "session_wf m"
    using inv idle by (auto simp: mng_inv_def mng_ok_def)
  note sess = mng_ok_session [OF ok]
  have input: "returns (mng_process_input key s1) (\<lambda>s'. (mng_gone key p s' \<or> (\<exists>m'. mng_inv key p m' s')) \<and> mng_local key p s s')"
    if "mng_ok key p m1 s1" "ms_out_len m1 = 0" "ms_fd m1 = k_fd key" "mng_owned key OP_READ s1"
      "mng_local key p s s1" "k_open (kern s1) = k_open (kern s)" for m1 s1
  proof (rule returns_mono [OF mng_process_input_ok [OF that(1)]])
    fix s'
    assume "\<exists>m'. progress key p m1 s1 m' s' \<and> (ms_in_len m' = 0 \<or> ms_out_len m' \<noteq> 0)"
    then obtain m' where m': "progress key p m1 s1 m' s'" by blast
    from progress_inv [OF m' that(2-4)] mng_local_trans [OF that(5,6) progress_local [OF m']]
    show "(mng_gone key p s' \<or> (\<exists>m'. mng_inv key p m' s')) \<and> mng_local key p s s'" by (auto simp: mng_inv_def)
  qed
  show ?thesis
  proof (cases "ms_in_pos m \<ge> ms_in_len m")
    case False
    have "mng_local key p s s" using mng_local_quiet(1) [OF ok, of "kern s"] by simp
    then show ?thesis using False sess input [OF ok idle fd own] by (simp add: mng_read_def)
  next
    case True
    obtain r kn where r: "k_recv (k_fd key) MNG_IN_SIZE (kern s) = (r, kn)" by (cases "k_recv (k_fd key) MNG_IN_SIZE (kern s)")
    have ok1: "mng_ok key p m (s\<lparr>kern := kn\<rparr>)" "mng_owned key OP_READ (s\<lparr>kern := kn\<rparr>)"
      using ok own by (simp_all add: mng_ok_def mng_owned_def)
    have opn: "k_open kn = k_open (kern s)" using k_recv_trace [OF r] by simp
    note loc = mng_local_quiet(1,2) [OF ok opn elsewhere_recv [OF r]]
    have drop: "returns (drop_connection H key (s\<lparr>kern := kn\<rparr>)) (\<lambda>s'. (mng_gone key p s' \<or> (\<exists>m'. mng_inv key p m' s')) \<and> mng_local key p s s')"
      by (rule returns_mono [OF drop_connection_ok [OF H ok1(1) fd ok1(2)]]) (use mng_local_trans [OF loc(1)] opn in auto)
    show ?thesis
    proof (cases r)
      case (Inl e)
      have "mng_inv key p m (s\<lparr>kern := kn\<rparr>)" using ok1 fd idle by (simp add: mng_inv_def)
      then show ?thesis using True sess r Inl drop loc(1) by (auto simp: mng_read_def Let_def)
    next
      case (Inr bs)
      show ?thesis
      proof (cases "bs = []")
        case empty: True
        then show ?thesis using True sess r Inr drop by (simp add: mng_read_def)
      next
        case False
        have len: "length bs \<le> MNG_IN_SIZE" using k_recv_trace [OF r] Inr by simp
        let ?m = "m\<lparr>ms_in_buf := map chr bs @ drop (length bs) (ms_in_buf m), ms_in_len := length bs, ms_in_pos := 0\<rparr>"
        have blit: "arr_blit (ms_in_buf m) 0 (map chr bs) = Some (map chr bs @ drop (length bs) (ms_in_buf m))"
          using len wf by (simp add: arr_blit_def session_wf_def)
        have "session_wf ?m" using wf len by (simp add: session_wf_def)
        then have ok2: "mng_ok key p ?m (put_session p ?m (s\<lparr>kern := kn\<rparr>))" by (rule mng_ok_put [OF ok1(1)])
        have own2: "mng_owned key OP_READ (put_session p ?m (s\<lparr>kern := kn\<rparr>))" using ok1(2) by (simp add: mng_owned_def)
        have "returns (mng_process_input key (put_session p ?m (s\<lparr>kern := kn\<rparr>)))
           (\<lambda>s'. (mng_gone key p s' \<or> (\<exists>m'. mng_inv key p m' s')) \<and> mng_local key p s s')"
          by (rule input [OF ok2 _ _ own2]) (use idle fd loc(2) opn in \<open>simp_all add: put_session_def\<close>)
        then show ?thesis using True sess r Inr False blit by (simp add: mng_read_def)
      qed
    qed
  qed
qed

lemma flush_out_ok:
  "session_wf m \<Longrightarrow> ms_out_len m - ms_out_sent m < k \<Longrightarrow> flush_out fd k m kn = (e, m', kn') \<Longrightarrow>
   \<exists>n. m' = m\<lparr>ms_out_sent := n\<rparr> \<and> ms_out_sent m \<le> n \<and> n \<le> ms_out_len m \<and> k_open kn' = k_open kn \<and> elsewhere fd kn kn'
     \<and> k_tx kn' = (k_tx kn)(fd := k_tx kn fd @ map ord (take (n - ms_out_sent m) (drop (ms_out_sent m) (ms_out m))))"
proof (induction k arbitrary: m kn)
  case (Suc k)
  show ?case
  proof (cases "ms_out_sent m < ms_out_len m")
    case False
    then have "ms_out_sent m = ms_out_len m" using Suc.prems(1) by (simp add: session_wf_def)
    then show ?thesis using Suc.prems(3) False by (intro exI [of _ "ms_out_sent m"]) simp
  next
    case True
    let ?bs = "map ord (take (ms_out_len m - ms_out_sent m) (drop (ms_out_sent m) (ms_out m)))"
    obtain r kn1 where r: "k_send fd ?bs kn = (r, kn1)" by (cases "k_send fd ?bs kn")
    note tr = k_send_trace [OF r]
    note el = elsewhere_send [OF r]
    show ?thesis
    proof (cases r)
      case (Inl er)
      then show ?thesis using Suc.prems(3) True r tr el by (intro exI [of _ "ms_out_sent m"]) (auto split: if_splits)
    next
      case (Inr n)
      have blen: "length ?bs = ms_out_len m - ms_out_sent m" using Suc.prems(1) True by (auto simp: session_wf_def min_def)
      have n: "n \<le> ms_out_len m - ms_out_sent m" using tr Inr blen by simp
      show ?thesis
      proof (cases "n = 0")
        case zero: True
        then show ?thesis using Suc.prems(3) True r tr el Inr by (intro exI [of _ "ms_out_sent m"]) auto
      next
        case False
        let ?m = "m\<lparr>ms_out_sent := ms_out_sent m + n\<rparr>"
        have wf: "session_wf ?m" using Suc.prems(1) n True by (simp add: session_wf_def)
        have lt: "ms_out_len ?m - ms_out_sent ?m < k" using Suc.prems(2) False n True by simp
        have run: "flush_out fd k ?m kn1 = (e, m', kn')" using Suc.prems(3) True r Inr False by simp
        from Suc.IH [OF wf lt run] obtain n' where raw: "m' = ?m\<lparr>ms_out_sent := n'\<rparr>" "ms_out_sent ?m \<le> n'"
          "n' \<le> ms_out_len ?m" "k_open kn' = k_open kn1" "elsewhere fd kn1 kn'"
          "k_tx kn' = (k_tx kn1)(fd := k_tx kn1 fd @ map ord (take (n' - ms_out_sent ?m) (drop (ms_out_sent ?m) (ms_out ?m))))"
          by blast
        then have n': "m' = ?m\<lparr>ms_out_sent := n'\<rparr>" "ms_out_sent m + n \<le> n'" "n' \<le> ms_out_len m"
          "k_open kn' = k_open kn1"
          "k_tx kn' = (k_tx kn1)(fd := k_tx kn1 fd @ map ord (take (n' - (ms_out_sent m + n)) (drop (ms_out_sent m + n) (ms_out m))))"
          "elsewhere fd kn kn'"
          using elsewhere_trans [OF el raw(5)] by simp_all
        have t1: "take n ?bs = map ord (take n (drop (ms_out_sent m) (ms_out m)))" using n by (simp add: take_map)
        have "take (n' - ms_out_sent m) (drop (ms_out_sent m) (ms_out m)) = take n (drop (ms_out_sent m) (ms_out m))
            @ take (n' - (ms_out_sent m + n)) (drop (ms_out_sent m + n) (ms_out m))"
          using drop_take_split [of n "n' - ms_out_sent m" "drop (ms_out_sent m) (ms_out m)"] n'(2) by (simp add: add.commute)
        moreover have "k_tx kn1 = (k_tx kn)(fd := k_tx kn fd @ take n ?bs)" using tr Inr by simp
        ultimately show ?thesis using n' tr t1 by (intro exI [of _ n']) simp
      qed
    qed
  qed
qed simp

lemma mng_write_ok:
  assumes H: "mng_host_ok H" and inv: "mng_inv key p m s" and busy: "ms_out_len m \<noteq> 0"
  shows "returns (mng_write H key s) (\<lambda>s'. (mng_gone key p s' \<or> (\<exists>m'. mng_inv key p m' s')) \<and> mng_local key p s s')"
proof -
  have ok: "mng_ok key p m s" and fd: "ms_fd m = k_fd key" and own: "mng_owned key OP_WRITE s" and wf: "session_wf m"
    using inv busy by (auto simp: mng_inv_def mng_ok_def)
  note sess = mng_ok_session [OF ok]
  obtain e m1 kn where f: "flush_out (k_fd key) (Suc (ms_out_len m - ms_out_sent m)) m (kern s) = (e, m1, kn)"
    by (cases "flush_out (k_fd key) (Suc (ms_out_len m - ms_out_sent m)) m (kern s)")
  from flush_out_ok [OF wf _ f] obtain n where n: "m1 = m\<lparr>ms_out_sent := n\<rparr>" "n \<le> ms_out_len m" by auto
  let ?s = "put_session p m1 (s\<lparr>kern := kn\<rparr>)"
  have wf1: "session_wf m1" using wf n by (simp add: session_wf_def)
  have "mng_ok key p m (s\<lparr>kern := kn\<rparr>)" using ok by (simp add: mng_ok_def)
  then have ok1: "mng_ok key p m1 ?s" using wf1 by (rule mng_ok_put)
  have own1: "mng_owned key OP_WRITE ?s" using own by (simp add: mng_owned_def)
  have fd1: "ms_fd m1 = k_fd key" using n fd by simp
  have drop: "returns (drop_connection H key s1) (\<lambda>s'. (mng_gone key p s' \<or> (\<exists>m'. mng_inv key p m' s')) \<and> mng_local key p s s')"
    if "mng_ok key p m2 s1" "ms_fd m2 = k_fd key" "mng_owned key OP_WRITE s1" "mng_local key p s s1"
      "k_open (kern s1) = k_open (kern s)" for m2 s1
    by (rule returns_mono [OF drop_connection_ok [OF H that(1-3)]]) (use mng_local_trans [OF that(4,5)] in auto)
  have opn: "k_open kn = k_open (kern s)" and els: "elsewhere (k_fd key) (kern s) kn" using flush_out_ok [OF wf _ f] by auto
  note loc = mng_local_quiet(2) [OF ok opn els, of m1]
  have stay: "mng_inv key p m1 ?s" using ok1 fd1 own1 n busy by (simp add: mng_inv_def)
  show ?thesis
  proof (cases e)
    case Blocked
    then show ?thesis using sess f stay loc by (auto simp: mng_write_def simp del: flush_out.simps)
  next
    case Broken
    then show ?thesis using sess f drop [OF ok1 fd1 own1 loc] opn by (simp add: mng_write_def put_session_def del: flush_out.simps)
  next
    case Flushed
    show ?thesis
    proof (cases "n = ms_out_len m")
      case False
      then show ?thesis using sess f Flushed stay n loc by (auto simp: mng_write_def simp del: flush_out.simps)
    next
      case True
      let ?m = "m1\<lparr>ms_out_len := 0, ms_out_sent := 0\<rparr>"
      let ?s2 = "put_session p ?m ?s"
      have wf2: "session_wf ?m" using wf1 by (simp add: session_wf_def)
      have ok2: "mng_ok key p ?m ?s2" using ok1 wf2 by (rule mng_ok_put)
      have loc2: "mng_local key p s ?s2" using mng_local_trans [OF loc _ mng_local_quiet(3) [OF ok1]] opn by (simp add: put_session_def)
      have opn2: "k_open (kern ?s2) = k_open (kern s)" using opn by (simp add: put_session_def)
      have own2: "mng_owned key OP_WRITE ?s2" using own1 by (simp add: mng_owned_def)
      show ?thesis
      proof (cases "ms_closing m")
        case closing: True
        then show ?thesis using sess f Flushed True n drop [OF ok2 _ own2 loc2 opn2] fd1
          by (simp add: mng_write_def Let_def del: flush_out.simps)
      next
        case False
        from mng_process_input_ok [OF ok2, THEN returnsE] obtain s3 m3
          where s3: "mng_process_input key ?s2 = Some s3" "progress key p ?m ?s2 m3 s3" by blast
        have fd2: "ms_fd ?m = k_fd key" "ms_out_len ?m = 0" using fd1 by simp_all
        note pi = progress_inv [OF s3(2) fd2(2,1) own2]
        have loc3: "mng_local key p s s3" using mng_local_trans [OF loc2 opn2 progress_local [OF s3(2)]] .
        have sess3: "session_of key s3 = Some (p, m3)" using pi(1) by (rule mng_ok_session)
        show ?thesis
        proof (cases "ms_out_len m3 = 0")
          case zero: True
          have "full_sel (sel s3)" using pi(1) by (simp add: mng_ok_def)
          from set_interest_ok [OF this, of key OP_READ] obtain sl where
            sl: "set_interest key OP_READ s3 = Some (s3\<lparr>sel := sl\<rparr>)" "full_sel sl"
              "regs sl = (regs (sel s3))(k_fd key := with_interest OP_READ (regs (sel s3) (k_fd key)))"
              "resolution_jobs sl = resolution_jobs (sel s3)" by blast
          have "mng_inv key p m3 (s3\<lparr>sel := sl\<rparr>)"
            using pi zero sl(2,3) by (auto simp: mng_inv_def mng_ok_def mng_owned_def with_interest_def)
          moreover have "mng_local key p s (s3\<lparr>sel := sl\<rparr>)" using loc3 sl(2-4) by (auto simp: mng_local_def with_interest_def)
          ultimately show ?thesis using sess f Flushed True n False s3(1) sess3 zero sl(1)
            by (auto simp: mng_write_def Let_def simp del: flush_out.simps)
        next
          case pending: False
          have "mng_inv key p m3 s3" using pi pending by (simp add: mng_inv_def)
          then show ?thesis using sess f Flushed True n False s3(1) sess3 pending loc3
            by (auto simp: mng_write_def Let_def simp del: flush_out.simps)
        qed
      qed
    qed
  qed
qed

text \<open>The next event of a session, as the selector would deliver it.\<close>

definition mng_event :: "'a mng_host \<Rightarrow> mng_key \<Rightarrow> 'a srv_scheme \<Rightarrow> 'a srv_scheme option" where
  "mng_event H key s =
     (case session_of key s of
        None \<Rightarrow> Some s
      | Some (p, m) \<Rightarrow> if ms_out_len m = 0 then mng_read H key s else mng_write H key s)"

fun mng_events :: "'a mng_host \<Rightarrow> mng_key \<Rightarrow> nat \<Rightarrow> 'a srv_scheme \<Rightarrow> 'a srv_scheme option" where
  "mng_events H key 0 s = Some s"
| "mng_events H key (Suc n) s = do { s \<leftarrow> mng_event H key s; mng_events H key n s }"

section \<open>A server to try it on\<close>

definition demo_kernel :: kernel where
  "demo_kernel = \<lparr>k_open = [0, 1, 2, 3], k_in = \<lambda>_. [R_data (map ord (''AUTH x'' @ [LF]))], k_out = \<lambda>_. [S_take 5, S_take 100],
     k_accept = \<lambda>_. [None], k_fcntl = [], k_mem = [], k_sock = [], k_conn = [], k_soerr = [],
     k_shut = [], k_rx = \<lambda>_. [], k_tx = \<lambda>_. [], k_peer = \<lambda>_. None, k_fin = []\<rparr>"

definition demo_sel :: "(handler, attachment) fdselector" where
  "demo_sel = the (the (selector_new True True \<lparr>conf_signal = 14, conf_timeout = (10, 0)\<rparr> ITEMS_MAX_SIZE))"

definition demo_srv :: srv where
  "demo_srv = \<lparr>kern = demo_kernel, sel = demo_sel, g_admin_secret = Some ''secret'', g_users = Some users_create,
     g_metrics = Some metrics_create, g_config = Some config_init, g_active_sessions = 0,
     mng_heap = [0 \<mapsto> new_session 7], next_ptr = 1\<rparr>"

definition demo_key :: mng_key where
  "demo_key = \<lparr>k_fd = 7, k_data = Some (Mng_Ptr 0)\<rparr>"

definition demo_host :: "unit mng_host" where
  "demo_host = \<lparr>h_sel = sel, h_put = \<lambda>sl s. s\<lparr>sel := sl\<rparr>, handle_read = \<lambda>_. None, handle_write = \<lambda>_. None,
     handle_block = \<lambda>_. None, handle_close = \<lambda>h. if h = mng_handler then Some mng_close else None\<rparr>"

lemma demo_sel_full: "full_sel demo_sel \<and> regs demo_sel = (\<lambda>_. None)"
proof -
  obtain s :: "(handler, attachment) fdselector"
    where s: "selector_new True True \<lparr>conf_signal = 14, conf_timeout = (10, 0)\<rparr> ITEMS_MAX_SIZE = Some (Some s)"
    using selector_new_full by blast
  then have "demo_sel = s" by (simp add: demo_sel_def)
  with selector_newD [OF s] show ?thesis by simp
qed

lemma demo_host_ok: "mng_host_ok demo_host"
  by (simp add: mng_host_ok_def demo_host_def)

lemma session_wf_new [simp]: "session_wf (new_session fd)"
  by (simp add: session_wf_def new_session_def)

text \<open>The demonstration server with a given line in its session.\<close>

definition demo_line :: "string \<Rightarrow> mng_session" where
  "demo_line l = (new_session 7)\<lparr>ms_line := l @ replicate (MNG_LINE_SIZE - length l) NUL\<rparr>"

lemma demo_line_ok: "length l \<le> MNG_LINE_SIZE \<Longrightarrow> mng_ok demo_key 0 (demo_line l) (put_session 0 (demo_line l) demo_srv)"
  using demo_sel_full
  by (simp add: mng_ok_def demo_key_def demo_srv_def put_session_def demo_line_def session_wf_def new_session_def
      users_inv_create [unfolded users_inv_def])

section \<open>Properties\<close>



text \<open>C9: nothing without authentication. While a session is not authenticated no line changes the users, the
  configuration or the metrics, and the response is one of eight fixed texts, so no setting, name or
  counter is revealed. The session becomes authenticated only by the words \<open>AUTH\<close> and the configured
  secret, which must not be empty.\<close>

theorem mng_auth_guard:
  assumes ok: "mng_ok key p m s" and "\<not> ms_authenticated m"
  shows "returns (handle_line key s) (\<lambda>s'. g_users s' = g_users s \<and> g_config s' = g_config s \<and> g_metrics s' = g_metrics s
    \<and> (\<exists>m'. mng_heap s' p = Some m'
        \<and> response m' \<in> (\<lambda>t. t @ [LF]) ` {''-ERR empty command'', ''-ERR usage AUTH <secret>'', ''-ERR auth required'',
             ''+OK authenticated'', ''-ERR invalid credentials'', ''-ERR locked'', ''+OK bye'', ''-ERR usage QUIT''}
        \<and> (ms_authenticated m' \<longrightarrow> (\<exists>adm. g_admin_secret s = Some adm \<and> cstr adm \<noteq> []
              \<and> words (cstr (ms_line m)) = [''AUTH'', cstr adm]))))"
proof (rule returns_mono [OF handle_line_ok [OF ok]])
  let ?T = "{''-ERR empty command'', ''-ERR usage AUTH <secret>'', ''-ERR auth required'',
             ''+OK authenticated'', ''-ERR invalid credentials'', ''-ERR locked'', ''+OK bye'', ''-ERR usage QUIT''}"
  fix s'
  assume "\<exists>r. answer (words (cstr (ms_line m))) (admin_of s m) = Some r \<and> answers key p m s r s'"
  then obtain t a where r: "answer (words (cstr (ms_line m))) (admin_of s m) = Some (t, a)" "answers key p m s (t, a) s'" by auto
  have na: "\<not> a_auth (admin_of s m)" "a_secret (admin_of s m) = g_admin_secret s" using assms by (simp_all add: admin_of_def)
  have spec: "t \<in> ?T \<and> a_users a = a_users (admin_of s m) \<and> a_config a = a_config (admin_of s m)
    \<and> (a_auth a \<longrightarrow> (\<exists>adm. g_admin_secret s = Some adm \<and> cstr adm \<noteq> [] \<and> words (cstr (ms_line m)) = [''AUTH'', cstr adm]))"
  proof (cases "words (cstr (ms_line m))")
    case Nil
    then show ?thesis using r(1) na by auto
  next
    case (Cons cmd args)
    consider "cmd = ''AUTH''" | "cmd = ''QUIT''" | "cmd \<noteq> ''AUTH''" "cmd \<noteq> ''QUIT''" by blast
    then show ?thesis
    proof cases
      case 1
      then have "answer_auth args (admin_of s m) = (t, a)" using r(1) Cons by simp
      then show ?thesis using na Cons 1
        by (auto simp: answer_auth_def split: list.splits option.splits if_splits)
    next
      case 2
      then show ?thesis using r(1) Cons na by (auto split: if_splits)
    next
      case 3
      then show ?thesis using r(1) Cons na by (auto split: if_splits)
    qed
  qed
  from r(2) obtain m' where m': "mng_ok key p m' s'" "mng_frame p m m' s s'" "response m' = clip (t @ [LF])" "admin_of s' m' = a"
    by (auto simp: answers_def)
  have "length t < 4000" using spec by auto
  then have "response m' = t @ [LF]" using m'(3) by (simp add: clip_def)
  then show "g_users s' = g_users s \<and> g_config s' = g_config s \<and> g_metrics s' = g_metrics s
    \<and> (\<exists>m'. mng_heap s' p = Some m' \<and> response m' \<in> (\<lambda>t. t @ [LF]) ` ?T
        \<and> (ms_authenticated m' \<longrightarrow> (\<exists>adm. g_admin_secret s = Some adm \<and> cstr adm \<noteq> []
              \<and> words (cstr (ms_line m)) = [''AUTH'', cstr adm])))"
    using spec m' by (auto simp: mng_ok_def mng_frame_def admin_of_def)
qed

theorem mng_auth_guard_witness:
  "\<exists>(s :: srv) (m :: mng_session). \<not> ms_authenticated m \<and> cstr (ms_line m) = ''USER SET eve pw''
     \<and> returns (handle_line demo_key s) (\<lambda>s'. g_users s' = g_users s)"
proof -
  let ?l = "''USER SET eve pw''" and ?m = "demo_line ''USER SET eve pw''"
  have "\<not> ms_authenticated ?m" "cstr (ms_line ?m) = ?l" by (simp_all add: demo_line_def new_session_def cstr_append cstr_id)
  moreover have "returns (handle_line demo_key (put_session 0 ?m demo_srv)) (\<lambda>s'. g_users s' = g_users (put_session 0 ?m demo_srv))"
    by (rule returns_mono [OF mng_auth_guard [OF demo_line_ok]]) (simp_all add: demo_line_def new_session_def)
  ultimately show ?thesis by (intro exI [of _ "put_session 0 ?m demo_srv"] exI [of _ ?m] conjI)
qed

text \<open>a wrong secret. Each \<open>AUTH\<close> with a secret that is not the configured one adds one to the session's
  failures and does not authenticate it; below three the session goes on, and with the third it is locked
  and told so, and will be closed when the response has been sent. The counter starts at 0 and only a
  correct secret sets it back.\<close>

lemma mng_lockout:
  assumes ok: "mng_ok key p m s" and line: "words (cstr (ms_line m)) = [''AUTH'', w]"
    and adm: "g_admin_secret s = Some adm" "cstr adm \<noteq> []" "w \<noteq> cstr adm"
  shows "returns (handle_line key s) (\<lambda>s'. \<exists>m'. mng_heap s' p = Some m'
    \<and> ms_auth_failures m' = ms_auth_failures m + 1 \<and> ms_authenticated m' = ms_authenticated m
    \<and> (if ms_auth_failures m + 1 \<ge> MNG_MAX_AUTH_FAILURES
       then ms_locked m' \<and> ms_closing m' \<and> response m' = ''-ERR locked'' @ [LF]
       else ms_locked m' = ms_locked m \<and> ms_closing m' = ms_closing m \<and> response m' = ''-ERR invalid credentials'' @ [LF]))"
proof (rule returns_mono [OF handle_line_ok [OF ok]])
  fix s'
  assume "\<exists>r. answer (words (cstr (ms_line m))) (admin_of s m) = Some r \<and> answers key p m s r s'"
  then obtain r0 where "answer (words (cstr (ms_line m))) (admin_of s m) = Some r0" "answers key p m s r0 s'" by blast
  moreover obtain t a where "r0 = (t, a)" by (cases r0)
  ultimately have r: "answer_auth [w] (admin_of s m) = (t, a)" "answers key p m s (t, a) s'" using line by auto
  from r(2) obtain m' where m': "mng_ok key p m' s'" "response m' = clip (t @ [LF])" "admin_of s' m' = a"
    by (auto simp: answers_def)
  have h: "mng_heap s' p = Some m'" using m'(1) by (simp add: mng_ok_def)
  have "clip (''-ERR locked'' @ [LF]) = ''-ERR locked'' @ [LF]"
    "clip (''-ERR invalid credentials'' @ [LF]) = ''-ERR invalid credentials'' @ [LF]" by (simp_all add: clip_def)
  with r(1) m'(2,3) h adm show "\<exists>m'. mng_heap s' p = Some m'
    \<and> ms_auth_failures m' = ms_auth_failures m + 1 \<and> ms_authenticated m' = ms_authenticated m
    \<and> (if ms_auth_failures m + 1 \<ge> MNG_MAX_AUTH_FAILURES
       then ms_locked m' \<and> ms_closing m' \<and> response m' = ''-ERR locked'' @ [LF]
       else ms_locked m' = ms_locked m \<and> ms_closing m' = ms_closing m \<and> response m' = ''-ERR invalid credentials'' @ [LF])"
    by (intro exI [of _ m']) (auto simp: answer_auth_def admin_of_def split: if_splits)
qed

lemma mng_lockout_witness:
  "\<exists>s :: srv. returns (handle_line demo_key s) (\<lambda>s'. \<exists>m'. mng_heap s' 0 = Some m' \<and> ms_auth_failures m' = 1
     \<and> response m' = ''-ERR invalid credentials'' @ [LF])"
proof -
  let ?l = "''AUTH x''" and ?m = "demo_line ''AUTH x''" and ?s = "put_session 0 (demo_line ''AUTH x'') demo_srv"
  have c: "cstr (ms_line ?m) = ?l" by (simp add: demo_line_def cstr_append cstr_id)
  have line: "words (cstr (ms_line ?m)) = [''AUTH'', ''x'']" unfolding c by (simp add: words_some words_none isspace_def)
  have adm: "g_admin_secret ?s = Some ''secret''" by (simp add: put_session_def demo_srv_def)
  have ok: "mng_ok demo_key 0 ?m ?s" by (rule demo_line_ok) simp
  have "returns (handle_line demo_key ?s) (\<lambda>s'. \<exists>m'. mng_heap s' 0 = Some m' \<and> ms_auth_failures m' = 1
     \<and> response m' = ''-ERR invalid credentials'' @ [LF])"
    by (rule returns_mono [OF mng_lockout [OF ok line adm]]) (auto simp: demo_line_def new_session_def word_le_nat_alt)
  then show ?thesis by blast
qed

text \<open>a new connection. With a connection waiting and all allocations succeeding, \<^verbatim>\<open>mng_passive_accept\<close>
  registers the descriptor the kernel gave it for reading, with a new session attached that is not
  authenticated and has nothing pending, and counts it; a descriptor beyond what the selector can take
  is closed again and nothing is counted.\<close>

lemma mng_accept_starts_session:
  assumes fs: "full_sel (sel s)" and conn: "k_accept (kern s) (k_fd key) = None # evs"
    and oks: "k_fcntl (kern s) = []" "k_mem (kern s) = []" and client: "c = fresh_fd (k_open (kern s))"
    and free: "regs (sel s) c = None" and us: "\<forall>u. g_users s = Some u \<longrightarrow> users_wf u"
  shows "returns (mng_passive_accept key s) (\<lambda>s'.
    if INVALID_FD c then mng_heap s' = mng_heap s \<and> sel s' = sel s \<and> c \<notin> set (k_open (kern s'))
      \<and> g_active_sessions s' = g_active_sessions s \<and> g_metrics s' = g_metrics s
    else mng_inv \<lparr>k_fd = c, k_data = Some (Mng_Ptr (next_ptr s))\<rparr> (next_ptr s) (new_session c) s'
      \<and> g_active_sessions s' = g_active_sessions s + 1 \<and> g_metrics s' = map_option metrics_admin_session_open (g_metrics s))"
proof -
  let ?k = "(kern s)\<lparr>k_accept := (k_accept (kern s))(k_fd key := evs), k_open := c # k_open (kern s),
      k_rx := (k_rx (kern s))(c := []), k_tx := (k_tx (kern s))(c := []),
      k_peer := (k_peer (kern s))(c := None), k_fin := removeAll c (k_fin (kern s))\<rparr>"
  have acc: "k_do_accept (k_fd key) (kern s) = (Inr c, ?k)"
    using conn client by (simp add: k_do_accept_def k_socket_def Let_def)
  have nio: "k_set_nio c ?k = (True, ?k)" using oks by (simp add: k_set_nio_def)
  have mem: "k_alloc ?k = (True, ?k)" using oks by (simp add: k_alloc_def)
  note run = mng_passive_accept_def acc Let_def prod.case nio mem
  show ?thesis
  proof (cases "INVALID_FD c")
    case True
    then show ?thesis
      unfolding run by (simp add: selector_register_illegal nio mem k_close_def)
  next
    case False
    from full_enter [OF fs False, of True mng_handler OP_READ "Some (Mng_Ptr (next_ptr s))"] free obtain sl where
      sl: "selector_register True c (Some mng_handler) OP_READ (Some (Mng_Ptr (next_ptr s))) (sel s) = Some (SELECTOR_SUCCESS, sl)"
        "full_sel sl" "regs sl = (regs (sel s))(c \<mapsto> (mng_handler, OP_READ, Some (Mng_Ptr (next_ptr s))))"
      by (auto simp: returns_prod)
    have nf: "ms_fd (new_session c) = c" "ms_out_len (new_session c) = 0" by (simp_all add: new_session_def)
    show ?thesis
      unfolding run using False sl us
      by (cases "g_metrics s") (simp_all add: nio mem mng_inv_def mng_ok_def mng_owned_def nf)
  qed
qed

definition accept_key :: mng_key where
  "accept_key = \<lparr>k_fd = 3, k_data = None\<rparr>"

lemma demo_accept: "full_sel (sel demo_srv)" "k_accept (kern demo_srv) (k_fd accept_key) = None # []"
  "k_fcntl (kern demo_srv) = []" "k_mem (kern demo_srv) = []" "4 = fresh_fd (k_open (kern demo_srv))"
  "regs (sel demo_srv) 4 = None" "\<forall>u. g_users demo_srv = Some u \<longrightarrow> users_wf u"
proof -
  have "[0 ..< Suc 4] = [0, 1, 2, 3, 4]" by (simp add: upt_rec)
  then show "4 = fresh_fd (k_open (kern demo_srv))" by (simp add: fresh_fd_def demo_srv_def demo_kernel_def)
qed (use demo_sel_full in \<open>simp_all add: demo_srv_def demo_kernel_def accept_key_def\<close>)

lemma mng_accept_starts_session_witness:
  "returns (mng_passive_accept accept_key demo_srv) (\<lambda>s'.
     mng_inv \<lparr>k_fd = 4, k_data = Some (Mng_Ptr 1)\<rparr> 1 (new_session 4) s' \<and> g_active_sessions s' = 1)"
proof -
  have "next_ptr demo_srv = 1" "g_active_sessions demo_srv = 0" by (simp_all add: demo_srv_def)
  with mng_accept_starts_session [OF demo_accept] show ?thesis
    by (auto simp: INVALID_FD_def elim!: returns_mono)
qed

text \<open>The demonstration server with a registered session.\<close>

definition demo_reg :: "srv" where
  "demo_reg = demo_srv\<lparr>sel := snd (the (selector_register True 7 (Some mng_handler) OP_READ (Some (Mng_Ptr 0)) demo_sel))\<rparr>"

lemma demo_reg_inv: "mng_inv demo_key 0 (new_session 7) demo_reg"
proof -
  have fd: "\<not> INVALID_FD 7" by (simp add: INVALID_FD_def)
  from full_enter [of demo_sel, OF _ fd, of True mng_handler OP_READ "Some (Mng_Ptr 0)"] demo_sel_full obtain sl where
    sl: "selector_register True 7 (Some mng_handler) OP_READ (Some (Mng_Ptr 0)) demo_sel = Some (SELECTOR_SUCCESS, sl)"
      "full_sel sl" "regs sl = [7 \<mapsto> (mng_handler, OP_READ, Some (Mng_Ptr 0))]"
    by (auto simp: returns_prod)
  then show ?thesis
    by (simp add: mng_inv_def mng_ok_def mng_owned_def demo_reg_def demo_key_def demo_srv_def new_session_def
        session_wf_def users_inv_create [unfolded users_inv_def])
qed

text \<open>C23: a session is never stuck and never overruns. From a live session, whatever the peer sends, in
  whatever pieces, and however the kernel splits or refuses the writes, any number of the events that the
  selector delivers to it (a read while no response is pending, a write while one is) runs without
  failing, and leaves the session live, registered for writing exactly while a response is pending and
  for reading otherwise, or over, with its memory, its registration and its descriptor all released.\<close>

theorem mng_session_live_or_gone:
  assumes H: "mng_host_ok H" and inv: "mng_inv key p m s"
  shows "returns (mng_events H key n s) (\<lambda>s'. mng_gone key p s' \<or> (\<exists>m'. mng_inv key p m' s'))"
proof -
  have "returns (mng_events H key n s) (\<lambda>s'. mng_gone key p s' \<or> (\<exists>m'. mng_inv key p m' s'))"
    if "(mng_gone key p s \<and> k_data key = Some (Mng_Ptr p)) \<or> mng_inv key p m s" for s m
    using that
  proof (induction n arbitrary: s m)
    case 0
    then show ?case by auto
  next
    case (Suc n)
    show ?case
    proof (cases "mng_inv key p m s")
      case False
      then have "session_of key s = None" "mng_gone key p s \<and> k_data key = Some (Mng_Ptr p)"
        using Suc.prems by (auto simp: session_of_def mng_gone_def)
      then show ?thesis using Suc.IH [of s m] by (simp add: mng_event_def)
    next
      case True
      then have sess: "session_of key s = Some (p, m)" and kd: "k_data key = Some (Mng_Ptr p)"
        by (auto simp: mng_inv_def mng_ok_def session_of_def)
      have "returns (mng_event H key s) (\<lambda>s'. mng_gone key p s' \<or> (\<exists>m'. mng_inv key p m' s'))"
        using sess returns_mono [OF mng_read_ok [OF H True]] returns_mono [OF mng_write_ok [OF H True]]
        by (simp add: mng_event_def)
      then obtain s1 where "mng_event H key s = Some s1" "mng_gone key p s1 \<or> (\<exists>m'. mng_inv key p m' s1)"
        by (auto simp: returns_iff)
      then show ?thesis using Suc.IH [of s1] kd by auto
    qed
  qed
  then show ?thesis using inv by blast
qed

theorem mng_session_live_or_gone_witness:
  "returns (mng_events demo_host demo_key 3 demo_reg) (\<lambda>s'. mng_gone demo_key 0 s' \<or> (\<exists>m'. mng_inv demo_key 0 m' s'))"
  by (rule mng_session_live_or_gone [OF demo_host_ok demo_reg_inv])

text \<open>a line in one piece. When the characters left in the input buffer, after what has already been
  collected, complete one line of at most 1023 characters, \<^verbatim>\<open>mng_process_input\<close> consumes them all and
  leaves exactly the response of the specification for the words of that line, with an empty line and an
  empty input buffer for what comes next.\<close>

lemma mng_input_line:
  assumes ok: "mng_ok key p m s" and idle: "ms_out_len m = 0" and inp: "pending_input m = cs @ [LF]"
    and cl: "clean (line_so_far m)" "clean cs" and len: "ms_line_len m + length cs < MNG_LINE_SIZE"
  shows "returns (mng_process_input key s) (\<lambda>s'. \<exists>r m'. answer (words (line_so_far m @ cs)) (admin_of s m) = Some r
    \<and> mng_heap s' p = Some m' \<and> response m' = clip (fst r @ [LF]) \<and> admin_of s' m' = snd r
    \<and> ms_line_len m' = 0 \<and> ms_in_len m' = 0)"
proof -
  have wf: "session_wf m" using ok by (simp add: mng_ok_def)
  have "length (pending_input m) = ms_in_len m - ms_in_pos m" using wf by (auto simp: pending_input_def session_wf_def)
  then have k: "ms_in_len m - ms_in_pos m = Suc (length cs)" unfolding inp by simp
  from process_loop_line [OF ok idle inp cl len k, THEN returnsE] obtain s1 r m1 where
    s1: "process_loop key (ms_in_len m - ms_in_pos m) s = Some s1" "answer (words (line_so_far m @ cs)) (admin_of s m) = Some r"
      "mng_ok key p m1 s1" "response m1 = clip (fst r @ [LF])" "admin_of s1 m1 = snd r" "ms_line_len m1 = 0"
      "ms_in_pos m1 = ms_in_len m1" by blast
  let ?m = "m1\<lparr>ms_in_pos := 0, ms_in_len := 0\<rparr>"
  have "mng_process_input key s = Some (put_session p ?m s1)"
    using mng_ok_session [OF ok] mng_ok_session [OF s1(3)] s1(1,7) by (simp add: mng_process_input_def)
  moreover have "admin_of (put_session p ?m s1) ?m = snd r" using s1(5) by (simp add: admin_of_def put_session_def)
  ultimately show ?thesis using s1(2,4,6)
    by (simp add: put_session_def response_def)
qed

definition demo_input :: mng_session where
  "demo_input = (new_session 7)\<lparr>ms_in_buf := (''QUIT'' @ [LF]) @ replicate 251 NUL, ms_in_len := 5\<rparr>"

lemma mng_input_line_witness:
  "returns (mng_process_input demo_key (put_session 0 demo_input demo_srv)) (\<lambda>s'. \<exists>r m'.
     answer [''QUIT''] (admin_of (put_session 0 demo_input demo_srv) demo_input) = Some r \<and> mng_heap s' 0 = Some m'
     \<and> response m' = clip (fst r @ [LF]))"
proof -
  have wf: "session_wf demo_input" by (simp add: demo_input_def session_wf_def new_session_def)
  have ok: "mng_ok demo_key 0 demo_input (put_session 0 demo_input demo_srv)"
    by (rule mng_ok_put [OF demo_line_ok [of "[]"] wf, unfolded put_session_def, simplified, folded put_session_def]) 
  have idle: "ms_out_len demo_input = 0" and inp: "pending_input demo_input = ''QUIT'' @ [LF]"
    and so_far: "line_so_far demo_input = []" and len: "ms_line_len demo_input + length ''QUIT'' < MNG_LINE_SIZE"
    by (simp_all add: demo_input_def new_session_def pending_input_def line_so_far_def)
  have cl: "clean (line_so_far demo_input)" "clean ''QUIT''" by (simp_all add: so_far clean_def)
  have w: "words (line_so_far demo_input @ ''QUIT'') = [''QUIT'']" unfolding so_far by (simp add: words_some words_none isspace_def)
  from mng_input_line [OF ok idle inp cl len] show ?thesis unfolding w
    by (rule returns_mono) blast
qed


definition demo_full :: mng_session where
  "demo_full = (new_session 7)\<lparr>ms_line_len := 1023, ms_in_buf := (''xQUIT'' @ [LF]) @ replicate 250 NUL, ms_in_len := 6\<rparr>"


text \<open>\<^verbatim>\<open>parse_nonnegative\<close> reads back every number that fits an \<^verbatim>\<open>int\<close> and rejects the larger ones, also
  those that overflow \<^verbatim>\<open>long\<close>; whatever the text, a value it returns is between 0 and 2147483647, and an
  empty or missing text is rejected.\<close>

lemma parse_nonnegative_numbers:
  "parse_nonnegative (Some (dec n)) = (if int n \<le> INT32_MAX then Some (int n) else None)
   \<and> (\<forall>t. case parse_nonnegative t of None \<Rightarrow> True | Some v \<Rightarrow> 0 \<le> v \<and> v \<le> INT32_MAX)
   \<and> parse_nonnegative None = None \<and> parse_nonnegative (Some []) = None"
proof (intro conjI allI)
  have "cstr (dec n) = dec n" by (rule cstr_id) (use dec_plain in blast)
  then show "parse_nonnegative (Some (dec n)) = (if int n \<le> INT32_MAX then Some (int n) else None)"
    by (simp add: parse_nonnegative_def strtol10_dec)
  show "case parse_nonnegative t of None \<Rightarrow> True | Some v \<Rightarrow> 0 \<le> v \<and> v \<le> INT32_MAX" for t
    by (auto simp: parse_nonnegative_def split: option.splits prod.splits if_splits)
qed (simp_all add: parse_nonnegative_def)

end
