(* ===== verification/Dns_Worker.thy ===== *)
theory Dns_Worker
  imports World
begin

text \<open>
  \<^verbatim>\<open>src/shared/dns_worker.c\<close>: the queue of name resolution jobs and the thread that serves it. Jobs live in
  a heap indexed by pointers and are linked by \<^verbatim>\<open>next\<close>; a job that is not there has been freed. The mutex
  makes each of \<open>dns_worker_submit\<close> and \<open>dns_take\<close> (the loop head of \<^verbatim>\<open>dns_thread\<close>) one step. \<^verbatim>\<open>result_target\<close>
  is the pointer of the session whose \<^verbatim>\<open>origin_resolution\<close> takes the result; there is one selector, so its
  pointer is left out.

  The contract is a first-in first-out queue, the locale \<open>fifo\<close>.
\<close>

section \<open>The worker\<close>

abbreviation (input) PORT_STR_LEN :: nat where "PORT_STR_LEN \<equiv> 6"
abbreviation (input) HOST_MAX_LEN :: nat where "HOST_MAX_LEN \<equiv> 256"

record dns_job =
  j_host :: "char list"
  j_port :: "char list"
  j_fd :: int
  j_target :: nat
  j_next :: "nat option"

record dns_worker =
  w_jobs :: "nat \<Rightarrow> dns_job option"
  w_fresh :: nat
  queue_head :: "nat option"
  queue_tail :: "nat option"
  w_running :: bool

text \<open>The arguments say which of the calls succeed: \<^verbatim>\<open>calloc\<close>, the two initialisations, the thread.\<close>

definition dns_worker_create :: "bool \<Rightarrow> bool \<Rightarrow> bool \<Rightarrow> bool \<Rightarrow> dns_worker option" where
  "dns_worker_create mem mutex cond thread =
     (if \<not> mem then None else if \<not> mutex then None else if \<not> cond then None else if \<not> thread then None
      else Some \<lparr>w_jobs = \<lambda>_. None, w_fresh = 0, queue_head = None, queue_tail = None, w_running = True\<rparr>)"

text \<open>The arrays of a new job are overwritten up to their NUL, so what \<^verbatim>\<open>malloc\<close> leaves in them is not read.\<close>

definition dns_worker_submit :: "bool \<Rightarrow> int \<Rightarrow> char list \<Rightarrow> u16 \<Rightarrow> nat \<Rightarrow> dns_worker \<Rightarrow> (int \<times> dns_worker) option" where
  "dns_worker_submit mem fd host port target w =
     (if \<not> mem then Some (-1, w)
      else do {
        h \<leftarrow> strncpy_term (replicate HOST_MAX_LEN NUL) host HOST_MAX_LEN;
        p \<leftarrow> snprintf (replicate PORT_STR_LEN NUL) PORT_STR_LEN (dec (unat port));
        let j = w_fresh w;
        let job = \<lparr>j_host = h, j_port = p, j_fd = fd, j_target = target, j_next = None\<rparr>;
        let w = w\<lparr>w_jobs := (w_jobs w)(j \<mapsto> job), w_fresh := j + 1\<rparr>;
        w \<leftarrow> (case queue_tail w of
               Some t \<Rightarrow> do { tj \<leftarrow> w_jobs w t; Some (w\<lparr>w_jobs := (w_jobs w)(t \<mapsto> tj\<lparr>j_next := Some j\<rparr>)\<rparr>) }
             | None \<Rightarrow> Some (w\<lparr>queue_head := Some j\<rparr>));
        Some (0, w\<lparr>queue_tail := Some j\<rparr>)
      })"

text \<open>The head of the thread's loop: it waits, ends, or takes the first job off the queue.\<close>

datatype dns_turn = Dns_Wait | Dns_Exit | Dns_Take nat

definition dns_take :: "dns_worker \<Rightarrow> (dns_turn \<times> dns_worker) option" where
  "dns_take w =
     (case queue_head w of
        None \<Rightarrow> Some (if w_running w then Dns_Wait else Dns_Exit, w)
      | Some j \<Rightarrow> do {
          job \<leftarrow> w_jobs w j;
          Some (Dns_Take j, w\<lparr>queue_head := j_next job,
                              queue_tail := if j_next job = None then None else queue_tail w\<rparr>)
        })"

text \<open>\<open>gai\<close> is \<^verbatim>\<open>getaddrinfo\<close> for stream sockets: the addresses, none when it fails.\<close>

definition dns_lookup :: "(string \<Rightarrow> string \<Rightarrow> sockaddr list) \<Rightarrow> nat \<Rightarrow> dns_worker \<Rightarrow> sockaddr list option" where
  "dns_lookup gai j w = do { job \<leftarrow> w_jobs w j; Some (gai (cstr (j_host job)) (cstr (j_port job))) }"

definition dns_free :: "nat \<Rightarrow> dns_worker \<Rightarrow> dns_worker option" where
  "dns_free j w = (case w_jobs w j of None \<Rightarrow> None | Some _ \<Rightarrow> Some (w\<lparr>w_jobs := (w_jobs w)(j := None)\<rparr>))"

text \<open>The loop of \<^verbatim>\<open>dns_worker_destroy\<close> that frees what the thread has left in the queue.\<close>

partial_function (option) dns_drain :: "nat option \<Rightarrow> dns_worker \<Rightarrow> dns_worker option" where
  "dns_drain x w =
     (case x of
        None \<Rightarrow> Some w
      | Some j \<Rightarrow> do { job \<leftarrow> w_jobs w j; w \<leftarrow> dns_free j w; dns_drain (j_next job) w })"

section \<open>The queue in the heap\<close>

text \<open>\<open>chain h x js\<close>: from the pointer \<open>x\<close> the links lead through the jobs \<open>js\<close> to null.\<close>

fun chain :: "(nat \<Rightarrow> dns_job option) \<Rightarrow> nat option \<Rightarrow> nat list \<Rightarrow> bool" where
  "chain h x [] \<longleftrightarrow> x = None"
| "chain h x (j # js) \<longleftrightarrow> x = Some j \<and> (case h j of None \<Rightarrow> False | Some job \<Rightarrow> chain h (j_next job) js)"

lemma chain_frame: "(\<And>j. j \<in> set js \<Longrightarrow> h' j = h j) \<Longrightarrow> chain h' x js \<longleftrightarrow> chain h x js"
proof (induction js arbitrary: x)
  case (Cons j js)
  then have "h' j = h j" "\<And>y. chain h' y js \<longleftrightarrow> chain h y js" by simp_all
  then show ?case by (simp split: option.splits)
qed simp

lemma chain_snoc:
  "chain h x (js @ [t]) \<Longrightarrow> distinct (js @ [t]) \<Longrightarrow> j \<notin> set (js @ [t]) \<Longrightarrow> h t = Some tj \<Longrightarrow> j_next job = None \<Longrightarrow>
   chain (h(j \<mapsto> job, t \<mapsto> tj\<lparr>j_next := Some j\<rparr>)) x (js @ [t, j])"
proof (induction js arbitrary: x)
  case (Cons a js)
  then show ?case by (auto split: option.splits)
qed auto

lemma chain_allocated: "chain h x js \<Longrightarrow> j \<in> set js \<Longrightarrow> h j \<noteq> None"
  by (induction js arbitrary: x) (auto split: option.splits)

definition queue_ok :: "dns_worker \<Rightarrow> nat list \<Rightarrow> bool" where
  "queue_ok w js \<longleftrightarrow> chain (w_jobs w) (queue_head w) js \<and> distinct js
     \<and> queue_tail w = (if js = [] then None else Some (last js)) \<and> (\<forall>j. w_jobs w j \<noteq> None \<longrightarrow> j < w_fresh w)"

lemma queue_ok_create: "dns_worker_create a b c d = Some w \<Longrightarrow> queue_ok w []"
  by (auto simp: dns_worker_create_def queue_ok_def split: if_splits)

lemma queue_ok_allocated: "queue_ok w js \<Longrightarrow> j \<in> set js \<Longrightarrow> w_jobs w j \<noteq> None"
  unfolding queue_ok_def using chain_allocated by blast

text \<open>What a job asks for.\<close>

definition job_view :: "dns_job \<Rightarrow> string \<times> string \<times> int \<times> nat" where
  "job_view job = (cstr (j_host job), cstr (j_port job), j_fd job, j_target job)"

definition asked :: "int \<Rightarrow> char list \<Rightarrow> u16 \<Rightarrow> nat \<Rightarrow> string \<times> string \<times> int \<times> nat" where
  "asked fd host port target = (take (HOST_MAX_LEN - 1) (cstr host), dec (unat port), fd, target)"

lemma port_text: "\<exists>p. snprintf (replicate PORT_STR_LEN NUL) PORT_STR_LEN (dec (unat (port :: u16))) = Some p \<and> cstr p = dec (unat port)"
proof -
  let ?d = "dec (unat port)"
  have "unat port < 10 ^ 5" using unsigned_less [of port, where 'a = nat] by (simp add: less_trans [where y = 65536])
  then have l: "length ?d \<le> 5" by (rule dec_length) simp
  have n: "NUL \<notin> set ?d" using dec_plain [of NUL] by blast
  have "PORT_STR_LEN - 1 = 5" by simp
  then show ?thesis using l by (simp add: snprintf_def arr_blit_def cstr_id [OF n])
qed

text \<open>Submitting appends one job and leaves the data of the others.\<close>

lemma submit_ok:
  assumes q: "queue_ok w js"
  shows "returns (dns_worker_submit True fd host port target w) (\<lambda>(r, w'). r = 0 \<and> queue_ok w' (js @ [w_fresh w])
    \<and> w_fresh w' = w_fresh w + 1 \<and> w_running w' = w_running w
    \<and> (\<exists>job. w_jobs w' (w_fresh w) = Some job \<and> job_view job = asked fd host port target)
    \<and> (\<forall>j. j \<noteq> w_fresh w \<longrightarrow> map_option job_view (w_jobs w' j) = map_option job_view (w_jobs w j)))"
proof -
  obtain h where h: "strncpy_term (replicate HOST_MAX_LEN NUL) host HOST_MAX_LEN = Some h" "cstr h = take (HOST_MAX_LEN - 1) (cstr host)"
    using strncpy_term_ok [of "replicate HOST_MAX_LEN NUL" HOST_MAX_LEN host] by (auto simp: returns_iff)
  obtain p where p: "snprintf (replicate PORT_STR_LEN NUL) PORT_STR_LEN (dec (unat port)) = Some p" "cstr p = dec (unat port)"
    using port_text by blast
  let ?job = "\<lparr>j_host = h, j_port = p, j_fd = fd, j_target = target, j_next = None\<rparr>"
  have v: "job_view ?job = asked fd host port target" using h(2) p(2) by (simp add: job_view_def asked_def)
  have fresh: "w_jobs w (w_fresh w) = None" and below: "\<And>j. w_jobs w j \<noteq> None \<Longrightarrow> j < w_fresh w"
    using q by (auto simp: queue_ok_def)
  show ?thesis
  proof (cases js rule: rev_cases)
    case Nil
    let ?w = "w\<lparr>w_jobs := (w_jobs w)(w_fresh w \<mapsto> ?job), w_fresh := w_fresh w + 1, queue_head := Some (w_fresh w),
        queue_tail := Some (w_fresh w)\<rparr>"
    have "queue_ok ?w [w_fresh w]" using below by (auto simp: queue_ok_def less_SucI)
    then show ?thesis using q Nil h(1) p(1) v by (simp add: dns_worker_submit_def queue_ok_def Let_def)
  next
    case (snoc ks t)
    have tq: "queue_tail w = Some t" and ch: "chain (w_jobs w) (queue_head w) (ks @ [t])" and d: "distinct (ks @ [t])"
      using q snoc by (auto simp: queue_ok_def)
    obtain tj where tj: "w_jobs w t = Some tj" using chain_allocated [OF ch, of t] by auto
    have ne: "t \<noteq> w_fresh w" using tj fresh by auto
    have notin: "w_fresh w \<notin> set (ks @ [t])" using chain_allocated [OF ch] fresh by blast
    let ?w = "w\<lparr>w_jobs := (w_jobs w)(w_fresh w \<mapsto> ?job, t \<mapsto> tj\<lparr>j_next := Some (w_fresh w)\<rparr>), w_fresh := w_fresh w + 1,
        queue_tail := Some (w_fresh w)\<rparr>"
    have c: "chain (w_jobs ?w) (queue_head ?w) (js @ [w_fresh w])"
      using chain_snoc [OF ch d notin tj, of ?job] snoc by simp
    have "queue_ok ?w (js @ [w_fresh w])" unfolding queue_ok_def
    proof (intro conjI)
      show "distinct (js @ [w_fresh w])" using d notin snoc by simp
      show "\<forall>j. w_jobs ?w j \<noteq> None \<longrightarrow> j < w_fresh ?w" using below tj by (auto simp: less_SucI)
    qed (use c in simp_all)
    moreover have "dns_worker_submit True fd host port target w = Some (0, ?w)"
      using h(1) p(1) tq tj ne by (simp add: dns_worker_submit_def Let_def)
    moreover have "\<forall>j. j \<noteq> w_fresh w \<longrightarrow> map_option job_view (w_jobs ?w j) = map_option job_view (w_jobs w j)"
      using tj by (simp add: job_view_def)
    ultimately show ?thesis using ne v by simp
  qed
qed

lemma submit_fails: "dns_worker_submit False fd host port target w = Some (-1, w)"
  by (simp add: dns_worker_submit_def)

lemma take_ok:
  assumes "queue_ok w (j # js)"
  shows "\<exists>w'. dns_take w = Some (Dns_Take j, w') \<and> queue_ok w' js \<and> w_jobs w' = w_jobs w \<and> w_fresh w' = w_fresh w
    \<and> w_running w' = w_running w"
proof -
  obtain job where job: "w_jobs w j = Some job" "chain (w_jobs w) (j_next job) js" "queue_head w = Some j"
    using assms by (auto simp: queue_ok_def split: option.splits)
  have "j_next job = None \<longleftrightarrow> js = []" using job(2) by (cases js) auto
  then show ?thesis using assms job
    by (intro exI [of _ "w\<lparr>queue_head := j_next job, queue_tail := if j_next job = None then None else queue_tail w\<rparr>"])
      (auto simp: dns_take_def queue_ok_def)
qed

lemma take_empty: "queue_ok w [] \<Longrightarrow> dns_take w = Some (if w_running w then Dns_Wait else Dns_Exit, w)"
  by (simp add: dns_take_def queue_ok_def)

lemma free_ok:
  assumes "queue_ok w js" and "j \<notin> set js" and "w_jobs w j \<noteq> None"
  shows "\<exists>w'. dns_free j w = Some w' \<and> queue_ok w' js \<and> w_jobs w' = (w_jobs w)(j := None) \<and> w_fresh w' = w_fresh w
    \<and> w_running w' = w_running w"
proof -
  have "chain ((w_jobs w)(j := None)) (queue_head w) js \<longleftrightarrow> chain (w_jobs w) (queue_head w) js"
    by (rule chain_frame) (use assms(2) in auto)
  then show ?thesis using assms
    by (intro exI [of _ "w\<lparr>w_jobs := (w_jobs w)(j := None)\<rparr>"]) (auto simp: dns_free_def queue_ok_def)
qed

lemma drain_ok:
  "chain (w_jobs w) x js \<Longrightarrow> distinct js \<Longrightarrow> \<exists>w'. dns_drain x w = Some w' \<and> (\<forall>j \<in> set js. w_jobs w' j = None)
    \<and> (\<forall>j. j \<notin> set js \<longrightarrow> w_jobs w' j = w_jobs w j)"
proof (induction js arbitrary: x w)
  case Nil
  then show ?case by (subst dns_drain.simps) simp
next
  case (Cons j js)
  obtain job where job: "x = Some j" "w_jobs w j = Some job" "chain (w_jobs w) (j_next job) js"
    using Cons.prems(1) by (auto split: option.splits)
  let ?w = "w\<lparr>w_jobs := (w_jobs w)(j := None)\<rparr>"
  have "chain (w_jobs ?w) (j_next job) js" using job(3) Cons.prems(2)
    by (subst chain_frame [where h = "w_jobs w"]) auto
  from Cons.IH [OF this] Cons.prems(2) obtain w' where w': "dns_drain (j_next job) ?w = Some w'"
    "\<forall>j \<in> set js. w_jobs w' j = None" "\<forall>j. j \<notin> set js \<longrightarrow> w_jobs w' j = w_jobs ?w j" by auto
  then have "dns_drain x w = Some w'" using job(1,2) by (subst dns_drain.simps) (simp add: dns_free_def)
  then show ?case using w'(2,3) Cons.prems(2) by (intro exI [of _ w']) auto
qed

section \<open>The contract\<close>

text \<open>
  A first-in first-out queue: \<open>rep q xs\<close> says that \<open>q\<close> holds the items \<open>xs\<close>, oldest first. Putting \<open>r\<close>
  stores the item \<open>view r\<close>; taking from an empty queue gives nothing.
\<close>

locale fifo =
  fixes rep :: "'q \<Rightarrow> 'a list \<Rightarrow> bool"
    and view :: "'r \<Rightarrow> 'a"
    and put :: "'r \<Rightarrow> 'q \<Rightarrow> 'q option"
    and get :: "'q \<Rightarrow> ('a option \<times> 'q) option"
  assumes put_ok: "rep q xs \<Longrightarrow> returns (put r q) (\<lambda>q'. rep q' (xs @ [view r]))"
    and get_empty: "rep q [] \<Longrightarrow> returns (get q) (\<lambda>(x, q'). x = None \<and> rep q' [])"
    and get_ok: "rep q (x # xs) \<Longrightarrow> returns (get q) (\<lambda>(y, q'). y = Some x \<and> rep q' xs)"

text \<open>A schedule of the two threads, \<open>Some r\<close> for a put and \<open>None\<close> for a get, and the items handed out.\<close>

fun fifo_run :: "('r \<Rightarrow> 'q \<Rightarrow> 'q option) \<Rightarrow> ('q \<Rightarrow> ('a option \<times> 'q) option) \<Rightarrow> 'r option list \<Rightarrow> 'q \<Rightarrow> ('a list \<times> 'q) option" where
  "fifo_run put get [] q = Some ([], q)"
| "fifo_run put get (Some r # ops) q = do { q \<leftarrow> put r q; fifo_run put get ops q }"
| "fifo_run put get (None # ops) q = do {
     (x, q) \<leftarrow> get q;
     (xs, q) \<leftarrow> fifo_run put get ops q;
     Some ((case x of None \<Rightarrow> xs | Some y \<Rightarrow> y # xs), q)
   }"

definition submitted :: "'r option list \<Rightarrow> 'r list" where
  "submitted ops = concat (map (\<lambda>r. case r of None \<Rightarrow> [] | Some x \<Rightarrow> [x]) ops)"

context fifo
begin

lemma run_ok:
  "rep q xs \<Longrightarrow> returns (fifo_run put get ops q) (\<lambda>(ys, q'). \<exists>zs. rep q' zs \<and> xs @ map view (submitted ops) = ys @ zs)"
proof (induction ops arbitrary: q xs)
  case Nil
  then show ?case by (auto simp: submitted_def)
next
  case (Cons op ops)
  show ?case
  proof (cases op)
    case (Some r)
    from put_ok [OF Cons.prems, of r] obtain q1 where q1: "put r q = Some q1" "rep q1 (xs @ [view r])" by (auto simp: returns_iff)
    from Cons.IH [OF q1(2)] show ?thesis using q1(1) Some by (simp add: submitted_def)
  next
    case None
    obtain x q1 where q1: "get q = Some (x, q1)" "xs = (case x of None \<Rightarrow> tl xs | Some y \<Rightarrow> y # tl xs)" "rep q1 (tl xs)" "x = None \<longrightarrow> xs = []"
    proof (cases xs)
      case Nil
      with get_empty [of q] Cons.prems obtain q1 where "get q = Some (None, q1)" "rep q1 []" by (auto simp: returns_prod)
      then show thesis using that [of None q1] Nil by simp
    next
      case (Cons y ys)
      with get_ok [of q y ys] Cons.prems obtain q1 where "get q = Some (Some y, q1)" "rep q1 ys" by (auto simp: returns_prod)
      then show thesis using that [of "Some y" q1] Cons by simp
    qed
    from Cons.IH [OF q1(3)] obtain ys q2 zs where run: "fifo_run put get ops q1 = Some (ys, q2)" "rep q2 zs"
      "tl xs @ map view (submitted ops) = ys @ zs" unfolding returns_prod by blast
    have "xs @ map view (submitted ops) = (case x of None \<Rightarrow> ys | Some y \<Rightarrow> y # ys) @ zs"
      using q1(2,4) run(3) by (cases x) (simp, metis append_Cons option.case(2))
    then show ?thesis using q1(1) run(1,2) None by (simp add: submitted_def)
  qed
qed

end

definition dns_rep :: "dns_worker \<Rightarrow> (string \<times> string \<times> int \<times> nat) list \<Rightarrow> bool" where
  "dns_rep w xs \<longleftrightarrow> (\<exists>js. queue_ok w js \<and> map (\<lambda>j. map_option job_view (w_jobs w j)) js = map Some xs)"

definition dns_put :: "int \<times> char list \<times> u16 \<times> nat \<Rightarrow> dns_worker \<Rightarrow> dns_worker option" where
  "dns_put r w = (case r of (fd, host, port, target) \<Rightarrow> map_option snd (dns_worker_submit True fd host port target w))"

definition dns_get :: "dns_worker \<Rightarrow> ((string \<times> string \<times> int \<times> nat) option \<times> dns_worker) option" where
  "dns_get w = do {
     (t, w) \<leftarrow> dns_take w;
     case t of
       Dns_Take j \<Rightarrow> do { job \<leftarrow> w_jobs w j; w \<leftarrow> dns_free j w; Some (Some (job_view job), w) }
     | _ \<Rightarrow> Some (None, w)
   }"

lemma dns_put_rep:
  assumes "dns_rep w xs"
  shows "returns (dns_put r w) (\<lambda>w'. dns_rep w' (xs @ [case r of (fd, host, port, target) \<Rightarrow> asked fd host port target]))"
proof -
  obtain fd host port target where r: "r = (fd, host, port, target)" by (metis prod_cases4)
  obtain js where js: "queue_ok w js" "map (\<lambda>j. map_option job_view (w_jobs w j)) js = map Some xs"
    using assms by (auto simp: dns_rep_def)
  from submit_ok [OF js(1), of fd host port target] obtain w' job where w':
    "dns_worker_submit True fd host port target w = Some (0, w')" "queue_ok w' (js @ [w_fresh w])"
    "w_jobs w' (w_fresh w) = Some job" "job_view job = asked fd host port target"
    "\<forall>j. j \<noteq> w_fresh w \<longrightarrow> map_option job_view (w_jobs w' j) = map_option job_view (w_jobs w j)"
    by (auto simp: returns_prod)
  have "w_fresh w \<notin> set js" using w'(2) by (simp add: queue_ok_def)
  then have "map (\<lambda>j. map_option job_view (w_jobs w' j)) js = map Some xs"
    unfolding js(2) [symmetric] using w'(5) by (intro map_cong) metis+
  then have "dns_rep w' (xs @ [asked fd host port target])"
    unfolding dns_rep_def using w'(2-4) by (intro exI [of _ "js @ [w_fresh w]"]) simp
  then show ?thesis using w'(1) r by (simp add: dns_put_def)
qed

lemma dns_get_rep:
  assumes "dns_rep w (x # xs)"
  shows "returns (dns_get w) (\<lambda>(y, w'). y = Some x \<and> dns_rep w' xs)"
proof -
  obtain j js where js: "queue_ok w (j # js)" "map_option job_view (w_jobs w j) = Some x"
    "map (\<lambda>j. map_option job_view (w_jobs w j)) js = map Some xs"
    using assms by (auto simp: dns_rep_def map_eq_Cons_conv Cons_eq_map_conv)
  then obtain job where job: "w_jobs w j = Some job" "job_view job = x" by auto
  from take_ok [OF js(1)] obtain w1 where w1: "dns_take w = Some (Dns_Take j, w1)" "queue_ok w1 js" "w_jobs w1 = w_jobs w" by blast
  have j: "j \<notin> set js" using js(1) by (simp add: queue_ok_def)
  from free_ok [OF w1(2) j] job(1) w1(3) obtain w2 where w2: "dns_free j w1 = Some w2" "queue_ok w2 js" "w_jobs w2 = (w_jobs w1)(j := None)" by auto
  have "map (\<lambda>j. map_option job_view (w_jobs w2 j)) js = map Some xs"
    unfolding js(3) [symmetric] using w2(3) w1(3) j by (intro map_cong) auto
  then have "dns_rep w2 xs" using w2(2) by (auto simp: dns_rep_def)
  then show ?thesis using w1 w2(1) job by (simp add: dns_get_def)
qed

interpretation dns: fifo dns_rep "\<lambda>(fd, host, port, target). asked fd host port target" dns_put dns_get
proof (unfold_locales, goal_cases)
  case (1 q xs r)
  then show ?case by (rule dns_put_rep)
next
  case (2 q)
  then have "queue_ok q []" by (auto simp: dns_rep_def)
  then show ?case using 2 by (simp add: dns_get_def take_empty)
next
  case (3 q x xs)
  then show ?case by (rule dns_get_rep)
qed

section \<open>Properties\<close>

text \<open>C21: the queue between the two threads, linked through the heap with its head and tail pointers, is first
  in first out. Under any schedule of submissions by the event loop and turns of the resolver thread, which frees
  each job it takes, no freed job is touched; the jobs handed out and those still queued are together exactly
  the jobs submitted, in order, each with its descriptor and target, the host cut at 255 characters and the port
  in decimal.\<close>

theorem dns_queue_fifo:
  assumes "dns_worker_create mem mutex cond thread = Some w"
  shows "returns (fifo_run dns_put dns_get ops w) (\<lambda>(served, w'). \<exists>queued. dns_rep w' queued
    \<and> served @ queued = map (\<lambda>(fd, host, port, target). asked fd host port target) (submitted ops))"
proof -
  have "dns_rep w []" using queue_ok_create [OF assms] by (auto simp: dns_rep_def)
  from dns.run_ok [OF this, of ops] show ?thesis by (rule returns_mono) auto
qed

theorem dns_queue_fifo_witness:
  "\<exists>w. dns_worker_create True True True True = Some w \<and> returns
     (fifo_run dns_put dns_get [Some (7, ''a.example'', 80, 1), None, Some (8, ''b'', 443, 2)] w)
     (\<lambda>(served, w'). \<exists>queued. dns_rep w' queued
        \<and> served @ queued = [(''a.example'', ''80'', 7, 1), (''b'', ''443'', 8, 2)])"
proof -
  obtain w where w: "dns_worker_create True True True True = Some w" by (simp add: dns_worker_create_def)
  have d: "dec 80 = ''80''" "dec 443 = ''443''" by code_simp+
  from dns_queue_fifo [OF w, of "[Some (7, ''a.example'', 80, 1), None, Some (8, ''b'', 443, 2)]"] w d
  show ?thesis by (simp add: submitted_def asked_def)
qed

end
