(* ===== verification/Socks5_State.thy ===== *)
theory Socks5_State
  imports Dns_Worker Hello Auth Request Stm Mng
begin

text \<open>
  The data of \<^verbatim>\<open>src/shared/socks5.c\<close>: the proxy session with its two unions, and the state of the whole
  server, which extends the part that the management protocol works on.

  Sessions live in a heap indexed by pointers; a pointer that is not there has been freed. Reading the
  member of a union that was not written last is \<open>None\<close>. The buffer pointers \<^verbatim>\<open>rb\<close> and \<^verbatim>\<open>wb\<close> of the
  negotiation always point to the session's two buffers, so those are used directly; the ones of the relay
  are kept. Times are seconds. The address of the client is stored and never read; it is left out.
\<close>

abbreviation (input) BUFFER_SIZE :: nat where "BUFFER_SIZE \<equiv> 4096"
abbreviation (input) DESTINATION_MAX_LEN :: nat where "DESTINATION_MAX_LEN \<equiv> 256"
abbreviation (input) USER_MAX_LEN :: nat where "USER_MAX_LEN \<equiv> 256"

section \<open>The states\<close>

abbreviation (input) HELLO_READ :: nat where "HELLO_READ \<equiv> 0"
abbreviation (input) HELLO_WRITE :: nat where "HELLO_WRITE \<equiv> 1"
abbreviation (input) AUTH_READ :: nat where "AUTH_READ \<equiv> 2"
abbreviation (input) AUTH_WRITE :: nat where "AUTH_WRITE \<equiv> 3"
abbreviation (input) REQUEST_READ :: nat where "REQUEST_READ \<equiv> 4"
abbreviation (input) REQUEST_RESOLV :: nat where "REQUEST_RESOLV \<equiv> 5"
abbreviation (input) CONNECTING :: nat where "CONNECTING \<equiv> 6"
abbreviation (input) REQUEST_WRITE :: nat where "REQUEST_WRITE \<equiv> 7"
abbreviation (input) COPY :: nat where "COPY \<equiv> 8"
abbreviation (input) DONE :: nat where "DONE \<equiv> 9"
abbreviation (input) ERROR :: nat where "ERROR \<equiv> 10"

section \<open>The session\<close>

text \<open>
  The parser's \<^verbatim>\<open>data\<close> is the \<^verbatim>\<open>hello_st\<close> itself, of which the callback touches only the two flags, so
  the flags are the parser's data.
\<close>

record hello_offer =
  no_auth_offered :: bool
  user_pass_offered :: bool

record hello_st =
  he_parser :: "hello_offer hello_parser"
  he_method :: byte

record auth_st =
  au_parser :: auth_parser
  au_status :: byte

record request_st =
  rt_parser :: request_parser
  rt_reply :: byte

text \<open>Which of the session's two buffers a pointer names.\<close>

datatype buffer_ref = Read_Buffer | Write_Buffer

record copy =
  cp_read_fd :: int
  cp_write_fd :: int
  cp_rb :: buffer_ref
  cp_eof :: bool
  cp_write_closed :: bool
  cp_transferred :: u64

record connecting =
  cn_current :: "sockaddr list"
  cn_reply :: byte

datatype client_union = C_hello hello_st | C_auth auth_st | C_request request_st | C_copy copy | C_zero

datatype orig_union = O_conn connecting | O_copy copy

record socks5 =
  so_client_fd :: int
  so_origin_fd :: int
  so_resolution :: "sockaddr list"
  so_read_buffer :: buffer
  so_write_buffer :: buffer
  so_current :: "nat option"
  so_client :: client_union
  so_orig :: orig_union
  so_references :: u32
  so_next :: "nat option"
  so_active_prev :: "nat option"
  so_active_next :: "nat option"
  so_negotiation_deadline :: int
  so_connect_deadline :: int
  so_last_activity :: int
  so_user :: "char list"
  so_destination :: "char list"
  so_port :: u16
  so_destination_set :: bool
  so_tunnel_opened :: bool
  so_log_emitted :: bool
  so_failure :: "string option"

section \<open>The server\<close>

text \<open>
  \<open>clock\<close> is what \<^verbatim>\<open>time\<close> gives, \<open>text_of_time\<close> what \<^verbatim>\<open>strftime\<close> makes of it, and \<open>text_of_addr\<close> the text that
  \<^verbatim>\<open>inet_ntop\<close> gives for an address. \<open>dns_thread\<close> is where the resolver thread is: at the head of its loop, in
  \<^verbatim>\<open>getaddrinfo\<close> with a job in hand, about to notify the selector of it, or ended. \<open>socks_active\<close> is the \<^verbatim>\<open>g_active_sessions\<close> of \<^verbatim>\<open>socks5.c\<close>. \<open>socks_fd\<close>, \<open>mng_fd\<close> and \<open>draining\<close> are the locals
  of \<^verbatim>\<open>main\<close>: the two listening sockets, -1 for none, and whether the server is shutting down.
\<close>

datatype dns_pc = T_Wait | T_Resolve nat | T_Notify nat | T_Exit

record proxy = srv +
  socks_heap :: "nat \<Rightarrow> socks5 option"
  pool :: "nat option"
  pool_size :: u32
  socks_active :: u32
  g_dns_worker :: "dns_worker option"
  g_access_log :: "access_log option"
  g_active_head :: "nat option"
  clock :: int
  dns_thread :: dns_pc
  socks_fd :: int
  mng_fd :: int
  draining :: bool
  text_of_time :: "int \<Rightarrow> string"
  text_of_addr :: "sockaddr \<Rightarrow> string"

type_synonym socks_key = "attachment selector_key"
type_synonym proxy_host = "(handler, attachment, proxy) host"

text \<open>\<^verbatim>\<open>ATTACHMENT(key)\<close>, and an access through the pointer it gives.\<close>

definition socks_ptr :: "socks_key \<Rightarrow> nat option" where
  "socks_ptr key = (case k_data key of Some (Socks_Ptr p) \<Rightarrow> Some p | _ \<Rightarrow> None)"

definition ATTACHMENT :: "socks_key \<Rightarrow> proxy \<Rightarrow> (nat \<times> socks5) option" where
  "ATTACHMENT key w = do { p \<leftarrow> socks_ptr key; s \<leftarrow> socks_heap w p; Some (p, s) }"

definition put_socks :: "nat \<Rightarrow> socks5 \<Rightarrow> proxy \<Rightarrow> proxy" where
  "put_socks p s w = w\<lparr>socks_heap := (socks_heap w)(p \<mapsto> s)\<rparr>"

text \<open>Assignments to fields of the session at a pointer.\<close>

definition upd_socks :: "nat \<Rightarrow> (socks5 \<Rightarrow> socks5) \<Rightarrow> proxy \<Rightarrow> proxy option" where
  "upd_socks p f w = do { s \<leftarrow> socks_heap w p; Some (put_socks p (f s) w) }"

fun client_hello :: "socks5 \<Rightarrow> hello_st option" where
  "client_hello s = (case so_client s of C_hello h \<Rightarrow> Some h | _ \<Rightarrow> None)"

fun client_auth :: "socks5 \<Rightarrow> auth_st option" where
  "client_auth s = (case so_client s of C_auth a \<Rightarrow> Some a | _ \<Rightarrow> None)"

fun client_request :: "socks5 \<Rightarrow> request_st option" where
  "client_request s = (case so_client s of C_request r \<Rightarrow> Some r | _ \<Rightarrow> None)"

fun client_copy :: "socks5 \<Rightarrow> copy option" where
  "client_copy s = (case so_client s of C_copy c \<Rightarrow> Some c | _ \<Rightarrow> None)"

fun orig_conn :: "socks5 \<Rightarrow> connecting option" where
  "orig_conn s = (case so_orig s of O_conn c \<Rightarrow> Some c | _ \<Rightarrow> None)"

fun orig_copy :: "socks5 \<Rightarrow> copy option" where
  "orig_copy s = (case so_orig s of O_copy c \<Rightarrow> Some c | _ \<Rightarrow> None)"

fun get_buffer :: "buffer_ref \<Rightarrow> socks5 \<Rightarrow> buffer" where
  "get_buffer Read_Buffer s = so_read_buffer s"
| "get_buffer Write_Buffer s = so_write_buffer s"

fun put_buffer :: "buffer_ref \<Rightarrow> buffer \<Rightarrow> socks5 \<Rightarrow> socks5" where
  "put_buffer Read_Buffer b s = s\<lparr>so_read_buffer := b\<rparr>"
| "put_buffer Write_Buffer b s = s\<lparr>so_write_buffer := b\<rparr>"

text \<open>The two setters of interests; the flag is whether the selector answers \<^verbatim>\<open>SELECTOR_SUCCESS\<close>.\<close>

definition socks_interest_key :: "socks_key \<Rightarrow> u32 \<Rightarrow> proxy \<Rightarrow> (bool \<times> proxy) option" where
  "socks_interest_key key i w = do {
     (st, sl) \<leftarrow> selector_set_interest_key key i (sel w);
     Some (st = SELECTOR_SUCCESS, w\<lparr>sel := sl\<rparr>)
   }"

definition socks_interest :: "int \<Rightarrow> u32 \<Rightarrow> proxy \<Rightarrow> (bool \<times> proxy) option" where
  "socks_interest fd i w = do {
     (st, sl) \<leftarrow> selector_set_interest fd i (sel w);
     Some (st = SELECTOR_SUCCESS, w\<lparr>sel := sl\<rparr>)
   }"

text \<open>An update of the metrics, when there are any.\<close>

definition count :: "(metrics \<Rightarrow> metrics) \<Rightarrow> proxy \<Rightarrow> proxy" where
  "count f w = w\<lparr>g_metrics := map_option f (g_metrics w)\<rparr>"

end
