(* ===== verification/Socks5.thy ===== *)
theory Socks5
  imports Socks5_State
begin

text \<open>
  \<^verbatim>\<open>src/shared/socks5.c\<close>: the life of a proxy session, as callbacks of its state machine: greeting,
  authentication, request, name resolution, connection to the origin, reply and relay; then the handlers
  registered with the selector, the accepting handler and the sweep over the timeouts.

  A handler of a state returns the next state and the server. The system calls are those of \<open>World\<close>;
  \<^verbatim>\<open>errno\<close> after a failed call is the error the call gives.
\<close>

section \<open>The log of a session\<close>

definition socks5_log_user :: "socks5 \<Rightarrow> char list option" where
  "socks5_log_user s = (if cstr (so_user s) \<noteq> [] then Some (so_user s) else None)"

definition socks5_log_event :: "nat \<Rightarrow> proxy \<Rightarrow> proxy option" where
  "socks5_log_event p w = do {
     s \<leftarrow> socks_heap w p;
     case g_access_log w of
       None \<Rightarrow> Some w
     | Some log \<Rightarrow>
         if so_log_emitted s \<or> \<not> so_destination_set s then Some w
         else do {
           log \<leftarrow> (if so_tunnel_opened s then do {
                      c \<leftarrow> client_copy s;
                      oc \<leftarrow> orig_copy s;
                      Some (access_log_close (text_of_time w (clock w)) (socks5_log_user s) (so_destination s) (so_port s)
                              (cp_transferred c) (cp_transferred oc) log)
                    } else
                      Some (access_log_fail (text_of_time w (clock w)) (socks5_log_user s) (Some (so_destination s)) (so_port s)
                              (so_failure s) log));
           Some (put_socks p (s\<lparr>so_log_emitted := True\<rparr>) (w\<lparr>g_access_log := Some log\<rparr>))
         }
   }"

definition socks5_log_open :: "nat \<Rightarrow> proxy \<Rightarrow> proxy option" where
  "socks5_log_open p w = do {
     s \<leftarrow> socks_heap w p;
     case g_access_log w of
       None \<Rightarrow> Some w
     | Some log \<Rightarrow>
         if \<not> so_destination_set s \<or> so_tunnel_opened s then Some w
         else Some (put_socks p (s\<lparr>so_tunnel_opened := True\<rparr>)
                (w\<lparr>g_access_log := Some (access_log_open (text_of_time w (clock w)) (socks5_log_user s)
                     (so_destination s) (so_port s) log)\<rparr>))
   }"

definition socks5_set_failure :: "string \<Rightarrow> socks5 \<Rightarrow> socks5" where
  "socks5_set_failure reason s = (if so_failure s = None then s\<lparr>so_failure := Some reason\<rparr> else s)"

text \<open>The address of a request, for \<^verbatim>\<open>inet_ntop\<close>; the port plays no part in its text.\<close>

definition socks5_store_destination :: "(sockaddr \<Rightarrow> string) \<Rightarrow> socks5_request \<Rightarrow> socks5 \<Rightarrow> (bool \<times> socks5) option" where
  "socks5_store_destination ntop request s = do {
     let a = rq_dest_addr request;
     (stored, d) \<leftarrow>
       (if ra_type a = SOCKS_ATYP_FQDN then do {
          d \<leftarrow> snprintf (so_destination s) DESTINATION_MAX_LEN (cstr (map chr (ra_mem a)));
          Some (True, d)
        }
        else if ra_type a = SOCKS_ATYP_IPV4
        then inet_ntop ntop (AF_INET (take SOCKS_ATYP_IPV4_LEN (ra_mem a)) 0) (so_destination s) DESTINATION_MAX_LEN
        else if ra_type a = SOCKS_ATYP_IPV6
        then inet_ntop ntop (AF_INET6 (take SOCKS_ATYP_IPV6_LEN (ra_mem a)) 0) (so_destination s) DESTINATION_MAX_LEN
        else Some (False, so_destination s));
     let s = s\<lparr>so_destination := d\<rparr>;
     Some (if \<not> stored then (False, socks5_set_failure ''invalid destination'' s)
           else (True, s\<lparr>so_port := rq_dest_port request, so_destination_set := True\<rparr>))
   }"

section \<open>Receiving and sending during the negotiation\<close>

text \<open>
  The three reading states begin alike: when the read buffer is empty they receive into it. The result is
  the state to return at once (\<open>st\<close> itself when the call would block), or none to go on.
\<close>

definition receive_more :: "nat \<Rightarrow> socks_key \<Rightarrow> proxy \<Rightarrow> (nat option \<times> proxy) option" where
  "receive_more st key w = do {
     (p, s) \<leftarrow> ATTACHMENT key w;
     let b = so_read_buffer s;
     if \<not> buffer_can_read b then do {
       (ptr, available) \<leftarrow> buffer_write_ptr b;
       let (r, k) = k_recv (k_fd key) available (kern w);
       let w = w\<lparr>kern := k\<rparr>;
       case r of
         Inl e \<Rightarrow> Some (Some (if transient e then st else ERROR), w)
       | Inr bs \<Rightarrow>
           if bs = [] then Some (Some ERROR, w)
           else do {
             b \<leftarrow> buffer_store b bs;
             b \<leftarrow> buffer_write_adv b (int (length bs));
             Some (None, put_socks p (s\<lparr>so_read_buffer := b\<rparr>) w)
           }
     } else Some (None, w)
   }"

text \<open>The three writing states begin alike: they send what is pending. The result is as above.\<close>

definition send_pending :: "nat \<Rightarrow> socks_key \<Rightarrow> proxy \<Rightarrow> (nat option \<times> proxy) option" where
  "send_pending st key w = do {
     (p, s) \<leftarrow> ATTACHMENT key w;
     let b = so_write_buffer s;
     (ptr, pending) \<leftarrow> buffer_read_ptr b;
     let (r, k) = k_send (k_fd key) (buffer_peek b pending) (kern w);
     let w = w\<lparr>kern := k\<rparr>;
     case r of
       Inl e \<Rightarrow> Some (Some (if transient e then st else ERROR), w)
     | Inr n \<Rightarrow> do {
         b \<leftarrow> buffer_read_adv b (int n);
         Some (None, put_socks p (s\<lparr>so_write_buffer := b\<rparr>) w)
       }
   }"

section \<open>Greeting\<close>

definition on_hello_method :: "hello_offer \<Rightarrow> byte \<Rightarrow> hello_offer" where
  "on_hello_method hello method =
     (if method = SOCKS_HELLO_NOAUTHENTICATION_REQUIRED then hello\<lparr>no_auth_offered := True\<rparr>
      else if method = SOCKS_HELLO_USERNAME_PASSWORD then hello\<lparr>user_pass_offered := True\<rparr>
      else hello)"

text \<open>The fields of the parser that \<^verbatim>\<open>hello_parser_init\<close> sets are given by it, so what was there is 0 here.\<close>

definition hello_read_init :: "nat \<Rightarrow> socks_key \<Rightarrow> proxy \<Rightarrow> proxy option" where
  "hello_read_init state key w = do {
     (p, s) \<leftarrow> ATTACHMENT key w;
     let parser = hello_parser_init \<lparr>on_authentication_method = Some on_hello_method,
           hp_data = \<lparr>no_auth_offered = False, user_pass_offered = False\<rparr>, hp_state = hello_version, hp_remaining = 0\<rparr>;
     Some (put_socks p (s\<lparr>so_client := C_hello \<lparr>he_parser = parser, he_method = SOCKS_HELLO_NO_ACCEPTABLE_METHODS\<rparr>\<rparr>) w)
   }"

definition hello_choice :: "users option \<Rightarrow> hello_offer \<Rightarrow> byte" where
  "hello_choice users offer =
     (let auth_required = (case users of None \<Rightarrow> False | Some u \<Rightarrow> users_count u > 0)
      in if auth_required \<and> user_pass_offered offer then SOCKS_HELLO_USERNAME_PASSWORD
         else if \<not> auth_required \<and> no_auth_offered offer then SOCKS_HELLO_NOAUTHENTICATION_REQUIRED
         else SOCKS_HELLO_NO_ACCEPTABLE_METHODS)"

definition hello_process :: "nat \<Rightarrow> proxy \<Rightarrow> (nat \<times> proxy) option" where
  "hello_process p w = do {
     s \<leftarrow> socks_heap w p;
     hello \<leftarrow> client_hello s;
     let hello = hello\<lparr>he_method := hello_choice (g_users w) (hp_data (he_parser hello))\<rparr>;
     (r, b) \<leftarrow> hello_marshall (so_write_buffer s) (he_method hello);
     let w = put_socks p (s\<lparr>so_client := C_hello hello, so_write_buffer := b\<rparr>) w;
     Some (if r < 0 then ERROR else HELLO_WRITE, w)
   }"

definition hello_read :: "socks_key \<Rightarrow> proxy \<Rightarrow> (nat \<times> proxy) option" where
  "hello_read key w = do {
     (early, w) \<leftarrow> receive_more HELLO_READ key w;
     case early of
       Some st \<Rightarrow> Some (st, w)
     | None \<Rightarrow> do {
         (p, s) \<leftarrow> ATTACHMENT key w;
         hello \<leftarrow> client_hello s;
         (b, parser, error) \<leftarrow> hello_consume (so_read_buffer s) (he_parser hello, False);
         let w = put_socks p (s\<lparr>so_read_buffer := b, so_client := C_hello (hello\<lparr>he_parser := parser\<rparr>)\<rparr>) w;
         if error then Some (ERROR, w)
         else if fst (hello_is_done (hp_state parser) False) then do {
           (ok, w) \<leftarrow> socks_interest_key key OP_WRITE w;
           if \<not> ok then Some (ERROR, w) else hello_process p w
         } else Some (HELLO_READ, w)
       }
   }"

definition hello_write :: "socks_key \<Rightarrow> proxy \<Rightarrow> (nat \<times> proxy) option" where
  "hello_write key w = do {
     (p, s) \<leftarrow> ATTACHMENT key w;
     hello \<leftarrow> client_hello s;
     (early, w) \<leftarrow> send_pending HELLO_WRITE key w;
     case early of
       Some st \<Rightarrow> Some (st, w)
     | None \<Rightarrow> do {
         s \<leftarrow> socks_heap w p;
         if \<not> buffer_can_read (so_write_buffer s) then
           (if he_method hello = SOCKS_HELLO_NO_ACCEPTABLE_METHODS then Some (DONE, w)
            else do {
              (ok, w) \<leftarrow> socks_interest_key key OP_READ w;
              Some (if \<not> ok then ERROR
                    else if he_method hello = SOCKS_HELLO_USERNAME_PASSWORD then AUTH_READ else REQUEST_READ, w)
            })
         else Some (HELLO_WRITE, w)
       }
   }"

section \<open>The objects shared with the management protocol\<close>

definition socksv5_set_users :: "users option \<Rightarrow> proxy \<Rightarrow> proxy" where
  "socksv5_set_users u w = w\<lparr>g_users := u\<rparr>"

definition socksv5_set_metrics :: "metrics option \<Rightarrow> proxy \<Rightarrow> proxy" where
  "socksv5_set_metrics m w = w\<lparr>g_metrics := m\<rparr>"

definition socksv5_set_dns_worker :: "dns_worker option \<Rightarrow> proxy \<Rightarrow> proxy" where
  "socksv5_set_dns_worker d w = w\<lparr>g_dns_worker := d\<rparr>"

definition socksv5_set_access_log :: "access_log option \<Rightarrow> proxy \<Rightarrow> proxy" where
  "socksv5_set_access_log log w = w\<lparr>g_access_log := log\<rparr>"

definition socksv5_set_config :: "config option \<Rightarrow> proxy \<Rightarrow> proxy" where
  "socksv5_set_config c w = w\<lparr>g_config := c\<rparr>"

section \<open>Authentication\<close>

text \<open>The arrays of the parser hold what the union had before; they are written before they are read.\<close>

definition auth_read_init :: "nat \<Rightarrow> socks_key \<Rightarrow> proxy \<Rightarrow> proxy option" where
  "auth_read_init state key w = do {
     (p, s) \<leftarrow> ATTACHMENT key w;
     let parser = auth_parser_init \<lparr>ap_state = auth_ver, ap_remaining = 0, ap_ulen = 0, ap_plen = 0,
           ap_uname = replicate 256 NUL, ap_passwd = replicate 256 NUL\<rparr>;
     Some (put_socks p (s\<lparr>so_client := C_auth \<lparr>au_parser = parser, au_status = 1\<rparr>\<rparr>) w)
   }"

definition auth_process :: "nat \<Rightarrow> proxy \<Rightarrow> (nat \<times> proxy) option" where
  "auth_process p w = do {
     s \<leftarrow> socks_heap w p;
     auth \<leftarrow> client_auth s;
     let parser = au_parser auth;
     granted \<leftarrow> (case g_users w of None \<Rightarrow> Some True | Some u \<Rightarrow> users_check u (ap_uname parser) (ap_passwd parser));
     (s, w) \<leftarrow> (if granted then do {
                   user \<leftarrow> snprintf (so_user s) USER_MAX_LEN (cstr (ap_uname parser));
                   Some (s\<lparr>so_user := user\<rparr>, w)
                 } else Some (s, count metrics_auth_fail w));
     let auth = auth\<lparr>au_status := if granted then 0 else 1\<rparr>;
     (r, b) \<leftarrow> auth_marshall (so_write_buffer s) (au_status auth);
     let w = put_socks p (s\<lparr>so_client := C_auth auth, so_write_buffer := b\<rparr>) w;
     Some (if r < 0 then ERROR else AUTH_WRITE, w)
   }"

definition auth_read :: "socks_key \<Rightarrow> proxy \<Rightarrow> (nat \<times> proxy) option" where
  "auth_read key w = do {
     (early, w) \<leftarrow> receive_more AUTH_READ key w;
     case early of
       Some st \<Rightarrow> Some (st, w)
     | None \<Rightarrow> do {
         (p, s) \<leftarrow> ATTACHMENT key w;
         auth \<leftarrow> client_auth s;
         (b, parser, error) \<leftarrow> auth_consume (so_read_buffer s) (au_parser auth, False);
         let w = put_socks p (s\<lparr>so_read_buffer := b, so_client := C_auth (auth\<lparr>au_parser := parser\<rparr>)\<rparr>) w;
         if error then Some (ERROR, w)
         else if fst (auth_is_done (ap_state parser) False) then do {
           (ok, w) \<leftarrow> socks_interest_key key OP_WRITE w;
           if \<not> ok then Some (ERROR, w) else auth_process p w
         } else Some (AUTH_READ, w)
       }
   }"

definition auth_write :: "socks_key \<Rightarrow> proxy \<Rightarrow> (nat \<times> proxy) option" where
  "auth_write key w = do {
     (p, s) \<leftarrow> ATTACHMENT key w;
     auth \<leftarrow> client_auth s;
     (early, w) \<leftarrow> send_pending AUTH_WRITE key w;
     case early of
       Some st \<Rightarrow> Some (st, w)
     | None \<Rightarrow> do {
         s \<leftarrow> socks_heap w p;
         if \<not> buffer_can_read (so_write_buffer s) then do {
           (ok, w) \<leftarrow> socks_interest_key key OP_READ w;
           Some (if \<not> ok then ERROR else if au_status auth = 0 then REQUEST_READ else DONE, w)
         } else Some (AUTH_WRITE, w)
       }
   }"

section \<open>Request\<close>

definition request_read_init :: "nat \<Rightarrow> socks_key \<Rightarrow> proxy \<Rightarrow> proxy option" where
  "request_read_init state key w = do {
     (p, s) \<leftarrow> ATTACHMENT key w;
     let parser = request_parser_init \<lparr>rp_request = \<lparr>rq_cmd = 0, rq_dest_addr = \<lparr>ra_type = 0,
           ra_mem = replicate 256 0\<rparr>, rq_dest_port = 0\<rparr>, rp_state = request_version, rp_remaining = 0, rp_read = 0\<rparr>;
     Some (put_socks p (s\<lparr>so_client := C_request \<lparr>rt_parser = parser, rt_reply = SOCKS_REPLY_GENERAL_FAILURE\<rparr>\<rparr>) w)
   }"

text \<open>
  Marshalling the reply of the session into its write buffer, as several places do: false when there is
  no room.
\<close>

definition put_reply :: "nat \<Rightarrow> byte \<Rightarrow> proxy \<Rightarrow> (bool \<times> proxy) option" where
  "put_reply p reply w = do {
     s \<leftarrow> socks_heap w p;
     req \<leftarrow> client_request s;
     (r, b) \<leftarrow> request_marshall (so_write_buffer s) reply;
     Some (\<not> r < 0, put_socks p (s\<lparr>so_client := C_request (req\<lparr>rt_reply := reply\<rparr>), so_write_buffer := b\<rparr>) w)
   }"

text \<open>The reply is marshalled and the descriptor of the key waits for writing it.\<close>

definition reply_and_write :: "nat \<Rightarrow> socks_key \<Rightarrow> byte \<Rightarrow> proxy \<Rightarrow> (nat \<times> proxy) option" where
  "reply_and_write p key reply w = do {
     (room, w) \<leftarrow> put_reply p reply w;
     if \<not> room then Some (ERROR, w)
     else do {
       (ok, w) \<leftarrow> socks_interest_key key OP_WRITE w;
       Some (if \<not> ok then ERROR else REQUEST_WRITE, w)
     }
   }"

text \<open>The call of \<^verbatim>\<open>dns_worker_submit\<close>: false when there is no worker or the submission fails.\<close>

definition submit_name :: "nat \<Rightarrow> socks_key \<Rightarrow> socks5_request \<Rightarrow> proxy \<Rightarrow> (bool \<times> proxy) option" where
  "submit_name p key request w =
     (case g_dns_worker w of
        None \<Rightarrow> Some (False, w)
      | Some d \<Rightarrow> do {
          let (mem, k) = k_alloc (kern w);
          (r, d) \<leftarrow> dns_worker_submit mem (k_fd key) (map chr (ra_mem (rq_dest_addr request))) (rq_dest_port request) p d;
          Some (r = 0, w\<lparr>kern := k, g_dns_worker := Some d\<rparr>)
        })"

definition request_process :: "socks_key \<Rightarrow> proxy \<Rightarrow> (nat \<times> proxy) option" where
  "request_process key w = do {
     (p, s) \<leftarrow> ATTACHMENT key w;
     req \<leftarrow> client_request s;
     let st = rp_state (rt_parser req);
     if st = request_error_unsupported_cmd \<or> st = request_error_unsupported_atyp then do {
       w \<leftarrow> upd_socks p (socks5_set_failure (if st = request_error_unsupported_cmd then ''unsupported command''
                                                  else ''unsupported address type'')) w;
       reply_and_write p key (if st = request_error_unsupported_cmd then SOCKS_REPLY_CMD_NOT_SUPPORTED
                                else SOCKS_REPLY_ATYP_NOT_SUPPORTED) w
     }
     else do {
       let request = rp_request (rt_parser req);
       (stored, s) \<leftarrow> socks5_store_destination (text_of_addr w) request s;
       let w = put_socks p s w;
       if \<not> stored then Some (ERROR, w)
       else do {
         (ok, w) \<leftarrow> socks_interest_key key OP_NOOP w;
         if \<not> ok then Some (ERROR, w)
         else if ra_type (rq_dest_addr request) = SOCKS_ATYP_FQDN then do {
           (ok, w) \<leftarrow> submit_name p key request w;
           if \<not> ok then do {
             w \<leftarrow> upd_socks p (socks5_set_failure ''dns submit failed'') w;
             reply_and_write p key SOCKS_REPLY_GENERAL_FAILURE w
           }
           else do {
             w \<leftarrow> upd_socks p (\<lambda>s. s\<lparr>so_references := so_references s + 1\<rparr>) w;
             Some (REQUEST_RESOLV, w)
           }
         }
         else Some (CONNECTING, w)
       }
     }
   }"

definition request_resolv_done :: "socks_key \<Rightarrow> proxy \<Rightarrow> (nat \<times> proxy) option" where
  "request_resolv_done key w = do {
     (p, s) \<leftarrow> ATTACHMENT key w;
     let s = s\<lparr>so_references := so_references s - 1\<rparr>;
     if so_resolution s = [] then
       reply_and_write p key SOCKS_REPLY_HOST_UNREACHABLE (put_socks p (socks5_set_failure ''dns resolution failed'' s) w)
     else do {
       conn \<leftarrow> orig_conn s;
       Some (CONNECTING, put_socks p (s\<lparr>so_orig := O_conn (conn\<lparr>cn_current := so_resolution s\<rparr>)\<rparr>) w)
     }
   }"

definition request_read :: "socks_key \<Rightarrow> proxy \<Rightarrow> (nat \<times> proxy) option" where
  "request_read key w = do {
     (early, w) \<leftarrow> receive_more REQUEST_READ key w;
     case early of
       Some st \<Rightarrow> Some (st, w)
     | None \<Rightarrow> do {
         (p, s) \<leftarrow> ATTACHMENT key w;
         req \<leftarrow> client_request s;
         (b, parser, error) \<leftarrow> request_consume (so_read_buffer s) (rt_parser req, Some False);
         let s = s\<lparr>so_read_buffer := b, so_client := C_request (req\<lparr>rt_parser := parser\<rparr>)\<rparr>;
         if error = Some True then Some (ERROR, put_socks p (socks5_set_failure ''invalid request'' s) w)
         else if fst (request_is_done (rp_state parser) None) then request_process key (put_socks p s w)
         else Some (REQUEST_READ, put_socks p s w)
       }
   }"

definition request_write :: "socks_key \<Rightarrow> proxy \<Rightarrow> (nat \<times> proxy) option" where
  "request_write key w = do {
     (p, s) \<leftarrow> ATTACHMENT key w;
     req \<leftarrow> client_request s;
     (early, w) \<leftarrow> send_pending REQUEST_WRITE key w;
     case early of
       Some st \<Rightarrow> Some (st, w)
     | None \<Rightarrow> do {
         s \<leftarrow> socks_heap w p;
         if \<not> buffer_can_read (so_write_buffer s) then
           (if rt_reply req = SOCKS_REPLY_SUCCEEDED then do {
              (ok, w) \<leftarrow> socks_interest_key key OP_READ w;
              Some (if \<not> ok then ERROR else COPY, w)
            } else Some (DONE, w))
         else Some (REQUEST_WRITE, w)
       }
   }"

section \<open>Connecting to the origin\<close>

text \<open>
  \<open>None\<close> is 0 and \<open>Some e\<close> is -1 with \<^verbatim>\<open>errno\<close> \<open>e\<close>. \<^verbatim>\<open>fcntl\<close> on a descriptor just opened fails with \<^verbatim>\<open>EBADF\<close> or
  another error that maps to the same reply; a successful \<^verbatim>\<open>close\<close> leaves \<^verbatim>\<open>errno\<close> alone.
\<close>

definition connecting_try_one :: "nat \<Rightarrow> sockaddr \<Rightarrow> proxy \<Rightarrow> (errno option \<times> proxy) option" where
  "connecting_try_one p addr w =
     (case k_new_socket (kern w) of
        (Inl e, k) \<Rightarrow> Some (Some e, w\<lparr>kern := k\<rparr>)
      | (Inr fd, k) \<Rightarrow>
          (case k_set_nio fd k of
             (False, k) \<Rightarrow> Some (Some EBADF, w\<lparr>kern := k_close fd k\<rparr>)
           | (True, k) \<Rightarrow>
               (case k_connect fd addr k of
                  (Some e, k) \<Rightarrow>
                    if e \<noteq> EINPROGRESS then Some (Some e, w\<lparr>kern := k_close fd k\<rparr>)
                    else do { w \<leftarrow> upd_socks p (\<lambda>s. s\<lparr>so_origin_fd := fd\<rparr>) (w\<lparr>kern := k\<rparr>); Some (None, w) }
                | (None, k) \<Rightarrow> do { w \<leftarrow> upd_socks p (\<lambda>s. s\<lparr>so_origin_fd := fd\<rparr>) (w\<lparr>kern := k\<rparr>); Some (None, w) })))"

definition connecting_register_origin :: "nat \<Rightarrow> proxy \<Rightarrow> (bool \<times> proxy) option" where
  "connecting_register_origin p w = do {
     s \<leftarrow> socks_heap w p;
     let (mem, k) = k_alloc (kern w);
     (st, sl) \<leftarrow> selector_register mem (so_origin_fd s) (Some socks5_handler) OP_WRITE (Some (Socks_Ptr p)) (sel w);
     let w = w\<lparr>kern := k, sel := sl\<rparr>;
     if st = SELECTOR_SUCCESS then Some (True, w)
     else Some (False, put_socks p (s\<lparr>so_references := so_references s - 1, so_origin_fd := -1\<rparr>)
                         (w\<lparr>kern := k_close (so_origin_fd s) (kern w)\<rparr>))
   }"

definition set_conn_reply :: "byte \<Rightarrow> socks5 \<Rightarrow> socks5 option" where
  "set_conn_reply reply s = do { c \<leftarrow> orig_conn s; Some (s\<lparr>so_orig := O_conn (c\<lparr>cn_reply := reply\<rparr>)\<rparr>) }"

definition put_conn_reply :: "nat \<Rightarrow> byte \<Rightarrow> proxy \<Rightarrow> proxy option" where
  "put_conn_reply p reply w = do { s \<leftarrow> socks_heap w p; s \<leftarrow> set_conn_reply reply s; Some (put_socks p s w) }"

text \<open>No address is left: the failure is noted and the client waits for writing.\<close>

definition connecting_failed :: "nat \<Rightarrow> proxy \<Rightarrow> proxy option" where
  "connecting_failed p w = do {
     w \<leftarrow> upd_socks p (socks5_set_failure ''connect failed'') w;
     s \<leftarrow> socks_heap w p;
     (_, w) \<leftarrow> socks_interest (so_client_fd s) OP_WRITE w;
     Some w
   }"

text \<open>The loop over the addresses, with those that are left.\<close>

fun connecting_try_list :: "nat \<Rightarrow> sockaddr list \<Rightarrow> proxy \<Rightarrow> proxy option" where
  "connecting_try_list p [] w = connecting_failed p w"
| "connecting_try_list p (ai # ais) w = do {
     s \<leftarrow> socks_heap w p;
     conn \<leftarrow> orig_conn s;
     (err, w) \<leftarrow> connecting_try_one p ai (put_socks p (s\<lparr>so_orig := O_conn (conn\<lparr>cn_current := ais\<rparr>)\<rparr>) w);
     case err of
       None \<Rightarrow> do {
         w \<leftarrow> upd_socks p (\<lambda>s. s\<lparr>so_references := so_references s + 1\<rparr>) w;
         (ok, w) \<leftarrow> connecting_register_origin p w;
         if ok then Some w
         else do { w \<leftarrow> put_conn_reply p SOCKS_REPLY_GENERAL_FAILURE w; connecting_failed p w }
       }
     | Some e \<Rightarrow> do { w \<leftarrow> put_conn_reply p (errno_to_socks_reply e) w; connecting_try_list p ais w }
   }"

definition connecting_try_addrinfo :: "socks_key \<Rightarrow> proxy \<Rightarrow> proxy option" where
  "connecting_try_addrinfo key w = do {
     (p, s) \<leftarrow> ATTACHMENT key w;
     conn \<leftarrow> orig_conn s;
     connecting_try_list p (cn_current conn) w
   }"

text \<open>\<^verbatim>\<open>htons\<close> swaps the bytes, as \<^verbatim>\<open>ntohs\<close> does.\<close>

definition request_sockaddr :: "socks5_request \<Rightarrow> sockaddr" where
  "request_sockaddr request =
     (let a = rq_dest_addr request; port = ntohs (rq_dest_port request)
      in if ra_type a = SOCKS_ATYP_IPV4 then AF_INET (take SOCKS_ATYP_IPV4_LEN (ra_mem a)) port
         else AF_INET6 (take SOCKS_ATYP_IPV6_LEN (ra_mem a)) port)"

definition connecting_init :: "nat \<Rightarrow> socks_key \<Rightarrow> proxy \<Rightarrow> proxy option" where
  "connecting_init state key w = do {
     (p, s) \<leftarrow> ATTACHMENT key w;
     s \<leftarrow> set_conn_reply SOCKS_REPLY_GENERAL_FAILURE s;
     let s = s\<lparr>so_connect_deadline := (case g_config w of
           Some c \<Rightarrow> if connect_timeout c > 0 then clock w + connect_timeout c else 0 | None \<Rightarrow> 0)\<rparr>;
     let w = put_socks p s w;
     conn \<leftarrow> orig_conn s;
     if cn_current conn \<noteq> [] then connecting_try_addrinfo key w
     else do {
       req \<leftarrow> client_request s;
       (err, w) \<leftarrow> connecting_try_one p (request_sockaddr (rp_request (rt_parser req))) w;
       case err of
         None \<Rightarrow> do {
           w \<leftarrow> upd_socks p (\<lambda>s. s\<lparr>so_references := so_references s + 1\<rparr>) w;
           (ok, w) \<leftarrow> connecting_register_origin p w;
           if ok then Some w
           else do { w \<leftarrow> put_conn_reply p SOCKS_REPLY_GENERAL_FAILURE w; connecting_failed p w }
         }
       | Some e \<Rightarrow> do { w \<leftarrow> put_conn_reply p (errno_to_socks_reply e) w; connecting_failed p w }
     }
   }"

text \<open>The dispatch of \<^verbatim>\<open>handle_close\<close> is needed to unregister a descriptor.\<close>

definition connecting_write :: "proxy_host \<Rightarrow> socks_key \<Rightarrow> proxy \<Rightarrow> (nat \<times> proxy) option" where
  "connecting_write H key w = do {
     (p, s) \<leftarrow> ATTACHMENT key w;
     if k_fd key = so_client_fd s then do {
       let s = socks5_set_failure ''connect failed'' s;
       conn \<leftarrow> orig_conn s;
       (room, w) \<leftarrow> put_reply p (cn_reply conn) (count metrics_origin_fail (put_socks p s w));
       Some (if \<not> room then ERROR else REQUEST_WRITE, w)
     }
     else do {
       let (r, k) = k_so_error (k_fd key) (kern w);
       let w = w\<lparr>kern := k\<rparr>;
       case (case r of Inl e \<Rightarrow> Some e | Inr v \<Rightarrow> v) of
         None \<Rightarrow> do {
           (room, w) \<leftarrow> put_reply p SOCKS_REPLY_SUCCEEDED (count metrics_origin_ok w);
           if \<not> room then Some (ERROR, w)
           else do {
             (ok, w) \<leftarrow> socks_interest (so_client_fd s) OP_WRITE w;
             if \<not> ok then Some (ERROR, w)
             else do {
               (ok, w) \<leftarrow> socks_interest_key key OP_NOOP w;
               Some (if \<not> ok then ERROR else REQUEST_WRITE, w)
             }
           }
         }
       | Some err \<Rightarrow> do {
           w \<leftarrow> put_conn_reply p (errno_to_socks_reply err) w;
           (_, w) \<leftarrow> selector_unregister_fd H (so_origin_fd s) w;
           s \<leftarrow> socks_heap w p;
           let w = put_socks p (s\<lparr>so_origin_fd := -1\<rparr>) (w\<lparr>kern := k_close (so_origin_fd s) (kern w)\<rparr>);
           conn \<leftarrow> orig_conn s;
           if cn_current conn \<noteq> [] then do { w \<leftarrow> connecting_try_addrinfo key w; Some (CONNECTING, w) }
           else do {
             w \<leftarrow> upd_socks p (socks5_set_failure ''connect failed'') w;
             (room, w) \<leftarrow> put_reply p (cn_reply conn) (count metrics_origin_fail w);
             if \<not> room then Some (ERROR, w)
             else do {
               (ok, w) \<leftarrow> socks_interest (so_client_fd s) OP_WRITE w;
               Some (if \<not> ok then ERROR else REQUEST_WRITE, w)
             }
           }
         }
     }
   }"

definition connecting_timeout :: "proxy_host \<Rightarrow> nat \<Rightarrow> proxy \<Rightarrow> proxy option" where
  "connecting_timeout H p w = do {
     s \<leftarrow> socks_heap w p;
     w \<leftarrow> (if so_origin_fd s \<noteq> -1 then do {
             (_, w) \<leftarrow> selector_unregister_fd H (so_origin_fd s) w;
             s \<leftarrow> socks_heap w p;
             Some (put_socks p (s\<lparr>so_origin_fd := -1\<rparr>) (w\<lparr>kern := k_close (so_origin_fd s) (kern w)\<rparr>))
           } else Some w);
     s \<leftarrow> socks_heap w p;
     conn \<leftarrow> orig_conn s;
     let w = put_socks p (s\<lparr>so_orig := O_conn (conn\<lparr>cn_current := [], cn_reply := SOCKS_REPLY_TTL_EXPIRED\<rparr>)\<rparr>) w;
     (_, w) \<leftarrow> socks_interest (so_client_fd s) OP_WRITE w;
     Some w
   }"

section \<open>Relaying\<close>

text \<open>\<open>Client_Copy\<close> is \<^verbatim>\<open>client.copy\<close>, from the client to the origin; \<open>Orig_Copy\<close> is \<^verbatim>\<open>orig.copy\<close>.\<close>

datatype copy_side = Client_Copy | Orig_Copy

fun get_copy :: "copy_side \<Rightarrow> socks5 \<Rightarrow> copy option" where
  "get_copy Client_Copy s = client_copy s"
| "get_copy Orig_Copy s = orig_copy s"

fun put_copy :: "copy_side \<Rightarrow> copy \<Rightarrow> socks5 \<Rightarrow> socks5" where
  "put_copy Client_Copy c s = s\<lparr>so_client := C_copy c\<rparr>"
| "put_copy Orig_Copy c s = s\<lparr>so_orig := O_copy c\<rparr>"

definition copy_is_done :: "socks5 \<Rightarrow> bool option" where
  "copy_is_done s = do { c \<leftarrow> client_copy s; oc \<leftarrow> orig_copy s; Some (cp_write_closed c \<and> cp_write_closed oc) }"

text \<open>The flag is false where the code returns -1.\<close>

definition copy_shutdown_write :: "copy_side \<Rightarrow> socks5 \<Rightarrow> kernel \<Rightarrow> (bool \<times> socks5 \<times> kernel) option" where
  "copy_shutdown_write side s k = do {
     c \<leftarrow> get_copy side s;
     if cp_eof c \<and> \<not> buffer_can_read (get_buffer (cp_rb c) s) \<and> \<not> cp_write_closed c then
       (case k_shutdown (cp_write_fd c) k of
          (r, k) \<Rightarrow> (case r of
             Some e \<Rightarrow> if e \<noteq> ENOTCONN \<and> e \<noteq> EPIPE then Some (False, s, k)
                       else Some (True, put_copy side (c\<lparr>cp_write_closed := True\<rparr>) s, k)
           | None \<Rightarrow> Some (True, put_copy side (c\<lparr>cp_write_closed := True\<rparr>) s, k)))
     else Some (True, s, k)
   }"

definition copy_client_interest :: "socks5 \<Rightarrow> u32 option" where
  "copy_client_interest s = do {
     c \<leftarrow> client_copy s;
     oc \<leftarrow> orig_copy s;
     Some (or (if \<not> cp_eof c \<and> buffer_can_write (get_buffer (cp_rb c) s) then OP_READ else OP_NOOP)
              (if \<not> cp_write_closed oc \<and> buffer_can_read (get_buffer (cp_rb oc) s) then OP_WRITE else OP_NOOP))
   }"

definition copy_origin_interest :: "socks5 \<Rightarrow> u32 option" where
  "copy_origin_interest s = do {
     c \<leftarrow> client_copy s;
     oc \<leftarrow> orig_copy s;
     Some (or (if \<not> cp_eof oc \<and> buffer_can_write (get_buffer (cp_rb oc) s) then OP_READ else OP_NOOP)
              (if \<not> cp_write_closed c \<and> buffer_can_read (get_buffer (cp_rb c) s) then OP_WRITE else OP_NOOP))
   }"

definition copy_update_interests :: "nat \<Rightarrow> proxy \<Rightarrow> (bool \<times> proxy) option" where
  "copy_update_interests p w = do {
     s \<leftarrow> socks_heap w p;
     ci \<leftarrow> copy_client_interest s;
     (ok, w) \<leftarrow> socks_interest (so_client_fd s) ci w;
     if \<not> ok then Some (False, w)
     else do {
       oi \<leftarrow> copy_origin_interest s;
       socks_interest (so_origin_fd s) oi w
     }
   }"

definition copy_read_state :: "socks5 \<Rightarrow> int \<Rightarrow> copy_side option" where
  "copy_read_state s fd =
     (if fd = so_client_fd s then Some Client_Copy else if fd = so_origin_fd s then Some Orig_Copy else None)"

definition copy_write_state :: "socks5 \<Rightarrow> int \<Rightarrow> copy_side option" where
  "copy_write_state s fd =
     (if fd = so_client_fd s then Some Orig_Copy else if fd = so_origin_fd s then Some Client_Copy else None)"

definition copy_init :: "nat \<Rightarrow> socks_key \<Rightarrow> proxy \<Rightarrow> proxy option" where
  "copy_init state key w = do {
     (p, s) \<leftarrow> ATTACHMENT key w;
     let s = s\<lparr>so_client := C_copy \<lparr>cp_read_fd = so_client_fd s, cp_write_fd = so_origin_fd s, cp_rb = Read_Buffer,
                 cp_eof = False, cp_write_closed = False, cp_transferred = 0\<rparr>,
               so_orig := O_copy \<lparr>cp_read_fd = so_origin_fd s, cp_write_fd = so_client_fd s, cp_rb = Write_Buffer,
                 cp_eof = False, cp_write_closed = False, cp_transferred = 0\<rparr>\<rparr>;
     w \<leftarrow> socks5_log_open p (put_socks p s w);
     (_, w) \<leftarrow> copy_update_interests p w;
     Some w
   }"

text \<open>\<^verbatim>\<open>return copy_update_interests(key) == 0 ? COPY : ERROR\<close>.\<close>

definition copy_go_on :: "nat \<Rightarrow> proxy \<Rightarrow> (nat \<times> proxy) option" where
  "copy_go_on p w = do { (ok, w) \<leftarrow> copy_update_interests p w; Some (if ok then COPY else ERROR, w) }"

text \<open>The end of reading and of writing: shut down, finish or go on.\<close>

definition copy_step_end :: "copy_side \<Rightarrow> nat \<Rightarrow> proxy \<Rightarrow> (nat \<times> proxy) option" where
  "copy_step_end side p w = do {
     s \<leftarrow> socks_heap w p;
     (ok, s, k) \<leftarrow> copy_shutdown_write side s (kern w);
     let w = put_socks p s (w\<lparr>kern := k\<rparr>);
     if \<not> ok then Some (ERROR, w)
     else do { fin \<leftarrow> copy_is_done s; if fin then Some (DONE, w) else copy_go_on p w }
   }"

definition copy_read :: "socks_key \<Rightarrow> proxy \<Rightarrow> (nat \<times> proxy) option" where
  "copy_read key w = do {
     (p, s) \<leftarrow> ATTACHMENT key w;
     case copy_read_state s (k_fd key) of
       None \<Rightarrow> Some (ERROR, w)
     | Some side \<Rightarrow> do {
         c \<leftarrow> get_copy side s;
         let b = get_buffer (cp_rb c) s;
         let b = (if \<not> buffer_can_write b then buffer_compact b else b);
         let s = put_buffer (cp_rb c) b s;
         if \<not> buffer_can_write b then copy_go_on p (put_socks p s w)
         else do {
           (ptr, available) \<leftarrow> buffer_write_ptr b;
           let (r, k) = k_recv (cp_read_fd c) available (kern w);
           let w = put_socks p s (w\<lparr>kern := k\<rparr>);
           case r of
             Inl e \<Rightarrow> if transient e then copy_go_on p w else Some (ERROR, w)
           | Inr bs \<Rightarrow> do {
               s \<leftarrow> (if bs = [] then Some (put_copy side (c\<lparr>cp_eof := True\<rparr>) s)
                     else do {
                       b \<leftarrow> buffer_store b bs;
                       b \<leftarrow> buffer_write_adv b (int (length bs));
                       Some ((put_buffer (cp_rb c) b s)\<lparr>so_last_activity := clock w\<rparr>)
                     });
               copy_step_end side p (put_socks p s w)
             }
         }
       }
   }"

definition copy_write :: "socks_key \<Rightarrow> proxy \<Rightarrow> (nat \<times> proxy) option" where
  "copy_write key w = do {
     (p, s) \<leftarrow> ATTACHMENT key w;
     case copy_write_state s (k_fd key) of
       None \<Rightarrow> Some (ERROR, w)
     | Some side \<Rightarrow> do {
         c \<leftarrow> get_copy side s;
         let b = get_buffer (cp_rb c) s;
         if \<not> buffer_can_read b then copy_step_end side p w
         else do {
           (ptr, pending) \<leftarrow> buffer_read_ptr b;
           let (r, k) = k_send (cp_write_fd c) (buffer_peek b pending) (kern w);
           let w = w\<lparr>kern := k\<rparr>;
           case r of
             Inl e \<Rightarrow> if transient e then copy_go_on p w else Some (ERROR, w)
           | Inr n \<Rightarrow>
               if n = 0 then copy_go_on p w
               else do {
                 b \<leftarrow> buffer_read_adv b (int n);
                 let s = put_copy side (c\<lparr>cp_transferred := cp_transferred c + of_nat n\<rparr>) (put_buffer (cp_rb c) b s);
                 let w = count (if side = Client_Copy then metrics_add_bytes_c2o (of_nat n) else metrics_add_bytes_o2c (of_nat n)) w;
                 copy_step_end side p (put_socks p s w)
               }
         }
       }
   }"

section \<open>The table of states\<close>

text \<open>A state with no callbacks.\<close>

definition bare_state :: "nat \<Rightarrow> (socks_key, proxy) state_definition" where
  "bare_state n = \<lparr>sd_state = n, on_arrival = None, on_departure = None, on_read_ready = None, on_write_ready = None,
     on_block_ready = None\<rparr>"

definition client_statbl :: "proxy_host \<Rightarrow> (socks_key, proxy) state_definition list" where
  "client_statbl H =
     [(bare_state HELLO_READ)\<lparr>on_arrival := Some hello_read_init, on_read_ready := Some hello_read\<rparr>,
      (bare_state HELLO_WRITE)\<lparr>on_write_ready := Some hello_write\<rparr>,
      (bare_state AUTH_READ)\<lparr>on_arrival := Some auth_read_init, on_read_ready := Some auth_read\<rparr>,
      (bare_state AUTH_WRITE)\<lparr>on_write_ready := Some auth_write\<rparr>,
      (bare_state REQUEST_READ)\<lparr>on_arrival := Some request_read_init, on_read_ready := Some request_read\<rparr>,
      (bare_state REQUEST_RESOLV)\<lparr>on_block_ready := Some request_resolv_done\<rparr>,
      (bare_state CONNECTING)\<lparr>on_arrival := Some connecting_init, on_write_ready := Some (connecting_write H)\<rparr>,
      (bare_state REQUEST_WRITE)\<lparr>on_write_ready := Some request_write\<rparr>,
      (bare_state COPY)\<lparr>on_arrival := Some copy_init, on_read_ready := Some copy_read, on_write_ready := Some copy_write\<rparr>,
      bare_state DONE,
      bare_state ERROR]"

text \<open>The machine of the session at \<open>p\<close>; its current state is a field of the session.\<close>

definition client_stm :: "proxy_host \<Rightarrow> nat \<Rightarrow> (socks_key, proxy) state_machine" where
  "client_stm H p = \<lparr>sm_initial = HELLO_READ, sm_states = client_statbl H, sm_max_state = ERROR,
     sm_get = \<lambda>w. map_option so_current (socks_heap w p),
     sm_set = \<lambda>v. upd_socks p (\<lambda>s. s\<lparr>so_current := v\<rparr>)\<rparr>"

section \<open>Releasing a session\<close>

definition socks5_free :: "nat \<Rightarrow> proxy \<Rightarrow> proxy option" where
  "socks5_free p w = do { s \<leftarrow> socks_heap w p; Some (w\<lparr>socks_heap := (socks_heap w)(p := None)\<rparr>) }"

abbreviation (input) max_pool :: u32 where "max_pool \<equiv> 50"

definition socks5_destroy :: "nat option \<Rightarrow> proxy \<Rightarrow> proxy option" where
  "socks5_destroy ptr w =
     (case ptr of
        None \<Rightarrow> Some w
      | Some p \<Rightarrow> do {
          s \<leftarrow> socks_heap w p;
          if so_references s = 1 then
            (if pool_size w < max_pool
             then Some ((put_socks p (s\<lparr>so_resolution := [], so_next := pool w\<rparr>) w)
                          \<lparr>pool := Some p, pool_size := pool_size w + 1\<rparr>)
             else socks5_free p w)
          else Some (put_socks p (s\<lparr>so_references := so_references s - 1\<rparr>) w)
        })"

partial_function (option) pool_free :: "nat option \<Rightarrow> proxy \<Rightarrow> proxy option" where
  "pool_free x w =
     (case x of
        None \<Rightarrow> Some w
      | Some p \<Rightarrow> do { s \<leftarrow> socks_heap w p; pool_free (so_next s) (w\<lparr>socks_heap := (socks_heap w)(p := None)\<rparr>) })"

definition socksv5_pool_destroy :: "proxy \<Rightarrow> proxy option" where
  "socksv5_pool_destroy w = do { w \<leftarrow> pool_free (pool w) w; Some (w\<lparr>pool := None, pool_size := 0\<rparr>) }"

text \<open>Taking a session out of the doubly linked list of the active ones.\<close>

definition active_list_remove :: "nat \<Rightarrow> proxy \<Rightarrow> proxy option" where
  "active_list_remove p w = do {
     s \<leftarrow> socks_heap w p;
     w \<leftarrow> (case so_active_prev s of
             Some q \<Rightarrow> upd_socks q (\<lambda>t. t\<lparr>so_active_next := so_active_next s\<rparr>) w
           | None \<Rightarrow> Some (w\<lparr>g_active_head := so_active_next s\<rparr>));
     w \<leftarrow> (case so_active_next s of
             Some q \<Rightarrow> upd_socks q (\<lambda>t. t\<lparr>so_active_prev := so_active_prev s\<rparr>) w
           | None \<Rightarrow> Some w);
     upd_socks p (\<lambda>s. s\<lparr>so_active_prev := None, so_active_next := None\<rparr>) w
   }"

text \<open>The loop over the descriptors of a session: a failure to unregister one is \<^verbatim>\<open>abort()\<close>.\<close>

fun close_fds :: "proxy_host \<Rightarrow> int list \<Rightarrow> proxy \<Rightarrow> proxy option" where
  "close_fds H [] w = Some w"
| "close_fds H (fd # rest) w =
     (if fd \<noteq> -1 then do {
        (st, w) \<leftarrow> selector_unregister_fd H fd w;
        if st \<noteq> SELECTOR_SUCCESS then None
        else close_fds H rest (w\<lparr>kern := k_close fd (kern w)\<rparr>)
      } else close_fds H rest w)"

definition socksv5_done :: "proxy_host \<Rightarrow> nat \<Rightarrow> proxy \<Rightarrow> proxy option" where
  "socksv5_done H p w = do {
     w \<leftarrow> socks5_log_event p w;
     w \<leftarrow> active_list_remove p w;
     let w = (if socks_active w > 0 then w\<lparr>socks_active := socks_active w - 1\<rparr> else w);
     let w = count metrics_conn_closed w;
     s \<leftarrow> socks_heap w p;
     close_fds H [so_client_fd s, so_origin_fd s] w
   }"

section \<open>The handlers\<close>

text \<open>
  The loop of \<^verbatim>\<open>socksv5_pump\<close>, with \<open>n\<close> iterations left; using them all up is \<open>None\<close>. Each iteration
  moves to a later state of the negotiation or empties the read buffer, so twelve are enough.
\<close>

fun pump :: "proxy_host \<Rightarrow> nat \<Rightarrow> nat \<Rightarrow> socks_key \<Rightarrow> nat \<Rightarrow> proxy \<Rightarrow> (nat \<times> proxy) option" where
  "pump H 0 p key st w = None"
| "pump H (Suc n) p key st w = do {
     s \<leftarrow> socks_heap w p;
     if (st = HELLO_READ \<or> st = AUTH_READ \<or> st = REQUEST_READ) \<and> buffer_can_read (so_read_buffer s) then do {
       (st, w) \<leftarrow> stm_handler_read (client_stm H p) key w;
       pump H n p key st w
     }
     else if st = HELLO_WRITE \<or> st = AUTH_WRITE \<or> st = REQUEST_WRITE then do {
       (st', w) \<leftarrow> stm_handler_write (client_stm H p) \<lparr>k_fd = so_client_fd s, k_data = Some (Socks_Ptr p)\<rparr> w;
       if st' = st then Some (st, w) else pump H n p key st' w
     }
     else Some (st, w)
   }"

definition socksv5_pump :: "proxy_host \<Rightarrow> nat \<Rightarrow> socks_key \<Rightarrow> nat \<Rightarrow> proxy \<Rightarrow> (nat \<times> proxy) option" where
  "socksv5_pump H p key st w = pump H 12 p key st w"

text \<open>The end of the three handlers.\<close>

definition socksv5_finish :: "proxy_host \<Rightarrow> string \<Rightarrow> nat \<Rightarrow> nat \<Rightarrow> proxy \<Rightarrow> proxy option" where
  "socksv5_finish H reason p st w =
     (if st = ERROR \<or> st = DONE then do {
        w \<leftarrow> (if st = ERROR then upd_socks p (socks5_set_failure reason) w else Some w);
        socksv5_done H p w
      } else Some w)"

definition socksv5_read :: "proxy_host \<Rightarrow> socks_key \<Rightarrow> proxy \<Rightarrow> proxy option" where
  "socksv5_read H key w = do {
     (p, s) \<leftarrow> ATTACHMENT key w;
     (st, w) \<leftarrow> stm_handler_read (client_stm H p) key w;
     (st, w) \<leftarrow> socksv5_pump H p key st w;
     socksv5_finish H ''read error'' p st w
   }"

definition socksv5_write :: "proxy_host \<Rightarrow> socks_key \<Rightarrow> proxy \<Rightarrow> proxy option" where
  "socksv5_write H key w = do {
     (p, s) \<leftarrow> ATTACHMENT key w;
     (st, w) \<leftarrow> stm_handler_write (client_stm H p) key w;
     (st, w) \<leftarrow> socksv5_pump H p key st w;
     socksv5_finish H ''write error'' p st w
   }"

definition socksv5_block :: "proxy_host \<Rightarrow> socks_key \<Rightarrow> proxy \<Rightarrow> proxy option" where
  "socksv5_block H key w = do {
     (p, s) \<leftarrow> ATTACHMENT key w;
     (st, w) \<leftarrow> stm_handler_block (client_stm H p) key w;
     socksv5_finish H ''block error'' p st w
   }"

definition socksv5_close :: "socks_key \<Rightarrow> proxy \<Rightarrow> proxy option" where
  "socksv5_close key w = (case k_data key of Some (Mng_Ptr _) \<Rightarrow> None | _ \<Rightarrow> socks5_destroy (socks_ptr key) w)"

section \<open>New sessions\<close>

text \<open>The session after \<^verbatim>\<open>memset\<close> and the assignments of \<^verbatim>\<open>socks5_new\<close>.\<close>

definition fresh_socks5 :: "int \<Rightarrow> int \<Rightarrow> config option \<Rightarrow> socks5" where
  "fresh_socks5 fd now conf =
     \<lparr>so_client_fd = fd, so_origin_fd = -1, so_resolution = [],
      so_read_buffer = buffer_init BUFFER_SIZE (replicate BUFFER_SIZE 0),
      so_write_buffer = buffer_init BUFFER_SIZE (replicate BUFFER_SIZE 0),
      so_current = None, so_client = C_zero, so_orig = O_conn \<lparr>cn_current = [], cn_reply = 0\<rparr>,
      so_references = 1, so_next = None, so_active_prev = None, so_active_next = None,
      so_negotiation_deadline = (case conf of
         Some c \<Rightarrow> if negotiation_timeout c > 0 then now + negotiation_timeout c else 0 | None \<Rightarrow> 0),
      so_connect_deadline = 0, so_last_activity = now, so_user = replicate USER_MAX_LEN NUL,
      so_destination = replicate DESTINATION_MAX_LEN NUL, so_port = 0, so_destination_set = False,
      so_tunnel_opened = False, so_log_emitted = False, so_failure = None\<rparr>"

text \<open>A session from the pool or from \<^verbatim>\<open>malloc\<close>, or none.\<close>

definition socks5_new :: "proxy_host \<Rightarrow> int \<Rightarrow> proxy \<Rightarrow> (nat option \<times> proxy) option" where
  "socks5_new H client_fd w = do {
     (ptr, w) \<leftarrow> (case pool w of
        Some p \<Rightarrow> do { s \<leftarrow> socks_heap w p; Some (Some p, w\<lparr>pool := so_next s, pool_size := pool_size w - 1\<rparr>) }
      | None \<Rightarrow> (case k_alloc (kern w) of
                   (mem, k) \<Rightarrow> if mem then Some (Some (next_ptr w), w\<lparr>kern := k, next_ptr := next_ptr w + 1\<rparr>)
                                else Some (None, w\<lparr>kern := k\<rparr>)));
     case ptr of
       None \<Rightarrow> Some (None, w)
     | Some p \<Rightarrow> do {
         w \<leftarrow> stm_init (client_stm H p) (put_socks p (fresh_socks5 client_fd (clock w) (g_config w)) w);
         Some (Some p, w)
       }
   }"

definition active_list_add :: "nat \<Rightarrow> proxy \<Rightarrow> proxy option" where
  "active_list_add p w = do {
     w \<leftarrow> upd_socks p (\<lambda>s. s\<lparr>so_active_prev := None, so_active_next := g_active_head w\<rparr>) w;
     w \<leftarrow> (case g_active_head w of
             Some q \<Rightarrow> upd_socks q (\<lambda>t. t\<lparr>so_active_prev := Some p\<rparr>) w
           | None \<Rightarrow> Some w);
     Some (w\<lparr>g_active_head := Some p\<rparr>)
   }"

text \<open>The label \<^verbatim>\<open>fail\<close>, with the accepted descriptor, if any, and the session, if any.\<close>

definition accept_fail :: "int option \<Rightarrow> nat option \<Rightarrow> proxy \<Rightarrow> proxy option" where
  "accept_fail client ptr w =
     (let w = (case client of Some fd \<Rightarrow> w\<lparr>kern := k_close fd (kern w)\<rparr> | None \<Rightarrow> w)
      in socks5_destroy ptr (count metrics_conn_rejected w))"

definition socksv5_passive_accept :: "proxy_host \<Rightarrow> socks_key \<Rightarrow> proxy \<Rightarrow> proxy option" where
  "socksv5_passive_accept H key w =
     (case k_do_accept (k_fd key) (kern w) of
        (Inl e, k) \<Rightarrow> accept_fail None None (w\<lparr>kern := k\<rparr>)
      | (Inr client, k) \<Rightarrow>
          (case k_set_nio client k of
             (False, k) \<Rightarrow> accept_fail (Some client) None (w\<lparr>kern := k\<rparr>)
           | (True, k) \<Rightarrow>
               (let w = w\<lparr>kern := k\<rparr>
                in if (case g_config w of
                         Some c \<Rightarrow> max_connections c > 0 \<and> socks_active w \<ge> of_int (max_connections c) | None \<Rightarrow> False)
                   then Some (count metrics_conn_rejected (w\<lparr>kern := k_close client (kern w)\<rparr>))
                   else do {
                     (ptr, w) \<leftarrow> socks5_new H client w;
                     case ptr of
                       None \<Rightarrow> accept_fail (Some client) None w
                     | Some p \<Rightarrow> do {
                         let (mem, k) = k_alloc (kern w);
                         (st, sl) \<leftarrow> selector_register mem client (Some socks5_handler) OP_READ (Some (Socks_Ptr p)) (sel w);
                         let w = w\<lparr>kern := k, sel := sl\<rparr>;
                         if st \<noteq> SELECTOR_SUCCESS then accept_fail (Some client) (Some p) w
                         else do {
                           w \<leftarrow> active_list_add p (w\<lparr>socks_active := socks_active w + 1\<rparr>);
                           Some (count metrics_conn_accepted w)
                         }
                       }
                   })))"

definition socksv5_active_sessions :: "proxy \<Rightarrow> u32" where
  "socksv5_active_sessions w = socks_active w"

section \<open>Timeouts\<close>

text \<open>What the sweep does with one session.\<close>

definition sweep_one :: "proxy_host \<Rightarrow> nat \<Rightarrow> proxy \<Rightarrow> proxy option" where
  "sweep_one H p w = do {
     s \<leftarrow> socks_heap w p;
     st \<leftarrow> stm_state (client_stm H p) w;
     let now = clock w;
     if st = CONNECTING then
       (if so_connect_deadline s \<noteq> 0 \<and> now \<ge> so_connect_deadline s then connecting_timeout H p w else Some w)
     else if st = COPY then
       (if (case g_config w of Some c \<Rightarrow> idle_timeout c > 0 \<and> now - so_last_activity s \<ge> idle_timeout c | None \<Rightarrow> False)
        then do { w \<leftarrow> upd_socks p (socks5_set_failure ''idle timeout'') w; socksv5_done H p w }
        else Some w)
     else if st \<noteq> DONE \<and> st \<noteq> ERROR \<and> st \<noteq> REQUEST_RESOLV then
       (if so_negotiation_deadline s \<noteq> 0 \<and> now \<ge> so_negotiation_deadline s
        then do { w \<leftarrow> upd_socks p (socks5_set_failure ''negotiation timeout'') w; socksv5_done H p w }
        else Some w)
     else Some w
   }"

partial_function (option) sweep :: "proxy_host \<Rightarrow> nat option \<Rightarrow> proxy \<Rightarrow> proxy option" where
  "sweep H x w =
     (case x of
        None \<Rightarrow> Some w
      | Some p \<Rightarrow> do { s \<leftarrow> socks_heap w p; w \<leftarrow> sweep_one H p w; sweep H (so_active_next s) w })"

definition socksv5_check_timeouts :: "proxy_host \<Rightarrow> proxy \<Rightarrow> proxy option" where
  "socksv5_check_timeouts H w = sweep H (g_active_head w) w"

end
