(* ===== verification/Socks5_Inv.thy ===== *)
theory Socks5_Inv
  imports Socks5 Mng_Session
begin

text \<open>
  The invariant of the server. \<open>world\<close> is what holds of the whole at every moment of a handler: the
  registrations and who owns them, the list of the active sessions and the pool, the jobs of the resolver.
  \<open>at\<close> says, for every state of a session, what its union holds, which events it waits for, and how the
  bytes that have come and gone on its two sockets relate to its buffers. \<open>own\<close> is the view from inside a
  handler that works on one session.
\<close>

section \<open>Sessions\<close>

abbreviation rb :: "socks5 \<Rightarrow> byte list" where "rb s \<equiv> buffer_contents (so_read_buffer s)"
abbreviation wb :: "socks5 \<Rightarrow> byte list" where "wb s \<equiv> buffer_contents (so_write_buffer s)"

definition sess_wf :: "socks5 \<Rightarrow> bool" where
  "sess_wf s \<longleftrightarrow> buffer_wf (so_read_buffer s) \<and> b_limit (so_read_buffer s) = BUFFER_SIZE
     \<and> buffer_wf (so_write_buffer s) \<and> b_limit (so_write_buffer s) = BUFFER_SIZE
     \<and> length (so_user s) = USER_MAX_LEN \<and> length (so_destination s) = DESTINATION_MAX_LEN
     \<and> (so_tunnel_opened s \<longrightarrow> (\<exists>c. so_client s = C_copy c) \<and> (\<exists>c. so_orig s = O_copy c))"

text \<open>The references: one per registered descriptor, and one while the resolver has a job of the session.\<close>

definition held :: "socks5 \<Rightarrow> bool \<Rightarrow> bool" where
  "held s d \<longleftrightarrow> so_references s = 1 + (if so_origin_fd s \<noteq> -1 then 1 else 0) + (if d then 1 else 0)"

type_synonym regmap = "int \<Rightarrow> (handler \<times> u32 \<times> attachment option) option"

definition registered :: "nat \<Rightarrow> socks5 \<Rightarrow> u32 \<Rightarrow> u32 \<Rightarrow> regmap \<Rightarrow> bool" where
  "registered p s ci oi R \<longleftrightarrow> R (so_client_fd s) = Some (socks5_handler, ci, Some (Socks_Ptr p))
     \<and> (so_origin_fd s \<noteq> -1 \<longrightarrow> R (so_origin_fd s) = Some (socks5_handler, oi, Some (Socks_Ptr p))
          \<and> so_origin_fd s \<noteq> so_client_fd s)"

text \<open>What has passed on the two sockets of a session, and the address its origin was connected to.\<close>

type_synonym talk = "byte list \<times> byte list \<times> byte list \<times> byte list \<times> sockaddr option"

definition talk_of :: "socks5 \<Rightarrow> kernel \<Rightarrow> talk" where
  "talk_of s k = (k_rx k (so_client_fd s), k_tx k (so_client_fd s), k_rx k (so_origin_fd s), k_tx k (so_origin_fd s),
     k_peer k (so_origin_fd s))"

section \<open>The states of a session\<close>

text \<open>Before the connection to the origin.\<close>

definition early :: "socks5 \<Rightarrow> bool" where
  "early s \<longleftrightarrow> so_origin_fd s = -1 \<and> (\<exists>c. so_orig s = O_conn c \<and> cn_current c = []) \<and> so_resolution s = []
     \<and> \<not> so_tunnel_opened s"

definition hello_start :: "hello_offer hello_parser" where
  "hello_start = hello_parser_init \<lparr>on_authentication_method = Some on_hello_method,
     hp_data = \<lparr>no_auth_offered = False, user_pass_offered = False\<rparr>, hp_state = hello_version, hp_remaining = 0\<rparr>"

definition greeting :: "byte list \<Rightarrow> bool" where
  "greeting ms \<longleftrightarrow> 0 < length ms \<and> length ms < 256"

definition at_hello_read :: "socks5 \<Rightarrow> u32 \<Rightarrow> talk \<Rightarrow> bool" where
  "at_hello_read s ci T \<longleftrightarrow> (case T of (crx, ctx, orx, otx, peer) \<Rightarrow> \<exists>h used. so_client s = C_hello h
     \<and> hello_hist hello_start False (he_parser h, False) used \<and> \<not> hello_final (he_parser h, False)
     \<and> crx = used @ rb s \<and> ctx = [] \<and> wb s = [] \<and> early s \<and> ci = OP_READ)"

text \<open>The method chosen is one that was offered, or the refusal.\<close>

definition method_ok :: "byte \<Rightarrow> byte list \<Rightarrow> bool" where
  "method_ok m ms \<longleftrightarrow> m = SOCKS_HELLO_NO_ACCEPTABLE_METHODS
     \<or> m \<in> {SOCKS_HELLO_NOAUTHENTICATION_REQUIRED, SOCKS_HELLO_USERNAME_PASSWORD} \<and> m \<in> set ms"

definition at_hello_write :: "socks5 \<Rightarrow> u32 \<Rightarrow> talk \<Rightarrow> bool" where
  "at_hello_write s ci T \<longleftrightarrow> (case T of (crx, ctx, orx, otx, peer) \<Rightarrow> \<exists>h ms. so_client s = C_hello h
     \<and> greeting ms \<and> method_ok (he_method h) ms \<and> crx = hello_msg ms @ rb s
     \<and> ctx @ wb s = [SOCKS_VERSION, he_method h] \<and> early s \<and> ci = OP_WRITE)"

definition enter_auth :: "socks5 \<Rightarrow> u32 \<Rightarrow> talk \<Rightarrow> bool" where
  "enter_auth s ci T \<longleftrightarrow> (case T of (crx, ctx, orx, otx, peer) \<Rightarrow> \<exists>ms. greeting ms
     \<and> SOCKS_HELLO_USERNAME_PASSWORD \<in> set ms \<and> crx = hello_msg ms @ rb s
     \<and> ctx = [SOCKS_VERSION, SOCKS_HELLO_USERNAME_PASSWORD] \<and> wb s = [] \<and> early s \<and> ci = OP_READ)"

definition at_auth_read :: "socks5 \<Rightarrow> u32 \<Rightarrow> talk \<Rightarrow> bool" where
  "at_auth_read s ci T \<longleftrightarrow> (case T of (crx, ctx, orx, otx, peer) \<Rightarrow> \<exists>a ms used. so_client s = C_auth a \<and> greeting ms
     \<and> SOCKS_HELLO_USERNAME_PASSWORD \<in> set ms \<and> auth_hist False (au_parser a, False) used
     \<and> \<not> auth_final (au_parser a, False) \<and> crx = hello_msg ms @ used @ rb s
     \<and> ctx = [SOCKS_VERSION, SOCKS_HELLO_USERNAME_PASSWORD] \<and> wb s = [] \<and> early s \<and> ci = OP_READ)"

text \<open>Credentials that fit their length bytes.\<close>

definition credentials :: "byte list \<Rightarrow> byte list \<Rightarrow> bool" where
  "credentials us ps \<longleftrightarrow> 0 < length us \<and> length us < 256 \<and> 0 < length ps \<and> length ps < 256"

definition at_auth_write :: "socks5 \<Rightarrow> u32 \<Rightarrow> talk \<Rightarrow> bool" where
  "at_auth_write s ci T \<longleftrightarrow> (case T of (crx, ctx, orx, otx, peer) \<Rightarrow> \<exists>a ms us ps. so_client s = C_auth a \<and> greeting ms
     \<and> SOCKS_HELLO_USERNAME_PASSWORD \<in> set ms \<and> credentials us ps
     \<and> (au_status a = 0 \<longrightarrow> cstr (so_user s) = cstr (map chr us)) \<and> crx = hello_msg ms @ auth_msg us ps @ rb s
     \<and> ctx @ wb s = [SOCKS_VERSION, SOCKS_HELLO_USERNAME_PASSWORD, AUTH_VERSION, au_status a] \<and> early s \<and> ci = OP_WRITE)"

text \<open>What the client has sent and got when the negotiation is over, and who it is.\<close>

definition negotiated :: "byte list \<Rightarrow> byte list \<Rightarrow> char list \<Rightarrow> bool" where
  "negotiated n m user \<longleftrightarrow>
     (\<exists>ms. greeting ms \<and> SOCKS_HELLO_NOAUTHENTICATION_REQUIRED \<in> set ms \<and> n = hello_msg ms
        \<and> m = [SOCKS_VERSION, SOCKS_HELLO_NOAUTHENTICATION_REQUIRED])
   \<or> (\<exists>ms us ps. greeting ms \<and> SOCKS_HELLO_USERNAME_PASSWORD \<in> set ms \<and> credentials us ps
        \<and> n = hello_msg ms @ auth_msg us ps \<and> cstr user = cstr (map chr us)
        \<and> m = [SOCKS_VERSION, SOCKS_HELLO_USERNAME_PASSWORD, AUTH_VERSION, 0])"

definition enter_request :: "socks5 \<Rightarrow> u32 \<Rightarrow> talk \<Rightarrow> bool" where
  "enter_request s ci T \<longleftrightarrow> (case T of (crx, ctx, orx, otx, peer) \<Rightarrow> \<exists>n. negotiated n ctx (so_user s)
     \<and> crx = n @ rb s \<and> wb s = [] \<and> early s \<and> ci = OP_READ)"

definition at_request_read :: "socks5 \<Rightarrow> u32 \<Rightarrow> talk \<Rightarrow> bool" where
  "at_request_read s ci T \<longleftrightarrow> (case T of (crx, ctx, orx, otx, peer) \<Rightarrow> \<exists>n r used. so_client s = C_request r
     \<and> negotiated n ctx (so_user s) \<and> request_hist (Some False) (rt_parser r, Some False) used
     \<and> \<not> request_final (rt_parser r, Some False) \<and> crx = n @ used @ rb s \<and> wb s = [] \<and> early s \<and> ci = OP_READ)"

text \<open>A request read in full: the session knows its destination.\<close>

definition requested :: "socks5 \<Rightarrow> byte list \<Rightarrow> byte list \<Rightarrow> dest \<Rightarrow> u16 \<Rightarrow> byte list \<Rightarrow> bool" where
  "requested s n m d port req \<longleftrightarrow> negotiated n m (so_user s) \<and> so_port s = port \<and> so_destination_set s
     \<and> (\<exists>r hi lo. req = request_msg r d hi lo \<and> port = port_of hi lo)"

definition asks_for :: "request_st \<Rightarrow> dest \<Rightarrow> u16 \<Rightarrow> bool" where
  "asks_for r d port \<longleftrightarrow> holds_dest (rq_dest_addr (rp_request (rt_parser r))) d \<and> rq_dest_port (rp_request (rt_parser r)) = port"

definition at_resolv :: "socks5 \<Rightarrow> u32 \<Rightarrow> talk \<Rightarrow> bool" where
  "at_resolv s ci T \<longleftrightarrow> (case T of (crx, ctx, orx, otx, peer) \<Rightarrow> \<exists>r n d port req. so_client s = C_request r
     \<and> requested s n ctx d port req \<and> asks_for r d port \<and> (\<exists>ns. d = FQDN ns) \<and> crx = n @ req @ rb s \<and> wb s = []
     \<and> so_origin_fd s = -1 \<and> (\<exists>c. so_orig s = O_conn c \<and> cn_current c = []) \<and> \<not> so_tunnel_opened s \<and> ci = OP_NOOP)"

text \<open>The addresses that a session may connect to.\<close>

fun may_reach :: "dest \<Rightarrow> u16 \<Rightarrow> sockaddr list \<Rightarrow> sockaddr set" where
  "may_reach (V4 bs) port as = {AF_INET bs (ntohs port)}"
| "may_reach (V6 bs) port as = {AF_INET6 bs (ntohs port)}"
| "may_reach (FQDN ns) port as = set as"

definition connecting_to :: "socks5 \<Rightarrow> talk \<Rightarrow> bool" where
  "connecting_to s T \<longleftrightarrow> (case T of (crx, ctx, orx, otx, peer) \<Rightarrow> \<exists>r n d port req c. so_client s = C_request r
     \<and> requested s n ctx d port req \<and> asks_for r d port \<and> crx = n @ req @ rb s \<and> wb s = []
     \<and> so_orig s = O_conn c \<and> set (cn_current c) \<subseteq> set (so_resolution s)
     \<and> ((\<exists>ns. d = FQDN ns) \<longleftrightarrow> so_resolution s \<noteq> []) \<and> \<not> so_tunnel_opened s
     \<and> (so_origin_fd s \<noteq> -1 \<longrightarrow> orx = [] \<and> otx = [] \<and> (\<exists>a \<in> may_reach d port (so_resolution s). peer = Some a)))"

definition enter_connecting :: "socks5 \<Rightarrow> u32 \<Rightarrow> talk \<Rightarrow> bool" where
  "enter_connecting s ci T \<longleftrightarrow> connecting_to s T \<and> so_origin_fd s = -1 \<and> ci = OP_NOOP
     \<and> (\<exists>c. so_orig s = O_conn c \<and> cn_current c = so_resolution s)"

text \<open>While connecting the client waits for writing exactly when there is no origin any more.\<close>

definition at_connecting :: "socks5 \<Rightarrow> u32 \<Rightarrow> u32 \<Rightarrow> talk \<Rightarrow> bool" where
  "at_connecting s ci oi T \<longleftrightarrow> connecting_to s T \<and> (\<forall>c. so_orig s = O_conn c \<longrightarrow> cn_reply c \<noteq> SOCKS_REPLY_SUCCEEDED)
     \<and> (if so_origin_fd s = -1 then ci = OP_WRITE else ci = OP_NOOP \<and> oi = OP_WRITE)"

definition reply_msg :: "byte \<Rightarrow> byte list" where
  "reply_msg reply = [SOCKS_VERSION, reply, SOCKS_RSV, SOCKS_ATYP_IPV4, 0, 0, 0, 0, 0, 0]"

text \<open>A tunnel to the origin that the client asked for.\<close>

definition tunnel :: "socks5 \<Rightarrow> byte list \<Rightarrow> byte list \<Rightarrow> sockaddr option \<Rightarrow> bool" where
  "tunnel s n m peer \<longleftrightarrow> so_origin_fd s \<noteq> -1 \<and> (\<exists>n' d port req. requested s n' m d port req \<and> n = n' @ req
     \<and> (\<exists>a \<in> may_reach d port (so_resolution s). peer = Some a))"

definition at_request_write :: "socks5 \<Rightarrow> u32 \<Rightarrow> u32 \<Rightarrow> talk \<Rightarrow> bool" where
  "at_request_write s ci oi T \<longleftrightarrow> (case T of (crx, ctx, orx, otx, peer) \<Rightarrow> \<exists>r n m c. so_client s = C_request r
     \<and> so_orig s = O_conn c \<and> crx = n @ rb s \<and> ctx @ wb s = m @ reply_msg (rt_reply r) \<and> \<not> so_tunnel_opened s
     \<and> ci = OP_WRITE
     \<and> (if rt_reply r = SOCKS_REPLY_SUCCEEDED then tunnel s n m peer \<and> orx = [] \<and> otx = [] \<and> oi = OP_NOOP
        else so_origin_fd s = -1))"

definition enter_copy :: "socks5 \<Rightarrow> talk \<Rightarrow> bool" where
  "enter_copy s T \<longleftrightarrow> (case T of (crx, ctx, orx, otx, peer) \<Rightarrow> \<exists>n m. crx = n @ rb s
     \<and> ctx = m @ reply_msg SOCKS_REPLY_SUCCEEDED \<and> wb s = [] \<and> \<not> so_tunnel_opened s
     \<and> tunnel s n m peer \<and> orx = [] \<and> otx = [])"

text \<open>One direction of the relay: once the source has ended and the buffer is empty, the other side is shut.\<close>

definition flow_ok :: "copy \<Rightarrow> buffer \<Rightarrow> bool" where
  "flow_ok c b \<longleftrightarrow> (cp_write_closed c \<longleftrightarrow> cp_eof c \<and> buffer_contents b = [])"

definition copying :: "socks5 \<Rightarrow> copy \<Rightarrow> copy \<Rightarrow> talk \<Rightarrow> bool" where
  "copying s c oc T \<longleftrightarrow> (case T of (crx, ctx, orx, otx, peer) \<Rightarrow> \<exists>n m. so_client s = C_copy c \<and> so_orig s = O_copy oc
     \<and> cp_rb c = Read_Buffer \<and> cp_read_fd c = so_client_fd s \<and> cp_write_fd c = so_origin_fd s
     \<and> cp_rb oc = Write_Buffer \<and> cp_read_fd oc = so_origin_fd s \<and> cp_write_fd oc = so_client_fd s
     \<and> tunnel s n m peer \<and> crx = n @ otx @ rb s
     \<and> ctx @ wb s = m @ reply_msg SOCKS_REPLY_SUCCEEDED @ orx
     \<and> cp_transferred c = of_nat (length otx)
     \<and> of_nat (length m) + of_nat (length (reply_msg 0)) + cp_transferred oc = (of_nat (length ctx) :: u64))"

definition at_copy :: "socks5 \<Rightarrow> u32 \<Rightarrow> u32 \<Rightarrow> talk \<Rightarrow> bool" where
  "at_copy s ci oi T \<longleftrightarrow> (\<exists>c oc. copying s c oc T \<and> flow_ok c (so_read_buffer s) \<and> flow_ok oc (so_write_buffer s)
     \<and> \<not> (cp_write_closed c \<and> cp_write_closed oc)
     \<and> copy_client_interest s = Some ci \<and> copy_origin_interest s = Some oi)"

definition at_start :: "socks5 \<Rightarrow> u32 \<Rightarrow> talk \<Rightarrow> bool" where
  "at_start s ci T \<longleftrightarrow> (case T of (crx, ctx, orx, otx, peer) \<Rightarrow> crx = [] \<and> ctx = [] \<and> rb s = [] \<and> wb s = [] \<and> early s \<and> ci = OP_READ)"

text \<open>A session that rests in a state, and one that is about to arrive at it (before the arrival callback).\<close>

fun at :: "nat option \<Rightarrow> socks5 \<Rightarrow> u32 \<Rightarrow> u32 \<Rightarrow> talk \<Rightarrow> bool" where
  "at None s ci oi T = at_start s ci T"
| "at (Some st) s ci oi T =
     (if st = HELLO_READ then at_hello_read s ci T
      else if st = HELLO_WRITE then at_hello_write s ci T
      else if st = AUTH_READ then at_auth_read s ci T
      else if st = AUTH_WRITE then at_auth_write s ci T
      else if st = REQUEST_READ then at_request_read s ci T
      else if st = REQUEST_RESOLV then at_resolv s ci T
      else if st = CONNECTING then at_connecting s ci oi T
      else if st = REQUEST_WRITE then at_request_write s ci oi T
      else if st = COPY then at_copy s ci oi T
      else st = DONE \<or> st = ERROR)"

definition entering :: "nat \<Rightarrow> socks5 \<Rightarrow> u32 \<Rightarrow> u32 \<Rightarrow> talk \<Rightarrow> bool" where
  "entering st s ci oi T \<longleftrightarrow>
     (if st = AUTH_READ then enter_auth s ci T
      else if st = REQUEST_READ then enter_request s ci T
      else if st = CONNECTING then enter_connecting s ci T
      else if st = COPY then enter_copy s T
      else st \<noteq> HELLO_READ \<and> at (Some st) s ci oi T)"

section \<open>The whole server\<close>

text \<open>
  The ghost of an invariant: the finished jobs in the selector, those of them still to be handed out, the
  queue of the resolver, the active sessions and the pool.
\<close>

record ghost =
  finished :: "int list"
  pending :: "int list"
  queued :: "nat list"
  active :: "nat list"
  pooled :: "nat list"

fun dll :: "(nat \<Rightarrow> socks5 option) \<Rightarrow> nat option \<Rightarrow> nat option \<Rightarrow> nat list \<Rightarrow> bool" where
  "dll h pr x [] \<longleftrightarrow> x = None"
| "dll h pr x (p # ps) \<longleftrightarrow> x = Some p \<and> (case h p of None \<Rightarrow> False
     | Some s \<Rightarrow> so_active_prev s = pr \<and> dll h (Some p) (so_active_next s) ps)"

fun pool_list :: "(nat \<Rightarrow> socks5 option) \<Rightarrow> nat option \<Rightarrow> nat list \<Rightarrow> bool" where
  "pool_list h x [] \<longleftrightarrow> x = None"
| "pool_list h x (p # ps) \<longleftrightarrow> x = Some p \<and> (case h p of None \<Rightarrow> False | Some s \<Rightarrow> pool_list h (so_next s) ps)"

definition in_hand :: "proxy \<Rightarrow> nat list" where
  "in_hand w = (case dns_thread w of T_Resolve j \<Rightarrow> [j] | T_Notify j \<Rightarrow> [j] | _ \<Rightarrow> [])"

definition job_fd :: "proxy \<Rightarrow> nat \<Rightarrow> int" where
  "job_fd w j = (case g_dns_worker w of None \<Rightarrow> -1 | Some d \<Rightarrow> (case w_jobs d j of None \<Rightarrow> -1 | Some job \<Rightarrow> j_fd job))"

text \<open>The descriptors whose sessions still wait for the resolver.\<close>

definition owed :: "ghost \<Rightarrow> proxy \<Rightarrow> int list" where
  "owed g w = map (job_fd w) (queued g @ in_hand w) @ pending g"

text \<open>The descriptors of the session at a pointer.\<close>

definition fds_of :: "proxy \<Rightarrow> nat \<Rightarrow> (int \<times> int) option" where
  "fds_of w p = map_option (\<lambda>s. (so_client_fd s, so_origin_fd s)) (socks_heap w p)"

definition job_ok :: "ghost \<Rightarrow> proxy \<Rightarrow> dns_worker \<Rightarrow> nat \<Rightarrow> bool" where
  "job_ok g w d j \<longleftrightarrow> (\<exists>job og. w_jobs d j = Some job \<and> j_target job \<in> set (active g)
     \<and> fds_of w (j_target job) = Some (j_fd job, og))"

definition dns_ok :: "ghost \<Rightarrow> proxy \<Rightarrow> bool" where
  "dns_ok g w \<longleftrightarrow> distinct (queued g @ in_hand w)
     \<and> (case g_dns_worker w of
          None \<Rightarrow> queued g = [] \<and> in_hand w = []
        | Some d \<Rightarrow> queue_ok d (queued g) \<and> (\<forall>j \<in> set (queued g @ in_hand w). job_ok g w d j))
     \<and> distinct (owed g w)
     \<and> (\<forall>fd \<in> set (owed g w). \<exists>p \<in> set (active g). \<exists>og. fds_of w p = Some (fd, og))"

definition mng_reg :: "int \<Rightarrow> u32 \<Rightarrow> attachment option \<Rightarrow> proxy \<Rightarrow> bool" where
  "mng_reg fd i d w \<longleftrightarrow> (\<exists>p m. d = Some (Mng_Ptr p) \<and> mng_heap w p = Some m \<and> session_wf m \<and> ms_fd m = fd
     \<and> i = (if ms_out_len m = 0 then OP_READ else OP_WRITE) \<and> p < next_ptr w)"

definition socks_reg :: "ghost \<Rightarrow> int \<Rightarrow> attachment option \<Rightarrow> proxy \<Rightarrow> bool" where
  "socks_reg g fd d w \<longleftrightarrow> (\<exists>p \<in> set (active g). \<exists>c og. d = Some (Socks_Ptr p) \<and> fds_of w p = Some (c, og)
     \<and> (fd = c \<or> fd = og))"

definition owner_ok :: "ghost \<Rightarrow> proxy \<Rightarrow> int \<Rightarrow> handler \<Rightarrow> u32 \<Rightarrow> attachment option \<Rightarrow> bool" where
  "owner_ok g w fd h i d \<longleftrightarrow> (case h of
     socks5_handler \<Rightarrow> socks_reg g fd d w
   | mng_handler \<Rightarrow> mng_reg fd i d w
   | _ \<Rightarrow> i = OP_READ \<and> d = None)"

text \<open>The two listening sockets stay registered for as long as \<^verbatim>\<open>main\<close> has them.\<close>

definition listens :: "proxy \<Rightarrow> bool" where
  "listens w \<longleftrightarrow> (0 \<le> socks_fd w \<longrightarrow> regs (sel w) (socks_fd w) = Some (socks_passive_handler, OP_READ, None))
     \<and> (0 \<le> mng_fd w \<longrightarrow> regs (sel w) (mng_fd w) = Some (mng_passive_handler, OP_READ, None))"

definition world :: "ghost \<Rightarrow> proxy \<Rightarrow> bool" where
  "world g w \<longleftrightarrow> full_sel (sel w) \<and> resolution_jobs (sel w) = finished g
     \<and> distinct (active g @ pooled g) \<and> dll (socks_heap w) None (g_active_head w) (active g)
     \<and> pool_list (socks_heap w) (pool w) (pooled g) \<and> (\<forall>p. socks_heap w p \<noteq> None \<longrightarrow> p < next_ptr w)
     \<and> pool_size w = of_nat (length (pooled g)) \<and> length (pooled g) \<le> 50
     \<and> socks_active w = of_nat (length (active g))
     \<and> (\<forall>fd h i d. regs (sel w) fd = Some (h, i, d) \<longrightarrow> fd \<in> set (k_open (kern w)) \<and> owner_ok g w fd h i d)
     \<and> (\<forall>u. g_users w = Some u \<longrightarrow> users_wf u) \<and> dns_ok g w \<and> listens w"

text \<open>A session at rest between two events.\<close>

definition settled :: "ghost \<Rightarrow> nat \<Rightarrow> socks5 \<Rightarrow> u32 \<Rightarrow> u32 \<Rightarrow> proxy \<Rightarrow> bool" where
  "settled g p s ci oi w \<longleftrightarrow> sess_wf s \<and> registered p s ci oi (regs (sel w))
     \<and> (so_current s \<in> {Some HELLO_READ, Some AUTH_READ, Some REQUEST_READ} \<longrightarrow> rb s = [])
     \<and> held s (so_current s = Some REQUEST_RESOLV)
     \<and> (so_client_fd s \<in> set (owed g w) \<longrightarrow> so_current s = Some REQUEST_RESOLV)
     \<and> so_current s \<noteq> Some DONE \<and> so_current s \<noteq> Some ERROR \<and> at (so_current s) s ci oi (talk_of s (kern w))"

definition alive :: "ghost \<Rightarrow> proxy \<Rightarrow> nat \<Rightarrow> bool" where
  "alive g w p \<longleftrightarrow> (\<exists>s ci oi. socks_heap w p = Some s \<and> settled g p s ci oi w)"

definition sound :: "ghost \<Rightarrow> proxy \<Rightarrow> bool" where
  "sound g w \<longleftrightarrow> world g w \<and> (\<forall>p \<in> set (active g). alive g w p)"

text \<open>The invariant, with the finished jobs that are still to be handed out and all those of the round.\<close>

definition proxy_inv :: "int list \<Rightarrow> int list \<Rightarrow> proxy \<Rightarrow> bool" where
  "proxy_inv js fs w \<longleftrightarrow> (\<exists>g. sound g w \<and> pending g = js \<and> finished g = fs)"

definition server_inv :: "proxy \<Rightarrow> bool" where
  "server_inv w \<longleftrightarrow> proxy_inv (resolution_jobs (sel w)) (resolution_jobs (sel w)) w"

text \<open>Inside a handler: the session at \<open>p\<close> is \<open>s\<close>, with \<open>ci\<close> and \<open>oi\<close> the interests of its descriptors,
  and \<open>d\<close> whether the resolver holds it; all the others are at rest.\<close>

definition own :: "ghost \<Rightarrow> nat \<Rightarrow> socks5 \<Rightarrow> u32 \<Rightarrow> u32 \<Rightarrow> bool \<Rightarrow> proxy \<Rightarrow> bool" where
  "own g p s ci oi d w \<longleftrightarrow> world g w \<and> p \<in> set (active g) \<and> socks_heap w p = Some s \<and> sess_wf s
     \<and> registered p s ci oi (regs (sel w)) \<and> held s d \<and> (so_client_fd s \<in> set (owed g w) \<longrightarrow> d)
     \<and> (\<forall>q \<in> set (active g) - {p}. alive g w q)"

end
