(* ===== verification/Socks5_Own.thy ===== *)
theory Socks5_Own
  imports Socks5_Inv
begin

text \<open>
  The effect of each elementary action of a handler on the view \<open>own\<close>: assigning to the session, a system
  call on its sockets, an interest, a counter. Every proof about a handler is a chain of these.
\<close>

section \<open>Frames\<close>

lemma dll_cong:
  "(\<And>q. q \<in> set ps \<Longrightarrow> map_option (\<lambda>s. (so_active_prev s, so_active_next s)) (h' q)
      = map_option (\<lambda>s. (so_active_prev s, so_active_next s)) (h q)) \<Longrightarrow> dll h' pr x ps = dll h pr x ps"
proof (induction ps arbitrary: pr x)
  case (Cons p ps)
  from Cons.prems [of p] have e: "map_option (\<lambda>s. (so_active_prev s, so_active_next s)) (h' p)
      = map_option (\<lambda>s. (so_active_prev s, so_active_next s)) (h p)" by simp
  have r: "dll h' (Some p) y ps = dll h (Some p) y ps" for y by (rule Cons.IH) (simp add: Cons.prems)
  show ?case using e by (cases "h p"; cases "h' p") (simp_all add: r)
qed simp

lemma pool_list_cong:
  "(\<And>q. q \<in> set ps \<Longrightarrow> map_option so_next (h' q) = map_option so_next (h q)) \<Longrightarrow> pool_list h' x ps = pool_list h x ps"
proof (induction ps arbitrary: x)
  case (Cons p ps)
  from Cons.prems [of p] have e: "map_option so_next (h' p) = map_option so_next (h p)" by simp
  have r: "pool_list h' y ps = pool_list h y ps" for y by (rule Cons.IH) (simp add: Cons.prems)
  show ?case using e by (cases "h p"; cases "h' p") (simp_all add: r)
qed simp

lemma dll_allocated: "dll h pr x ps \<Longrightarrow> p \<in> set ps \<Longrightarrow> h p \<noteq> None"
  by (induction ps arbitrary: pr x) (auto split: option.splits)

lemma pool_list_allocated: "pool_list h x ps \<Longrightarrow> p \<in> set ps \<Longrightarrow> h p \<noteq> None"
  by (induction ps arbitrary: x) (auto split: option.splits)

text \<open>The parts of a session that the rest of the server refers to.\<close>

definition same_spine :: "socks5 \<Rightarrow> socks5 \<Rightarrow> bool" where
  "same_spine s s' \<longleftrightarrow> so_client_fd s' = so_client_fd s \<and> so_origin_fd s' = so_origin_fd s
     \<and> so_references s' = so_references s \<and> so_next s' = so_next s \<and> so_active_prev s' = so_active_prev s
     \<and> so_active_next s' = so_active_next s"

lemma same_spine_refl [simp]: "same_spine s s"
  by (simp add: same_spine_def)

lemma same_spine_trans: "same_spine s s1 \<Longrightarrow> same_spine s1 s2 \<Longrightarrow> same_spine s s2"
  by (simp add: same_spine_def)

lemma same_spine_upd [simp]:
  "same_spine s (t\<lparr>so_read_buffer := b\<rparr>) \<longleftrightarrow> same_spine s t"
  "same_spine s (t\<lparr>so_write_buffer := b\<rparr>) \<longleftrightarrow> same_spine s t"
  "same_spine s (t\<lparr>so_client := c\<rparr>) \<longleftrightarrow> same_spine s t"
  "same_spine s (t\<lparr>so_orig := oc\<rparr>) \<longleftrightarrow> same_spine s t"
  "same_spine s (t\<lparr>so_current := cu\<rparr>) \<longleftrightarrow> same_spine s t"
  "same_spine s (t\<lparr>so_resolution := rs\<rparr>) \<longleftrightarrow> same_spine s t"
  "same_spine s (t\<lparr>so_connect_deadline := cd\<rparr>) \<longleftrightarrow> same_spine s t"
  "same_spine s (t\<lparr>so_last_activity := la\<rparr>) \<longleftrightarrow> same_spine s t"
  "same_spine s (t\<lparr>so_user := us\<rparr>) \<longleftrightarrow> same_spine s t"
  "same_spine s (t\<lparr>so_destination := ds\<rparr>) \<longleftrightarrow> same_spine s t"
  "same_spine s (t\<lparr>so_port := po\<rparr>) \<longleftrightarrow> same_spine s t"
  "same_spine s (t\<lparr>so_destination_set := dst\<rparr>) \<longleftrightarrow> same_spine s t"
  "same_spine s (t\<lparr>so_tunnel_opened := tn\<rparr>) \<longleftrightarrow> same_spine s t"
  "same_spine s (t\<lparr>so_log_emitted := le\<rparr>) \<longleftrightarrow> same_spine s t"
  "same_spine s (t\<lparr>so_failure := fa\<rparr>) \<longleftrightarrow> same_spine s t"
  by (simp_all add: same_spine_def)

lemma same_spine_upd_left [simp]:
  "same_spine (t\<lparr>so_read_buffer := b\<rparr>) s \<longleftrightarrow> same_spine t s"
  "same_spine (t\<lparr>so_write_buffer := b\<rparr>) s \<longleftrightarrow> same_spine t s"
  "same_spine (t\<lparr>so_client := c\<rparr>) s \<longleftrightarrow> same_spine t s"
  "same_spine (t\<lparr>so_orig := oc\<rparr>) s \<longleftrightarrow> same_spine t s"
  "same_spine (t\<lparr>so_current := cu\<rparr>) s \<longleftrightarrow> same_spine t s"
  "same_spine (t\<lparr>so_resolution := rs\<rparr>) s \<longleftrightarrow> same_spine t s"
  "same_spine (t\<lparr>so_connect_deadline := cd\<rparr>) s \<longleftrightarrow> same_spine t s"
  "same_spine (t\<lparr>so_last_activity := la\<rparr>) s \<longleftrightarrow> same_spine t s"
  "same_spine (t\<lparr>so_user := us\<rparr>) s \<longleftrightarrow> same_spine t s"
  "same_spine (t\<lparr>so_destination := ds\<rparr>) s \<longleftrightarrow> same_spine t s"
  "same_spine (t\<lparr>so_port := po\<rparr>) s \<longleftrightarrow> same_spine t s"
  "same_spine (t\<lparr>so_destination_set := dst\<rparr>) s \<longleftrightarrow> same_spine t s"
  "same_spine (t\<lparr>so_tunnel_opened := tn\<rparr>) s \<longleftrightarrow> same_spine t s"
  "same_spine (t\<lparr>so_log_emitted := le\<rparr>) s \<longleftrightarrow> same_spine t s"
  "same_spine (t\<lparr>so_failure := fa\<rparr>) s \<longleftrightarrow> same_spine t s"
  by (simp_all add: same_spine_def)

text \<open>A session at rest does not see what happens elsewhere.\<close>

lemma alive_frame:
  assumes "alive g w q" and "socks_heap w' q = socks_heap w q"
    and "\<And>s. socks_heap w q = Some s \<Longrightarrow> regs (sel w') (so_client_fd s) = regs (sel w) (so_client_fd s)
      \<and> (so_origin_fd s \<noteq> -1 \<longrightarrow> regs (sel w') (so_origin_fd s) = regs (sel w) (so_origin_fd s))
      \<and> talk_of s (kern w') = talk_of s (kern w)
      \<and> (so_client_fd s \<in> set (owed g' w') \<longrightarrow> so_client_fd s \<in> set (owed g w))"
  shows "alive g' w' q"
proof -
  obtain s ci oi where s: "socks_heap w q = Some s" "settled g q s ci oi w" using assms(1) by (auto simp: alive_def)
  with assms(3) [OF s(1)] have "settled g' q s ci oi w'" by (auto simp: settled_def registered_def)
  with s assms(2) show ?thesis by (auto simp: alive_def)
qed

lemma ownD:
  assumes "own g p s ci oi d w"
  shows "world g w" "p \<in> set (active g)" "socks_heap w p = Some s" "sess_wf s" "registered p s ci oi (regs (sel w))"
    "held s d" "so_client_fd s \<in> set (owed g w) \<Longrightarrow> d" "\<And>q. q \<in> set (active g) \<Longrightarrow> q \<noteq> p \<Longrightarrow> alive g w q"
    "full_sel (sel w)"
  using assms by (auto simp: own_def world_def)

lemma own_attachment: "own g p s ci oi d w \<Longrightarrow> k_data key = Some (Socks_Ptr p) \<Longrightarrow> ATTACHMENT key w = Some (p, s)"
  by (simp add: ATTACHMENT_def socks_ptr_def ownD(3))

text \<open>The descriptors of another session are not those of this one.\<close>

lemma other_fds:
  assumes o: "own g p s ci oi d w" and q: "q \<in> set (active g)" "q \<noteq> p" "socks_heap w q = Some t"
  shows "regs (sel w) (so_client_fd t) \<noteq> None" "so_origin_fd t \<noteq> -1 \<Longrightarrow> regs (sel w) (so_origin_fd t) \<noteq> None"
    "so_client_fd t \<noteq> so_client_fd s" "so_client_fd t \<noteq> so_origin_fd s"
    "so_origin_fd t \<noteq> so_client_fd s \<or> so_origin_fd t = -1" "so_origin_fd t \<noteq> so_origin_fd s \<or> so_origin_fd t = -1"
    "0 \<le> so_client_fd t"
proof -
  from ownD(8) [OF o q(1,2)] q(3) obtain ci' oi' where t: "registered q t ci' oi' (regs (sel w))"
    by (auto simp: alive_def settled_def)
  note r = ownD(5) [OF o]
  have fs: "full_sel (sel w)" by (rule ownD(9) [OF o])
  show "regs (sel w) (so_client_fd t) \<noteq> None" "so_origin_fd t \<noteq> -1 \<Longrightarrow> regs (sel w) (so_origin_fd t) \<noteq> None"
    using t by (simp_all add: registered_def)
  have legal: "0 \<le> so_client_fd t"
    using sel.entry_legal [OF fs, of "so_client_fd t"] t by (auto simp: registered_def INVALID_FD_def)
  then show "0 \<le> so_client_fd t" .
  show "so_client_fd t \<noteq> so_client_fd s" "so_origin_fd t \<noteq> so_client_fd s \<or> so_origin_fd t = -1"
    using r t q(2) by (auto simp: registered_def)
  show "so_client_fd t \<noteq> so_origin_fd s"
    using r t q(2) legal by (cases "so_origin_fd s = -1") (auto simp: registered_def)
  show "so_origin_fd t \<noteq> so_origin_fd s \<or> so_origin_fd t = -1"
    using r t q(2) by (cases "so_origin_fd s = -1") (auto simp: registered_def)
qed

lemma own_fds:
  assumes "own g p s ci oi d w"
  shows "0 \<le> so_client_fd s" "so_client_fd s \<noteq> so_origin_fd s" "\<not> INVALID_FD (so_client_fd s)"
    "so_origin_fd s \<noteq> -1 \<Longrightarrow> \<not> INVALID_FD (so_origin_fd s)" "so_client_fd s \<in> set (k_open (kern w))"
    "so_origin_fd s \<noteq> -1 \<Longrightarrow> so_origin_fd s \<in> set (k_open (kern w))"
    "regs (sel w) (so_client_fd s) = Some (socks5_handler, ci, Some (Socks_Ptr p))"
    "so_origin_fd s \<noteq> -1 \<Longrightarrow> regs (sel w) (so_origin_fd s) = Some (socks5_handler, oi, Some (Socks_Ptr p))"
proof -
  note o = ownD [OF assms]
  show c: "regs (sel w) (so_client_fd s) = Some (socks5_handler, ci, Some (Socks_Ptr p))" using o(5) by (simp add: registered_def)
  show og: "so_origin_fd s \<noteq> -1 \<Longrightarrow> regs (sel w) (so_origin_fd s) = Some (socks5_handler, oi, Some (Socks_Ptr p))"
    using o(5) by (simp add: registered_def)
  show l: "\<not> INVALID_FD (so_client_fd s)" using sel.entry_legal [OF o(9), of "so_client_fd s"] c by simp
  then show "0 \<le> so_client_fd s" by (simp add: INVALID_FD_def)
  then show "so_client_fd s \<noteq> so_origin_fd s" using o(5) by (auto simp: registered_def)
  show "so_origin_fd s \<noteq> -1 \<Longrightarrow> \<not> INVALID_FD (so_origin_fd s)" using sel.entry_legal [OF o(9), of "so_origin_fd s"] og by simp
  show "so_client_fd s \<in> set (k_open (kern w))" using o(1) c by (simp add: world_def)
  show "so_origin_fd s \<noteq> -1 \<Longrightarrow> so_origin_fd s \<in> set (k_open (kern w))" using o(1) og by (simp add: world_def)
qed

section \<open>Assigning to the session\<close>

lemma put_socks_simps [simp]:
  "socks_heap (put_socks p s w) = (socks_heap w)(p \<mapsto> s)" "sel (put_socks p s w) = sel w" "kern (put_socks p s w) = kern w"
  "g_active_head (put_socks p s w) = g_active_head w" "pool (put_socks p s w) = pool w"
  "pool_size (put_socks p s w) = pool_size w" "next_ptr (put_socks p s w) = next_ptr w"
  "socks_active (put_socks p s w) = socks_active w" "g_users (put_socks p s w) = g_users w"
  "g_dns_worker (put_socks p s w) = g_dns_worker w" "dns_thread (put_socks p s w) = dns_thread w"
  "mng_heap (put_socks p s w) = mng_heap w" "g_metrics (put_socks p s w) = g_metrics w" "g_config (put_socks p s w) = g_config w"
  "g_access_log (put_socks p s w) = g_access_log w" "clock (put_socks p s w) = clock w"
  "socks_fd (put_socks p s w) = socks_fd w" "mng_fd (put_socks p s w) = mng_fd w"
  "text_of_addr (put_socks p s w) = text_of_addr w" "text_of_time (put_socks p s w) = text_of_time w"
  "put_socks p s' (put_socks p s w) = put_socks p s' w"
  by (simp_all add: put_socks_def)

lemma owed_cong: "g_dns_worker w' = g_dns_worker w \<Longrightarrow> dns_thread w' = dns_thread w \<Longrightarrow> owed g w' = owed g w"
  by (simp add: owed_def in_hand_def job_fd_def [abs_def])

lemma dns_ok_cong:
  assumes "g_dns_worker w' = g_dns_worker w" and "dns_thread w' = dns_thread w" and "fds_of w' = fds_of w"
  shows "dns_ok g w' = dns_ok g w"
proof -
  have "in_hand w' = in_hand w" "owed g w' = owed g w" "job_ok g w' = job_ok g w"
    using assms by (simp_all add: in_hand_def job_ok_def [abs_def] owed_cong [of w' w])
  then show ?thesis using assms by (simp add: dns_ok_def cong: option.case_cong)
qed

lemma owner_ok_cong:
  assumes "fds_of w' = fds_of w" and "mng_heap w' = mng_heap w" and "next_ptr w' = next_ptr w"
  shows "owner_ok g w' fd h i a = owner_ok g w fd h i a"
  using assms by (cases h) (simp_all add: owner_ok_def socks_reg_def mng_reg_def)

lemma fds_of_put: "fds_of w p = Some (so_client_fd s', so_origin_fd s') \<Longrightarrow> fds_of (put_socks p s' w) = fds_of w"
  by (auto simp: fds_of_def)

lemma listens_frame:
  assumes "listens w" and "socks_fd w' = socks_fd w" and "mng_fd w' = mng_fd w"
    and "\<And>fd h. h \<noteq> socks5_handler \<Longrightarrow> h \<noteq> mng_handler \<Longrightarrow> regs (sel w) fd = Some (h, OP_READ, None) \<Longrightarrow>
      regs (sel w') fd = Some (h, OP_READ, None)"
  shows "listens w'"
  using assms by (simp add: listens_def)

lemma listens_cong: "sel w' = sel w \<Longrightarrow> socks_fd w' = socks_fd w \<Longrightarrow> mng_fd w' = mng_fd w \<Longrightarrow> listens w' = listens w"
  by (simp add: listens_def)

lemma world_put:
  assumes "world g w" and "socks_heap w p = Some s" and "same_spine s s'"
  shows "world g (put_socks p s' w)"
proof -
  have d: "dll ((socks_heap w)(p \<mapsto> s')) None (g_active_head w) (active g) = dll (socks_heap w) None (g_active_head w) (active g)"
    by (rule dll_cong) (use assms(2,3) in \<open>auto simp: same_spine_def\<close>)
  have pl: "pool_list ((socks_heap w)(p \<mapsto> s')) (pool w) (pooled g) = pool_list (socks_heap w) (pool w) (pooled g)"
    by (rule pool_list_cong) (use assms(2,3) in \<open>auto simp: same_spine_def\<close>)
  have f: "fds_of (put_socks p s' w) = fds_of w"
    by (rule fds_of_put) (use assms(2,3) in \<open>simp add: same_spine_def fds_of_def\<close>)
  have ow: "owner_ok g (put_socks p s' w) fd h i a = owner_ok g w fd h i a" for fd h i a
    by (rule owner_ok_cong [OF f]) simp_all
  have dn: "dns_ok g (put_socks p s' w) = dns_ok g w"
    by (rule dns_ok_cong [OF _ _ f]) simp_all
  show ?thesis using assms(1,2) by (simp add: world_def d pl ow dn listens_cong [of "put_socks p s' w" w])
qed

lemma own_put:
  assumes o: "own g p s ci oi d w" and wf: "sess_wf s'" and sp: "same_spine s s'"
  shows "own g p s' ci oi d (put_socks p s' w)"
proof -
  note a = ownD [OF o]
  have ow: "owed g (put_socks p s' w) = owed g w" by (rule owed_cong) simp_all
  moreover have "alive g (put_socks p s' w) q" if q: "q \<in> set (active g) - {p}" for q
    by (rule alive_frame [OF a(8)]) (use q ow in simp_all)
  moreover have "registered p s' ci oi (regs (sel w))" using a(5) sp by (simp add: registered_def same_spine_def)
  moreover have "held s' d" using a(6) sp by (simp add: held_def same_spine_def)
  moreover have "world g (put_socks p s' w)" by (rule world_put [OF a(1,3) sp])
  ultimately show ?thesis using a(2,7) wf sp ow by (simp add: own_def same_spine_def)
qed

section \<open>System calls and counters\<close>

lemma world_kern:
  assumes "world g w" and "\<And>f. f \<in> set (k_open (kern w)) \<Longrightarrow> regs (sel w) f \<noteq> None \<Longrightarrow> f \<in> set (k_open k)"
  shows "world g (w\<lparr>kern := k\<rparr>)"
proof -
  have f: "fds_of (w\<lparr>kern := k\<rparr>) = fds_of w" by (simp add: fds_of_def fun_eq_iff)
  have "owner_ok g (w\<lparr>kern := k\<rparr>) fd h i a = owner_ok g w fd h i a" for fd h i a
    by (rule owner_ok_cong [OF f]) simp_all
  moreover have "dns_ok g (w\<lparr>kern := k\<rparr>) = dns_ok g w" by (rule dns_ok_cong [OF _ _ f]) simp_all
  moreover have "fd \<in> set (k_open k)" if "regs (sel w) fd = Some (h, i, a)" for fd h i a
    using assms that by (auto simp: world_def)
  ultimately show ?thesis using assms(1) listens_cong [of "w\<lparr>kern := k\<rparr>" w] by (auto simp: world_def)
qed

text \<open>A system call on a session's own sockets, or on no registered descriptor at all.\<close>

lemma own_kern:
  assumes o: "own g p s ci oi d w"
    and op: "\<And>f. f \<in> set (k_open (kern w)) \<Longrightarrow> regs (sel w) f \<noteq> None \<Longrightarrow> f \<in> set (k_open k)"
    and tr: "\<And>f. f = -1 \<or> regs (sel w) f \<noteq> None \<Longrightarrow> f \<noteq> so_client_fd s \<Longrightarrow> so_origin_fd s = -1 \<or> f \<noteq> so_origin_fd s \<Longrightarrow>
      k_rx k f = k_rx (kern w) f \<and> k_tx k f = k_tx (kern w) f \<and> k_peer k f = k_peer (kern w) f"
  shows "own g p s ci oi d (w\<lparr>kern := k\<rparr>)"
proof -
  note a = ownD [OF o]
  have ow: "owed g (w\<lparr>kern := k\<rparr>) = owed g w" by (rule owed_cong) simp_all
  have "alive g (w\<lparr>kern := k\<rparr>) q" if q: "q \<in> set (active g) - {p}" for q
  proof (rule alive_frame [OF a(8)])
    fix t assume t: "socks_heap w q = Some t"
    from q have "q \<in> set (active g)" "q \<noteq> p" by auto
    note f = other_fds [OF o this t]
    have "talk_of t k = talk_of t (kern w)" using tr [of "so_client_fd t"] tr [of "so_origin_fd t"] f own_fds(1) [OF o]
      by (cases "so_origin_fd t = -1"; cases "so_origin_fd s = -1") (auto simp: talk_of_def)
    then show "regs (sel (w\<lparr>kern := k\<rparr>)) (so_client_fd t) = regs (sel w) (so_client_fd t)
      \<and> (so_origin_fd t \<noteq> -1 \<longrightarrow> regs (sel (w\<lparr>kern := k\<rparr>)) (so_origin_fd t) = regs (sel w) (so_origin_fd t))
      \<and> talk_of t (kern (w\<lparr>kern := k\<rparr>)) = talk_of t (kern w)
      \<and> (so_client_fd t \<in> set (owed g (w\<lparr>kern := k\<rparr>)) \<longrightarrow> so_client_fd t \<in> set (owed g w))" using ow by simp
  qed (use q in auto)
  then show ?thesis using a world_kern [OF a(1) op] ow by (auto simp: own_def)
qed

lemma own_recv:
  assumes o: "own g p s ci oi d w" and r: "k_recv f n (kern w) = (r, k)"
    and f: "f = so_client_fd s \<or> so_origin_fd s \<noteq> -1 \<and> f = so_origin_fd s"
  shows "own g p s ci oi d (w\<lparr>kern := k\<rparr>)"
proof -
  have p: "k_peer k = k_peer (kern w)" using r by (auto simp: k_recv_def split: if_splits list.splits recv_event.splits)
  show ?thesis by (rule own_kern [OF o]) (use k_recv_trace [OF r] f p in \<open>auto split: sum.splits\<close>)
qed

lemma own_send:
  assumes o: "own g p s ci oi d w" and r: "k_send f bs (kern w) = (r, k)"
    and f: "f = so_client_fd s \<or> so_origin_fd s \<noteq> -1 \<and> f = so_origin_fd s"
  shows "own g p s ci oi d (w\<lparr>kern := k\<rparr>)"
proof -
  have p: "k_peer k = k_peer (kern w)" using r by (auto simp: k_send_def split: if_splits list.splits send_event.splits)
  show ?thesis by (rule own_kern [OF o]) (use k_send_trace [OF r] f p in \<open>auto split: sum.splits\<close>)
qed

text \<open>Calls that open, close and carry nothing.\<close>

definition silent :: "kernel \<Rightarrow> kernel \<Rightarrow> bool" where
  "silent k k' \<longleftrightarrow> k_open k' = k_open k \<and> k_rx k' = k_rx k \<and> k_tx k' = k_tx k \<and> k_peer k' = k_peer k"

lemma silent_alloc: "k_alloc k = (b, k') \<Longrightarrow> silent k k'"
  by (auto simp: k_alloc_def silent_def split: prod.splits)

lemma silent_so_error: "k_so_error f k = (r, k') \<Longrightarrow> silent k k'"
  by (auto simp: k_so_error_def silent_def split: prod.splits)

lemma silent_shutdown: "k_shutdown f k = (r, k') \<Longrightarrow> silent k k'"
  by (auto simp: k_shutdown_def silent_def split: prod.splits)

lemma silent_nio: "k_set_nio f k = (b, k') \<Longrightarrow> silent k k'"
  by (auto simp: k_set_nio_def silent_def split: prod.splits)

lemma talk_silent: "silent k k' \<Longrightarrow> talk_of s k' = talk_of s k"
  by (simp add: silent_def talk_of_def)

lemma own_silent: "own g p s ci oi d w \<Longrightarrow> silent (kern w) k \<Longrightarrow> own g p s ci oi d (w\<lparr>kern := k\<rparr>)"
  by (rule own_kern) (simp_all add: silent_def)

lemma own_cong:
  assumes o: "own g p s ci oi d w" and "sel w' = sel w" "socks_heap w' = socks_heap w" "kern w' = kern w"
    "g_active_head w' = g_active_head w" "pool w' = pool w" "pool_size w' = pool_size w" "next_ptr w' = next_ptr w"
    "socks_active w' = socks_active w" "g_users w' = g_users w" "g_dns_worker w' = g_dns_worker w"
    "dns_thread w' = dns_thread w" "mng_heap w' = mng_heap w" "socks_fd w' = socks_fd w" "mng_fd w' = mng_fd w"
  shows "own g p s ci oi d w'"
proof -
  have ow: "owed g w' = owed g w" by (rule owed_cong) (simp_all add: assms)
  have f: "fds_of w' = fds_of w" by (simp add: fds_of_def fun_eq_iff assms)
  have "owner_ok g w' fd h i a = owner_ok g w fd h i a" for fd h i a
    by (rule owner_ok_cong [OF f]) (simp_all add: assms)
  moreover have "dns_ok g w' = dns_ok g w" by (rule dns_ok_cong [OF _ _ f]) (simp_all add: assms)
  ultimately have "world g w' = world g w" using assms listens_cong [of w' w] by (simp add: world_def)
  moreover have "settled g q t ci' oi' w' = settled g q t ci' oi' w" for q t ci' oi' using assms ow by (simp add: settled_def)
  ultimately show ?thesis using o ow assms by (auto simp: own_def alive_def)
qed

lemma own_count: "own g p s ci oi d w \<Longrightarrow> own g p s ci oi d (count f w)"
  by (erule own_cong) (simp_all add: count_def)

lemma own_log: "own g p s ci oi d w \<Longrightarrow> own g p s ci oi d (w\<lparr>g_access_log := l\<rparr>)"
  by (erule own_cong) simp_all

lemma count_simps [simp]:
  "socks_heap (count f w) = socks_heap w" "sel (count f w) = sel w" "kern (count f w) = kern w"
  "g_users (count f w) = g_users w" "g_config (count f w) = g_config w" "g_access_log (count f w) = g_access_log w"
  "clock (count f w) = clock w" "text_of_addr (count f w) = text_of_addr w" "g_dns_worker (count f w) = g_dns_worker w"
  "g_active_head (count f w) = g_active_head w" "pool (count f w) = pool w" "pool_size (count f w) = pool_size w"
  "next_ptr (count f w) = next_ptr w" "socks_active (count f w) = socks_active w" "dns_thread (count f w) = dns_thread w"
  "mng_heap (count f w) = mng_heap w" "socks_fd (count f w) = socks_fd w" "mng_fd (count f w) = mng_fd w"
  by (simp_all add: count_def)

section \<open>Interests\<close>

text \<open>A change of the registrations on the descriptors of one session.\<close>

lemma world_sel:
  assumes w: "world g w" and fs: "full_sel sl" and jobs: "resolution_jobs sl = resolution_jobs (sel w)"
    and R: "\<And>fd h i a. regs sl fd = Some (h, i, a) \<Longrightarrow> regs (sel w) fd = Some (h, i, a)
      \<or> fd \<in> set (k_open (kern w)) \<and> owner_ok g w fd h i a"
    and L: "\<And>fd h. h \<noteq> socks5_handler \<Longrightarrow> h \<noteq> mng_handler \<Longrightarrow> regs (sel w) fd = Some (h, OP_READ, None) \<Longrightarrow>
      regs sl fd = Some (h, OP_READ, None)"
  shows "world g (w\<lparr>sel := sl\<rparr>)"
proof -
  have f: "fds_of (w\<lparr>sel := sl\<rparr>) = fds_of w" by (simp add: fds_of_def fun_eq_iff)
  have ow: "owner_ok g (w\<lparr>sel := sl\<rparr>) fd h i a = owner_ok g w fd h i a" for fd h i a
    by (rule owner_ok_cong [OF f]) simp_all
  have "dns_ok g (w\<lparr>sel := sl\<rparr>) = dns_ok g w" by (rule dns_ok_cong [OF _ _ f]) simp_all
  moreover have "fd \<in> set (k_open (kern w)) \<and> owner_ok g w fd h i a" if "regs sl fd = Some (h, i, a)" for fd h i a
    using R [OF that] w by (auto simp: world_def)
  moreover have "listens (w\<lparr>sel := sl\<rparr>)" by (rule listens_frame [of w]) (use w L in \<open>simp_all add: world_def\<close>)
  ultimately show ?thesis using w fs jobs by (simp add: world_def ow)
qed

lemma own_sel:
  assumes o: "own g p s ci oi d w" and fs: "full_sel sl" and jobs: "resolution_jobs sl = resolution_jobs (sel w)"
    and R: "\<And>fd. fd \<noteq> so_client_fd s \<Longrightarrow> so_origin_fd s = -1 \<or> fd \<noteq> so_origin_fd s \<Longrightarrow> regs sl fd = regs (sel w) fd"
    and r: "registered p s ci' oi' (regs sl)"
  shows "own g p s ci' oi' d (w\<lparr>sel := sl\<rparr>)"
proof -
  note a = ownD [OF o]
  have ow: "owed g (w\<lparr>sel := sl\<rparr>) = owed g w" by (rule owed_cong) simp_all
  have mine: "socks_reg g fd (Some (Socks_Ptr p)) w" if "fd = so_client_fd s \<or> fd = so_origin_fd s" for fd
    using a(2,3) that by (auto simp: socks_reg_def fds_of_def)
  have "world g (w\<lparr>sel := sl\<rparr>)"
  proof (rule world_sel [OF a(1) fs jobs])
    fix fd h i x assume e: "regs sl fd = Some (h, i, x)"
    show "regs (sel w) fd = Some (h, i, x) \<or> fd \<in> set (k_open (kern w)) \<and> owner_ok g w fd h i x"
    proof (cases "fd = so_client_fd s \<or> so_origin_fd s \<noteq> -1 \<and> fd = so_origin_fd s")
      case True
      then have "h = socks5_handler" "x = Some (Socks_Ptr p)" using r e by (auto simp: registered_def)
      moreover have "fd \<in> set (k_open (kern w))" using True own_fds(5,6) [OF o] by auto
      ultimately show ?thesis using True mine by (auto simp: owner_ok_def)
    next
      case False
      then show ?thesis using R [of fd] e by auto
    qed
  next
    fix fd h assume "h \<noteq> socks5_handler" "regs (sel w) fd = Some (h, OP_READ, None)"
    moreover from this have "fd \<noteq> so_client_fd s \<and> (so_origin_fd s = -1 \<or> fd \<noteq> so_origin_fd s)" using own_fds(7,8) [OF o] by auto
    ultimately show "regs sl fd = Some (h, OP_READ, None)" using R [of fd] by simp
  qed
  moreover have "alive g (w\<lparr>sel := sl\<rparr>) q" if q: "q \<in> set (active g) - {p}" for q
  proof (rule alive_frame [OF a(8)])
    fix t assume t: "socks_heap w q = Some t"
    from q have "q \<in> set (active g)" "q \<noteq> p" by auto
    note f = other_fds [OF o this t]
    show "regs (sel (w\<lparr>sel := sl\<rparr>)) (so_client_fd t) = regs (sel w) (so_client_fd t)
      \<and> (so_origin_fd t \<noteq> -1 \<longrightarrow> regs (sel (w\<lparr>sel := sl\<rparr>)) (so_origin_fd t) = regs (sel w) (so_origin_fd t))
      \<and> talk_of t (kern (w\<lparr>sel := sl\<rparr>)) = talk_of t (kern w)
      \<and> (so_client_fd t \<in> set (owed g (w\<lparr>sel := sl\<rparr>)) \<longrightarrow> so_client_fd t \<in> set (owed g w))"
      using R [of "so_client_fd t"] R [of "so_origin_fd t"] f ow by auto
  qed (use q in auto)
  ultimately show ?thesis using a r ow by (auto simp: own_def)
qed

lemma own_interest_client:
  assumes o: "own g p s ci oi d w"
  shows "\<exists>sl. socks_interest (so_client_fd s) i w = Some (True, w\<lparr>sel := sl\<rparr>) \<and> own g p s i oi d (w\<lparr>sel := sl\<rparr>)"
proof -
  note f = own_fds [OF o]
  from full_change [OF ownD(9) [OF o] f(3), of i] f(7) obtain sl where sl:
    "selector_set_interest (so_client_fd s) i (sel w) = Some (SELECTOR_SUCCESS, sl)" "full_sel sl"
    "regs sl = (regs (sel w))(so_client_fd s \<mapsto> (socks5_handler, i, Some (Socks_Ptr p)))"
    by (auto simp: returns_prod)
  have "registered p s i oi (regs sl)" using ownD(5) [OF o] sl(3) f(2) by (auto simp: registered_def)
  then have "own g p s i oi d (w\<lparr>sel := sl\<rparr>)" using sl by (intro own_sel [OF o sl(2) change_jobs [OF sl(1)]]) auto
  then show ?thesis using sl(1) by (intro exI [of _ sl]) (simp add: socks_interest_def)
qed

lemma own_interest_origin:
  assumes o: "own g p s ci oi d w" and og: "so_origin_fd s \<noteq> -1"
  shows "\<exists>sl. socks_interest (so_origin_fd s) i w = Some (True, w\<lparr>sel := sl\<rparr>) \<and> own g p s ci i d (w\<lparr>sel := sl\<rparr>)"
proof -
  note f = own_fds [OF o]
  from full_change [OF ownD(9) [OF o] f(4) [OF og], of i] f(8) [OF og] obtain sl where sl:
    "selector_set_interest (so_origin_fd s) i (sel w) = Some (SELECTOR_SUCCESS, sl)" "full_sel sl"
    "regs sl = (regs (sel w))(so_origin_fd s \<mapsto> (socks5_handler, i, Some (Socks_Ptr p)))"
    by (auto simp: returns_prod)
  have "registered p s ci i (regs sl)" using ownD(5) [OF o] sl(3) og f(2) by (auto simp: registered_def)
  then have "own g p s ci i d (w\<lparr>sel := sl\<rparr>)" using sl og by (intro own_sel [OF o sl(2) change_jobs [OF sl(1)]]) auto
  then show ?thesis using sl(1) by (intro exI [of _ sl]) (simp add: socks_interest_def)
qed

lemma interest_key: "\<not> INVALID_FD (k_fd key) \<Longrightarrow> socks_interest_key key i w = socks_interest (k_fd key) i w"
  by (simp add: socks_interest_key_def socks_interest_def selector_set_interest_key_def)

lemma own_key_client:
  assumes o: "own g p s ci oi d w" and k: "k_fd key = so_client_fd s"
  shows "\<exists>sl. socks_interest_key key i w = Some (True, w\<lparr>sel := sl\<rparr>) \<and> own g p s i oi d (w\<lparr>sel := sl\<rparr>)"
  using own_interest_client [OF o, of i] own_fds(3) [OF o] k by (simp add: interest_key)

lemma own_key_origin:
  assumes o: "own g p s ci oi d w" and k: "k_fd key = so_origin_fd s" "so_origin_fd s \<noteq> -1"
  shows "\<exists>sl. socks_interest_key key i w = Some (True, w\<lparr>sel := sl\<rparr>) \<and> own g p s ci i d (w\<lparr>sel := sl\<rparr>)"
  using own_interest_origin [OF o k(2), of i] own_fds(4) [OF o k(2)] k by (simp add: interest_key)

end
