(* ===== verification/Socks5_Links.thy ===== *)
theory Socks5_Links
  imports Socks5_Own
begin

text \<open>
  The actions that change the references of a session or its origin, on the view \<open>own\<close>: handing a name to the
  resolver, opening and registering a socket to the origin, closing it.
\<close>

section \<open>Changes of the origin and of the references\<close>

lemma dns_ok_clients:
  assumes "g_dns_worker w' = g_dns_worker w" and "dns_thread w' = dns_thread w"
    and f: "\<And>q. map_option fst (fds_of w' q) = map_option fst (fds_of w q)"
  shows "dns_ok g w' = dns_ok g w"
proof -
  have i: "in_hand w' = in_hand w" using assms by (simp add: in_hand_def)
  have o: "owed g w' = owed g w" by (rule owed_cong) (simp_all add: assms)
  have c: "(\<exists>og. fds_of w' q = Some (c, og)) \<longleftrightarrow> (\<exists>og. fds_of w q = Some (c, og))" for q c
  proof -
    have "(\<exists>og. x = Some (c, og)) \<longleftrightarrow> map_option fst x = Some c" for x :: "(int \<times> int) option" by (cases x) auto
    from this [of "fds_of w' q"] this [of "fds_of w q"] show ?thesis by (simp only: f)
  qed
  have j: "job_ok g w' dn k = job_ok g w dn k" for dn k
  proof -
    have "job_ok g v dn k = (\<exists>job. w_jobs dn k = Some job \<and> j_target job \<in> set (active g) \<and> (\<exists>og. fds_of v (j_target job) = Some (j_fd job, og)))"
      for v by (auto simp: job_ok_def)
    then show ?thesis by (simp add: c)
  qed
  show ?thesis unfolding dns_ok_def i o by (simp add: c j assms(1) cong: option.case_cong)
qed

text \<open>
  The general step: the session at \<open>p\<close> becomes \<open>s'\<close>, the selector \<open>sl\<close> and the kernel \<open>k\<close>. Its client
  stays; its origin may be closed, or opened on a descriptor that was not registered.
\<close>

lemma own_update:
  assumes o: "own g p s ci oi d w"
    and wf: "sess_wf s'" and held: "held s' d'" and od: "so_client_fd s \<in> set (owed g w) \<longrightarrow> d'"
    and links: "so_client_fd s' = so_client_fd s" "so_next s' = so_next s" "so_active_prev s' = so_active_prev s"
      "so_active_next s' = so_active_next s"
    and sl: "full_sel sl" "resolution_jobs sl = resolution_jobs (sel w)" "registered p s' ci' oi' (regs sl)"
    and R: "\<And>fd. fd \<noteq> so_client_fd s \<Longrightarrow> fd \<noteq> so_origin_fd s \<Longrightarrow> fd \<noteq> so_origin_fd s' \<Longrightarrow> regs sl fd = regs (sel w) fd"
    and gone: "so_origin_fd s' \<noteq> so_origin_fd s \<Longrightarrow> so_origin_fd s \<noteq> -1 \<Longrightarrow> regs sl (so_origin_fd s) = None"
    and new: "so_origin_fd s' \<noteq> so_origin_fd s \<Longrightarrow> so_origin_fd s' \<noteq> -1 \<Longrightarrow> regs (sel w) (so_origin_fd s') = None \<and> so_origin_fd s' \<in> set (k_open k)"
    and op: "\<And>f. f \<in> set (k_open (kern w)) \<Longrightarrow> regs sl f \<noteq> None \<Longrightarrow> f \<in> set (k_open k)"
    and tr: "\<And>f. f = -1 \<or> regs (sel w) f \<noteq> None \<Longrightarrow> f \<noteq> so_client_fd s \<Longrightarrow> so_origin_fd s = -1 \<or> f \<noteq> so_origin_fd s \<Longrightarrow>
      k_rx k f = k_rx (kern w) f \<and> k_tx k f = k_tx (kern w) f \<and> k_peer k f = k_peer (kern w) f"
  shows "own g p s' ci' oi' d' ((put_socks p s' w)\<lparr>sel := sl, kern := k\<rparr>)"
proof -
  let ?w = "(put_socks p s' w)\<lparr>sel := sl, kern := k\<rparr>"
  note a = ownD [OF o]
  have none: "regs sl (-1) = None" using sel.entry_legal [OF sl(1), of "-1"] by (cases "regs sl (-1)") (auto simp: INVALID_FD_def)
  have none': "regs (sel w) (-1) = None" using sel.entry_legal [OF a(9), of "-1"] by (cases "regs (sel w) (-1)") (auto simp: INVALID_FD_def)
  have fp: "fds_of w p = Some (so_client_fd s, so_origin_fd s)" using a(3) by (simp add: fds_of_def)
  have fp': "fds_of ?w p = Some (so_client_fd s, so_origin_fd s')" using links by (simp add: fds_of_def)
  have fq: "fds_of ?w q = fds_of w q" if "q \<noteq> p" for q using that by (simp add: fds_of_def)
  have dl: "dll (socks_heap ?w) None (g_active_head ?w) (active g) = dll (socks_heap w) None (g_active_head w) (active g)"
    by (simp, rule dll_cong) (use a(3) links in auto)
  have pl: "pool_list (socks_heap ?w) (pool ?w) (pooled g) = pool_list (socks_heap w) (pool w) (pooled g)"
    by (simp, rule pool_list_cong) (use a(3) links in auto)
  have fst: "map_option fst (fds_of ?w q) = map_option fst (fds_of w q)" for q
    by (cases "q = p") (use fp fp' fq [of q] in simp_all)
  have dn: "dns_ok g ?w = dns_ok g w" by (rule dns_ok_clients [OF _ _ fst]) simp_all
  have ow: "owed g ?w = owed g w" by (rule owed_cong) simp_all
  have reg: "fd \<in> set (k_open k) \<and> owner_ok g ?w fd h i x" if r: "regs sl fd = Some (h, i, x)" for fd h i x
  proof (cases "fd = so_client_fd s \<or> fd = so_origin_fd s'")
    case True
    with r none sl(3) links have h: "h = socks5_handler" "x = Some (Socks_Ptr p)" by (auto simp: registered_def)
    then have "owner_ok g ?w fd h i x" using True a(2) fp' by (auto simp: owner_ok_def socks_reg_def)
    moreover have "fd \<in> set (k_open k)"
    proof (cases "fd = so_client_fd s \<or> so_origin_fd s' = so_origin_fd s")
      case c: True
      have "fd \<noteq> -1" using r none by auto
      then show ?thesis using op [of fd] r True c own_fds(5,6) [OF o] by auto
    next
      case False
      moreover have "fd \<noteq> -1" using r none by auto
      ultimately show ?thesis using True new by auto
    qed
    ultimately show ?thesis by blast
  next
    case False
    have "fd \<noteq> -1" using r none by auto
    then have ne: "fd \<noteq> so_origin_fd s" using False gone r by auto
    with False R [of fd] r have r': "regs (sel w) fd = Some (h, i, x)" by simp
    have "owner_ok g w fd h i x" using a(1) r' by (simp add: world_def)
    then have "owner_ok g ?w fd h i x"
    proof (cases h)
      case socks5_handler
      with \<open>owner_ok g w fd h i x\<close> obtain q c og where q: "q \<in> set (active g)" "x = Some (Socks_Ptr q)" "fds_of w q = Some (c, og)" "fd = c \<or> fd = og"
        by (auto simp: owner_ok_def socks_reg_def)
      then have "q \<noteq> p" using fp ne False by auto
      then show ?thesis using q fq [of q] socks5_handler by (simp add: owner_ok_def socks_reg_def)
    qed (simp_all add: owner_ok_def mng_reg_def)
    moreover have "fd \<in> set (k_open k)" using a(1) r' r op [of fd] by (auto simp: world_def)
    ultimately show ?thesis by blast
  qed
  have "listens ?w"
  proof (rule listens_frame [of w])
    fix fd h assume h: "h \<noteq> socks5_handler" and r: "regs (sel w) fd = Some (h, OP_READ, None)"
    have "fd \<noteq> so_client_fd s" "fd \<noteq> so_origin_fd s" using h r own_fds(7,8) [OF o] none' by (cases "so_origin_fd s = -1"; auto)+
    moreover have "fd \<noteq> so_origin_fd s'" using new r none' calculation(2) by (cases "so_origin_fd s' = -1") auto
    ultimately show "regs (sel ?w) fd = Some (h, OP_READ, None)" using R [of fd] r by simp
  qed (use a(1) in \<open>simp_all add: world_def\<close>)
  then have "world g ?w" using a(1,3) dl pl dn sl reg by (simp add: world_def)
  moreover have "alive g ?w q" if q: "q \<in> set (active g) - {p}" for q
  proof (rule alive_frame [OF a(8)])
    fix t assume t: "socks_heap w q = Some t"
    from q have "q \<in> set (active g)" "q \<noteq> p" by auto
    note f = other_fds [OF o this t]
    have n: "so_client_fd t \<noteq> so_origin_fd s'" "so_origin_fd t = -1 \<or> so_origin_fd t \<noteq> so_origin_fd s'"
      using f(1,2,4,6,7) new by (cases "so_origin_fd s' = so_origin_fd s"; cases "so_origin_fd s' = -1"; auto)+
    have "talk_of t k = talk_of t (kern w)" using tr [of "so_client_fd t"] tr [of "so_origin_fd t"] f own_fds(1) [OF o]
      by (cases "so_origin_fd t = -1"; cases "so_origin_fd s = -1") (auto simp: talk_of_def)
    then show "regs (sel ?w) (so_client_fd t) = regs (sel w) (so_client_fd t)
      \<and> (so_origin_fd t \<noteq> -1 \<longrightarrow> regs (sel ?w) (so_origin_fd t) = regs (sel w) (so_origin_fd t))
      \<and> talk_of t (kern ?w) = talk_of t (kern w)
      \<and> (so_client_fd t \<in> set (owed g ?w) \<longrightarrow> so_client_fd t \<in> set (owed g w))"
      using R [of "so_client_fd t"] R [of "so_origin_fd t"] f n ow by auto
  qed (use q in simp_all)
  ultimately show ?thesis using a(2) wf held od links sl(3) ow by (simp add: own_def)
qed

section \<open>A job for the resolver\<close>

lemma own_submit:
  assumes o: "own g p s ci oi False w" and dn: "g_dns_worker w = Some dn" and q: "queue_ok dn' (queued g @ [w_fresh dn])"
    and job: "w_jobs dn' (w_fresh dn) = Some job" "job_view job = asked (so_client_fd s) host port p"
    and rest: "\<forall>j. j \<noteq> w_fresh dn \<longrightarrow> map_option job_view (w_jobs dn' j) = map_option job_view (w_jobs dn j)"
  shows "own (g\<lparr>queued := queued g @ [w_fresh dn]\<rparr>) p (s\<lparr>so_references := so_references s + 1\<rparr>) ci oi True
    (put_socks p (s\<lparr>so_references := so_references s + 1\<rparr>) (w\<lparr>g_dns_worker := Some dn'\<rparr>))"
proof -
  let ?g = "g\<lparr>queued := queued g @ [w_fresh dn]\<rparr>"
  let ?s = "s\<lparr>so_references := so_references s + 1\<rparr>"
  let ?w = "put_socks p ?s (w\<lparr>g_dns_worker := Some dn'\<rparr>)"
  note a = ownD [OF o]
  have d: "dns_ok g w" using a(1) by (simp add: world_def)
  have f: "fds_of ?w = fds_of w" using a(3) by (auto simp: fds_of_def)
  have hand: "in_hand ?w = in_hand w" by (simp add: in_hand_def)
  have below: "\<And>j jb. w_jobs dn j = Some jb \<Longrightarrow> j < w_fresh dn" and ok: "\<And>j. j \<in> set (queued g @ in_hand w) \<Longrightarrow> job_ok g w dn j"
    using d dn by (auto simp: dns_ok_def queue_ok_def)
  have old: "j < w_fresh dn" "job_ok g w dn j" if "j \<in> set (queued g @ in_hand w)" for j
    using ok [OF that] below by (auto simp: job_ok_def)
  have view: "\<exists>job'. w_jobs dn' j = Some job' \<and> j_fd job' = j_fd jb \<and> j_target job' = j_target jb"
    if "w_jobs dn j = Some jb" "j < w_fresh dn" for j jb
  proof -
    have "map_option job_view (w_jobs dn' j) = Some (job_view jb)" using rest that by simp
    then show ?thesis by (auto simp: job_view_def)
  qed
  have jobs: "job_ok ?g ?w dn' j" if "j \<in> set (queued g @ [w_fresh dn] @ in_hand w)" for j
  proof (cases "j = w_fresh dn")
    case True
    then show ?thesis using job a(2,3) by (auto simp: job_ok_def job_view_def asked_def f) (simp add: fds_of_def)
  next
    case False
    with that old [of j] have "j < w_fresh dn" "job_ok g w dn j" by auto
    then show ?thesis using view [of j] by (fastforce simp: job_ok_def f)
  qed
  have fd: "job_fd ?w j = job_fd w j" if "j \<in> set (queued g @ in_hand w)" for j
    using old [OF that] view [of j] dn by (fastforce simp: job_fd_def job_ok_def)
  have mine: "job_fd ?w (w_fresh dn) = so_client_fd s" using job by (simp add: job_fd_def job_view_def asked_def)
  have owed: "owed ?g ?w = map (job_fd w) (queued g) @ so_client_fd s # map (job_fd w) (in_hand w) @ pending g"
    using fd mine by (simp add: owed_def hand)
  have set_owed: "set (owed ?g ?w) = insert (so_client_fd s) (set (owed g w))" unfolding owed by (auto simp: owed_def)
  have free: "so_client_fd s \<notin> set (owed g w)" using a(7) by blast
  have "dns_ok ?g ?w"
  proof -
    have "distinct (queued g @ in_hand w)" "distinct (owed g w)" using d by (simp_all add: dns_ok_def)
    then have "distinct (queued ?g @ in_hand ?w)" "distinct (owed ?g ?w)" using old free unfolding owed
      by (auto simp: owed_def hand)
    moreover have "\<exists>q \<in> set (active ?g). \<exists>og. fds_of ?w q = Some (x, og)" if "x \<in> set (owed ?g ?w)" for x
    proof (cases "x = so_client_fd s")
      case True
      then show ?thesis using a(2,3) by (auto simp: f) (auto simp: fds_of_def)
    next
      case False
      then have "x \<in> set (owed g w)" using that set_owed by simp
      then show ?thesis using d by (simp add: dns_ok_def f)
    qed
    ultimately show ?thesis using q jobs by (simp add: dns_ok_def hand)
  qed
  moreover have "owner_ok ?g ?w fd h i x = owner_ok g w fd h i x" for fd h i x
    by (cases h) (simp_all add: owner_ok_def socks_reg_def mng_reg_def f)
  moreover have "dll (socks_heap ?w) None (g_active_head w) (active g) = dll (socks_heap w) None (g_active_head w) (active g)"
    by (simp, rule dll_cong) (use a(3) in auto)
  moreover have "pool_list (socks_heap ?w) (pool w) (pooled g) = pool_list (socks_heap w) (pool w) (pooled g)"
    by (simp, rule pool_list_cong) (use a(3) in auto)
  moreover have "listens ?w = listens w" by (rule listens_cong) simp_all
  ultimately have "world ?g ?w" using a(1,3) by (simp add: world_def)
  moreover have "alive ?g ?w q" if q: "q \<in> set (active g) - {p}" for q
  proof (rule alive_frame [OF a(8)])
    fix t assume t: "socks_heap w q = Some t"
    from q have "q \<in> set (active g)" "q \<noteq> p" by auto
    note f = other_fds [OF o this t]
    show "regs (sel ?w) (so_client_fd t) = regs (sel w) (so_client_fd t)
      \<and> (so_origin_fd t \<noteq> -1 \<longrightarrow> regs (sel ?w) (so_origin_fd t) = regs (sel w) (so_origin_fd t))
      \<and> talk_of t (kern ?w) = talk_of t (kern w)
      \<and> (so_client_fd t \<in> set (owed ?g ?w) \<longrightarrow> so_client_fd t \<in> set (owed g w))"
      using set_owed f(3) by simp
  qed (use q in simp_all)
  ultimately show ?thesis using a by (auto simp: own_def sess_wf_def registered_def held_def)
qed

lemma submit_name_ok:
  assumes o: "own g p s ci oi False w" and key: "k_fd key = so_client_fd s"
  shows "returns (submit_name p key request w) (\<lambda>(ok, w'). talk_of s (kern w') = talk_of s (kern w) \<and>
    (if ok then \<exists>j. own (g\<lparr>queued := queued g @ [j]\<rparr>) p (s\<lparr>so_references := so_references s + 1\<rparr>) ci oi True
                  (put_socks p (s\<lparr>so_references := so_references s + 1\<rparr>) w')
     else own g p s ci oi False w') \<and> socks_heap w' p = Some s)"
proof (cases "g_dns_worker w")
  case None
  then show ?thesis using o ownD(3) [OF o] by (simp add: submit_name_def)
next
  case (Some dn)
  obtain mem k where k: "k_alloc (kern w) = (mem, k)" by (cases "k_alloc (kern w)")
  note sil = silent_alloc [OF k]
  have o1: "own g p s ci oi False (w\<lparr>kern := k\<rparr>)" by (rule own_silent [OF o sil])
  have q: "queue_ok dn (queued g)" using ownD(1) [OF o] Some by (simp add: world_def dns_ok_def)
  show ?thesis
  proof (cases mem)
    case False
    have "own g p s ci oi False (w\<lparr>kern := k, g_dns_worker := Some dn\<rparr>)" by (rule own_cong [OF o1]) (simp_all add: Some)
    then show ?thesis using False k Some talk_silent [OF sil] ownD(3) [OF o] by (simp add: submit_name_def submit_fails)
  next
    case True
    from submit_ok [OF q, of "k_fd key" "map chr (ra_mem (rq_dest_addr request))" "rq_dest_port request" p] obtain dn' job where
      s: "dns_worker_submit True (k_fd key) (map chr (ra_mem (rq_dest_addr request))) (rq_dest_port request) p dn = Some (0, dn')"
        "queue_ok dn' (queued g @ [w_fresh dn])" "w_jobs dn' (w_fresh dn) = Some job"
        "job_view job = asked (k_fd key) (map chr (ra_mem (rq_dest_addr request))) (rq_dest_port request) p"
        "\<forall>j. j \<noteq> w_fresh dn \<longrightarrow> map_option job_view (w_jobs dn' j) = map_option job_view (w_jobs dn j)"
      by (auto simp: returns_prod)
    have "own (g\<lparr>queued := queued g @ [w_fresh dn]\<rparr>) p (s\<lparr>so_references := so_references s + 1\<rparr>) ci oi True
        (put_socks p (s\<lparr>so_references := so_references s + 1\<rparr>) (w\<lparr>kern := k, g_dns_worker := Some dn'\<rparr>))"
      by (rule own_submit [OF o1 _ s(2,3) _ s(5)]) (use Some s(4) key in simp_all)
    then show ?thesis using True k Some talk_silent [OF sil] ownD(3) [OF o] s(1) by (auto simp: submit_name_def)
  qed
qed

section \<open>Closing and opening an origin\<close>

definition socks_host_ok :: "proxy_host \<Rightarrow> bool" where
  "socks_host_ok H \<longleftrightarrow> h_sel H = sel \<and> h_put H = (\<lambda>sl w. w\<lparr>sel := sl\<rparr>) \<and> handle_close H socks5_handler = Some socksv5_close"

text \<open>Unregistering a descriptor of a session gives up one reference.\<close>

lemma unregister_run:
  assumes H: "socks_host_ok H" and fs: "full_sel (sel w)" and r: "regs (sel w) fd = Some (socks5_handler, i, Some (Socks_Ptr p))"
    and d: "socks5_destroy (Some p) w = Some w1" "sel w1 = sel w"
  shows "\<exists>sl. selector_unregister_fd H fd w = Some (SELECTOR_SUCCESS, w1\<lparr>sel := sl\<rparr>) \<and> full_sel sl
    \<and> regs sl = (regs (sel w))(fd := None) \<and> resolution_jobs sl = resolution_jobs (sel w)"
proof -
  have Hs: "h_sel H = sel" "h_put H = (\<lambda>sl w. w\<lparr>sel := sl\<rparr>)" "handle_close H socks5_handler = Some socksv5_close"
    using H by (auto simp: socks_host_ok_def)
  have leg: "\<not> INVALID_FD fd" using sel.entry_legal [OF fs, of fd] r by simp
  then obtain k where k: "fd = int k" "k < ITEMS_MAX_SIZE" by (cases fd) (auto simp: INVALID_FD_def)
  obtain it where it: "arr_get (fds (sel w)) (int k) = Some it"
    "item_used it \<longrightarrow> (\<exists>h. i_handler it = Some h \<and> i_fd it = int k \<and> regs (sel w) (int k) = Some (h, i_interest it, i_data it))"
    "\<not> item_used it \<longrightarrow> regs (sel w) (int k) = None \<and> i_interest it = OP_NOOP"
    using item_view [OF fs k(2)] by blast
  with r k have u: "item_used it" "i_handler it = Some socks5_handler" "i_fd it = int k" "i_data it = Some (Socks_Ptr p)" by auto
  from full_remove [OF fs leg] obtain sl where sl: "item_remove fd (sel w) = Some sl" "full_sel sl" "regs sl = (regs (sel w))(fd := None)"
    by (auto simp: returns_iff)
  have "socksv5_close \<lparr>k_fd = int k, k_data = Some (Socks_Ptr p)\<rparr> w = Some w1"
    using d by (simp add: socksv5_close_def socks_ptr_def)
  then have "selector_unregister_fd H fd w = Some (SELECTOR_SUCCESS, w1\<lparr>sel := sl\<rparr>)"
    using it(1) u leg sl(1) k(1) d(2) by (simp add: selector_unregister_fd_def Hs)
  then show ?thesis using sl remove_jobs [OF sl(1)] by blast
qed

lemma drop_origin_ok:
  assumes H: "socks_host_ok H" and o: "own g p s ci oi False w" and og: "so_origin_fd s \<noteq> -1"
  shows "\<exists>sl. selector_unregister_fd H (so_origin_fd s) w
      = Some (SELECTOR_SUCCESS, (put_socks p (s\<lparr>so_references := so_references s - 1\<rparr>) w)\<lparr>sel := sl\<rparr>)
    \<and> own g p (s\<lparr>so_references := so_references s - 1, so_origin_fd := -1\<rparr>) ci oi' False
        ((put_socks p (s\<lparr>so_references := so_references s - 1, so_origin_fd := -1\<rparr>) w)\<lparr>sel := sl, kern := k_close (so_origin_fd s) (kern w)\<rparr>)"
proof -
  let ?s = "s\<lparr>so_references := so_references s - 1, so_origin_fd := -1\<rparr>"
  note a = ownD [OF o]
  note f = own_fds [OF o]
  have two: "so_references s = 2" using a(6) og by (simp add: held_def)
  then have "socks5_destroy (Some p) w = Some (put_socks p (s\<lparr>so_references := so_references s - 1\<rparr>) w)"
    by (simp add: socks5_destroy_def a(3))
  from unregister_run [OF H a(9) f(8) [OF og] this] obtain sl where sl:
    "selector_unregister_fd H (so_origin_fd s) w = Some (SELECTOR_SUCCESS, (put_socks p (s\<lparr>so_references := so_references s - 1\<rparr>) w)\<lparr>sel := sl\<rparr>)"
    "full_sel sl" "regs sl = (regs (sel w))(so_origin_fd s := None)" "resolution_jobs sl = resolution_jobs (sel w)" by auto
  have "own g p ?s ci oi' False ((put_socks p ?s w)\<lparr>sel := sl, kern := k_close (so_origin_fd s) (kern w)\<rparr>)"
  proof (rule own_update [OF o])
    show "sess_wf ?s" using a(4) by (simp add: sess_wf_def)
    show "held ?s False" using two by (simp add: held_def)
    show "registered p ?s ci oi' (regs sl)" using f(2,7) sl(3) by (simp add: registered_def)
    show "so_client_fd s \<in> set (owed g w) \<longrightarrow> False" using a(7) by blast
  qed (use sl in \<open>auto simp: k_close_def\<close>)
  then show ?thesis using sl(1) by blast
qed

text \<open>A socket that has been opened and connected, not registered yet.\<close>

definition opened :: "kernel \<Rightarrow> int \<Rightarrow> sockaddr \<Rightarrow> kernel \<Rightarrow> bool" where
  "opened k fd addr k' \<longleftrightarrow> 0 \<le> fd \<and> fd \<notin> set (k_open k) \<and> set (k_open k') = insert fd (set (k_open k))
     \<and> k_rx k' = (k_rx k)(fd := []) \<and> k_tx k' = (k_tx k)(fd := []) \<and> k_peer k' = (k_peer k)(fd := Some addr)"

text \<open>A failed attempt leaves no socket behind; the traces of descriptors that are not open do not matter.\<close>

definition untouched :: "kernel \<Rightarrow> kernel \<Rightarrow> bool" where
  "untouched k k' \<longleftrightarrow> set (k_open k') = set (k_open k) \<and> (\<forall>f. f = -1 \<or> f \<in> set (k_open k) \<longrightarrow>
     k_rx k' f = k_rx k f \<and> k_tx k' f = k_tx k f \<and> k_peer k' f = k_peer k f)"

lemma own_untouched: "own g p s ci oi d w \<Longrightarrow> untouched (kern w) k \<Longrightarrow> own g p s ci oi d (w\<lparr>kern := k\<rparr>)"
proof (rule own_kern)
  fix f assume o: "own g p s ci oi d w" and u: "untouched (kern w) k" and "f = -1 \<or> regs (sel w) f \<noteq> None"
  then have "f = -1 \<or> f \<in> set (k_open (kern w))" using ownD(1) [OF o] by (auto simp: world_def)
  then show "k_rx k f = k_rx (kern w) f \<and> k_tx k f = k_tx (kern w) f \<and> k_peer k f = k_peer (kern w) f"
    using u unfolding untouched_def by blast
qed (simp_all add: untouched_def)

lemma talk_untouched: "own g p s ci oi d w \<Longrightarrow> untouched (kern w) k \<Longrightarrow> talk_of s k = talk_of s (kern w)"
  using own_fds(5,6) [of g p s ci oi d w] by (cases "so_origin_fd s = -1") (auto simp: untouched_def talk_of_def)

lemma connecting_try_one_ok:
  assumes o: "own g p s ci oi d w"
  shows "returns (connecting_try_one p addr w) (\<lambda>(err, w'). case err of
      Some e \<Rightarrow> \<exists>k. w' = w\<lparr>kern := k\<rparr> \<and> untouched (kern w) k
    | None \<Rightarrow> \<exists>fd k. w' = put_socks p (s\<lparr>so_origin_fd := fd\<rparr>) (w\<lparr>kern := k\<rparr>) \<and> opened (kern w) fd addr k)"
proof -
  obtain r k1 where r: "k_new_socket (kern w) = (r, k1)" by (cases "k_new_socket (kern w)")
  show ?thesis
  proof (cases r)
    case (Inl e)
    with r have "untouched (kern w) k1" by (auto simp: k_new_socket_def untouched_def split: prod.splits option.splits)
    then show ?thesis using r Inl by (auto simp: connecting_try_one_def)
  next
    case (Inr fd)
    let ?fd = "fresh_fd (k_open (kern w))"
    have fd: "fd = ?fd" "k_open k1 = fd # k_open (kern w)" "k_rx k1 = (k_rx (kern w))(fd := [])" "k_tx k1 = (k_tx (kern w))(fd := [])"
      "k_peer k1 = (k_peer (kern w))(fd := None)"
      using r Inr by (auto simp: k_new_socket_def k_socket_def Let_def split: prod.splits option.splits)
    have new: "0 \<le> fd" "fd \<notin> set (k_open (kern w))" using fresh_fd_new [of "k_open (kern w)"] fd(1) by simp_all
    have closed: "untouched (kern w) (k_close fd k')" if "k_open k' = k_open k1" "k_rx k' = k_rx k1" "k_tx k' = k_tx k1"
        "\<forall>f. f \<noteq> fd \<longrightarrow> k_peer k' f = k_peer k1 f" for k'
      using that fd(2-5) new by (auto simp: untouched_def k_close_def)
    obtain b k2 where b: "k_set_nio fd k1 = (b, k2)" by (cases "k_set_nio fd k1")
    have k2: "k_open k2 = k_open k1" "k_rx k2 = k_rx k1" "k_tx k2 = k_tx k1" "k_peer k2 = k_peer k1"
      using silent_nio [OF b] by (simp_all add: silent_def)
    obtain e k3 where e: "k_connect fd addr k2 = (e, k3)" by (cases "k_connect fd addr k2")
    have k3: "k_open k3 = k_open k1" "k_rx k3 = k_rx k1" "k_tx k3 = k_tx k1" "k_peer k3 = (k_peer k1)(fd := Some addr)"
      using e k2 by (auto simp: k_connect_def split: prod.splits)
    have op: "opened (kern w) fd addr k3" using new fd(2-5) k3 by (simp add: opened_def)
    show ?thesis
    proof (cases b)
      case False
      then show ?thesis using r Inr b closed [of k2] k2 by (auto simp: connecting_try_one_def)
    next
      case True
      have "socks_heap w p = Some s" by (rule ownD(3) [OF o])
      then show ?thesis using r Inr b True e closed [of k3] k3 op
        by (auto simp: connecting_try_one_def upd_socks_def split: option.split)
    qed
  qed
qed

text \<open>Registering the new origin: the session owns it, or it is closed again.\<close>

lemma register_origin_ok:
  assumes o: "own g p s ci oi d w" and none: "so_origin_fd s = -1" and op: "opened (kern w) fd addr k"
    and s': "s' = s\<lparr>so_origin_fd := fd, so_references := so_references s + 1\<rparr>"
  shows "returns (connecting_register_origin p (put_socks p s' (w\<lparr>kern := k\<rparr>))) (\<lambda>(ok, w'').
    if ok then own g p s' ci OP_WRITE d w'' \<and> talk_of s' (kern w'') = talk_of s' k
    else own g p s ci oi d w'' \<and> talk_of s (kern w'') = talk_of s (kern w))"
proof -
  let ?w1 = "put_socks p s' (w\<lparr>kern := k\<rparr>)"
  note a = ownD [OF o]
  note f = own_fds [OF o]
  have free: "regs (sel w) fd = None" using a(1) op by (cases "regs (sel w) fd") (auto simp: world_def opened_def)
  have ne: "fd \<noteq> so_client_fd s" "fd \<noteq> -1" using f(5) op by (auto simp: opened_def)
  obtain mem k2 where k2: "k_alloc k = (mem, k2)" by (cases "k_alloc k")
  note sil = silent_alloc [OF k2]
  obtain st sl where sl: "selector_register mem fd (Some socks5_handler) OP_WRITE (Some (Socks_Ptr p)) (sel w) = Some (st, sl)"
    "full_sel sl" "st = SELECTOR_SUCCESS \<and> regs sl = (regs (sel w))(fd \<mapsto> (socks5_handler, OP_WRITE, Some (Socks_Ptr p)))
      \<or> st \<noteq> SELECTOR_SUCCESS \<and> regs sl = regs (sel w)"
  proof (cases "INVALID_FD fd")
    case True
    then show ?thesis using that [of SELECTOR_IARGS "sel w"] a(9) by (simp add: selector_register_def)
  next
    case False
    from full_enter [OF a(9) False, of mem socks5_handler OP_WRITE "Some (Socks_Ptr p)"] free that show ?thesis
      by (auto simp: returns_prod)
  qed
  have jobs: "resolution_jobs sl = resolution_jobs (sel w)" by (rule enter_jobs [OF sl(1)])
  have tr: "k_rx k2 f = k_rx (kern w) f \<and> k_tx k2 f = k_tx (kern w) f \<and> k_peer k2 f = k_peer (kern w) f"
    if "f = -1 \<or> regs (sel w) f \<noteq> None" for f
    using that free ne op sil by (auto simp: opened_def silent_def)
  have run: "connecting_register_origin p ?w1 = (if st = SELECTOR_SUCCESS then Some (True, ?w1\<lparr>kern := k2, sel := sl\<rparr>)
    else Some (False, put_socks p (s'\<lparr>so_references := so_references s, so_origin_fd := -1\<rparr>) (?w1\<lparr>sel := sl, kern := k_close fd k2\<rparr>)))"
    using k2 sl(1) by (simp add: connecting_register_origin_def s')
  show ?thesis
  proof (cases "st = SELECTOR_SUCCESS")
    case True
    with sl(3) have R: "regs sl = (regs (sel w))(fd \<mapsto> (socks5_handler, OP_WRITE, Some (Socks_Ptr p)))" by blast
    have "own g p s' ci OP_WRITE d ((put_socks p s' w)\<lparr>sel := sl, kern := k2\<rparr>)"
    proof (rule own_update [OF o _ _ _ _ _ _ _ sl(2) jobs])
      show "sess_wf s'" using a(4) by (simp add: sess_wf_def s')
      show "held s' d" using a(6) none ne by (simp add: held_def s')
      show "registered p s' ci OP_WRITE (regs sl)" using f(7) R ne by (simp add: registered_def s')
    qed (use a(7) none R free ne op sil tr in \<open>auto simp: s' opened_def silent_def\<close>)
    moreover have "(put_socks p s' w)\<lparr>sel := sl, kern := k2\<rparr> = ?w1\<lparr>kern := k2, sel := sl\<rparr>" by (simp add: put_socks_def)
    ultimately show ?thesis using run True talk_silent [OF sil, of s'] by simp
  next
    case False
    with sl(3) have R: "regs sl = regs (sel w)" by blast
    have "own g p s ci oi d ((put_socks p s w)\<lparr>sel := sl, kern := k_close fd k2\<rparr>)"
    proof (rule own_update [OF o a(4,6) _ _ _ _ _ sl(2) jobs])
      show "registered p s ci oi (regs sl)" using a(5) R by simp
      show "f \<in> set (k_open (k_close fd k2))" if "f \<in> set (k_open (kern w))" "regs sl f \<noteq> None" for f
        using that op sil by (auto simp: opened_def silent_def k_close_def)
      show "k_rx (k_close fd k2) f = k_rx (kern w) f \<and> k_tx (k_close fd k2) f = k_tx (kern w) f \<and> k_peer (k_close fd k2) f = k_peer (kern w) f"
        if "f = -1 \<or> regs (sel w) f \<noteq> None" for f
        using tr [OF that] by (simp add: k_close_def)
    qed (use a(7) R in auto)
    moreover have "s'\<lparr>so_references := so_references s, so_origin_fd := -1\<rparr> = s" using none by (simp add: s')
    moreover have "put_socks p s (?w1\<lparr>sel := sl, kern := k_close fd k2\<rparr>) = (put_socks p s w)\<lparr>sel := sl, kern := k_close fd k2\<rparr>"
      by (simp add: put_socks_def)
    moreover have "talk_of s (k_close fd k2) = talk_of s (kern w)"
      using tr [of "so_client_fd s"] tr [of "-1"] f(7) none by (simp add: talk_of_def k_close_def)
    ultimately show ?thesis using run False by simp
  qed
qed

end
