(* ===== verification/Socks5_Calls.thy ===== *)
theory Socks5_Calls
  imports Socks5_Links
begin

text \<open>
  The steps that the handlers of a session share: receiving into the read buffer, sending from the write
  buffer, marshalling a reply. \<open>session\<close> and \<open>next_state\<close> are the assertions the handlers are specified with.
\<close>

section \<open>Assertions\<close>

text \<open>
  The session at \<open>p\<close>, whose client is on the descriptor \<open>c\<close>, is owned by the running handler and satisfies
  \<open>P\<close>; \<open>js\<close> and \<open>fs\<close> are the jobs of the round.
\<close>

definition session :: "int list \<Rightarrow> int list \<Rightarrow> nat \<Rightarrow> int \<Rightarrow> bool \<Rightarrow> (socks5 \<Rightarrow> u32 \<Rightarrow> u32 \<Rightarrow> talk \<Rightarrow> bool) \<Rightarrow> proxy \<Rightarrow> bool" where
  "session js fs p c d P w \<longleftrightarrow> (\<exists>g s ci oi. pending g = js \<and> finished g = fs \<and> own g p s ci oi d w \<and> so_client_fd s = c
     \<and> P s ci oi (talk_of s (kern w)))"

lemma sessionI:
  "own g p s ci oi d w \<Longrightarrow> so_client_fd s = c \<Longrightarrow> P s ci oi (talk_of s (kern w)) \<Longrightarrow> session (pending g) (finished g) p c d P w"
  unfolding session_def by blast

lemma sessionE:
  assumes "session js fs p c d P w"
  obtains g s ci oi where "pending g = js" "finished g = fs" "own g p s ci oi d w" "so_client_fd s = c"
    "P s ci oi (talk_of s (kern w))"
  using assms unfolding session_def by blast

definition reading :: "nat \<Rightarrow> bool" where
  "reading st \<longleftrightarrow> st = HELLO_READ \<or> st = AUTH_READ \<or> st = REQUEST_READ"

text \<open>
  What a handler of the state \<open>st\<close> leaves: it returns a state \<open>st'\<close>, no earlier one, and the session rests
  in \<open>st\<close> or is about to enter \<open>st'\<close>. It stays in a reading state only after using up its input.
\<close>

definition after :: "nat \<Rightarrow> nat \<Rightarrow> socks5 \<Rightarrow> u32 \<Rightarrow> u32 \<Rightarrow> talk \<Rightarrow> bool" where
  "after st st' s ci oi T \<longleftrightarrow> so_current s = Some st \<and> (if st' = st then at (Some st) s ci oi T \<and> (reading st \<longrightarrow> rb s = [])
     else entering st' s ci oi T)"

definition next_state :: "int list \<Rightarrow> int list \<Rightarrow> nat \<Rightarrow> int \<Rightarrow> nat \<Rightarrow> nat \<times> proxy \<Rightarrow> bool" where
  "next_state js fs p c st x \<longleftrightarrow> (case x of (st', w') \<Rightarrow> st \<le> st' \<and> st' \<le> ERROR
     \<and> session js fs p c (st' = REQUEST_RESOLV) (after st st') w')"

lemma next_stateI:
  assumes "own g p s ci oi d w" and "so_client_fd s = c" and "after st st' s ci oi (talk_of s (kern w))" and "d = (st' = REQUEST_RESOLV)"
    and "st \<le> st'" and "st' \<le> ERROR"
  shows "next_state (pending g) (finished g) p c st (st', w)"
  using assms(3-) sessionI [OF assms(1,2), of "after st st'"] by (simp add: next_state_def)

lemma after_error: "so_current s = Some st \<Longrightarrow> st \<le> COPY \<Longrightarrow> after st ERROR s ci oi T"
  by (simp add: after_def entering_def)

lemma next_error:
  assumes "own g p s ci oi False w" and "so_client_fd s = c" and "so_current s = Some st" and "st \<le> COPY"
  shows "next_state (pending g) (finished g) p c st (ERROR, w)"
  by (rule next_stateI [OF assms(1,2) after_error [OF assms(3,4)]]) (use assms(4) in simp_all)

lemma next_done:
  assumes "own g p s ci oi False w" and "so_client_fd s = c" and "so_current s = Some st" and "st \<le> COPY"
  shows "next_state (pending g) (finished g) p c st (DONE, w)"
  by (rule next_stateI [OF assms(1,2)]) (use assms(3,4) in \<open>simp_all add: after_def entering_def\<close>)

section \<open>The sockets of the session\<close>

fun heard_client :: "byte list \<Rightarrow> talk \<Rightarrow> talk" where
  "heard_client bs (crx, r) = (crx @ bs, r)"

fun told_client :: "byte list \<Rightarrow> talk \<Rightarrow> talk" where
  "told_client bs (crx, ctx, r) = (crx, ctx @ bs, r)"

fun heard_origin :: "byte list \<Rightarrow> talk \<Rightarrow> talk" where
  "heard_origin bs (crx, ctx, orx, r) = (crx, ctx, orx @ bs, r)"

fun told_origin :: "byte list \<Rightarrow> talk \<Rightarrow> talk" where
  "told_origin bs (crx, ctx, orx, otx, r) = (crx, ctx, orx, otx @ bs, r)"

lemma recv_peer: "k_recv f n k = (r, k') \<Longrightarrow> k_peer k' = k_peer k"
  by (auto simp: k_recv_def split: if_splits list.splits recv_event.splits)

lemma send_peer: "k_send f bs k = (r, k') \<Longrightarrow> k_peer k' = k_peer k"
  by (auto simp: k_send_def split: if_splits list.splits send_event.splits)

lemma talk_recv:
  assumes r: "k_recv f n k = (r, k')" and ne: "so_client_fd s \<noteq> so_origin_fd s"
  shows "f = so_client_fd s \<Longrightarrow> talk_of s k' = heard_client (case r of Inl e \<Rightarrow> [] | Inr bs \<Rightarrow> bs) (talk_of s k)"
    and "f = so_origin_fd s \<Longrightarrow> talk_of s k' = heard_origin (case r of Inl e \<Rightarrow> [] | Inr bs \<Rightarrow> bs) (talk_of s k)"
  using k_recv_trace [OF r] recv_peer [OF r] ne by (auto simp: talk_of_def split: sum.splits)

lemma talk_send:
  assumes r: "k_send f bs k = (r, k')" and ne: "so_client_fd s \<noteq> so_origin_fd s"
  shows "f = so_client_fd s \<Longrightarrow> talk_of s k' = told_client (case r of Inl e \<Rightarrow> [] | Inr n \<Rightarrow> take n bs) (talk_of s k)"
    and "f = so_origin_fd s \<Longrightarrow> talk_of s k' = told_origin (case r of Inl e \<Rightarrow> [] | Inr n \<Rightarrow> take n bs) (talk_of s k)"
  using k_send_trace [OF r] send_peer [OF r] ne by (auto simp: talk_of_def split: sum.splits)

lemma talk_of_upd [simp]:
  "talk_of (s\<lparr>so_read_buffer := b\<rparr>) k = talk_of s k" "talk_of (s\<lparr>so_write_buffer := b\<rparr>) k = talk_of s k"
  "talk_of (s\<lparr>so_client := c\<rparr>) k = talk_of s k" "talk_of (s\<lparr>so_orig := oc\<rparr>) k = talk_of s k"
  "talk_of (s\<lparr>so_current := cu\<rparr>) k = talk_of s k" "talk_of (s\<lparr>so_resolution := rs\<rparr>) k = talk_of s k"
  "talk_of (s\<lparr>so_connect_deadline := cd\<rparr>) k = talk_of s k" "talk_of (s\<lparr>so_last_activity := la\<rparr>) k = talk_of s k"
  "talk_of (s\<lparr>so_user := us\<rparr>) k = talk_of s k" "talk_of (s\<lparr>so_destination := ds\<rparr>) k = talk_of s k"
  "talk_of (s\<lparr>so_port := po\<rparr>) k = talk_of s k" "talk_of (s\<lparr>so_destination_set := dst\<rparr>) k = talk_of s k"
  "talk_of (s\<lparr>so_tunnel_opened := tn\<rparr>) k = talk_of s k" "talk_of (s\<lparr>so_log_emitted := le\<rparr>) k = talk_of s k"
  "talk_of (s\<lparr>so_failure := fa\<rparr>) k = talk_of s k" "talk_of (s\<lparr>so_references := rf\<rparr>) k = talk_of s k"
  by (simp_all add: talk_of_def)

section \<open>Receiving and sending during the negotiation\<close>

lemma put_socks_twice: "put_socks p s' (w\<lparr>kern := k\<rparr>) = (put_socks p s' w)\<lparr>kern := k\<rparr>"
  by (simp add: put_socks_def)

lemma sess_wf_buffers:
  "sess_wf s \<Longrightarrow> buffer_wf b \<Longrightarrow> b_limit b = BUFFER_SIZE \<Longrightarrow> sess_wf (s\<lparr>so_read_buffer := b\<rparr>)"
  "sess_wf s \<Longrightarrow> buffer_wf b \<Longrightarrow> b_limit b = BUFFER_SIZE \<Longrightarrow> sess_wf (s\<lparr>so_write_buffer := b\<rparr>)"
  by (simp_all add: sess_wf_def)

text \<open>Input waits in the read buffer, or the state ends here with the session as it was.\<close>

lemma receive_more_ok:
  assumes o: "own g p s ci oi d w" and key: "k_data key = Some (Socks_Ptr p)" "k_fd key = so_client_fd s"
  shows "returns (receive_more st key w) (\<lambda>(r, w'). \<exists>b new. own g p (s\<lparr>so_read_buffer := b\<rparr>) ci oi d w'
    \<and> buffer_contents b = rb s @ new \<and> talk_of s (kern w') = heard_client new (talk_of s (kern w))
    \<and> (case r of None \<Rightarrow> buffer_contents b \<noteq> [] | Some st' \<Rightarrow> rb s = [] \<and> new = [] \<and> (st' = st \<or> st' = ERROR)))"
proof (cases "rb s = []")
  case False
  then have "buffer_can_read (so_read_buffer s)" using ownD(4) [OF o] by (simp add: sess_wf_def buffer_can_read_iff)
  then have "receive_more st key w = Some (None, w)" by (simp add: receive_more_def own_attachment [OF o key(1)] Let_def)
  then show ?thesis using o False by (cases "talk_of s (kern w)") (auto intro!: exI [of _ "so_read_buffer s"])
next
  case True
  let ?b = "so_read_buffer s"
  have wf: "buffer_wf ?b" "b_limit ?b = BUFFER_SIZE" using ownD(4) [OF o] by (simp_all add: sess_wf_def)
  have cr: "\<not> buffer_can_read ?b" using True wf by (simp add: buffer_can_read_iff)
  have w0: "b_write ?b = 0" using buffer_empty_room [OF wf(1) True] by simp
  obtain r k where r: "k_recv (so_client_fd s) BUFFER_SIZE (kern w) = (r, k)" by (cases "k_recv (so_client_fd s) BUFFER_SIZE (kern w)")
  let ?w = "w\<lparr>kern := k\<rparr>"
  have o1: "own g p s ci oi d ?w" by (rule own_recv [OF o r]) simp
  note t = talk_recv(1) [OF r own_fds(2) [OF o] refl]
  have quiet: "\<exists>b new. own g p (s\<lparr>so_read_buffer := b\<rparr>) ci oi d ?w \<and> buffer_contents b = rb s @ new
      \<and> talk_of s (kern ?w) = heard_client new (talk_of s (kern w)) \<and> rb s = [] \<and> new = []"
    if "(case r of Inl e \<Rightarrow> [] | Inr bs \<Rightarrow> bs) = []"
    using o1 t that True by (intro exI [of _ ?b] exI [of _ "[]"]) simp
  note run = receive_more_def own_attachment [OF o key(1)] key(2) cr wf w0 r
  show ?thesis
  proof (cases r)
    case (Inl e)
    then show ?thesis using quiet by (simp add: run)
  next
    case (Inr bs)
    show ?thesis
    proof (cases "bs = []")
      case True
      then show ?thesis using quiet Inr by (simp add: run)
    next
      case False
      have "length bs \<le> b_limit ?b - b_write ?b" using k_recv_trace [OF r] Inr wf w0 by auto
      from buffer_push_ok [OF wf(1) this] obtain b1 b2 where b: "buffer_store ?b bs = Some b1"
        "buffer_write_adv b1 (int (length bs)) = Some b2" "buffer_wf b2" "b_limit b2 = BUFFER_SIZE" "buffer_contents b2 = rb s @ bs"
        using wf(2) by (auto simp: buffer_push_def returns_iff bind_eq_Some_conv)
      have "own g p (s\<lparr>so_read_buffer := b2\<rparr>) ci oi d (put_socks p (s\<lparr>so_read_buffer := b2\<rparr>) ?w)"
        by (rule own_put [OF o1]) (use ownD(4) [OF o] b in \<open>simp_all add: sess_wf_buffers\<close>)
      then show ?thesis using False b t Inr by (simp add: run) (intro exI [of _ b2] exI [of _ bs], simp)
    qed
  qed
qed

text \<open>What was pending has been sent in part, or the state ends here with the session as it was.\<close>

lemma send_pending_ok:
  assumes o: "own g p s ci oi d w" and key: "k_data key = Some (Socks_Ptr p)" "k_fd key = so_client_fd s"
  shows "returns (send_pending st key w) (\<lambda>(r, w'). \<exists>b out. own g p (s\<lparr>so_write_buffer := b\<rparr>) ci oi d w'
    \<and> out @ buffer_contents b = wb s \<and> talk_of s (kern w') = told_client out (talk_of s (kern w))
    \<and> (\<forall>st'. r = Some st' \<longrightarrow> out = [] \<and> (st' = st \<or> st' = ERROR)))"
proof -
  let ?b = "so_write_buffer s"
  have wf: "buffer_wf ?b" "b_limit ?b = BUFFER_SIZE" using ownD(4) [OF o] by (simp_all add: sess_wf_def)
  obtain r k where r: "k_send (so_client_fd s) (wb s) (kern w) = (r, k)" by (cases "k_send (so_client_fd s) (wb s) (kern w)")
  let ?w = "w\<lparr>kern := k\<rparr>"
  have o1: "own g p s ci oi d ?w" by (rule own_send [OF o r]) simp
  note t = talk_send(1) [OF r own_fds(2) [OF o] refl]
  have run: "send_pending st key w = (case r of Inl e \<Rightarrow> Some (Some (if transient e then st else ERROR), ?w)
     | Inr n \<Rightarrow> do { b \<leftarrow> buffer_read_adv ?b (int n); Some (None, put_socks p (s\<lparr>so_write_buffer := b\<rparr>) ?w) })"
    using wf r by (simp add: send_pending_def own_attachment [OF o key(1)] key(2) Let_def)
  show ?thesis
  proof (cases r)
    case (Inl e)
    then show ?thesis using o1 t by (simp add: run) (intro exI [of _ ?b] exI [of _ "[]"], simp)
  next
    case (Inr n)
    have n: "n \<le> length (wb s)" using k_send_trace [OF r] Inr by auto
    from buffer_read_adv_ok [OF wf(1) n] obtain b where b: "buffer_read_adv ?b (int n) = Some b" "buffer_wf b" "b_limit b = BUFFER_SIZE"
      "buffer_contents b = drop n (wb s)" using wf(2) by (auto simp: returns_iff)
    have "own g p (s\<lparr>so_write_buffer := b\<rparr>) ci oi d (put_socks p (s\<lparr>so_write_buffer := b\<rparr>) ?w)"
      by (rule own_put [OF o1]) (use ownD(4) [OF o] b in \<open>simp_all add: sess_wf_buffers\<close>)
    moreover have "send_pending st key w = Some (None, put_socks p (s\<lparr>so_write_buffer := b\<rparr>) ?w)" using Inr b(1) by (simp add: run)
    ultimately show ?thesis using b(4) t Inr
      by (simp only: returns_Some prod.case) (intro exI [of _ b] exI [of _ "take n (wb s)"], simp)
  qed
qed

end
