(* ===== verification/Socks5_Negotiation.thy ===== *)
theory Socks5_Negotiation
  imports Socks5_Calls
begin

text \<open>
  The handlers of the greeting and of the authentication keep the invariant of the session.
\<close>

section \<open>The parsers on the read buffer\<close>

lemma buffer_read_limit: "buffer_read b = Some (x, b') \<Longrightarrow> b_limit b' = b_limit b"
  by (auto simp: buffer_read_def buffer_read_adv_def buffer_compact_def Let_def bind_eq_Some_conv split: if_splits)

lemma hello_consume_limit: "hello_consume b pe = Some (b', pe') \<Longrightarrow> b_limit b' = b_limit b"
proof (induction "b_write b - b_read b" arbitrary: b pe rule: less_induct)
  case less
  show ?case
  proof (cases "buffer_can_read b")
    case True
    then obtain x b1 where x: "buffer_read b = Some (x, b1)"
      and r: "(if hello_final (hello_step pe x) then Some (b1, hello_step pe x) else hello_consume b1 (hello_step pe x)) = Some (b', pe')"
      using less.prems unfolding hello_consume_unfold [of b] by (cases "buffer_read b") auto
    then show ?thesis using less.hyps [OF buffer_read_decreases [OF True x]] buffer_read_limit [OF x] by (auto split: if_splits)
  next
    case False
    then show ?thesis using less.prems unfolding hello_consume_unfold [of b] by simp
  qed
qed

lemma auth_consume_limit: "auth_consume b pe = Some (b', pe') \<Longrightarrow> b_limit b' = b_limit b"
proof (induction "b_write b - b_read b" arbitrary: b pe rule: less_induct)
  case less
  show ?case
  proof (cases "buffer_can_read b")
    case True
    then obtain x b1 pe1 where x: "buffer_read b = Some (x, b1)" and st: "auth_step pe x = Some pe1"
      and r: "(if auth_final pe1 then Some (b1, pe1) else auth_consume b1 pe1) = Some (b', pe')"
      using less.prems unfolding auth_consume.simps [of b] by (auto simp: bind_eq_Some_conv)
    then show ?thesis using less.hyps [OF buffer_read_decreases [OF True x]] buffer_read_limit [OF x] by (auto split: if_splits)
  next
    case False
    then show ?thesis using less.prems unfolding auth_consume.simps [of b] by simp
  qed
qed

lemma request_consume_limit: "request_consume b pe = Some (b', pe') \<Longrightarrow> b_limit b' = b_limit b"
proof (induction "b_write b - b_read b" arbitrary: b pe rule: less_induct)
  case less
  show ?case
  proof (cases "buffer_can_read b")
    case True
    then obtain x b1 pe1 where x: "buffer_read b = Some (x, b1)" and st: "request_step pe x = Some pe1"
      and r: "(if request_final pe1 then Some (b1, pe1) else request_consume b1 pe1) = Some (b', pe')"
      using less.prems unfolding request_consume.simps [of b] by (auto simp: bind_eq_Some_conv)
    then show ?thesis using less.hyps [OF buffer_read_decreases [OF True x]] buffer_read_limit [OF x] by (auto split: if_splits)
  next
    case False
    then show ?thesis using less.prems unfolding request_consume.simps [of b] by simp
  qed
qed

text \<open>Parsing goes on where it stopped, to the end of the message or of the buffer.\<close>

lemma hello_run:
  assumes "buffer_wf b" and "hello_hist p0 e0 pe used" and "\<not> hello_final pe"
  shows "\<exists>b' pe' u. hello_consume b pe = Some (b', pe') \<and> buffer_wf b' \<and> b_limit b' = b_limit b
    \<and> buffer_contents b = u @ buffer_contents b' \<and> hello_hist p0 e0 pe' (used @ u) \<and> (hello_final pe' \<or> buffer_contents b' = [])"
proof -
  from hello.consume_feed [OF assms(1) TrueI assms(3)] obtain b' pe' where c: "hello_consume b pe = Some (b', pe')" "buffer_wf b'"
    "feed (\<lambda>pe x. Some (hello_step pe x)) hello_final pe (buffer_contents b) = Some (pe', buffer_contents b')" by blast
  have "\<exists>u. buffer_contents b = u @ buffer_contents b' \<and> hello_hist p0 e0 pe' (used @ u)"
    by (rule feed_history [where H = "hello_hist p0 e0", OF _ c(3) assms(2,3)]) (rule hello_hist_step)
  then show ?thesis using c hello_consume_limit [OF c(1)] feed_rest [OF c(3)] by blast
qed

lemma auth_run:
  assumes "buffer_wf b" and "auth_hist e0 pe used" and "\<not> auth_final pe"
  shows "\<exists>b' pe' u. auth_consume b pe = Some (b', pe') \<and> buffer_wf b' \<and> b_limit b' = b_limit b
    \<and> buffer_contents b = u @ buffer_contents b' \<and> auth_hist e0 pe' (used @ u) \<and> (auth_final pe' \<or> buffer_contents b' = [])"
proof -
  have "auth_inv pe" using assms(2) by (auto simp: auth_inv_def)
  from auth.consume_feed [OF assms(1) this assms(3)] obtain b' pe' where c: "auth_consume b pe = Some (b', pe')" "buffer_wf b'"
    "feed auth_step auth_final pe (buffer_contents b) = Some (pe', buffer_contents b')" by blast
  have step: "auth_hist e0 q used' \<Longrightarrow> \<not> auth_final q \<Longrightarrow> auth_step q x = Some q1 \<Longrightarrow> auth_hist e0 q1 (used' @ [x])" for q used' x q1
    using auth_hist_step [of e0 q used' x] by simp
  have "\<exists>u. buffer_contents b = u @ buffer_contents b' \<and> auth_hist e0 pe' (used @ u)"
    by (rule feed_history [where H = "auth_hist e0", OF _ c(3) assms(2,3)]) (rule step)
  then show ?thesis using c auth_consume_limit [OF c(1)] feed_rest [OF c(3)] by blast
qed

lemma request_run:
  assumes "buffer_wf b" and "request_hist e0 pe used" and "\<not> request_final pe"
  shows "\<exists>b' pe' u. request_consume b pe = Some (b', pe') \<and> buffer_wf b' \<and> b_limit b' = b_limit b
    \<and> buffer_contents b = u @ buffer_contents b' \<and> request_hist e0 pe' (used @ u) \<and> (request_final pe' \<or> buffer_contents b' = [])"
proof -
  have "request_inv pe" using assms(2) by (auto simp: request_inv_def)
  from request.consume_feed [OF assms(1) this assms(3)] obtain b' pe' where c: "request_consume b pe = Some (b', pe')" "buffer_wf b'"
    "feed request_step request_final pe (buffer_contents b) = Some (pe', buffer_contents b')" by blast
  have step: "request_hist e0 q used' \<Longrightarrow> \<not> request_final q \<Longrightarrow> request_step q x = Some q1 \<Longrightarrow> request_hist e0 q1 (used' @ [x])" for q used' x q1
    using request_hist_step [of e0 q used' x] by simp
  have "\<exists>u. buffer_contents b = u @ buffer_contents b' \<and> request_hist e0 pe' (used @ u)"
    by (rule feed_history [where H = "request_hist e0", OF _ c(3) assms(2,3)]) (rule step)
  then show ?thesis using c request_consume_limit [OF c(1)] feed_rest [OF c(3)] by blast
qed

lemma write_adv_limit: "buffer_write_adv b n = Some b' \<Longrightarrow> b_limit b' = b_limit b"
  by (auto simp: buffer_write_adv_def Let_def split: if_splits)

lemma store_limit: "buffer_store b bs = Some b' \<Longrightarrow> b_limit b' = b_limit b"
  by (auto simp: buffer_store_def)

lemma hello_marshall_limit: "hello_marshall b m = Some (r, b') \<Longrightarrow> b_limit b' = b_limit b"
  by (auto simp: hello_marshall_def bind_eq_Some_conv split: if_splits dest!: write_adv_limit store_limit)

lemma auth_marshall_limit: "auth_marshall b m = Some (r, b') \<Longrightarrow> b_limit b' = b_limit b"
  by (auto simp: auth_marshall_def bind_eq_Some_conv split: if_splits dest!: write_adv_limit store_limit)

lemma request_marshall_limit: "request_marshall b m = Some (r, b') \<Longrightarrow> b_limit b' = b_limit b"
  by (auto simp: request_marshall_def bind_eq_Some_conv split: if_splits dest!: write_adv_limit store_limit)

section \<open>Greeting\<close>

lemma offered:
  "foldl on_hello_method d ms = d\<lparr>no_auth_offered := no_auth_offered d \<or> SOCKS_HELLO_NOAUTHENTICATION_REQUIRED \<in> set ms,
     user_pass_offered := user_pass_offered d \<or> SOCKS_HELLO_USERNAME_PASSWORD \<in> set ms\<rparr>"
  by (induction ms arbitrary: d) (auto simp: on_hello_method_def)

text \<open>Authentication is required as soon as there is a user; the method chosen is one that the client offered.\<close>

definition auth_required :: "users option \<Rightarrow> bool" where
  "auth_required u \<longleftrightarrow> (case u of None \<Rightarrow> False | Some v \<Rightarrow> users_count v > 0)"

definition chosen :: "users option \<Rightarrow> byte list \<Rightarrow> byte" where
  "chosen u ms =
     (if auth_required u \<and> SOCKS_HELLO_USERNAME_PASSWORD \<in> set ms then SOCKS_HELLO_USERNAME_PASSWORD
      else if \<not> auth_required u \<and> SOCKS_HELLO_NOAUTHENTICATION_REQUIRED \<in> set ms then SOCKS_HELLO_NOAUTHENTICATION_REQUIRED
      else SOCKS_HELLO_NO_ACCEPTABLE_METHODS)"

lemma method_chosen: "method_ok (chosen u ms) ms"
  by (simp add: method_ok_def chosen_def)

lemma hello_choice_ok:
  assumes "hello_hist hello_start False (parser, False) used" and "hp_state parser = hello_done"
  shows "\<exists>ms. used = hello_msg ms \<and> greeting ms \<and> hello_choice u (hp_data parser) = chosen u ms"
proof -
  obtain ms where ms: "used = hello_msg ms" "greeting ms" "hp_data parser = \<lparr>no_auth_offered = SOCKS_HELLO_NOAUTHENTICATION_REQUIRED \<in> set ms,
      user_pass_offered = SOCKS_HELLO_USERNAME_PASSWORD \<in> set ms\<rparr>"
    using assms by (auto simp: hello_hist_def hello_start_def hello_parser_init_def hello_notify_def offered greeting_def)
  then show ?thesis by (intro exI [of _ ms]) (simp add: hello_choice_def chosen_def auth_required_def Let_def)
qed

lemma hello_read_init_ok:
  assumes o: "own g p s ci oi False w" and key: "k_data key = Some (Socks_Ptr p)"
    and at: "at_start s ci (talk_of s (kern w))" and cur: "so_current s = Some HELLO_READ"
  shows "returns (hello_read_init st key w) (\<lambda>w'. \<exists>s'. own g p s' ci oi False w' \<and> so_client_fd s' = so_client_fd s
    \<and> so_current s' = Some HELLO_READ \<and> at_hello_read s' ci (talk_of s' (kern w')))"
proof -
  let ?s = "s\<lparr>so_client := C_hello \<lparr>he_parser = hello_start, he_method = SOCKS_HELLO_NO_ACCEPTABLE_METHODS\<rparr>\<rparr>"
  have wf: "sess_wf ?s" using ownD(4) [OF o] at by (auto simp: sess_wf_def at_start_def early_def)
  have "own g p ?s ci oi False (put_socks p ?s w)" by (rule own_put [OF o wf]) simp
  moreover have "at_hello_read ?s ci (talk_of ?s (kern w))" using at
    by (auto simp: at_start_def at_hello_read_def early_def hello_hist_def hello_final_def hello_start_def hello_parser_init_def)
  ultimately show ?thesis using cur
    by (simp add: hello_read_init_def own_attachment [OF o key] hello_start_def [symmetric] Let_def) (intro exI [of _ ?s], simp)
qed

lemma sess_wf_client: "sess_wf s \<Longrightarrow> \<not> so_tunnel_opened s \<Longrightarrow> sess_wf (s\<lparr>so_client := c\<rparr>)"
  by (simp add: sess_wf_def)

lemma hello_read_ok:
  assumes o: "own g p s ci oi False w" and key: "k_data key = Some (Socks_Ptr p)" "k_fd key = so_client_fd s"
    and at: "at_hello_read s ci (talk_of s (kern w))" and cur: "so_current s = Some HELLO_READ"
  shows "returns (hello_read key w) (next_state (pending g) (finished g) p (so_client_fd s) HELLO_READ)"
proof -
  obtain crx ctx orx otx peer where T: "talk_of s (kern w) = (crx, ctx, orx, otx, peer)" by (cases "talk_of s (kern w)" rule: prod_cases5)
  obtain h used where h: "so_client s = C_hello h" "hello_hist hello_start False (he_parser h, False) used"
    "\<not> hello_final (he_parser h, False)" "crx = used @ rb s" "ctx = []" "wb s = []" "early s" "ci = OP_READ"
    using at T by (auto simp: at_hello_read_def)
  have nt: "\<not> so_tunnel_opened s" using h(7) by (simp add: early_def)
  from receive_more_ok [OF o key, of HELLO_READ] obtain r w1 b new where r: "receive_more HELLO_READ key w = Some (r, w1)"
    and o1: "own g p (s\<lparr>so_read_buffer := b\<rparr>) ci oi False w1" and b: "buffer_contents b = rb s @ new"
    and t1: "talk_of s (kern w1) = heard_client new (talk_of s (kern w))"
    and c: "case r of None \<Rightarrow> buffer_contents b \<noteq> [] | Some st' \<Rightarrow> rb s = [] \<and> new = [] \<and> (st' = HELLO_READ \<or> st' = ERROR)"
    by (auto simp: returns_prod)
  let ?s1 = "s\<lparr>so_read_buffer := b\<rparr>"
  show ?thesis
  proof (cases r)
    case (Some st')
    have "at_hello_read ?s1 ci (talk_of ?s1 (kern w1))"
      using h b T t1 c Some by (auto simp: at_hello_read_def early_def)
    then have "after HELLO_READ st' ?s1 ci oi (talk_of ?s1 (kern w1))" if "st' = HELLO_READ" using that cur b c Some by (simp add: after_def)
    then show ?thesis using next_stateI [OF o1, of "so_client_fd s" HELLO_READ st'] next_error [OF o1, of "so_client_fd s" HELLO_READ] c Some r cur
      by (auto simp: hello_read_def)
  next
    case None
    have wf: "buffer_wf b" "b_limit b = BUFFER_SIZE" using ownD(4) [OF o1] by (simp_all add: sess_wf_def)
    from hello_run [OF wf(1) h(2,3)] obtain b' pe u where u: "hello_consume b (he_parser h, False) = Some (b', pe)" "buffer_wf b'"
      "b_limit b' = b_limit b" "buffer_contents b = u @ buffer_contents b'" "hello_hist hello_start False pe (used @ u)"
      "hello_final pe \<or> buffer_contents b' = []" by blast
    obtain parser e where pe: "pe = (parser, e)" by (cases pe)
    let ?s2 = "s\<lparr>so_read_buffer := b', so_client := C_hello (h\<lparr>he_parser := parser\<rparr>)\<rparr>"
    let ?w2 = "put_socks p ?s2 w1"
    have o2: "own g p ?s2 ci oi False ?w2"
      by (rule own_put [OF o1]) (use ownD(4) [OF o] u wf nt in \<open>auto simp: sess_wf_def\<close>)
    have t2: "talk_of ?s2 (kern ?w2) = (used @ u @ rb ?s2, [], orx, otx, peer)" using t1 T h b u by simp
    have run: "hello_read key w = (if e then Some (ERROR, ?w2)
        else if fst (hello_is_done (hp_state parser) False) then do {
          (ok, w) \<leftarrow> socks_interest_key key OP_WRITE ?w2;
          if \<not> ok then Some (ERROR, w) else hello_process p w
        } else Some (HELLO_READ, ?w2))"
      using r None pe u(1) h(1) by (simp add: hello_read_def own_attachment [OF o1 key(1)] Let_def)
    consider "e" | "\<not> e" "hp_state parser = hello_done" | "\<not> e" "\<not> hello_final pe"
      using u(5) pe by (cases "hp_state parser") (auto simp: hello_hist_def hello_final_def)
    then show ?thesis
    proof cases
      case 1
      then show ?thesis using run next_error [OF o2, of "so_client_fd s" HELLO_READ] cur by simp
    next
      case 3
      then have "hp_state parser \<noteq> hello_done" "hp_state parser \<noteq> hello_error" using pe by (simp_all add: hello_final_def)
      moreover have "after HELLO_READ HELLO_READ ?s2 ci oi (talk_of ?s2 (kern ?w2))"
        using 3 u h cur pe unfolding t2 by (simp add: after_def at_hello_read_def early_def)
      ultimately show ?thesis using run 3 next_stateI [OF o2, of "so_client_fd s" HELLO_READ HELLO_READ]
        by (simp add: hello_is_done_def)
    next
      case 2
      let ?m = "hello_choice (g_users w1) (hp_data parser)"
      obtain sl where sl: "socks_interest_key key OP_WRITE ?w2 = Some (True, ?w2\<lparr>sel := sl\<rparr>)" "own g p ?s2 OP_WRITE oi False (?w2\<lparr>sel := sl\<rparr>)"
        using own_key_client [OF o2, of key OP_WRITE] key(2) by auto
      obtain ms where ms: "used @ u = hello_msg ms" "greeting ms" "method_ok ?m ms"
        using hello_choice_ok [of parser "used @ u" "g_users w1"] method_chosen u(5) pe 2 by auto
      have wb: "buffer_wf (so_write_buffer s)" "b_limit (so_write_buffer s) = BUFFER_SIZE" using ownD(4) [OF o] by (simp_all add: sess_wf_def)
      have "buffer_room (so_write_buffer s) = BUFFER_SIZE" using wb buffer_empty_room [OF wb(1) h(6)] by (simp add: buffer_room_def)
      with hello_marshall_ok [OF wb(1), of ?m] obtain b3 where b3: "hello_marshall (so_write_buffer s) ?m = Some (0, b3)" "buffer_wf b3"
        "buffer_contents b3 = [SOCKS_VERSION, ?m]" using h(6) by (auto simp: returns_prod)
      have l3: "b_limit b3 = BUFFER_SIZE" using hello_marshall_limit [OF b3(1)] wb by simp
      let ?s3 = "?s2\<lparr>so_client := C_hello (h\<lparr>he_parser := parser, he_method := ?m\<rparr>), so_write_buffer := b3\<rparr>"
      let ?w3 = "put_socks p ?s3 (?w2\<lparr>sel := sl\<rparr>)"
      have o3: "own g p ?s3 OP_WRITE oi False ?w3"
        by (rule own_put [OF sl(2)]) (use ownD(4) [OF o2] b3 l3 nt in \<open>auto simp: sess_wf_def\<close>)
      have "hello_process p (?w2\<lparr>sel := sl\<rparr>) = Some (HELLO_WRITE, ?w3)"
        using b3(1) by (simp add: hello_process_def Let_def)
      moreover have "after HELLO_READ HELLO_WRITE ?s3 OP_WRITE oi (talk_of ?s3 (kern ?w3))"
        using t2 ms b3 h cur by (auto simp: after_def entering_def at_hello_write_def early_def)
      ultimately show ?thesis using run 2 sl(1) next_stateI [OF o3, of "so_client_fd s" HELLO_READ HELLO_WRITE]
        by (simp add: hello_is_done_def)
    qed
  qed
qed

lemma hello_write_ok:
  assumes o: "own g p s ci oi False w" and key: "k_data key = Some (Socks_Ptr p)" "k_fd key = so_client_fd s"
    and at: "at_hello_write s ci (talk_of s (kern w))" and cur: "so_current s = Some HELLO_WRITE"
  shows "returns (hello_write key w) (next_state (pending g) (finished g) p (so_client_fd s) HELLO_WRITE)"
proof -
  obtain crx ctx orx otx peer where T: "talk_of s (kern w) = (crx, ctx, orx, otx, peer)" by (cases "talk_of s (kern w)" rule: prod_cases5)
  obtain h ms where h: "so_client s = C_hello h" "greeting ms" "method_ok (he_method h) ms" "crx = hello_msg ms @ rb s"
    "ctx @ wb s = [SOCKS_VERSION, he_method h]" "early s" "ci = OP_WRITE"
    using at T by (auto simp: at_hello_write_def)
  from send_pending_ok [OF o key, of HELLO_WRITE] obtain r w1 b out where r: "send_pending HELLO_WRITE key w = Some (r, w1)"
    and o1: "own g p (s\<lparr>so_write_buffer := b\<rparr>) ci oi False w1" and b: "out @ buffer_contents b = wb s"
    and t1: "talk_of s (kern w1) = told_client out (talk_of s (kern w))"
    and c: "\<forall>st'. r = Some st' \<longrightarrow> out = [] \<and> (st' = HELLO_WRITE \<or> st' = ERROR)"
    by (auto simp: returns_prod)
  let ?s1 = "s\<lparr>so_write_buffer := b\<rparr>"
  have at1: "at_hello_write ?s1 ci (talk_of ?s1 (kern w1))"
    using h T t1 by (auto simp: at_hello_write_def early_def b)
  have stay: "next_state (pending g) (finished g) p (so_client_fd s) HELLO_WRITE (HELLO_WRITE, w1)"
    by (rule next_stateI [OF o1]) (use at1 cur in \<open>simp_all add: after_def reading_def\<close>)
  have wf: "buffer_wf b" using ownD(4) [OF o1] by (simp add: sess_wf_def)
  have run: "hello_write key w = (case r of Some st' \<Rightarrow> Some (st', w1) | None \<Rightarrow>
      if buffer_contents b \<noteq> [] then Some (HELLO_WRITE, w1)
      else if he_method h = SOCKS_HELLO_NO_ACCEPTABLE_METHODS then Some (DONE, w1)
      else do {
        (ok, w) \<leftarrow> socks_interest_key key OP_READ w1;
        Some (if \<not> ok then ERROR else if he_method h = SOCKS_HELLO_USERNAME_PASSWORD then AUTH_READ else REQUEST_READ, w)
      })"
    using r h(1) by (simp add: hello_write_def own_attachment [OF o key(1)] ownD(3) [OF o1] buffer_can_read_iff [OF wf] split: option.split)
  show ?thesis
  proof (cases r)
    case (Some st')
    then show ?thesis using c stay next_error [OF o1, of "so_client_fd s" HELLO_WRITE] cur by (auto simp: run)
  next
    case None
    show ?thesis
    proof (cases "buffer_contents b = []")
      case False
      then show ?thesis using None stay by (simp add: run)
    next
      case True
      then have sent: "ctx @ out = [SOCKS_VERSION, he_method h]" using b h(5) by simp
      obtain sl where sl: "socks_interest_key key OP_READ w1 = Some (True, w1\<lparr>sel := sl\<rparr>)" "own g p ?s1 OP_READ oi False (w1\<lparr>sel := sl\<rparr>)"
        using own_key_client [OF o1, of key OP_READ] key(2) by auto
      have t2: "talk_of ?s1 (kern (w1\<lparr>sel := sl\<rparr>)) = (crx, ctx @ out, orx, otx, peer)" using t1 T by simp
      have "enter_auth ?s1 OP_READ (crx, ctx @ out, orx, otx, peer)" if "he_method h = SOCKS_HELLO_USERNAME_PASSWORD"
        using that h True sent by (auto simp: enter_auth_def method_ok_def early_def)
      moreover have "enter_request ?s1 OP_READ (crx, ctx @ out, orx, otx, peer)" if "he_method h = SOCKS_HELLO_NOAUTHENTICATION_REQUIRED"
        using that h True sent by (auto simp: enter_request_def negotiated_def method_ok_def early_def)
      ultimately show ?thesis
        using None True cur sl(1) h(3) next_done [OF o1, of "so_client_fd s" HELLO_WRITE]
          next_stateI [OF sl(2), of "so_client_fd s" HELLO_WRITE AUTH_READ] next_stateI [OF sl(2), of "so_client_fd s" HELLO_WRITE REQUEST_READ]
        unfolding t2 by (auto simp: run method_ok_def after_def entering_def)
    qed
  qed
qed

section \<open>Authentication\<close>

lemma length_cstr: "length (cstr xs) \<le> length xs"
  by (induction xs) auto


lemma auth_read_init_ok:
  assumes o: "own g p s ci oi False w" and key: "k_data key = Some (Socks_Ptr p)"
    and at: "enter_auth s ci (talk_of s (kern w))"
  shows "returns (auth_read_init st key w) (\<lambda>w'. \<exists>s'. own g p s' ci oi False w' \<and> so_client_fd s' = so_client_fd s
    \<and> so_current s' = so_current s \<and> at_auth_read s' ci (talk_of s' (kern w')))"
proof -
  let ?p = "\<lparr>ap_state = auth_ver, ap_remaining = 0, ap_ulen = 0, ap_plen = 0, ap_uname = replicate 256 NUL, ap_passwd = replicate 256 NUL\<rparr>"
  let ?s = "s\<lparr>so_client := C_auth \<lparr>au_parser = auth_parser_init ?p, au_status = 1\<rparr>\<rparr>"
  have wf: "sess_wf ?s" using ownD(4) [OF o] at by (auto simp: sess_wf_def enter_auth_def early_def)
  have o1: "own g p ?s ci oi False (put_socks p ?s w)" by (rule own_put [OF o wf]) simp
  have "auth_hist False (auth_parser_init ?p, False) []" by (rule auth_hist_init) simp_all
  moreover have "\<not> auth_final (auth_parser_init ?p, False)" by (rule auth_init_not_final)
  ultimately have "at_auth_read ?s ci (talk_of ?s (kern (put_socks p ?s w)))" using at
    by (fastforce simp: enter_auth_def at_auth_read_def early_def)
  moreover have "auth_read_init st key w = Some (put_socks p ?s w)" by (simp add: auth_read_init_def own_attachment [OF o key] Let_def)
  ultimately show ?thesis using o1 by (simp only: returns_Some) (intro exI [of _ ?s], simp)
qed

text \<open>The decision, and the reply in the write buffer.\<close>

lemma auth_process_ok:
  assumes o: "own g p s OP_WRITE oi False w" and a: "so_client s = C_auth a" and nt: "\<not> so_tunnel_opened s"
    and us: "filled (ap_uname (au_parser a)) us" and empty: "wb s = []"
  shows "returns (auth_process p w) (\<lambda>(st', w'). st' = AUTH_WRITE \<and> (\<exists>status user b. let s' = s\<lparr>so_user := user,
      so_client := C_auth (a\<lparr>au_status := status\<rparr>), so_write_buffer := b\<rparr> in
      own g p s' OP_WRITE oi False w' \<and> wb s' = [AUTH_VERSION, status] \<and> (status = 0 \<longrightarrow> cstr user = cstr (map chr us))
      \<and> kern w' = kern w))"
proof -
  have swf: "sess_wf s" by (rule ownD(4) [OF o])
  obtain granted where granted: "(case g_users w of None \<Rightarrow> Some True
      | Some u \<Rightarrow> users_check u (ap_uname (au_parser a)) (ap_passwd (au_parser a))) = Some granted"
    using ownD(1) [OF o] by (cases "g_users w") (auto simp: world_def users_check_ok)
  have l: "length (cstr (ap_uname (au_parser a))) \<le> 255" using us length_cstr [of "map chr us"] by (simp add: filled_cstr [OF us]) (simp add: filled_def)
  obtain user where user: "snprintf (so_user s) USER_MAX_LEN (cstr (ap_uname (au_parser a))) = Some user" "length user = USER_MAX_LEN"
    "cstr user = cstr (map chr us)"
    using snprintf_ok [of USER_MAX_LEN "so_user s" "cstr (ap_uname (au_parser a))"] swf l
    by (auto simp: sess_wf_def returns_iff filled_cstr [OF us] cstr_idem)
  let ?u = "if granted then user else so_user s"
  let ?w = "if granted then w else count metrics_auth_fail w"
  let ?st = "if granted then 0 else 1 :: byte"
  have wb: "buffer_wf (so_write_buffer s)" "b_limit (so_write_buffer s) = BUFFER_SIZE" using swf by (simp_all add: sess_wf_def)
  have "buffer_room (so_write_buffer s) = BUFFER_SIZE" using wb buffer_empty_room [OF wb(1) empty] by (simp add: buffer_room_def)
  with auth_marshall_ok [OF wb(1), of ?st] obtain b where b: "auth_marshall (so_write_buffer s) ?st = Some (0, b)" "buffer_wf b"
    "buffer_contents b = [AUTH_VERSION, ?st]" using empty by (auto simp: returns_prod)
  have lb: "b_limit b = BUFFER_SIZE" using auth_marshall_limit [OF b(1)] wb by simp
  let ?s = "s\<lparr>so_user := ?u, so_client := C_auth (a\<lparr>au_status := ?st\<rparr>), so_write_buffer := b\<rparr>"
  have "own g p s OP_WRITE oi False ?w" using o own_count [OF o] by simp
  then have "own g p ?s OP_WRITE oi False (put_socks p ?s ?w)"
    by (rule own_put) (use swf b lb user nt in \<open>auto simp: sess_wf_def\<close>)
  moreover have "auth_process p w = Some (AUTH_WRITE, put_socks p ?s ?w)"
    using granted user(1) b(1) by (cases granted) (simp_all add: auth_process_def ownD(3) [OF o] a Let_def)
  ultimately show ?thesis using b user(3)
    by (simp only: returns_Some prod.case Let_def) (intro conjI refl exI [of _ ?st] exI [of _ ?u] exI [of _ b], auto)
qed

lemma auth_read_ok:
  assumes o: "own g p s ci oi False w" and key: "k_data key = Some (Socks_Ptr p)" "k_fd key = so_client_fd s"
    and at: "at_auth_read s ci (talk_of s (kern w))" and cur: "so_current s = Some AUTH_READ"
  shows "returns (auth_read key w) (next_state (pending g) (finished g) p (so_client_fd s) AUTH_READ)"
proof -
  obtain crx ctx orx otx peer where T: "talk_of s (kern w) = (crx, ctx, orx, otx, peer)" by (cases "talk_of s (kern w)" rule: prod_cases5)
  obtain a ms used where a: "so_client s = C_auth a" "greeting ms" "SOCKS_HELLO_USERNAME_PASSWORD \<in> set ms"
    "auth_hist False (au_parser a, False) used" "\<not> auth_final (au_parser a, False)" "crx = hello_msg ms @ used @ rb s"
    "ctx = [SOCKS_VERSION, SOCKS_HELLO_USERNAME_PASSWORD]" "wb s = []" "early s" "ci = OP_READ"
    using at T by (auto simp: at_auth_read_def)
  have nt: "\<not> so_tunnel_opened s" using a(9) by (simp add: early_def)
  from receive_more_ok [OF o key, of AUTH_READ] obtain r w1 b new where r: "receive_more AUTH_READ key w = Some (r, w1)"
    and o1: "own g p (s\<lparr>so_read_buffer := b\<rparr>) ci oi False w1" and b: "buffer_contents b = rb s @ new"
    and t1: "talk_of s (kern w1) = heard_client new (talk_of s (kern w))"
    and c: "case r of None \<Rightarrow> buffer_contents b \<noteq> [] | Some st' \<Rightarrow> rb s = [] \<and> new = [] \<and> (st' = AUTH_READ \<or> st' = ERROR)"
    by (auto simp: returns_prod)
  let ?s1 = "s\<lparr>so_read_buffer := b\<rparr>"
  show ?thesis
  proof (cases r)
    case (Some st')
    have "at_auth_read ?s1 ci (talk_of ?s1 (kern w1))"
      using a b T t1 c Some by (simp add: at_auth_read_def early_def) blast
    then have "after AUTH_READ AUTH_READ ?s1 ci oi (talk_of ?s1 (kern w1))" using cur b c Some by (simp add: after_def)
    then show ?thesis using next_stateI [OF o1, of "so_client_fd s" AUTH_READ AUTH_READ] next_error [OF o1, of "so_client_fd s" AUTH_READ] c Some r cur
      by (auto simp: auth_read_def)
  next
    case None
    have wf: "buffer_wf b" "b_limit b = BUFFER_SIZE" using ownD(4) [OF o1] by (simp_all add: sess_wf_def)
    from auth_run [OF wf(1) a(4,5)] obtain b' pe u where u: "auth_consume b (au_parser a, False) = Some (b', pe)" "buffer_wf b'"
      "b_limit b' = b_limit b" "buffer_contents b = u @ buffer_contents b'" "auth_hist False pe (used @ u)"
      "auth_final pe \<or> buffer_contents b' = []" by blast
    obtain parser e where pe: "pe = (parser, e)" by (cases pe)
    let ?s2 = "s\<lparr>so_read_buffer := b', so_client := C_auth (a\<lparr>au_parser := parser\<rparr>)\<rparr>"
    let ?w2 = "put_socks p ?s2 w1"
    have o2: "own g p ?s2 ci oi False ?w2"
      by (rule own_put [OF o1]) (use ownD(4) [OF o1] u wf nt in \<open>auto simp: sess_wf_def\<close>)
    have t2: "talk_of ?s2 (kern ?w2) = (hello_msg ms @ used @ u @ rb ?s2, ctx, orx, otx, peer)" using t1 T b u a(6) by simp
    have run: "auth_read key w = (if e then Some (ERROR, ?w2)
        else if fst (auth_is_done (ap_state parser) False) then do {
          (ok, w) \<leftarrow> socks_interest_key key OP_WRITE ?w2;
          if \<not> ok then Some (ERROR, w) else auth_process p w
        } else Some (AUTH_READ, ?w2))"
      using r None pe u(1) a(1) by (simp add: auth_read_def own_attachment [OF o1 key(1)] Let_def)
    consider "e" | "\<not> e" "ap_state parser = auth_done" | "\<not> e" "\<not> auth_final pe"
      using u(5) pe by (cases "ap_state parser") (auto simp: auth_hist_def auth_final_def Let_def)
    then show ?thesis
    proof cases
      case 1
      then show ?thesis using run next_error [OF o2, of "so_client_fd s" AUTH_READ] cur by simp
    next
      case 3
      then have "ap_state parser \<noteq> auth_done" "ap_state parser \<noteq> auth_error" using pe by (simp_all add: auth_final_def)
      moreover have "at_auth_read ?s2 ci (talk_of ?s2 (kern ?w2))"
        using 3 u a pe unfolding t2 at_auth_read_def prod.case
        by (intro exI [of _ "a\<lparr>au_parser := parser\<rparr>"] exI [of _ ms] exI [of _ "used @ u"]) (simp add: early_def)
      moreover have "buffer_contents b' = []" using 3 u(6) by simp
      ultimately show ?thesis using run 3 cur next_stateI [OF o2, of "so_client_fd s" AUTH_READ AUTH_READ]
        by (simp add: auth_is_done_def after_def)
    next
      case 2
      obtain sl where sl: "socks_interest_key key OP_WRITE ?w2 = Some (True, ?w2\<lparr>sel := sl\<rparr>)" "own g p ?s2 OP_WRITE oi False (?w2\<lparr>sel := sl\<rparr>)"
        using own_key_client [OF o2, of key OP_WRITE] key(2) by auto
      obtain us ps where us: "used @ u = auth_msg us ps" "filled (ap_uname parser) us" "filled (ap_passwd parser) ps"
        using u(5) pe 2 by (auto simp: auth_hist_def Let_def)
      from auth_process_ok [OF sl(2), of "a\<lparr>au_parser := parser\<rparr>" us] us nt a(8) obtain st' w3 status user b3 where
        run3: "auth_process p (?w2\<lparr>sel := sl\<rparr>) = Some (AUTH_WRITE, w3)" and
        o3: "own g p (?s2\<lparr>so_user := user, so_client := C_auth (a\<lparr>au_parser := parser, au_status := status\<rparr>), so_write_buffer := b3\<rparr>) OP_WRITE oi False w3"
        and b3: "buffer_contents b3 = [AUTH_VERSION, status]" "status = 0 \<longrightarrow> cstr user = cstr (map chr us)" "kern w3 = kern w1"
        by (auto simp: returns_prod Let_def)
      let ?s3 = "?s2\<lparr>so_user := user, so_client := C_auth (a\<lparr>au_parser := parser, au_status := status\<rparr>), so_write_buffer := b3\<rparr>"
      have "credentials us ps" using us by (auto simp: credentials_def filled_def)
      then have "at_auth_write ?s3 OP_WRITE (talk_of ?s3 (kern w3))"
        using t2 us(1) b3 a unfolding at_auth_write_def
        by (simp add: early_def append_assoc [symmetric] del: append_assoc) blast
      then have "after AUTH_READ AUTH_WRITE ?s3 OP_WRITE oi (talk_of ?s3 (kern w3))" using cur by (simp add: after_def entering_def)
      from next_stateI [OF o3 _ this] show ?thesis using run 2 sl(1) run3 by (simp add: auth_is_done_def)
    qed
  qed
qed

lemma auth_write_ok:
  assumes o: "own g p s ci oi False w" and key: "k_data key = Some (Socks_Ptr p)" "k_fd key = so_client_fd s"
    and at: "at_auth_write s ci (talk_of s (kern w))" and cur: "so_current s = Some AUTH_WRITE"
  shows "returns (auth_write key w) (next_state (pending g) (finished g) p (so_client_fd s) AUTH_WRITE)"
proof -
  obtain crx ctx orx otx peer where T: "talk_of s (kern w) = (crx, ctx, orx, otx, peer)" by (cases "talk_of s (kern w)" rule: prod_cases5)
  obtain a ms us ps where a: "so_client s = C_auth a" "greeting ms" "SOCKS_HELLO_USERNAME_PASSWORD \<in> set ms" "credentials us ps"
    "au_status a = 0 \<longrightarrow> cstr (so_user s) = cstr (map chr us)" "crx = hello_msg ms @ auth_msg us ps @ rb s"
    "ctx @ wb s = [SOCKS_VERSION, SOCKS_HELLO_USERNAME_PASSWORD, AUTH_VERSION, au_status a]" "early s" "ci = OP_WRITE"
    using at T by (auto simp: at_auth_write_def)
  from send_pending_ok [OF o key, of AUTH_WRITE] obtain r w1 b out where r: "send_pending AUTH_WRITE key w = Some (r, w1)"
    and o1: "own g p (s\<lparr>so_write_buffer := b\<rparr>) ci oi False w1" and b: "out @ buffer_contents b = wb s"
    and t1: "talk_of s (kern w1) = told_client out (talk_of s (kern w))"
    and c: "\<forall>st'. r = Some st' \<longrightarrow> out = [] \<and> (st' = AUTH_WRITE \<or> st' = ERROR)"
    by (auto simp: returns_prod)
  let ?s1 = "s\<lparr>so_write_buffer := b\<rparr>"
  have t1': "talk_of ?s1 (kern w1) = (crx, ctx @ out, orx, otx, peer)" using t1 T by simp
  have "at_auth_write ?s1 ci (talk_of ?s1 (kern w1))"
    unfolding t1' at_auth_write_def prod.case by (intro exI [of _ a] exI [of _ ms] exI [of _ us] exI [of _ ps]) (use a b in \<open>simp add: early_def\<close>)
  then have stay: "next_state (pending g) (finished g) p (so_client_fd s) AUTH_WRITE (AUTH_WRITE, w1)"
    by (intro next_stateI [OF o1]) (use cur in \<open>simp_all add: after_def reading_def\<close>)
  have wf: "buffer_wf b" using ownD(4) [OF o1] by (simp add: sess_wf_def)
  have run: "auth_write key w = (case r of Some st' \<Rightarrow> Some (st', w1) | None \<Rightarrow>
      if buffer_contents b \<noteq> [] then Some (AUTH_WRITE, w1)
      else do {
        (ok, w) \<leftarrow> socks_interest_key key OP_READ w1;
        Some (if \<not> ok then ERROR else if au_status a = 0 then REQUEST_READ else DONE, w)
      })"
    using r a(1) by (simp add: auth_write_def own_attachment [OF o key(1)] ownD(3) [OF o1] buffer_can_read_iff [OF wf] split: option.split)
  show ?thesis
  proof (cases r)
    case (Some st')
    then show ?thesis using c stay next_error [OF o1, of "so_client_fd s" AUTH_WRITE] cur by (auto simp: run)
  next
    case None
    show ?thesis
    proof (cases "buffer_contents b = []")
      case False
      then show ?thesis using None stay by (simp add: run)
    next
      case True
      obtain sl where sl: "socks_interest_key key OP_READ w1 = Some (True, w1\<lparr>sel := sl\<rparr>)" "own g p ?s1 OP_READ oi False (w1\<lparr>sel := sl\<rparr>)"
        using own_key_client [OF o1, of key OP_READ] key(2) by auto
      have "enter_request ?s1 OP_READ (talk_of ?s1 (kern (w1\<lparr>sel := sl\<rparr>)))" if "au_status a = 0"
      proof -
        have "negotiated (hello_msg ms @ auth_msg us ps) (ctx @ out) (so_user s)"
          unfolding negotiated_def by (rule disjI2, intro exI [of _ ms] exI [of _ us] exI [of _ ps]) (use a b that True in simp)
        then show ?thesis using a(6,8) True t1' by (simp add: enter_request_def early_def)
      qed
      then show ?thesis using None True cur sl(1) next_done [OF sl(2), of "so_client_fd s" AUTH_WRITE]
          next_stateI [OF sl(2), of "so_client_fd s" AUTH_WRITE REQUEST_READ]
        by (auto simp: run after_def entering_def)
    qed
  qed
qed

end
