(* ===== verification/Socks5_Request.thy ===== *)
theory Socks5_Request
  imports Socks5_Negotiation
begin

text \<open>The handlers of the request, of the name resolution and of the reply keep the invariant of the session.\<close>

section \<open>Replies\<close>

lemma set_failure_eq: "\<exists>f. socks5_set_failure r s = s\<lparr>so_failure := f\<rparr>"
  by (cases "so_failure s") (auto simp: socks5_set_failure_def intro: exI [of _ "so_failure s"])

lemma own_failure:
  assumes o: "own g p s ci oi d w"
  obtains f where "socks5_set_failure r s = s\<lparr>so_failure := f\<rparr>"
    "upd_socks p (socks5_set_failure r) w = Some (put_socks p (s\<lparr>so_failure := f\<rparr>) w)"
    "own g p (s\<lparr>so_failure := f\<rparr>) ci oi d (put_socks p (s\<lparr>so_failure := f\<rparr>) w)"
proof -
  obtain f where f: "socks5_set_failure r s = s\<lparr>so_failure := f\<rparr>" using set_failure_eq by blast
  have "own g p (s\<lparr>so_failure := f\<rparr>) ci oi d (put_socks p (s\<lparr>so_failure := f\<rparr>) w)"
    by (rule own_put [OF o]) (use ownD(4) [OF o] in \<open>simp_all add: sess_wf_def\<close>)
  then show thesis using that [of f] f ownD(3) [OF o] by (simp add: upd_socks_def)
qed

text \<open>An empty write buffer has room for a reply.\<close>

lemma put_reply_ok:
  assumes o: "own g p s ci oi d w" and r: "so_client s = C_request r" and nt: "\<not> so_tunnel_opened s" and e: "wb s = []"
  obtains b where "put_reply p reply w = Some (True, put_socks p (s\<lparr>so_client := C_request (r\<lparr>rt_reply := reply\<rparr>), so_write_buffer := b\<rparr>) w)"
    "own g p (s\<lparr>so_client := C_request (r\<lparr>rt_reply := reply\<rparr>), so_write_buffer := b\<rparr>) ci oi d
       (put_socks p (s\<lparr>so_client := C_request (r\<lparr>rt_reply := reply\<rparr>), so_write_buffer := b\<rparr>) w)"
    "buffer_contents b = reply_msg reply"
proof -
  have wb: "buffer_wf (so_write_buffer s)" "b_limit (so_write_buffer s) = BUFFER_SIZE" using ownD(4) [OF o] by (simp_all add: sess_wf_def)
  have "buffer_room (so_write_buffer s) = BUFFER_SIZE" using wb buffer_empty_room [OF wb(1) e] by (simp add: buffer_room_def)
  with request_marshall_ok [OF wb(1), of reply] obtain b where b: "request_marshall (so_write_buffer s) reply = Some (0, b)" "buffer_wf b"
    "buffer_contents b = reply_msg reply" using e by (auto simp: returns_prod reply_msg_def)
  have lb: "b_limit b = BUFFER_SIZE" using request_marshall_limit [OF b(1)] wb by simp
  show thesis
  proof (rule that)
    show "put_reply p reply w = Some (True, put_socks p (s\<lparr>so_client := C_request (r\<lparr>rt_reply := reply\<rparr>), so_write_buffer := b\<rparr>) w)"
      using b(1) by (simp add: put_reply_def ownD(3) [OF o] r)
    show "own g p (s\<lparr>so_client := C_request (r\<lparr>rt_reply := reply\<rparr>), so_write_buffer := b\<rparr>) ci oi d
       (put_socks p (s\<lparr>so_client := C_request (r\<lparr>rt_reply := reply\<rparr>), so_write_buffer := b\<rparr>) w)"
      by (rule own_put [OF o]) (use ownD(4) [OF o] b lb nt in \<open>auto simp: sess_wf_def\<close>)
  qed (rule b(3))
qed

text \<open>A reply of failure: the session is about to write it, and has no origin.\<close>

lemma reply_and_write_ok:
  assumes o: "own g p s ci oi False w" and key: "k_fd key = so_client_fd s"
    and r: "so_client s = C_request r" and nt: "\<not> so_tunnel_opened s" and e: "wb s = []" and no: "so_origin_fd s = -1"
    and c: "so_orig s = O_conn c" and cur: "so_current s = Some st" and reply: "reply \<noteq> SOCKS_REPLY_SUCCEEDED"
    and st: "st = REQUEST_READ \<or> st = REQUEST_RESOLV" and h: "fst (talk_of s (kern w)) = m @ rb s"
  shows "returns (reply_and_write p key reply w) (next_state (pending g) (finished g) p (so_client_fd s) st)"
proof -
  obtain crx ctx orx otx peer where T: "talk_of s (kern w) = (crx, ctx, orx, otx, peer)" by (cases "talk_of s (kern w)" rule: prod_cases5)
  obtain b where b: "put_reply p reply w = Some (True, put_socks p (s\<lparr>so_client := C_request (r\<lparr>rt_reply := reply\<rparr>), so_write_buffer := b\<rparr>) w)"
    and o1: "own g p (s\<lparr>so_client := C_request (r\<lparr>rt_reply := reply\<rparr>), so_write_buffer := b\<rparr>) ci oi False
       (put_socks p (s\<lparr>so_client := C_request (r\<lparr>rt_reply := reply\<rparr>), so_write_buffer := b\<rparr>) w)"
    and c1: "buffer_contents b = reply_msg reply" by (rule put_reply_ok [OF o r nt e])
  let ?s = "s\<lparr>so_client := C_request (r\<lparr>rt_reply := reply\<rparr>), so_write_buffer := b\<rparr>"
  let ?w = "put_socks p ?s w"
  obtain sl where sl: "socks_interest_key key OP_WRITE ?w = Some (True, ?w\<lparr>sel := sl\<rparr>)" "own g p ?s OP_WRITE oi False (?w\<lparr>sel := sl\<rparr>)"
    using own_key_client [OF o1, of key OP_WRITE] key by auto
  have "after st REQUEST_WRITE ?s OP_WRITE oi (talk_of ?s (kern (?w\<lparr>sel := sl\<rparr>)))"
    using cur c1 c no nt reply st T h by (auto simp: after_def entering_def at_request_write_def)
  from next_stateI [OF sl(2) _ this] show ?thesis using b sl(1) st by (auto simp: reply_and_write_def)
qed

section \<open>Request\<close>

lemma request_read_init_ok:
  assumes o: "own g p s ci oi False w" and key: "k_data key = Some (Socks_Ptr p)"
    and at: "enter_request s ci (talk_of s (kern w))"
  shows "returns (request_read_init st key w) (\<lambda>w'. \<exists>s'. own g p s' ci oi False w' \<and> so_client_fd s' = so_client_fd s
    \<and> so_current s' = so_current s \<and> at_request_read s' ci (talk_of s' (kern w')))"
proof -
  let ?p = "\<lparr>rp_request = \<lparr>rq_cmd = 0, rq_dest_addr = \<lparr>ra_type = 0, ra_mem = replicate 256 0\<rparr>, rq_dest_port = 0\<rparr>,
    rp_state = request_version, rp_remaining = 0, rp_read = 0\<rparr>"
  let ?s = "s\<lparr>so_client := C_request \<lparr>rt_parser = request_parser_init ?p, rt_reply = SOCKS_REPLY_GENERAL_FAILURE\<rparr>\<rparr>"
  have wf: "sess_wf ?s" using ownD(4) [OF o] at by (auto simp: sess_wf_def enter_request_def early_def)
  have o1: "own g p ?s ci oi False (put_socks p ?s w)" by (rule own_put [OF o wf]) simp
  have "request_hist (Some False) (request_parser_init ?p, Some False) []" by (rule request_hist_init) simp
  moreover have "\<not> request_final (request_parser_init ?p, Some False)" by (rule request_init_not_final)
  ultimately have "at_request_read ?s ci (talk_of ?s (kern (put_socks p ?s w)))" using at
    by (fastforce simp: enter_request_def at_request_read_def early_def)
  moreover have "request_read_init st key w = Some (put_socks p ?s w)" by (simp add: request_read_init_def own_attachment [OF o key] Let_def)
  ultimately show ?thesis using o1 by (simp only: returns_Some) (intro exI [of _ ?s], simp)
qed

text \<open>The text of the destination, for the log.\<close>

lemma store_destination_ok:
  assumes d: "holds_dest (rq_dest_addr rq) d" and l: "length (so_destination s) = DESTINATION_MAX_LEN"
  shows "returns (socks5_store_destination ntop rq s) (\<lambda>(ok, s'). \<exists>dst f. length dst = DESTINATION_MAX_LEN
    \<and> s' = (if ok then s\<lparr>so_destination := dst, so_port := rq_dest_port rq, so_destination_set := True\<rparr>
             else s\<lparr>so_destination := dst, so_failure := f\<rparr>))"
proof -
  have addr_text: "returns (inet_ntop ntop a (so_destination s) DESTINATION_MAX_LEN) (\<lambda>(ok, dst). length dst = DESTINATION_MAX_LEN)" for a
    using l by (auto simp: inet_ntop_def arr_blit_def)
  have name: "returns (snprintf (so_destination s) DESTINATION_MAX_LEN cs) (\<lambda>dst. length dst = DESTINATION_MAX_LEN)" for cs
    using snprintf_ok [of DESTINATION_MAX_LEN "so_destination s" cs] l by (auto simp: returns_iff)
  have "returns (if ra_type (rq_dest_addr rq) = SOCKS_ATYP_FQDN then do {
          d \<leftarrow> snprintf (so_destination s) DESTINATION_MAX_LEN (cstr (map chr (ra_mem (rq_dest_addr rq))));
          Some (True, d)
        }
        else if ra_type (rq_dest_addr rq) = SOCKS_ATYP_IPV4
        then inet_ntop ntop (AF_INET (take SOCKS_ATYP_IPV4_LEN (ra_mem (rq_dest_addr rq))) 0) (so_destination s) DESTINATION_MAX_LEN
        else if ra_type (rq_dest_addr rq) = SOCKS_ATYP_IPV6
        then inet_ntop ntop (AF_INET6 (take SOCKS_ATYP_IPV6_LEN (ra_mem (rq_dest_addr rq))) 0) (so_destination s) DESTINATION_MAX_LEN
        else Some (False, so_destination s)) (\<lambda>(ok, dst). length dst = DESTINATION_MAX_LEN)"
    using addr_text name l by simp
  then obtain ok dst where r: "(if ra_type (rq_dest_addr rq) = SOCKS_ATYP_FQDN then do {
          d \<leftarrow> snprintf (so_destination s) DESTINATION_MAX_LEN (cstr (map chr (ra_mem (rq_dest_addr rq))));
          Some (True, d)
        }
        else if ra_type (rq_dest_addr rq) = SOCKS_ATYP_IPV4
        then inet_ntop ntop (AF_INET (take SOCKS_ATYP_IPV4_LEN (ra_mem (rq_dest_addr rq))) 0) (so_destination s) DESTINATION_MAX_LEN
        else if ra_type (rq_dest_addr rq) = SOCKS_ATYP_IPV6
        then inet_ntop ntop (AF_INET6 (take SOCKS_ATYP_IPV6_LEN (ra_mem (rq_dest_addr rq))) 0) (so_destination s) DESTINATION_MAX_LEN
        else Some (False, so_destination s)) = Some (ok, dst)" "length dst = DESTINATION_MAX_LEN"
    unfolding returns_prod by blast
  obtain f where f: "socks5_set_failure ''invalid destination'' (s\<lparr>so_destination := dst\<rparr>) = s\<lparr>so_destination := dst, so_failure := f\<rparr>"
    using set_failure_eq [of _ "s\<lparr>so_destination := dst\<rparr>"] by auto
  have "socks5_store_destination ntop rq s = Some (if \<not> ok then (False, s\<lparr>so_destination := dst, so_failure := f\<rparr>)
      else (True, s\<lparr>so_destination := dst, so_port := rq_dest_port rq, so_destination_set := True\<rparr>))"
    unfolding socks5_store_destination_def Let_def r(1) using f by simp
  then show ?thesis using r(2) by (cases ok) auto
qed

lemma request_process_ok:
  assumes o: "own g p s OP_READ oi False w" and key: "k_data key = Some (Socks_Ptr p)" "k_fd key = so_client_fd s"
    and r: "so_client s = C_request r" and cur: "so_current s = Some REQUEST_READ" and e: "early s" and wb: "wb s = []"
    and n: "talk_of s (kern w) = (n @ used @ rb s, ctx, T')" "negotiated n ctx (so_user s)"
    and h: "request_hist (Some False) (rt_parser r, er) used" and fin: "request_final (rt_parser r, er)" "rp_state (rt_parser r) \<noteq> request_error"
  shows "returns (request_process key w) (next_state (pending g) (finished g) p (so_client_fd s) REQUEST_READ)"
proof -
  let ?st = "rp_state (rt_parser r)"
  let ?rq = "rp_request (rt_parser r)"
  obtain c where c: "so_orig s = O_conn c" "cn_current c = []" and no: "so_origin_fd s = -1" and nt: "\<not> so_tunnel_opened s" and res: "so_resolution s = []"
    using e by (auto simp: early_def)
  have rep: "returns (do { w \<leftarrow> upd_socks p (socks5_set_failure reason) w'; reply_and_write p key reply w })
      (next_state (pending g) (finished g) p (so_client_fd s) REQUEST_READ)"
    if o': "own g p s' ci' oi False w'" and s': "so_client_fd s' = so_client_fd s" "so_client s' = C_request r" "\<not> so_tunnel_opened s'" "wb s' = []"
      "so_origin_fd s' = -1" "so_orig s' = O_conn c" "so_current s' = Some REQUEST_READ" "fst (talk_of s' (kern w')) = m @ rb s'"
      and "reply \<noteq> SOCKS_REPLY_SUCCEEDED" for reason reply s' ci' w' m
  proof -
    obtain f where f: "upd_socks p (socks5_set_failure reason) w' = Some (put_socks p (s'\<lparr>so_failure := f\<rparr>) w')"
      and o1: "own g p (s'\<lparr>so_failure := f\<rparr>) ci' oi False (put_socks p (s'\<lparr>so_failure := f\<rparr>) w')"
      by (rule own_failure [OF o'])
    show ?thesis using reply_and_write_ok [OF o1, of key r c REQUEST_READ reply m] f key that(2-) by simp
  qed
  show ?thesis
  proof (cases "?st = request_error_unsupported_cmd \<or> ?st = request_error_unsupported_atyp")
    case True
    from rep [OF o, of "n @ used" SOCKS_REPLY_CMD_NOT_SUPPORTED "''unsupported command''"]
      rep [OF o, of "n @ used" SOCKS_REPLY_ATYP_NOT_SUPPORTED "''unsupported address type''"] True r cur nt wb no c n(1)
    show ?thesis by (auto simp: request_process_def own_attachment [OF o key(1)] Let_def)
  next
    case False
    with fin have complete: "?st = request_done" by (auto simp: request_final_def)
    with h obtain rsv d hi lo where d: "used = request_msg rsv d hi lo" "holds_dest (rq_dest_addr ?rq) d" "rq_dest_port ?rq = port_of hi lo"
      by (auto simp: request_hist_def Let_def)
    have ld: "length (so_destination s) = DESTINATION_MAX_LEN" using ownD(4) [OF o] by (simp add: sess_wf_def)
    from store_destination_ok [OF d(2) ld, of "text_of_addr w"] obtain ok s1 dst f where st:
      "socks5_store_destination (text_of_addr w) ?rq s = Some (ok, s1)" "length dst = DESTINATION_MAX_LEN"
      "s1 = (if ok then s\<lparr>so_destination := dst, so_port := rq_dest_port ?rq, so_destination_set := True\<rparr>
        else s\<lparr>so_destination := dst, so_failure := f\<rparr>)" by (auto simp: returns_prod)
    have o1: "own g p s1 OP_READ oi False (put_socks p s1 w)"
      by (rule own_put [OF o]) (use ownD(4) [OF o] st(2,3) in \<open>auto simp: sess_wf_def\<close>)
    have fd1: "so_client_fd s1 = so_client_fd s" "so_current s1 = Some REQUEST_READ" using st(3) cur by auto
    show ?thesis
    proof (cases ok)
      case False
      then show ?thesis using \<open>\<not> (?st = _ \<or> _)\<close> next_error [OF o1 fd1] st(1) r
        by (simp add: request_process_def own_attachment [OF o key(1)] Let_def)
    next
      case True
      let ?s1 = "s\<lparr>so_destination := dst, so_port := rq_dest_port ?rq, so_destination_set := True\<rparr>"
      have s1: "s1 = ?s1" using st(3) True by simp
      let ?w1 = "put_socks p ?s1 w"
      obtain sl where sl: "socks_interest_key key OP_NOOP ?w1 = Some (True, ?w1\<lparr>sel := sl\<rparr>)" "own g p ?s1 OP_NOOP oi False (?w1\<lparr>sel := sl\<rparr>)"
        using own_key_client [OF o1, of key OP_NOOP] key(2) unfolding s1 by auto
      let ?w2 = "?w1\<lparr>sel := sl\<rparr>"
      have req: "requested ?s1 n ctx d (port_of hi lo) used" using n(2) d by (auto simp: requested_def)
      have asks: "asks_for r d (port_of hi lo)" using d by (simp add: asks_for_def)
      have T2: "talk_of ?s1 (kern ?w2) = (n @ used @ rb ?s1, ctx, T')" using n(1) by simp
      have run: "request_process key w = (if ra_type (rq_dest_addr ?rq) = SOCKS_ATYP_FQDN then do {
          (ok, w) \<leftarrow> submit_name p key ?rq ?w2;
          if \<not> ok then do {
            w \<leftarrow> upd_socks p (socks5_set_failure ''dns submit failed'') w;
            reply_and_write p key SOCKS_REPLY_GENERAL_FAILURE w
          }
          else do {
            w \<leftarrow> upd_socks p (\<lambda>s. s\<lparr>so_references := so_references s + 1\<rparr>) w;
            Some (REQUEST_RESOLV, w)
          }
        } else Some (CONNECTING, ?w2))"
        using \<open>\<not> (?st = _ \<or> _)\<close> st(1) r sl(1) True s1 by (simp add: request_process_def own_attachment [OF o key(1)] Let_def)
      show ?thesis
      proof (cases "ra_type (rq_dest_addr ?rq) = SOCKS_ATYP_FQDN")
        case False
        then have "\<not> (\<exists>ns. d = FQDN ns)" using d(2) by auto
        then have "enter_connecting ?s1 OP_NOOP (talk_of ?s1 (kern ?w2))"
          using req asks r c no nt res wb unfolding T2 by (cases T') (auto simp: enter_connecting_def connecting_to_def)
        then have "after REQUEST_READ CONNECTING ?s1 OP_NOOP oi (talk_of ?s1 (kern ?w2))" using cur by (simp add: after_def entering_def)
        from next_stateI [OF sl(2) _ this] show ?thesis using False run by simp
      next
        case True
        then have name: "\<exists>ns. d = FQDN ns" using d(2) by (cases d) auto
        from submit_name_ok [OF sl(2), of key ?rq] key(2) obtain ok w3 where w3: "submit_name p key ?rq ?w2 = Some (ok, w3)"
          "talk_of ?s1 (kern w3) = talk_of ?s1 (kern ?w2)" "socks_heap w3 p = Some ?s1"
          "if ok then \<exists>j. own (g\<lparr>queued := queued g @ [j]\<rparr>) p (?s1\<lparr>so_references := so_references ?s1 + 1\<rparr>) OP_NOOP oi True
                  (put_socks p (?s1\<lparr>so_references := so_references ?s1 + 1\<rparr>) w3) else own g p ?s1 OP_NOOP oi False w3"
          by (auto simp: returns_prod)
        show ?thesis
        proof (cases ok)
          case False
          then have o3: "own g p ?s1 OP_NOOP oi False w3" using w3(4) by simp
          have "fst (talk_of ?s1 (kern w3)) = (n @ used) @ rb ?s1" using w3(2) T2 by simp
          from rep [OF o3 _ _ _ _ _ _ _ this] r nt wb no c cur run True w3(1) False show ?thesis by simp
        next
          case True
          let ?s2 = "?s1\<lparr>so_references := so_references ?s1 + 1\<rparr>"
          obtain j where o3: "own (g\<lparr>queued := queued g @ [j]\<rparr>) p ?s2 OP_NOOP oi True (put_socks p ?s2 w3)" using w3(4) True by auto
          have T3: "talk_of ?s2 (kern (put_socks p ?s2 w3)) = (n @ used @ rb ?s2, ctx, T')" using w3(2) T2 by simp
          have "requested ?s2 n ctx d (port_of hi lo) used" using req by (simp add: requested_def)
          then have "at_resolv ?s2 OP_NOOP (talk_of ?s2 (kern (put_socks p ?s2 w3)))"
            using asks name r c no nt wb unfolding T3 by (cases T') (simp add: at_resolv_def, blast)
          then have "after REQUEST_READ REQUEST_RESOLV ?s2 OP_NOOP oi (talk_of ?s2 (kern (put_socks p ?s2 w3)))"
            using cur by (simp add: after_def entering_def)
          from next_stateI [OF o3 _ this] show ?thesis using run \<open>ra_type _ = _\<close> w3(1,3) True by (simp add: upd_socks_def)
        qed
      qed
    qed
  qed
qed

lemma request_read_ok:
  assumes o: "own g p s ci oi False w" and key: "k_data key = Some (Socks_Ptr p)" "k_fd key = so_client_fd s"
    and at: "at_request_read s ci (talk_of s (kern w))" and cur: "so_current s = Some REQUEST_READ"
  shows "returns (request_read key w) (next_state (pending g) (finished g) p (so_client_fd s) REQUEST_READ)"
proof -
  obtain crx ctx orx otx peer where T: "talk_of s (kern w) = (crx, ctx, orx, otx, peer)" by (cases "talk_of s (kern w)" rule: prod_cases5)
  obtain n r used where a: "so_client s = C_request r" "negotiated n ctx (so_user s)"
    "request_hist (Some False) (rt_parser r, Some False) used" "\<not> request_final (rt_parser r, Some False)" "crx = n @ used @ rb s"
    "wb s = []" "early s" "ci = OP_READ"
    using at T by (auto simp: at_request_read_def)
  have nt: "\<not> so_tunnel_opened s" using a(7) by (simp add: early_def)
  from receive_more_ok [OF o key, of REQUEST_READ] obtain q w1 b new where q: "receive_more REQUEST_READ key w = Some (q, w1)"
    and o1: "own g p (s\<lparr>so_read_buffer := b\<rparr>) ci oi False w1" and b: "buffer_contents b = rb s @ new"
    and t1: "talk_of s (kern w1) = heard_client new (talk_of s (kern w))"
    and c: "case q of None \<Rightarrow> buffer_contents b \<noteq> [] | Some st' \<Rightarrow> rb s = [] \<and> new = [] \<and> (st' = REQUEST_READ \<or> st' = ERROR)"
    by (auto simp: returns_prod)
  let ?s1 = "s\<lparr>so_read_buffer := b\<rparr>"
  show ?thesis
  proof (cases q)
    case (Some st')
    have "at_request_read ?s1 ci (talk_of ?s1 (kern w1))"
      using a b T t1 c Some by (simp add: at_request_read_def early_def) blast
    then have "after REQUEST_READ REQUEST_READ ?s1 ci oi (talk_of ?s1 (kern w1))" using cur b c Some by (simp add: after_def)
    then show ?thesis using next_stateI [OF o1, of "so_client_fd s" REQUEST_READ REQUEST_READ] next_error [OF o1, of "so_client_fd s" REQUEST_READ] c Some q cur
      by (auto simp: request_read_def)
  next
    case None
    have wf: "buffer_wf b" "b_limit b = BUFFER_SIZE" using ownD(4) [OF o1] by (simp_all add: sess_wf_def)
    from request_run [OF wf(1) a(3,4)] obtain b' pe u where u: "request_consume b (rt_parser r, Some False) = Some (b', pe)" "buffer_wf b'"
      "b_limit b' = b_limit b" "buffer_contents b = u @ buffer_contents b'" "request_hist (Some False) pe (used @ u)"
      "request_final pe \<or> buffer_contents b' = []" by blast
    obtain parser e where pe: "pe = (parser, e)" by (cases pe)
    let ?r = "r\<lparr>rt_parser := parser\<rparr>"
    let ?s2 = "s\<lparr>so_read_buffer := b', so_client := C_request ?r\<rparr>"
    let ?w2 = "put_socks p ?s2 w1"
    have o2: "own g p ?s2 ci oi False ?w2"
      by (rule own_put [OF o1]) (use ownD(4) [OF o1] u wf nt in \<open>auto simp: sess_wf_def\<close>)
    have t2: "talk_of ?s2 (kern ?w2) = (n @ (used @ u) @ rb ?s2, ctx, orx, otx, peer)" using t1 T b u a(5) by simp
    obtain f where f: "socks5_set_failure ''invalid request'' ?s2 = ?s2\<lparr>so_failure := f\<rparr>" using set_failure_eq by blast
    have run: "request_read key w = (if e = Some True then Some (ERROR, put_socks p (?s2\<lparr>so_failure := f\<rparr>) w1)
        else if fst (request_is_done (rp_state parser) None) then request_process key ?w2 else Some (REQUEST_READ, ?w2))"
      using q None pe u(1) a(1) f by (simp add: request_read_def own_attachment [OF o1 key(1)] Let_def)
    consider "e = Some True" | "e \<noteq> Some True" "request_final pe" "rp_state parser \<noteq> request_error" | "e \<noteq> Some True" "\<not> request_final pe"
      using u(5) pe by (cases "rp_state parser") (auto simp: request_hist_def request_final_def Let_def set_error_def)
    then show ?thesis
    proof cases
      case 1
      have "own g p (?s2\<lparr>so_failure := f\<rparr>) ci oi False (put_socks p (?s2\<lparr>so_failure := f\<rparr>) w1)"
        by (rule own_put [OF o1]) (use ownD(4) [OF o2] in \<open>auto simp: sess_wf_def\<close>)
      from next_error [OF this, of "so_client_fd s" REQUEST_READ] 1 show ?thesis using run cur by simp
    next
      case 2
      then have "fst (request_is_done (rp_state parser) None)" using pe by (auto simp: request_final_def)
      moreover have "early ?s2" using a(7) by (simp add: early_def)
      ultimately show ?thesis
        using request_process_ok [OF o2 [unfolded a(8)] key(1), of ?r n "used @ u" ctx "(orx, otx, peer)" e] key(2) cur a 2 u(5) pe t2 run by simp
    next
      case 3
      then have "\<not> fst (request_is_done (rp_state parser) None)" using pe by (cases "rp_state parser") (auto simp: request_final_def)
      moreover have e: "e = Some False" using u(5) 3 pe by (cases "rp_state parser") (auto simp: request_hist_def request_final_def Let_def)
      moreover have "at_request_read ?s2 ci (talk_of ?s2 (kern ?w2))"
        unfolding t2 at_request_read_def prod.case
        by (intro exI [of _ n] exI [of _ ?r] exI [of _ "used @ u"]) (use 3 u a pe e in \<open>simp add: early_def\<close>)
      moreover have "buffer_contents b' = []" using 3 u(6) by simp
      ultimately show ?thesis using run 3 cur next_stateI [OF o2, of "so_client_fd s" REQUEST_READ REQUEST_READ]
        by (simp add: after_def)
    qed
  qed
qed

section \<open>The answer of the resolver\<close>

lemma own_release:
  assumes o: "own g p s ci oi True w" and free: "so_client_fd s \<notin> set (owed g w)"
    and s': "sess_wf s'" "same_spine (s\<lparr>so_references := so_references s - 1\<rparr>) s'"
  shows "own g p s' ci oi False (put_socks p s' w)"
proof -
  note a = ownD [OF o]
  have "own g p s' ci oi False ((put_socks p s' w)\<lparr>sel := sel w, kern := kern w\<rparr>)"
    by (rule own_update [OF o s'(1)]) (use a s' free in \<open>auto simp: same_spine_def held_def registered_def\<close>)
  then show ?thesis by (simp add: put_socks_def)
qed

lemma request_resolv_done_ok:
  assumes o: "own g p s ci oi True w" and key: "k_data key = Some (Socks_Ptr p)" "k_fd key = so_client_fd s"
    and free: "so_client_fd s \<notin> set (owed g w)"
    and at: "at_resolv s ci (talk_of s (kern w))" and cur: "so_current s = Some REQUEST_RESOLV"
  shows "returns (request_resolv_done key w) (next_state (pending g) (finished g) p (so_client_fd s) REQUEST_RESOLV)"
proof -
  obtain crx ctx orx otx peer where T: "talk_of s (kern w) = (crx, ctx, orx, otx, peer)" by (cases "talk_of s (kern w)" rule: prod_cases5)
  obtain r n d port req c where a: "so_client s = C_request r" "requested s n ctx d port req" "asks_for r d port" "\<exists>ns. d = FQDN ns"
    "crx = n @ req @ rb s" "wb s = []" "so_origin_fd s = -1" "so_orig s = O_conn c" "cn_current c = []" "\<not> so_tunnel_opened s" "ci = OP_NOOP"
    using at T by (auto simp: at_resolv_def)
  let ?s1 = "s\<lparr>so_references := so_references s - 1\<rparr>"
  show ?thesis
  proof (cases "so_resolution s = []")
    case True
    obtain f where f: "socks5_set_failure ''dns resolution failed'' ?s1 = ?s1\<lparr>so_failure := f\<rparr>" using set_failure_eq by blast
    have o1: "own g p (?s1\<lparr>so_failure := f\<rparr>) ci oi False (put_socks p (?s1\<lparr>so_failure := f\<rparr>) w)"
      by (rule own_release [OF o free]) (use ownD(4) [OF o] in \<open>simp_all add: sess_wf_def\<close>)
    have "request_resolv_done key w = reply_and_write p key SOCKS_REPLY_HOST_UNREACHABLE (put_socks p (?s1\<lparr>so_failure := f\<rparr>) w)"
      using True f by (simp add: request_resolv_done_def own_attachment [OF o key(1)] Let_def)
    with reply_and_write_ok [OF o1, of key r c REQUEST_RESOLV SOCKS_REPLY_HOST_UNREACHABLE "n @ req"] key(2) a cur T show ?thesis by simp
  next
    case False
    let ?s2 = "?s1\<lparr>so_orig := O_conn (c\<lparr>cn_current := so_resolution s\<rparr>)\<rparr>"
    have o1: "own g p ?s2 ci oi False (put_socks p ?s2 w)"
      by (rule own_release [OF o free]) (use ownD(4) [OF o] a in \<open>auto simp: sess_wf_def\<close>)
    have run: "request_resolv_done key w = Some (CONNECTING, put_socks p ?s2 w)"
      using False a(8) by (simp add: request_resolv_done_def own_attachment [OF o key(1)] Let_def)
    have T2: "talk_of ?s2 (kern (put_socks p ?s2 w)) = (n @ req @ rb ?s2, ctx, orx, otx, peer)" using T a(5) by simp
    have "requested ?s2 n ctx d port req" using a(2) by (simp add: requested_def)
    then have "connecting_to ?s2 (talk_of ?s2 (kern (put_socks p ?s2 w)))"
      unfolding T2 connecting_to_def prod.case
      by (intro exI [of _ r] exI [of _ n] exI [of _ d] exI [of _ port] exI [of _ req] exI [of _ "c\<lparr>cn_current := so_resolution s\<rparr>"])
        (use a False in simp)
    then have "after REQUEST_RESOLV CONNECTING ?s2 ci oi (talk_of ?s2 (kern (put_socks p ?s2 w)))"
      using cur a by (simp add: after_def entering_def enter_connecting_def)
    from next_stateI [OF o1 _ this] show ?thesis using run by simp
  qed
qed

section \<open>Writing the reply\<close>

lemma request_write_ok:
  assumes o: "own g p s ci oi False w" and key: "k_data key = Some (Socks_Ptr p)" "k_fd key = so_client_fd s"
    and at: "at_request_write s ci oi (talk_of s (kern w))" and cur: "so_current s = Some REQUEST_WRITE"
  shows "returns (request_write key w) (next_state (pending g) (finished g) p (so_client_fd s) REQUEST_WRITE)"
proof -
  obtain crx ctx orx otx peer where T: "talk_of s (kern w) = (crx, ctx, orx, otx, peer)" by (cases "talk_of s (kern w)" rule: prod_cases5)
  obtain r n m c where a: "so_client s = C_request r" "so_orig s = O_conn c" "crx = n @ rb s" "ctx @ wb s = m @ reply_msg (rt_reply r)"
    "\<not> so_tunnel_opened s" "ci = OP_WRITE"
    "if rt_reply r = SOCKS_REPLY_SUCCEEDED then tunnel s n m peer \<and> orx = [] \<and> otx = [] \<and> oi = OP_NOOP else so_origin_fd s = -1"
    using at T by (auto simp: at_request_write_def)
  from send_pending_ok [OF o key, of REQUEST_WRITE] obtain q w1 b out where q: "send_pending REQUEST_WRITE key w = Some (q, w1)"
    and o1: "own g p (s\<lparr>so_write_buffer := b\<rparr>) ci oi False w1" and b: "out @ buffer_contents b = wb s"
    and t1: "talk_of s (kern w1) = told_client out (talk_of s (kern w))"
    and h: "\<forall>st'. q = Some st' \<longrightarrow> out = [] \<and> (st' = REQUEST_WRITE \<or> st' = ERROR)"
    by (auto simp: returns_prod)
  let ?s1 = "s\<lparr>so_write_buffer := b\<rparr>"
  have t1': "talk_of ?s1 (kern w1) = (crx, ctx @ out, orx, otx, peer)" using t1 T by simp
  have tun: "tunnel ?s1 n m peer = tunnel s n m peer" by (simp add: tunnel_def requested_def)
  have "at_request_write ?s1 ci oi (talk_of ?s1 (kern w1))"
    unfolding t1' at_request_write_def prod.case
    by (intro exI [of _ r] exI [of _ n] exI [of _ m] exI [of _ c]) (use a b tun in simp)
  then have stay: "next_state (pending g) (finished g) p (so_client_fd s) REQUEST_WRITE (REQUEST_WRITE, w1)"
    by (intro next_stateI [OF o1]) (use cur in \<open>simp_all add: after_def reading_def\<close>)
  have wf: "buffer_wf b" using ownD(4) [OF o1] by (simp add: sess_wf_def)
  have run: "request_write key w = (case q of Some st' \<Rightarrow> Some (st', w1) | None \<Rightarrow>
      if buffer_contents b \<noteq> [] then Some (REQUEST_WRITE, w1)
      else if rt_reply r = SOCKS_REPLY_SUCCEEDED then do {
        (ok, w) \<leftarrow> socks_interest_key key OP_READ w1;
        Some (if \<not> ok then ERROR else COPY, w)
      } else Some (DONE, w1))"
    using q a(1) by (simp add: request_write_def own_attachment [OF o key(1)] ownD(3) [OF o1] buffer_can_read_iff [OF wf] split: option.split)
  show ?thesis
  proof (cases q)
    case (Some st')
    then show ?thesis using h stay next_error [OF o1, of "so_client_fd s" REQUEST_WRITE] cur by (auto simp: run)
  next
    case None
    show ?thesis
    proof (cases "buffer_contents b = []")
      case False
      then show ?thesis using None stay by (simp add: run)
    next
      case True
      obtain sl where sl: "socks_interest_key key OP_READ w1 = Some (True, w1\<lparr>sel := sl\<rparr>)" "own g p ?s1 OP_READ oi False (w1\<lparr>sel := sl\<rparr>)"
        using own_key_client [OF o1, of key OP_READ] key(2) by auto
      have "enter_copy ?s1 (talk_of ?s1 (kern (w1\<lparr>sel := sl\<rparr>)))" if "rt_reply r = SOCKS_REPLY_SUCCEEDED"
        using that a b True t1' tun by (auto simp: enter_copy_def)
      then show ?thesis using None True cur sl(1) next_done [OF o1, of "so_client_fd s" REQUEST_WRITE]
          next_stateI [OF sl(2), of "so_client_fd s" REQUEST_WRITE COPY]
        by (auto simp: run after_def entering_def)
    qed
  qed
qed

end
