(* ===== verification/Socks5_Connect.thy ===== *)
theory Socks5_Connect
  imports Socks5_Request
begin

text \<open>Connecting to the origin: the attempts one after the other, and their outcome, keep the invariant of the session.\<close>

lemma errno_reply_nonzero: "errno_to_socks_reply e \<noteq> SOCKS_REPLY_SUCCEEDED"
  by (cases e) auto

section \<open>Frames of the assertion\<close>

lemma connecting_to_simps [simp]:
  "connecting_to (s\<lparr>so_failure := f\<rparr>) T = connecting_to s T"
  "connecting_to (s\<lparr>so_connect_deadline := t\<rparr>) T = connecting_to s T"
  by (auto simp: connecting_to_def requested_def)

lemma connecting_toE:
  assumes "connecting_to s (crx, ctx, orx, otx, peer)"
  obtains r n d port req c where "so_client s = C_request r" "requested s n ctx d port req" "asks_for r d port" "crx = n @ req @ rb s"
    "wb s = []" "so_orig s = O_conn c" "set (cn_current c) \<subseteq> set (so_resolution s)"
    "(\<exists>ns. d = FQDN ns) \<longleftrightarrow> so_resolution s \<noteq> []" "\<not> so_tunnel_opened s"
    "so_origin_fd s \<noteq> -1 \<longrightarrow> orx = [] \<and> otx = [] \<and> (\<exists>a \<in> may_reach d port (so_resolution s). peer = Some a)"
  using assms unfolding connecting_to_def prod.case by blast

lemma connecting_to_orig:
  assumes "connecting_to s T" and "so_orig s = O_conn c" and "set (cn_current c') \<subseteq> set (so_resolution s)"
  shows "connecting_to (s\<lparr>so_orig := O_conn c'\<rparr>) T"
proof -
  obtain crx ctx orx otx peer where T: "T = (crx, ctx, orx, otx, peer)" by (cases T rule: prod_cases5)
  obtain r n d port req c0 where a: "so_client s = C_request r" "requested s n ctx d port req" "asks_for r d port" "crx = n @ req @ rb s" "wb s = []"
     "so_orig s = O_conn c0" "set (cn_current c0) \<subseteq> set (so_resolution s)"
     "(\<exists>ns. d = FQDN ns) \<longleftrightarrow> so_resolution s \<noteq> []" "\<not> so_tunnel_opened s"
     "so_origin_fd s \<noteq> -1 \<longrightarrow> orx = [] \<and> otx = [] \<and> (\<exists>a \<in> may_reach d port (so_resolution s). peer = Some a)"
    using assms(1) unfolding T by (rule connecting_toE)
  have "requested (s\<lparr>so_orig := O_conn c'\<rparr>) n ctx d port req" using a(2) by (simp add: requested_def)
  then show ?thesis unfolding T connecting_to_def prod.case
    by (intro exI [of _ r] exI [of _ n] exI [of _ d] exI [of _ port] exI [of _ req] exI [of _ c']) (use a assms(3) in simp)
qed

text \<open>The addresses that may be tried.\<close>

definition addr_ok :: "socks5 \<Rightarrow> sockaddr \<Rightarrow> bool" where
  "addr_ok s a \<longleftrightarrow> a \<in> set (so_resolution s)
     \<or> so_resolution s = [] \<and> (\<exists>r. so_client s = C_request r \<and> a = request_sockaddr (rp_request (rt_parser r)))"

lemma connecting_to_link:
  assumes c: "connecting_to s (crx, ctx, T)" and a: "addr_ok s a"
    and s': "s' = s\<lparr>so_origin_fd := fd, so_references := rf\<rparr>"
  shows "connecting_to s' (crx, ctx, [], [], Some a)"
proof -
  obtain orx otx peer where T: "T = (orx, otx, peer)" by (cases T rule: prod_cases3)
  obtain r n d port req c where b: "so_client s = C_request r" "requested s n ctx d port req" "asks_for r d port" "crx = n @ req @ rb s" "wb s = []"
     "so_orig s = O_conn c" "set (cn_current c) \<subseteq> set (so_resolution s)"
     "(\<exists>ns. d = FQDN ns) \<longleftrightarrow> so_resolution s \<noteq> []" "\<not> so_tunnel_opened s"
    using c unfolding T by (rule connecting_toE)
  have "a \<in> may_reach d port (so_resolution s)"
  proof (cases "so_resolution s = []")
    case True
    then have "a = request_sockaddr (rp_request (rt_parser r))" using a b(1) by (auto simp: addr_ok_def)
    moreover have "d \<noteq> FQDN ns" for ns using True b(8) by auto
    ultimately show ?thesis using b(3) by (cases d) (auto simp: asks_for_def request_sockaddr_def Let_def)
  next
    case False
    then show ?thesis using a b(8) by (auto simp: addr_ok_def)
  qed
  moreover have "requested s' n ctx d port req" using b(2) by (simp add: requested_def s')
  ultimately show ?thesis unfolding connecting_to_def prod.case
    by (intro exI [of _ r] exI [of _ n] exI [of _ d] exI [of _ port] exI [of _ req] exI [of _ c]) (use b in \<open>simp add: s'\<close>)
qed

lemma connecting_to_unlink:
  assumes c: "connecting_to s (crx, ctx, T)"
  shows "connecting_to (s\<lparr>so_references := rf, so_origin_fd := -1\<rparr>) (crx, ctx, T')"
proof -
  obtain orx otx peer where T: "T = (orx, otx, peer)" by (cases T rule: prod_cases3)
  obtain orx' otx' peer' where T': "T' = (orx', otx', peer')" by (cases T' rule: prod_cases3)
  obtain r n d port req c where b: "so_client s = C_request r" "requested s n ctx d port req" "asks_for r d port" "crx = n @ req @ rb s" "wb s = []"
     "so_orig s = O_conn c" "set (cn_current c) \<subseteq> set (so_resolution s)"
     "(\<exists>ns. d = FQDN ns) \<longleftrightarrow> so_resolution s \<noteq> []" "\<not> so_tunnel_opened s"
    using c unfolding T by (rule connecting_toE)
  have "requested (s\<lparr>so_references := rf, so_origin_fd := -1\<rparr>) n ctx d port req" using b(2) by (simp add: requested_def)
  then show ?thesis unfolding T' connecting_to_def prod.case
    by (intro exI [of _ r] exI [of _ n] exI [of _ d] exI [of _ port] exI [of _ req] exI [of _ c]) (use b in simp)
qed

section \<open>One attempt, and all of them\<close>

text \<open>At rest in \<^verbatim>\<open>CONNECTING\<close>.\<close>

definition connects :: "ghost \<Rightarrow> nat \<Rightarrow> int \<Rightarrow> nat option \<Rightarrow> proxy \<Rightarrow> bool" where
  "connects g p c cur w \<longleftrightarrow> (\<exists>s ci oi. own g p s ci oi False w \<and> so_client_fd s = c \<and> so_current s = cur
     \<and> at_connecting s ci oi (talk_of s (kern w)))"

lemma connecting_failed_ok:
  assumes o: "own g p s ci oi False w" and none: "so_origin_fd s = -1" and c: "connecting_to s (talk_of s (kern w))"
    and rep: "so_orig s = O_conn cn" "cn_reply cn \<noteq> SOCKS_REPLY_SUCCEEDED"
  shows "returns (connecting_failed p w) (connects g p (so_client_fd s) (so_current s))"
proof -
  obtain f where f: "upd_socks p (socks5_set_failure ''connect failed'') w = Some (put_socks p (s\<lparr>so_failure := f\<rparr>) w)"
    and o1: "own g p (s\<lparr>so_failure := f\<rparr>) ci oi False (put_socks p (s\<lparr>so_failure := f\<rparr>) w)" by (rule own_failure [OF o])
  let ?s = "s\<lparr>so_failure := f\<rparr>"
  let ?w = "put_socks p ?s w"
  obtain sl where sl: "socks_interest (so_client_fd s) OP_WRITE ?w = Some (True, ?w\<lparr>sel := sl\<rparr>)" "own g p ?s OP_WRITE oi False (?w\<lparr>sel := sl\<rparr>)"
    using own_interest_client [OF o1, of OP_WRITE] by auto
  have "at_connecting ?s OP_WRITE oi (talk_of ?s (kern (?w\<lparr>sel := sl\<rparr>)))" using c none rep by (simp add: at_connecting_def)
  then have "connects g p (so_client_fd s) (so_current s) (?w\<lparr>sel := sl\<rparr>)"
    unfolding connects_def using sl(2) by (intro exI [of _ ?s] exI [of _ OP_WRITE] exI [of _ oi]) simp
  then show ?thesis using f sl(1) by (simp add: connecting_failed_def)
qed

lemma put_conn_reply_ok:
  assumes o: "own g p s ci oi False w" and cn: "so_orig s = O_conn cn" and c: "connecting_to s (talk_of s (kern w))"
  shows "\<exists>s'. s' = s\<lparr>so_orig := O_conn (cn\<lparr>cn_reply := reply\<rparr>)\<rparr> \<and> put_conn_reply p reply w = Some (put_socks p s' w)
    \<and> own g p s' ci oi False (put_socks p s' w) \<and> connecting_to s' (talk_of s' (kern (put_socks p s' w)))"
proof -
  let ?s = "s\<lparr>so_orig := O_conn (cn\<lparr>cn_reply := reply\<rparr>)\<rparr>"
  have "\<not> so_tunnel_opened s" "set (cn_current cn) \<subseteq> set (so_resolution s)" using c cn by (auto simp: connecting_to_def)
  then have "own g p ?s ci oi False (put_socks p ?s w)" "connecting_to ?s (talk_of ?s (kern (put_socks p ?s w)))"
    using own_put [OF o, of ?s] connecting_to_orig [OF c cn, of "cn\<lparr>cn_reply := reply\<rparr>"] ownD(4) [OF o] by (auto simp: sess_wf_def)
  then show ?thesis using cn by (simp add: put_conn_reply_def set_conn_reply_def ownD(3) [OF o])
qed

text \<open>The outcome of one attempt: an origin that waits for the connection, or an error for the rest \<open>K\<close> to deal with.\<close>

lemma link_ok:
  assumes o: "own g p s OP_NOOP oi False w" and none: "so_origin_fd s = -1" and c: "connecting_to s (talk_of s (kern w))"
    and cn: "so_orig s = O_conn cn" "cn_reply cn \<noteq> SOCKS_REPLY_SUCCEEDED" and a: "addr_ok s a"
    and K: "\<And>e k. own g p s OP_NOOP oi False (w\<lparr>kern := k\<rparr>) \<Longrightarrow> talk_of s k = talk_of s (kern w) \<Longrightarrow>
      returns (K e (w\<lparr>kern := k\<rparr>)) (connects g p (so_client_fd s) (so_current s))"
  shows "returns (do {
      (err, w) \<leftarrow> connecting_try_one p a w;
      case err of
        None \<Rightarrow> do {
          w \<leftarrow> upd_socks p (\<lambda>s. s\<lparr>so_references := so_references s + 1\<rparr>) w;
          (ok, w) \<leftarrow> connecting_register_origin p w;
          if ok then Some w
          else do { w \<leftarrow> put_conn_reply p SOCKS_REPLY_GENERAL_FAILURE w; connecting_failed p w }
        }
      | Some e \<Rightarrow> K e w
    }) (connects g p (so_client_fd s) (so_current s))"
proof -
  obtain crx ctx T where T: "talk_of s (kern w) = (crx, ctx, T)" by (cases "talk_of s (kern w)" rule: prod_cases3)
  from connecting_try_one_ok [OF o, of a] obtain err w1 where t: "connecting_try_one p a w = Some (err, w1)"
    and r: "case err of Some e \<Rightarrow> \<exists>k. w1 = w\<lparr>kern := k\<rparr> \<and> untouched (kern w) k
      | None \<Rightarrow> \<exists>fd k. w1 = put_socks p (s\<lparr>so_origin_fd := fd\<rparr>) (w\<lparr>kern := k\<rparr>) \<and> opened (kern w) fd a k"
    by (auto simp: returns_prod)
  show ?thesis
  proof (cases err)
    case (Some e)
    then obtain k where k: "w1 = w\<lparr>kern := k\<rparr>" "untouched (kern w) k" using r by auto
    from K [OF own_untouched [OF o k(2)] talk_untouched [OF o k(2)], of e] show ?thesis using t Some k(1) by simp
  next
    case None
    then obtain fd k where w1: "w1 = put_socks p (s\<lparr>so_origin_fd := fd\<rparr>) (w\<lparr>kern := k\<rparr>)" and op: "opened (kern w) fd a k" using r by auto
    let ?s = "s\<lparr>so_origin_fd := fd, so_references := so_references s + 1\<rparr>"
    let ?w2 = "put_socks p ?s (w\<lparr>kern := k\<rparr>)"
    have up: "upd_socks p (\<lambda>s. s\<lparr>so_references := so_references s + 1\<rparr>) w1 = Some ?w2" by (simp add: upd_socks_def w1)
    from register_origin_ok [OF o none op refl] obtain ok w3 where w3: "connecting_register_origin p ?w2 = Some (ok, w3)"
      "if ok then own g p ?s OP_NOOP OP_WRITE False w3 \<and> talk_of ?s (kern w3) = talk_of ?s k
       else own g p s OP_NOOP oi False w3 \<and> talk_of s (kern w3) = talk_of s (kern w)" by (auto simp: returns_prod)
    show ?thesis
    proof (cases ok)
      case True
      have "so_client_fd s \<noteq> fd" "fd \<noteq> -1" using own_fds(5) [OF o] op by (auto simp: opened_def)
      then have "talk_of ?s (kern w3) = (crx, ctx, [], [], Some a)" using w3(2) True T op by (auto simp: talk_of_def opened_def)
      moreover have "connecting_to ?s (crx, ctx, [], [], Some a)"
        by (rule connecting_to_link [OF _ a refl]) (use c T in simp)
      ultimately have "at_connecting ?s OP_NOOP OP_WRITE (talk_of ?s (kern w3))"
        using \<open>fd \<noteq> -1\<close> cn by (simp add: at_connecting_def)
      then have "connects g p (so_client_fd s) (so_current s) w3" unfolding connects_def using w3(2) True
        by (intro exI [of _ ?s] exI [of _ OP_NOOP] exI [of _ OP_WRITE]) simp
      then show ?thesis using t None up w3(1) True by simp
    next
      case False
      then have o3: "own g p s OP_NOOP oi False w3" "connecting_to s (talk_of s (kern w3))" using w3(2) c by simp_all
      from put_conn_reply_ok [OF o3(1) cn(1) o3(2), of SOCKS_REPLY_GENERAL_FAILURE] obtain s' where
        s': "s' = s\<lparr>so_orig := O_conn (cn\<lparr>cn_reply := SOCKS_REPLY_GENERAL_FAILURE\<rparr>)\<rparr>"
          "put_conn_reply p SOCKS_REPLY_GENERAL_FAILURE w3 = Some (put_socks p s' w3)" "own g p s' OP_NOOP oi False (put_socks p s' w3)"
          "connecting_to s' (talk_of s' (kern (put_socks p s' w3)))" by blast
      from connecting_failed_ok [OF s'(3) _ s'(4), of "cn\<lparr>cn_reply := SOCKS_REPLY_GENERAL_FAILURE\<rparr>"] none show ?thesis
        using t None up w3(1) False s'(1,2) by simp
    qed
  qed
qed

lemma connecting_try_list_ok:
  "own g p s OP_NOOP oi False w \<Longrightarrow> so_origin_fd s = -1 \<Longrightarrow> connecting_to s (talk_of s (kern w)) \<Longrightarrow>
   so_orig s = O_conn cn \<Longrightarrow> cn_reply cn \<noteq> SOCKS_REPLY_SUCCEEDED \<Longrightarrow> set ais \<subseteq> set (so_resolution s) \<Longrightarrow>
   returns (connecting_try_list p ais w) (connects g p (so_client_fd s) (so_current s))"
proof (induction ais arbitrary: s w cn)
  case Nil
  then show ?case by (simp add: connecting_failed_ok)
next
  case (Cons ai ais)
  note o = Cons.prems(1)
  let ?cn = "cn\<lparr>cn_current := ais\<rparr>"
  let ?s = "s\<lparr>so_orig := O_conn ?cn\<rparr>"
  let ?w = "put_socks p ?s w"
  have nt: "\<not> so_tunnel_opened s" using Cons.prems(3) by (auto simp: connecting_to_def)
  have o1: "own g p ?s OP_NOOP oi False ?w" by (rule own_put [OF o]) (use ownD(4) [OF o] nt in \<open>auto simp: sess_wf_def\<close>)
  have c1: "connecting_to ?s (talk_of ?s (kern ?w))"
    using connecting_to_orig [OF Cons.prems(3,4), of ?cn] Cons.prems(6) by simp
  have a: "addr_ok ?s ai" using Cons.prems(6) by (simp add: addr_ok_def)
  let ?K = "\<lambda>e w. do { w \<leftarrow> put_conn_reply p (errno_to_socks_reply e) w; connecting_try_list p ais w }"
  have K: "returns (?K e (?w\<lparr>kern := k\<rparr>)) (connects g p (so_client_fd ?s) (so_current ?s))"
    if o2: "own g p ?s OP_NOOP oi False (?w\<lparr>kern := k\<rparr>)" and t: "talk_of ?s k = talk_of ?s (kern ?w)" for e k
  proof -
    have c2: "connecting_to ?s (talk_of ?s (kern (?w\<lparr>kern := k\<rparr>)))" using c1 t by simp
    from put_conn_reply_ok [OF o2 _ c2, of ?cn "errno_to_socks_reply e"] obtain s' where s':
      "s' = ?s\<lparr>so_orig := O_conn (?cn\<lparr>cn_reply := errno_to_socks_reply e\<rparr>)\<rparr>"
      "put_conn_reply p (errno_to_socks_reply e) (?w\<lparr>kern := k\<rparr>) = Some (put_socks p s' (?w\<lparr>kern := k\<rparr>))"
      "own g p s' OP_NOOP oi False (put_socks p s' (?w\<lparr>kern := k\<rparr>))"
      "connecting_to s' (talk_of s' (kern (put_socks p s' (?w\<lparr>kern := k\<rparr>))))" by auto
    show ?thesis
      using Cons.IH [OF s'(3) _ s'(4), of "?cn\<lparr>cn_reply := errno_to_socks_reply e\<rparr>"] Cons.prems(2,6) errno_reply_nonzero s'(1,2) by simp
  qed
  have "connecting_try_list p (ai # ais) w = do {
      (err, w) \<leftarrow> connecting_try_one p ai ?w;
      case err of
        None \<Rightarrow> do {
          w \<leftarrow> upd_socks p (\<lambda>s. s\<lparr>so_references := so_references s + 1\<rparr>) w;
          (ok, w) \<leftarrow> connecting_register_origin p w;
          if ok then Some w
          else do { w \<leftarrow> put_conn_reply p SOCKS_REPLY_GENERAL_FAILURE w; connecting_failed p w }
        }
      | Some e \<Rightarrow> ?K e w
    }" using Cons.prems(4) by (simp add: ownD(3) [OF o])
  then show ?case using link_ok [where K = ?K and cn = ?cn, OF o1 _ c1 _ _ a K] Cons.prems(2,5) by simp
qed

section \<open>Arriving at \<^verbatim>\<open>CONNECTING\<close>\<close>

lemma connecting_init_ok:
  assumes o: "own g p s ci oi False w" and key: "k_data key = Some (Socks_Ptr p)" and at: "enter_connecting s ci (talk_of s (kern w))"
  shows "returns (connecting_init st key w) (connects g p (so_client_fd s) (so_current s))"
proof -
  obtain cn where cn: "so_orig s = O_conn cn" "cn_current cn = so_resolution s" and c: "connecting_to s (talk_of s (kern w))"
    and none: "so_origin_fd s = -1" and ci: "ci = OP_NOOP" using at by (auto simp: enter_connecting_def)
  obtain r where r: "so_client s = C_request r" and nt: "\<not> so_tunnel_opened s" using c by (auto simp: connecting_to_def split: prod.splits)
  define t where "t = (case g_config w of Some c \<Rightarrow> if connect_timeout c > 0 then clock w + connect_timeout c else 0 | None \<Rightarrow> 0)"
  let ?cn = "cn\<lparr>cn_reply := SOCKS_REPLY_GENERAL_FAILURE\<rparr>"
  let ?s = "s\<lparr>so_orig := O_conn ?cn, so_connect_deadline := t\<rparr>"
  let ?w = "put_socks p ?s w"
  have o1: "own g p ?s OP_NOOP oi False ?w"
    by (rule own_put [OF o [unfolded ci]]) (use ownD(4) [OF o] nt in \<open>auto simp: sess_wf_def\<close>)
  have c1: "connecting_to ?s (talk_of ?s (kern ?w))"
    using connecting_to_orig [OF c cn(1), of ?cn] cn(2) by simp
  show ?thesis
  proof (cases "so_resolution s = []")
    case False
    have "connecting_init st key w = connecting_try_list p (so_resolution s) ?w"
      using cn False
      by (simp add: connecting_init_def own_attachment [OF o key] set_conn_reply_def connecting_try_addrinfo_def own_attachment [OF o1 key] Let_def
          flip: t_def)
    then show ?thesis using connecting_try_list_ok [OF o1 _ c1, of ?cn "so_resolution s"] none by simp
  next
    case True
    let ?a = "request_sockaddr (rp_request (rt_parser r))"
    have a: "addr_ok ?s ?a" using True r by (simp add: addr_ok_def)
    let ?K = "\<lambda>e w. do { w \<leftarrow> put_conn_reply p (errno_to_socks_reply e) w; connecting_failed p w }"
    have K: "returns (?K e (?w\<lparr>kern := k\<rparr>)) (connects g p (so_client_fd ?s) (so_current ?s))"
      if o2: "own g p ?s OP_NOOP oi False (?w\<lparr>kern := k\<rparr>)" and tk: "talk_of ?s k = talk_of ?s (kern ?w)" for e k
    proof -
      have c2: "connecting_to ?s (talk_of ?s (kern (?w\<lparr>kern := k\<rparr>)))" using c1 tk by simp
      from put_conn_reply_ok [OF o2 _ c2, of ?cn "errno_to_socks_reply e"] obtain s' where s':
        "s' = ?s\<lparr>so_orig := O_conn (?cn\<lparr>cn_reply := errno_to_socks_reply e\<rparr>)\<rparr>"
        "put_conn_reply p (errno_to_socks_reply e) (?w\<lparr>kern := k\<rparr>) = Some (put_socks p s' (?w\<lparr>kern := k\<rparr>))"
        "own g p s' OP_NOOP oi False (put_socks p s' (?w\<lparr>kern := k\<rparr>))"
        "connecting_to s' (talk_of s' (kern (put_socks p s' (?w\<lparr>kern := k\<rparr>))))" by auto
      show ?thesis
        using connecting_failed_ok [OF s'(3) _ s'(4), of "?cn\<lparr>cn_reply := errno_to_socks_reply e\<rparr>"] none errno_reply_nonzero s'(1,2) by simp
    qed
    have "connecting_init st key w = do {
      (err, w) \<leftarrow> connecting_try_one p ?a ?w;
      case err of
        None \<Rightarrow> do {
          w \<leftarrow> upd_socks p (\<lambda>s. s\<lparr>so_references := so_references s + 1\<rparr>) w;
          (ok, w) \<leftarrow> connecting_register_origin p w;
          if ok then Some w
          else do { w \<leftarrow> put_conn_reply p SOCKS_REPLY_GENERAL_FAILURE w; connecting_failed p w }
        }
      | Some e \<Rightarrow> ?K e w
    }" using cn True r by (simp add: connecting_init_def own_attachment [OF o key] set_conn_reply_def Let_def flip: t_def)
    then show ?thesis using link_ok [where K = ?K and cn = ?cn, OF o1 _ c1 _ _ a K] none by simp
  qed
qed

section \<open>The outcome of a connection\<close>

text \<open>Without an origin, the failure goes out as the reply.\<close>

lemma connecting_replies:
  assumes o: "own g p s ci oi False w" and none: "so_origin_fd s = -1" and c: "connecting_to s (talk_of s (kern w))"
    and rep: "reply \<noteq> SOCKS_REPLY_SUCCEEDED" and cur: "so_current s = Some CONNECTING"
  obtains r b where "put_reply p reply w = Some (True, put_socks p (s\<lparr>so_client := C_request r, so_write_buffer := b\<rparr>) w)"
    "own g p (s\<lparr>so_client := C_request r, so_write_buffer := b\<rparr>) ci oi False
       (put_socks p (s\<lparr>so_client := C_request r, so_write_buffer := b\<rparr>) w)"
    "\<And>oi'. after CONNECTING REQUEST_WRITE (s\<lparr>so_client := C_request r, so_write_buffer := b\<rparr>) OP_WRITE oi' (talk_of s (kern w))"
proof -
  obtain crx ctx orx otx peer where T: "talk_of s (kern w) = (crx, ctx, orx, otx, peer)" by (cases "talk_of s (kern w)" rule: prod_cases5)
  obtain r n d port req cn where a: "so_client s = C_request r" "crx = n @ req @ rb s" "wb s = []" "so_orig s = O_conn cn" "\<not> so_tunnel_opened s"
    using c unfolding T by (rule connecting_toE)
  obtain b where b: "put_reply p reply w = Some (True, put_socks p (s\<lparr>so_client := C_request (r\<lparr>rt_reply := reply\<rparr>), so_write_buffer := b\<rparr>) w)"
    "own g p (s\<lparr>so_client := C_request (r\<lparr>rt_reply := reply\<rparr>), so_write_buffer := b\<rparr>) ci oi False
       (put_socks p (s\<lparr>so_client := C_request (r\<lparr>rt_reply := reply\<rparr>), so_write_buffer := b\<rparr>) w)"
    "buffer_contents b = reply_msg reply" by (rule put_reply_ok [OF o a(1,5,3)])
  have "crx = (n @ req) @ rb s" using a(2) by simp
  then have "after CONNECTING REQUEST_WRITE (s\<lparr>so_client := C_request (r\<lparr>rt_reply := reply\<rparr>), so_write_buffer := b\<rparr>) OP_WRITE oi' (talk_of s (kern w))" for oi'
    unfolding T using a b(3) rep none cur by (simp add: after_def entering_def at_request_write_def)
  with b show thesis using that by blast
qed

text \<open>The connection is there: the success goes out as the reply, and the origin waits.\<close>

lemma connecting_succeeds:
  assumes o: "own g p s ci oi False w" and some: "so_origin_fd s \<noteq> -1" and c: "connecting_to s (talk_of s (kern w))"
    and cur: "so_current s = Some CONNECTING"
  obtains r b where "put_reply p SOCKS_REPLY_SUCCEEDED w = Some (True, put_socks p (s\<lparr>so_client := C_request r, so_write_buffer := b\<rparr>) w)"
    "own g p (s\<lparr>so_client := C_request r, so_write_buffer := b\<rparr>) ci oi False
       (put_socks p (s\<lparr>so_client := C_request r, so_write_buffer := b\<rparr>) w)"
    "after CONNECTING REQUEST_WRITE (s\<lparr>so_client := C_request r, so_write_buffer := b\<rparr>) OP_WRITE OP_NOOP (talk_of s (kern w))"
proof -
  obtain crx ctx orx otx peer where T: "talk_of s (kern w) = (crx, ctx, orx, otx, peer)" by (cases "talk_of s (kern w)" rule: prod_cases5)
  obtain r n d port req cn where a: "so_client s = C_request r" "requested s n ctx d port req" "crx = n @ req @ rb s" "wb s = []"
    "so_orig s = O_conn cn" "\<not> so_tunnel_opened s"
    "so_origin_fd s \<noteq> -1 \<longrightarrow> orx = [] \<and> otx = [] \<and> (\<exists>a \<in> may_reach d port (so_resolution s). peer = Some a)"
    using c unfolding T by (rule connecting_toE)
  let ?r = "r\<lparr>rt_reply := SOCKS_REPLY_SUCCEEDED\<rparr>"
  obtain b where b: "put_reply p SOCKS_REPLY_SUCCEEDED w = Some (True, put_socks p (s\<lparr>so_client := C_request ?r, so_write_buffer := b\<rparr>) w)"
    "own g p (s\<lparr>so_client := C_request ?r, so_write_buffer := b\<rparr>) ci oi False
       (put_socks p (s\<lparr>so_client := C_request ?r, so_write_buffer := b\<rparr>) w)"
    "buffer_contents b = reply_msg SOCKS_REPLY_SUCCEEDED" by (rule put_reply_ok [OF o a(1,6,4)])
  let ?s = "s\<lparr>so_client := C_request ?r, so_write_buffer := b\<rparr>"
  have "requested ?s n ctx d port req" using a(2) by (simp add: requested_def)
  then have "tunnel ?s (n @ req) ctx peer" unfolding tunnel_def using a(7) some by simp blast
  then have "at_request_write ?s OP_WRITE OP_NOOP (talk_of s (kern w))"
    unfolding T at_request_write_def prod.case
    by (intro exI [of _ ?r] exI [of _ "n @ req"] exI [of _ ctx] exI [of _ cn]) (use a b(3) some in simp)
  then have "after CONNECTING REQUEST_WRITE ?s OP_WRITE OP_NOOP (talk_of s (kern w))" using cur by (simp add: after_def entering_def)
  with b show thesis using that by blast
qed

lemma connects_next:
  assumes "returns m (connects g p c (Some CONNECTING))"
  shows "returns (do { w \<leftarrow> m; Some (CONNECTING, w) }) (next_state (pending g) (finished g) p c CONNECTING)"
  using assms
proof (rule returnsE)
  fix w assume m: "m = Some w" and "connects g p c (Some CONNECTING) w"
  then obtain s ci oi where s: "own g p s ci oi False w" "so_client_fd s = c" "so_current s = Some CONNECTING" "at_connecting s ci oi (talk_of s (kern w))"
    by (auto simp: connects_def)
  show ?thesis using m next_stateI [OF s(1,2), of CONNECTING CONNECTING] s(3,4) by (simp add: after_def reading_def)
qed

lemma connecting_write_ok:
  assumes H: "socks_host_ok H" and o: "own g p s ci oi False w" and key: "k_data key = Some (Socks_Ptr p)"
    and fd: "if so_origin_fd s = -1 then k_fd key = so_client_fd s else k_fd key = so_origin_fd s"
    and at: "at_connecting s ci oi (talk_of s (kern w))" and cur: "so_current s = Some CONNECTING"
  shows "returns (connecting_write H key w) (next_state (pending g) (finished g) p (so_client_fd s) CONNECTING)"
proof -
  obtain crx ctx orx otx peer where T: "talk_of s (kern w) = (crx, ctx, orx, otx, peer)" by (cases "talk_of s (kern w)" rule: prod_cases5)
  have c: "connecting_to s (talk_of s (kern w))" using at by (simp add: at_connecting_def)
  obtain cn where cn: "so_orig s = O_conn cn" "set (cn_current cn) \<subseteq> set (so_resolution s)"
    using c unfolding T by (rule connecting_toE)
  have rep: "cn_reply cn \<noteq> SOCKS_REPLY_SUCCEEDED" using at cn by (simp add: at_connecting_def)
  note c2o = own_fds(2) [OF o]
  show ?thesis
  proof (cases "so_origin_fd s = -1")
    case True
    then have k: "k_fd key = so_client_fd s" and ci: "ci = OP_WRITE" using fd at by (simp_all add: at_connecting_def)
    obtain f where f: "socks5_set_failure ''connect failed'' s = s\<lparr>so_failure := f\<rparr>"
      and o1: "own g p (s\<lparr>so_failure := f\<rparr>) ci oi False (put_socks p (s\<lparr>so_failure := f\<rparr>) w)" by (rule own_failure [OF o])
    let ?s = "s\<lparr>so_failure := f\<rparr>"
    let ?w = "count metrics_origin_fail (put_socks p ?s w)"
    have o2: "own g p ?s ci oi False ?w" by (rule own_count [OF o1])
    obtain r b where b: "put_reply p (cn_reply cn) ?w = Some (True, put_socks p (?s\<lparr>so_client := C_request r, so_write_buffer := b\<rparr>) ?w)"
      "own g p (?s\<lparr>so_client := C_request r, so_write_buffer := b\<rparr>) ci oi False (put_socks p (?s\<lparr>so_client := C_request r, so_write_buffer := b\<rparr>) ?w)"
      "\<And>oi'. after CONNECTING REQUEST_WRITE (?s\<lparr>so_client := C_request r, so_write_buffer := b\<rparr>) OP_WRITE oi' (talk_of ?s (kern ?w))"
      by (rule connecting_replies [OF o2 _ _ rep]) (use True c cur in simp_all)
    have "connecting_write H key w = Some (REQUEST_WRITE, put_socks p (?s\<lparr>so_client := C_request r, so_write_buffer := b\<rparr>) ?w)"
      using b(1) cn(1) f k by (simp add: connecting_write_def own_attachment [OF o key] Let_def)
    then show ?thesis using next_stateI [OF b(2), of "so_client_fd s" CONNECTING REQUEST_WRITE] b(3) ci by simp
  next
    case False
    then have k: "k_fd key = so_origin_fd s" and ci: "ci = OP_NOOP" using fd at by (simp_all add: at_connecting_def)
    obtain r kn where r: "k_so_error (so_origin_fd s) (kern w) = (r, kn)" by (cases "k_so_error (so_origin_fd s) (kern w)")
    note sil = silent_so_error [OF r]
    let ?w1 = "w\<lparr>kern := kn\<rparr>"
    have o1: "own g p s ci oi False ?w1" by (rule own_silent [OF o sil])
    have t1: "talk_of s kn = talk_of s (kern w)" by (rule talk_silent [OF sil])
    show ?thesis
    proof (cases "case r of Inl e \<Rightarrow> Some e | Inr v \<Rightarrow> v")
      case None
      let ?w2 = "count metrics_origin_ok ?w1"
      have o2: "own g p s ci oi False ?w2" by (rule own_count [OF o1])
      have c2: "connecting_to s (talk_of s (kern ?w2))" using c t1 by simp
      obtain r' b where b: "put_reply p SOCKS_REPLY_SUCCEEDED ?w2 = Some (True, put_socks p (s\<lparr>so_client := C_request r', so_write_buffer := b\<rparr>) ?w2)"
        "own g p (s\<lparr>so_client := C_request r', so_write_buffer := b\<rparr>) ci oi False (put_socks p (s\<lparr>so_client := C_request r', so_write_buffer := b\<rparr>) ?w2)"
        "after CONNECTING REQUEST_WRITE (s\<lparr>so_client := C_request r', so_write_buffer := b\<rparr>) OP_WRITE OP_NOOP (talk_of s (kern ?w2))"
        by (rule connecting_succeeds [OF o2 False c2 cur])
      let ?s3 = "s\<lparr>so_client := C_request r', so_write_buffer := b\<rparr>"
      let ?w3 = "put_socks p ?s3 ?w2"
      obtain sl where sl: "socks_interest (so_client_fd s) OP_WRITE ?w3 = Some (True, ?w3\<lparr>sel := sl\<rparr>)" "own g p ?s3 OP_WRITE oi False (?w3\<lparr>sel := sl\<rparr>)"
        using own_interest_client [OF b(2), of OP_WRITE] by auto
      obtain sl2 where sl2: "socks_interest_key key OP_NOOP (?w3\<lparr>sel := sl\<rparr>) = Some (True, ?w3\<lparr>sel := sl2\<rparr>)" "own g p ?s3 OP_WRITE OP_NOOP False (?w3\<lparr>sel := sl2\<rparr>)"
        using own_key_origin [OF sl(2), of key OP_NOOP] k False by auto
      have "connecting_write H key w = Some (REQUEST_WRITE, ?w3\<lparr>sel := sl2\<rparr>)"
        using b(1) r None sl(1) sl2(1) k c2o by (simp add: connecting_write_def own_attachment [OF o key] Let_def)
      then show ?thesis using next_stateI [OF sl2(2), of "so_client_fd s" CONNECTING REQUEST_WRITE] b(3) by simp
    next
      case (Some err)
      let ?cn = "cn\<lparr>cn_reply := errno_to_socks_reply err\<rparr>"
      have c1: "connecting_to s (talk_of s (kern ?w1))" using c t1 by simp
      from put_conn_reply_ok [OF o1 cn(1) c1, of "errno_to_socks_reply err"] obtain s2 where s2:
        "s2 = s\<lparr>so_orig := O_conn ?cn\<rparr>" "put_conn_reply p (errno_to_socks_reply err) ?w1 = Some (put_socks p s2 ?w1)"
        "own g p s2 ci oi False (put_socks p s2 ?w1)" "connecting_to s2 (talk_of s2 (kern (put_socks p s2 ?w1)))" by blast
      let ?w2 = "put_socks p s2 ?w1"
      have og: "so_origin_fd s2 \<noteq> -1" "so_origin_fd s2 = so_origin_fd s" using False s2(1) by simp_all
      let ?s3 = "s2\<lparr>so_references := so_references s2 - 1, so_origin_fd := -1\<rparr>"
      obtain sl where sl: "selector_unregister_fd H (so_origin_fd s2) ?w2 = Some (SELECTOR_SUCCESS, (put_socks p (s2\<lparr>so_references := so_references s2 - 1\<rparr>) ?w2)\<lparr>sel := sl\<rparr>)"
        "own g p ?s3 ci OP_NOOP False ((put_socks p ?s3 ?w2)\<lparr>sel := sl, kern := k_close (so_origin_fd s2) (kern ?w2)\<rparr>)"
        using drop_origin_ok [OF H s2(3) og(1)] by blast
      let ?w3 = "(put_socks p ?s3 ?w2)\<lparr>sel := sl, kern := k_close (so_origin_fd s2) (kern ?w2)\<rparr>"
      have t3: "talk_of ?s3 (kern ?w3) = (crx, ctx, k_rx kn (-1), k_tx kn (-1), k_peer kn (-1))"
        using t1 T s2(1) by (simp add: talk_of_def k_close_def)
      have c3: "connecting_to ?s3 (talk_of ?s3 (kern ?w3))"
        unfolding t3 by (rule connecting_to_unlink) (use s2(4) T t1 s2(1) in simp)
      have run: "connecting_write H key w = (if cn_current cn \<noteq> [] then do { w \<leftarrow> connecting_try_list p (cn_current cn) ?w3; Some (CONNECTING, w) }
          else do {
            w \<leftarrow> upd_socks p (socks5_set_failure ''connect failed'') ?w3;
            (room, w) \<leftarrow> put_reply p (errno_to_socks_reply err) (count metrics_origin_fail w);
            if \<not> room then Some (ERROR, w)
            else do { (ok, w) \<leftarrow> socks_interest (so_client_fd s) OP_WRITE w; Some (if \<not> ok then ERROR else REQUEST_WRITE, w) }
          })"
      proof -
        have e: "put_socks p ?s3 (((put_socks p (s2\<lparr>so_references := so_references s2 - 1\<rparr>) ?w2)\<lparr>sel := sl\<rparr>)\<lparr>kern := k_close (so_origin_fd s2) (kern ?w2)\<rparr>) = ?w3"
          by (simp add: put_socks_def)
        show ?thesis
          using r Some s2(2) sl(1) k c2o og(2) e s2(1) own_attachment [OF sl(2) key]
          by (simp add: connecting_write_def own_attachment [OF o key] Let_def connecting_try_addrinfo_def cong: if_cong)
      qed
      have cur3: "so_current ?s3 = Some CONNECTING" "so_client_fd ?s3 = so_client_fd s" using cur s2(1) by simp_all
      show ?thesis
      proof (cases "cn_current cn = []")
        case False
        have "returns (connecting_try_list p (cn_current cn) ?w3) (connects g p (so_client_fd ?s3) (so_current ?s3))"
          by (rule connecting_try_list_ok [OF sl(2) [unfolded ci] _ c3, of ?cn]) (use s2(1) cn errno_reply_nonzero in simp_all)
        then show ?thesis using connects_next False run unfolding cur3 by simp
      next
        case True
        obtain f where f: "upd_socks p (socks5_set_failure ''connect failed'') ?w3 = Some (put_socks p (?s3\<lparr>so_failure := f\<rparr>) ?w3)"
          and o4: "own g p (?s3\<lparr>so_failure := f\<rparr>) ci OP_NOOP False (put_socks p (?s3\<lparr>so_failure := f\<rparr>) ?w3)" by (rule own_failure [OF sl(2)])
        let ?s4 = "?s3\<lparr>so_failure := f\<rparr>"
        let ?w4 = "count metrics_origin_fail (put_socks p ?s4 ?w3)"
        have o5: "own g p ?s4 ci OP_NOOP False ?w4" by (rule own_count [OF o4])
        have c5: "connecting_to ?s4 (talk_of ?s4 (kern ?w4))" using c3 by simp
        have cur4: "so_current ?s4 = Some CONNECTING" and none4: "so_origin_fd ?s4 = -1" using cur3 by simp_all
        obtain r' b where b: "put_reply p (errno_to_socks_reply err) ?w4 = Some (True, put_socks p (?s4\<lparr>so_client := C_request r', so_write_buffer := b\<rparr>) ?w4)"
          "own g p (?s4\<lparr>so_client := C_request r', so_write_buffer := b\<rparr>) ci OP_NOOP False (put_socks p (?s4\<lparr>so_client := C_request r', so_write_buffer := b\<rparr>) ?w4)"
          "\<And>oi'. after CONNECTING REQUEST_WRITE (?s4\<lparr>so_client := C_request r', so_write_buffer := b\<rparr>) OP_WRITE oi' (talk_of ?s4 (kern ?w4))"
          by (rule connecting_replies [OF o5 none4 c5 errno_reply_nonzero [of err] cur4]) (rule that)
        let ?s5 = "?s4\<lparr>so_client := C_request r', so_write_buffer := b\<rparr>"
        let ?w5 = "put_socks p ?s5 ?w4"
        obtain sl2 where sl2: "socks_interest (so_client_fd s) OP_WRITE ?w5 = Some (True, ?w5\<lparr>sel := sl2\<rparr>)" "own g p ?s5 OP_WRITE OP_NOOP False (?w5\<lparr>sel := sl2\<rparr>)"
          using own_interest_client [OF b(2), of OP_WRITE] s2(1) by auto
        have "connecting_write H key w = Some (REQUEST_WRITE, ?w5\<lparr>sel := sl2\<rparr>)" using run True f b(1) sl2(1) by simp
        then show ?thesis using next_stateI [OF sl2(2), of "so_client_fd s" CONNECTING REQUEST_WRITE] b(3) s2(1) by simp
      qed
    qed
  qed
qed

text \<open>A connection that takes too long is given up; its client gets the reply at the next event.\<close>

lemma connecting_timeout_ok:
  assumes H: "socks_host_ok H" and o: "own g p s ci oi False w" and at: "at_connecting s ci oi (talk_of s (kern w))"
  shows "returns (connecting_timeout H p w) (connects g p (so_client_fd s) (so_current s))"
proof -
  obtain crx ctx orx otx peer where T: "talk_of s (kern w) = (crx, ctx, orx, otx, peer)" by (cases "talk_of s (kern w)" rule: prod_cases5)
  have c: "connecting_to s (talk_of s (kern w))" using at by (simp add: at_connecting_def)
  obtain cn where cn: "so_orig s = O_conn cn" "set (cn_current cn) \<subseteq> set (so_resolution s)"
    using c unfolding T by (rule connecting_toE)
  define rest where "rest = (\<lambda>w. do {
     s \<leftarrow> socks_heap w p;
     conn \<leftarrow> orig_conn s;
     let w = put_socks p (s\<lparr>so_orig := O_conn (conn\<lparr>cn_current := [], cn_reply := SOCKS_REPLY_TTL_EXPIRED\<rparr>)\<rparr>) w;
     (_, w) \<leftarrow> socks_interest (so_client_fd s) OP_WRITE w;
     Some w
   })"
  have fin: "returns (rest w') (connects g p (so_client_fd s) (so_current s))"
    if o': "own g p s' ci' oi' False w'" and s': "so_origin_fd s' = -1" "connecting_to s' (talk_of s' (kern w'))" "so_orig s' = O_conn cn"
      "so_client_fd s' = so_client_fd s" "so_current s' = so_current s" for s' ci' oi' w'
  proof -
    let ?cn = "cn\<lparr>cn_current := [], cn_reply := SOCKS_REPLY_TTL_EXPIRED\<rparr>"
    let ?s = "s'\<lparr>so_orig := O_conn ?cn\<rparr>"
    let ?w = "put_socks p ?s w'"
    have c1: "connecting_to ?s (talk_of ?s (kern ?w))" using connecting_to_orig [OF s'(2,3), of ?cn] by simp
    have nt: "\<not> so_tunnel_opened s'" using s'(2) by (auto simp: connecting_to_def split: prod.splits)
    have o1: "own g p ?s ci' oi' False ?w" by (rule own_put [OF o']) (use ownD(4) [OF o'] nt in \<open>auto simp: sess_wf_def\<close>)
    obtain sl where sl: "socks_interest (so_client_fd s') OP_WRITE ?w = Some (True, ?w\<lparr>sel := sl\<rparr>)" "own g p ?s OP_WRITE oi' False (?w\<lparr>sel := sl\<rparr>)"
      using own_interest_client [OF o1, of OP_WRITE] by auto
    have "at_connecting ?s OP_WRITE oi' (talk_of ?s (kern (?w\<lparr>sel := sl\<rparr>)))" using c1 s'(1) by (simp add: at_connecting_def)
    then have "connects g p (so_client_fd s) (so_current s) (?w\<lparr>sel := sl\<rparr>)"
      unfolding connects_def using sl(2) s'(4,5) by (intro exI [of _ ?s] exI [of _ OP_WRITE] exI [of _ oi']) simp
    then show ?thesis using sl(1) s'(3) by (simp add: rest_def ownD(3) [OF o'] Let_def)
  qed
  show ?thesis
  proof (cases "so_origin_fd s = -1")
    case True
    have "connecting_timeout H p w = rest w" using True by (simp add: connecting_timeout_def rest_def ownD(3) [OF o])
    then show ?thesis using fin [OF o True c cn(1)] by simp
  next
    case False
    let ?s = "s\<lparr>so_references := so_references s - 1, so_origin_fd := -1\<rparr>"
    obtain sl where sl: "selector_unregister_fd H (so_origin_fd s) w = Some (SELECTOR_SUCCESS, (put_socks p (s\<lparr>so_references := so_references s - 1\<rparr>) w)\<lparr>sel := sl\<rparr>)"
      "own g p ?s ci OP_NOOP False ((put_socks p ?s w)\<lparr>sel := sl, kern := k_close (so_origin_fd s) (kern w)\<rparr>)"
      using drop_origin_ok [OF H o False] by blast
    let ?w = "(put_socks p ?s w)\<lparr>sel := sl, kern := k_close (so_origin_fd s) (kern w)\<rparr>"
    have t: "talk_of ?s (kern ?w) = (crx, ctx, k_rx (kern w) (-1), k_tx (kern w) (-1), k_peer (kern w) (-1))"
      using T by (simp add: talk_of_def k_close_def)
    have c1: "connecting_to ?s (talk_of ?s (kern ?w))" unfolding t by (rule connecting_to_unlink) (use c T in simp)
    have "put_socks p ?s ((put_socks p (s\<lparr>so_references := so_references s - 1\<rparr>) w)\<lparr>sel := sl, kern := k_close (so_origin_fd s) (kern w)\<rparr>) = ?w"
      by (simp add: put_socks_def)
    then have "connecting_timeout H p w = rest ?w"
      using False sl(1) by (simp add: connecting_timeout_def rest_def ownD(3) [OF o])
    then show ?thesis using fin [OF sl(2) _ c1] cn(1) by simp
  qed
qed

end
