(* ===== verification/Socks5_Relay.thy ===== *)
theory Socks5_Relay
  imports Socks5_Connect
begin

text \<open>
  The relay between the two sockets of a tunnel keeps the invariant: nothing is lost, repeated or reordered,
  a side is shut once its source has ended and everything has been passed on, and every descriptor waits for
  exactly the events that can make progress.
\<close>

section \<open>The assertion\<close>

lemma copyingE:
  assumes "copying s c oc (crx, ctx, orx, otx, peer)"
  obtains n m where "so_client s = C_copy c" "so_orig s = O_copy oc"
    "cp_rb c = Read_Buffer" "cp_read_fd c = so_client_fd s" "cp_write_fd c = so_origin_fd s"
    "cp_rb oc = Write_Buffer" "cp_read_fd oc = so_origin_fd s" "cp_write_fd oc = so_client_fd s"
    "tunnel s n m peer" "crx = n @ otx @ rb s" "ctx @ wb s = m @ reply_msg SOCKS_REPLY_SUCCEEDED @ orx"
    "cp_transferred c = of_nat (length otx)"
    "of_nat (length m) + of_nat (length (reply_msg 0)) + cp_transferred oc = (of_nat (length ctx) :: u64)"
  using assms unfolding copying_def prod.case by blast

lemma copyingI:
  assumes "so_client s = C_copy c" "so_orig s = O_copy oc"
    "cp_rb c = Read_Buffer" "cp_read_fd c = so_client_fd s" "cp_write_fd c = so_origin_fd s"
    "cp_rb oc = Write_Buffer" "cp_read_fd oc = so_origin_fd s" "cp_write_fd oc = so_client_fd s"
    "tunnel s n m peer" "crx = n @ otx @ rb s" "ctx @ wb s = m @ reply_msg SOCKS_REPLY_SUCCEEDED @ orx"
    "cp_transferred c = of_nat (length otx)"
    "of_nat (length m) + of_nat (length (reply_msg 0)) + cp_transferred oc = (of_nat (length ctx) :: u64)"
  shows "copying s c oc (crx, ctx, orx, otx, peer)"
  unfolding copying_def prod.case using assms by blast

lemma copyingD:
  assumes "copying s c oc T"
  shows "client_copy s = Some c" "orig_copy s = Some oc" "so_origin_fd s \<noteq> -1" "cp_rb c = Read_Buffer" "cp_rb oc = Write_Buffer"
    "cp_read_fd c = so_client_fd s" "cp_write_fd c = so_origin_fd s" "cp_read_fd oc = so_origin_fd s" "cp_write_fd oc = so_client_fd s"
    "so_client s = C_copy c" "so_orig s = O_copy oc"
  using assms by (auto simp: copying_def tunnel_def split: prod.splits)

lemma tunnel_upd [simp]:
  "tunnel (s\<lparr>so_read_buffer := b\<rparr>) n m peer = tunnel s n m peer" "tunnel (s\<lparr>so_write_buffer := b\<rparr>) n m peer = tunnel s n m peer"
  "tunnel (s\<lparr>so_client := cl\<rparr>) n m peer = tunnel s n m peer" "tunnel (s\<lparr>so_orig := og\<rparr>) n m peer = tunnel s n m peer"
  "tunnel (s\<lparr>so_tunnel_opened := t\<rparr>) n m peer = tunnel s n m peer" "tunnel (s\<lparr>so_last_activity := la\<rparr>) n m peer = tunnel s n m peer"
  by (simp_all add: tunnel_def requested_def)

text \<open>The end of a source, and the shutting of a sink.\<close>

lemma copying_eof:
  assumes "copying s c oc T"
  shows "copying (s\<lparr>so_client := C_copy (c\<lparr>cp_eof := e, cp_write_closed := cl\<rparr>)\<rparr>) (c\<lparr>cp_eof := e, cp_write_closed := cl\<rparr>) oc T"
    and "copying (s\<lparr>so_orig := O_copy (oc\<lparr>cp_eof := e, cp_write_closed := cl\<rparr>)\<rparr>) c (oc\<lparr>cp_eof := e, cp_write_closed := cl\<rparr>) T"
proof -
  obtain crx ctx orx otx peer where T: "T = (crx, ctx, orx, otx, peer)" by (cases T rule: prod_cases5)
  from assms [unfolded T] show "copying (s\<lparr>so_client := C_copy (c\<lparr>cp_eof := e, cp_write_closed := cl\<rparr>)\<rparr>) (c\<lparr>cp_eof := e, cp_write_closed := cl\<rparr>) oc T"
    "copying (s\<lparr>so_orig := O_copy (oc\<lparr>cp_eof := e, cp_write_closed := cl\<rparr>)\<rparr>) c (oc\<lparr>cp_eof := e, cp_write_closed := cl\<rparr>) T"
    unfolding T by (auto elim!: copyingE intro!: copyingI)
qed

text \<open>Bytes that come in, and bytes that go out.\<close>

lemma copying_heard:
  assumes "copying s c oc T"
  shows "buffer_contents b = rb s @ bs \<Longrightarrow> copying (s\<lparr>so_read_buffer := b\<rparr>) c oc (heard_client bs T)"
    and "buffer_contents b = wb s @ bs \<Longrightarrow> copying (s\<lparr>so_write_buffer := b\<rparr>) c oc (heard_origin bs T)"
proof -
  obtain crx ctx orx otx peer where T: "T = (crx, ctx, orx, otx, peer)" by (cases T rule: prod_cases5)
  obtain n m where a: "so_client s = C_copy c" "so_orig s = O_copy oc"
    "cp_rb c = Read_Buffer" "cp_read_fd c = so_client_fd s" "cp_write_fd c = so_origin_fd s"
    "cp_rb oc = Write_Buffer" "cp_read_fd oc = so_origin_fd s" "cp_write_fd oc = so_client_fd s"
    "tunnel s n m peer" "crx = n @ otx @ rb s" "ctx @ wb s = m @ reply_msg SOCKS_REPLY_SUCCEEDED @ orx"
    "cp_transferred c = of_nat (length otx)"
    "of_nat (length m) + of_nat (length (reply_msg 0)) + cp_transferred oc = (of_nat (length ctx) :: u64)"
    using assms unfolding T by (rule copyingE)
  show "copying (s\<lparr>so_read_buffer := b\<rparr>) c oc (heard_client bs T)" if "buffer_contents b = rb s @ bs"
    unfolding T heard_client.simps by (rule copyingI [of _ c oc n m]) (use a that in simp_all)
  have "ctx @ wb s @ bs = m @ reply_msg SOCKS_REPLY_SUCCEEDED @ orx @ bs" using arg_cong [OF a(11), of "\<lambda>xs. xs @ bs"] by simp
  then show "copying (s\<lparr>so_write_buffer := b\<rparr>) c oc (heard_origin bs T)" if "buffer_contents b = wb s @ bs"
    unfolding T heard_origin.simps by (intro copyingI [of _ c oc n m]) (use a that in simp_all)
qed

lemma copying_told:
  assumes "copying s c oc T"
  shows "out @ buffer_contents b = rb s \<Longrightarrow> c' = c\<lparr>cp_transferred := cp_transferred c + of_nat (length out)\<rparr> \<Longrightarrow>
      copying (s\<lparr>so_read_buffer := b, so_client := C_copy c'\<rparr>) c' oc (told_origin out T)"
    and "out @ buffer_contents b = wb s \<Longrightarrow> oc' = oc\<lparr>cp_transferred := cp_transferred oc + of_nat (length out)\<rparr> \<Longrightarrow>
      copying (s\<lparr>so_write_buffer := b, so_orig := O_copy oc'\<rparr>) c oc' (told_client out T)"
proof -
  obtain crx ctx orx otx peer where T: "T = (crx, ctx, orx, otx, peer)" by (cases T rule: prod_cases5)
  obtain n m where a: "so_client s = C_copy c" "so_orig s = O_copy oc"
    "cp_rb c = Read_Buffer" "cp_read_fd c = so_client_fd s" "cp_write_fd c = so_origin_fd s"
    "cp_rb oc = Write_Buffer" "cp_read_fd oc = so_origin_fd s" "cp_write_fd oc = so_client_fd s"
    "tunnel s n m peer" "crx = n @ otx @ rb s" "ctx @ wb s = m @ reply_msg SOCKS_REPLY_SUCCEEDED @ orx"
    "cp_transferred c = of_nat (length otx)"
    "of_nat (length m) + of_nat (length (reply_msg 0)) + cp_transferred oc = (of_nat (length ctx) :: u64)"
    using assms unfolding T by (rule copyingE)
  show "copying (s\<lparr>so_read_buffer := b, so_client := C_copy c'\<rparr>) c' oc (told_origin out T)"
    if "out @ buffer_contents b = rb s" "c' = c\<lparr>cp_transferred := cp_transferred c + of_nat (length out)\<rparr>"
    unfolding T told_origin.simps by (rule copyingI [of _ c' oc n m]) (use a that(2) in \<open>simp_all flip: that(1)\<close>)
  have "of_nat (length m) + of_nat (length (reply_msg 0)) + (cp_transferred oc + of_nat (length out)) = (of_nat (length (ctx @ out)) :: u64)"
    using a(13) by (simp add: algebra_simps)
  then show "copying (s\<lparr>so_write_buffer := b, so_orig := O_copy oc'\<rparr>) c oc' (told_client out T)"
    if "out @ buffer_contents b = wb s" "oc' = oc\<lparr>cp_transferred := cp_transferred oc + of_nat (length out)\<rparr>"
    unfolding T told_client.simps by (intro copyingI [of _ c oc' n m]) (use a that(2) in \<open>simp_all flip: that(1)\<close>)
qed

text \<open>One of the two changes alone.\<close>

lemma copying_flags:
  assumes "copying s c oc T"
  shows "copying (s\<lparr>so_client := C_copy (c\<lparr>cp_eof := e\<rparr>)\<rparr>) (c\<lparr>cp_eof := e\<rparr>) oc T"
    "copying (s\<lparr>so_orig := O_copy (oc\<lparr>cp_eof := e\<rparr>)\<rparr>) c (oc\<lparr>cp_eof := e\<rparr>) T"
    "copying (s\<lparr>so_client := C_copy (c\<lparr>cp_write_closed := e\<rparr>)\<rparr>) (c\<lparr>cp_write_closed := e\<rparr>) oc T"
    "copying (s\<lparr>so_orig := O_copy (oc\<lparr>cp_write_closed := e\<rparr>)\<rparr>) c (oc\<lparr>cp_write_closed := e\<rparr>) T"
proof -
  have r: "x\<lparr>cp_eof := e, cp_write_closed := cp_write_closed x\<rparr> = x\<lparr>cp_eof := e\<rparr>"
    "x\<lparr>cp_eof := cp_eof x, cp_write_closed := e\<rparr> = x\<lparr>cp_write_closed := e\<rparr>" for x :: copy by simp_all
  show "copying (s\<lparr>so_client := C_copy (c\<lparr>cp_eof := e\<rparr>)\<rparr>) (c\<lparr>cp_eof := e\<rparr>) oc T"
    by (rule copying_eof(1) [OF assms, where e = e and cl = "cp_write_closed c", unfolded r])
  show "copying (s\<lparr>so_orig := O_copy (oc\<lparr>cp_eof := e\<rparr>)\<rparr>) c (oc\<lparr>cp_eof := e\<rparr>) T"
    by (rule copying_eof(2) [OF assms, where e = e and cl = "cp_write_closed oc", unfolded r])
  show "copying (s\<lparr>so_client := C_copy (c\<lparr>cp_write_closed := e\<rparr>)\<rparr>) (c\<lparr>cp_write_closed := e\<rparr>) oc T"
    by (rule copying_eof(1) [OF assms, where e = "cp_eof c" and cl = e, unfolded r])
  show "copying (s\<lparr>so_orig := O_copy (oc\<lparr>cp_write_closed := e\<rparr>)\<rparr>) c (oc\<lparr>cp_write_closed := e\<rparr>) T"
    by (rule copying_eof(2) [OF assms, where e = "cp_eof oc" and cl = e, unfolded r])
qed

section \<open>Interests\<close>

lemma copy_update_interests_ok:
  assumes o: "own g p s ci oi d w" and c: "copying s c oc T"
  shows "\<exists>sl ci' oi'. copy_client_interest s = Some ci' \<and> copy_origin_interest s = Some oi'
    \<and> copy_update_interests p w = Some (True, w\<lparr>sel := sl\<rparr>) \<and> own g p s ci' oi' d (w\<lparr>sel := sl\<rparr>)"
proof -
  obtain ci' oi' where i: "copy_client_interest s = Some ci'" "copy_origin_interest s = Some oi'"
    using copyingD(1,2) [OF c] by (simp add: copy_client_interest_def copy_origin_interest_def)
  obtain sl where sl: "socks_interest (so_client_fd s) ci' w = Some (True, w\<lparr>sel := sl\<rparr>)" "own g p s ci' oi d (w\<lparr>sel := sl\<rparr>)"
    using own_interest_client [OF o, of ci'] by auto
  obtain sl2 where sl2: "socks_interest (so_origin_fd s) oi' (w\<lparr>sel := sl\<rparr>) = Some (True, w\<lparr>sel := sl2\<rparr>)" "own g p s ci' oi' d (w\<lparr>sel := sl2\<rparr>)"
    using own_interest_origin [OF sl(2) copyingD(3) [OF c], of oi'] by auto
  have "copy_update_interests p w = Some (True, w\<lparr>sel := sl2\<rparr>)"
    using sl(1) sl2(1) by (simp add: copy_update_interests_def ownD(3) [OF o] i)
  then show ?thesis using i sl2(2) by blast
qed

lemma copy_go_on_ok:
  assumes o: "own g p s ci oi False w" and c: "copying s c oc (talk_of s (kern w))" and f: "flow_ok c (so_read_buffer s)" "flow_ok oc (so_write_buffer s)"
    and nd: "\<not> (cp_write_closed c \<and> cp_write_closed oc)" and cur: "so_current s = Some COPY"
  shows "returns (copy_go_on p w) (next_state (pending g) (finished g) p (so_client_fd s) COPY)"
proof -
  obtain sl ci' oi' where i: "copy_client_interest s = Some ci'" "copy_origin_interest s = Some oi'"
    "copy_update_interests p w = Some (True, w\<lparr>sel := sl\<rparr>)" "own g p s ci' oi' False (w\<lparr>sel := sl\<rparr>)"
    using copy_update_interests_ok [OF o c] by blast
  have "at_copy s ci' oi' (talk_of s (kern (w\<lparr>sel := sl\<rparr>)))" using c f nd i(1,2) by (auto simp: at_copy_def)
  then have "after COPY COPY s ci' oi' (talk_of s (kern (w\<lparr>sel := sl\<rparr>)))" using cur by (simp add: after_def reading_def)
  from next_stateI [OF i(4) _ this] show ?thesis using i(3) by (simp add: copy_go_on_def)
qed

lemma copy_init_ok:
  assumes o: "own g p s ci oi False w" and key: "k_data key = Some (Socks_Ptr p)" and at: "enter_copy s (talk_of s (kern w))"
  shows "returns (copy_init st key w) (\<lambda>w'. \<exists>s' ci' oi'. own g p s' ci' oi' False w' \<and> so_client_fd s' = so_client_fd s
    \<and> so_current s' = so_current s \<and> at_copy s' ci' oi' (talk_of s' (kern w')))"
proof -
  obtain crx ctx orx otx peer where T: "talk_of s (kern w) = (crx, ctx, orx, otx, peer)" by (cases "talk_of s (kern w)" rule: prod_cases5)
  obtain n m where a: "crx = n @ rb s" "ctx = m @ reply_msg SOCKS_REPLY_SUCCEEDED" "wb s = []" "\<not> so_tunnel_opened s" "tunnel s n m peer" "orx = []" "otx = []"
    using at T by (auto simp: enter_copy_def)
  let ?c = "\<lparr>cp_read_fd = so_client_fd s, cp_write_fd = so_origin_fd s, cp_rb = Read_Buffer, cp_eof = False, cp_write_closed = False, cp_transferred = 0\<rparr>"
  let ?oc = "\<lparr>cp_read_fd = so_origin_fd s, cp_write_fd = so_client_fd s, cp_rb = Write_Buffer, cp_eof = False, cp_write_closed = False, cp_transferred = 0\<rparr>"
  let ?s = "s\<lparr>so_client := C_copy ?c, so_orig := O_copy ?oc\<rparr>"
  let ?w = "put_socks p ?s w"
  have o1: "own g p ?s ci oi False ?w" by (rule own_put [OF o]) (use ownD(4) [OF o] in \<open>simp_all add: sess_wf_def\<close>)
  have c1: "copying ?s ?c ?oc (talk_of ?s (kern ?w))"
    using T unfolding talk_of_upd put_socks_simps by simp (rule copyingI [of _ _ _ n m], use a in simp_all)
  have "\<exists>t w2. socks5_log_open p ?w = Some w2 \<and> own g p (?s\<lparr>so_tunnel_opened := t\<rparr>) ci oi False w2 \<and> kern w2 = kern w"
  proof (cases "\<exists>log. g_access_log w = Some log \<and> so_destination_set s")
    case True
    then obtain log where log: "g_access_log w = Some log" "so_destination_set s" by blast
    let ?l = "access_log_open (text_of_time w (clock w)) (socks5_log_user ?s) (so_destination s) (so_port s) log"
    have "own g p (?s\<lparr>so_tunnel_opened := True\<rparr>) ci oi False (put_socks p (?s\<lparr>so_tunnel_opened := True\<rparr>) (?w\<lparr>g_access_log := Some ?l\<rparr>))"
      by (rule own_put [OF own_log [OF o1]]) (use ownD(4) [OF o] in \<open>simp_all add: sess_wf_def\<close>)
    then show ?thesis using log a(4) by (intro exI [of _ True]) (simp add: socks5_log_open_def ownD(3) [OF o1])
  next
    case False
    then have "socks5_log_open p ?w = Some ?w"
      by (auto simp: socks5_log_open_def ownD(3) [OF o1] split: option.split)
    moreover have "?s\<lparr>so_tunnel_opened := so_tunnel_opened s\<rparr> = ?s" by simp
    ultimately show ?thesis using o1 by (intro exI [of _ "so_tunnel_opened s"] exI [of _ ?w]) simp
  qed
  then obtain t w2 where w2: "socks5_log_open p ?w = Some w2" "own g p (?s\<lparr>so_tunnel_opened := t\<rparr>) ci oi False w2" "kern w2 = kern w" by blast
  let ?s2 = "?s\<lparr>so_tunnel_opened := t\<rparr>"
  have c2: "copying ?s2 ?c ?oc (talk_of ?s2 (kern w2))"
    using c1 w2(3) by (simp add: copying_def)
  obtain sl ci' oi' where i: "copy_client_interest ?s2 = Some ci'" "copy_origin_interest ?s2 = Some oi'"
    "copy_update_interests p w2 = Some (True, w2\<lparr>sel := sl\<rparr>)" "own g p ?s2 ci' oi' False (w2\<lparr>sel := sl\<rparr>)"
    using copy_update_interests_ok [OF w2(2) c2] by blast
  have "at_copy ?s2 ci' oi' (talk_of ?s2 (kern (w2\<lparr>sel := sl\<rparr>)))"
    unfolding at_copy_def using c2 i(1,2) by (intro exI [of _ ?c] exI [of _ ?oc]) (simp add: flow_ok_def)
  moreover have "copy_init st key w = Some (w2\<lparr>sel := sl\<rparr>)"
    using w2(1) i(3) by (simp add: copy_init_def own_attachment [OF o key] Let_def)
  ultimately show ?thesis using i(4) by (simp only: returns_Some) (intro exI [of _ ?s2] exI [of _ ci'] exI [of _ oi'], simp)
qed

section \<open>The end of a transfer\<close>

text \<open>Before the shutdown is considered, a side may be over without having been shut.\<close>

definition flow_half :: "copy \<Rightarrow> buffer \<Rightarrow> bool" where
  "flow_half c b \<longleftrightarrow> (cp_write_closed c \<longrightarrow> cp_eof c \<and> buffer_contents b = [])"

lemma flow_okD: "flow_ok c b \<Longrightarrow> flow_half c b"
  by (simp add: flow_ok_def flow_half_def)

text \<open>The two sides, each with its buffer.\<close>

fun side_of :: "copy_side \<Rightarrow> copy \<Rightarrow> copy \<Rightarrow> copy" where
  "side_of Client_Copy c oc = c"
| "side_of Orig_Copy c oc = oc"

fun side_buffer :: "copy_side \<Rightarrow> socks5 \<Rightarrow> buffer" where
  "side_buffer Client_Copy s = so_read_buffer s"
| "side_buffer Orig_Copy s = so_write_buffer s"

fun other_side :: "copy_side \<Rightarrow> copy_side" where
  "other_side Client_Copy = Orig_Copy"
| "other_side Orig_Copy = Client_Copy"

lemma sess_wf_put_copy: "sess_wf s \<Longrightarrow> sess_wf (put_copy side c s)"
  by (cases side) (auto simp: sess_wf_def)

lemma same_spine_put_copy [simp]: "same_spine s (put_copy side c s)"
  by (cases side) simp_all

lemma own_put_copy: "own g p s ci oi d w \<Longrightarrow> own g p (put_copy side c s) ci oi d (put_socks p (put_copy side c s) w)"
  by (rule own_put) (auto dest: ownD(4) intro: sess_wf_put_copy)

lemma copy_step_end_ok:
  assumes o: "own g p s ci oi False w" and c: "copying s c oc (talk_of s (kern w))"
    and half: "flow_half (side_of side c oc) (side_buffer side s)"
    and other: "flow_ok (side_of (other_side side) c oc) (side_buffer (other_side side) s)" and cur: "so_current s = Some COPY"
  shows "returns (copy_step_end side p w) (next_state (pending g) (finished g) p (so_client_fd s) COPY)"
proof -
  let ?c = "side_of side c oc"
  let ?b = "side_buffer side s"
  note cd = copyingD [OF c]
  have get: "get_copy side s = Some ?c" "get_buffer (cp_rb ?c) s = ?b" using cd by (cases side; simp)+
  have wf: "buffer_wf ?b" using ownD(4) [OF o] by (cases side) (simp_all add: sess_wf_def)
  define fin where "fin = (\<lambda>s w. do { f \<leftarrow> copy_is_done s; if f then Some (DONE, w) else copy_go_on p w })"
  have fin: "returns (fin s' w') (next_state (pending g) (finished g) p (so_client_fd s) COPY)"
    if o': "own g p s' ci oi False w'" "so_client_fd s' = so_client_fd s" "so_current s' = Some COPY"
      and c': "copying s' c' oc' (talk_of s' (kern w'))" "flow_ok c' (so_read_buffer s')" "flow_ok oc' (so_write_buffer s')" for s' w' c' oc'
  proof -
    have "copy_is_done s' = Some (cp_write_closed c' \<and> cp_write_closed oc')" using copyingD(1,2) [OF c'(1)] by (simp add: copy_is_done_def)
    then show ?thesis using next_done [OF o'(1,2,3)] copy_go_on_ok [OF o'(1) c' _ o'(3)] o'(2) by (simp add: fin_def)
  qed
  have run: "copy_step_end side p w = (if cp_eof ?c \<and> buffer_contents ?b = [] \<and> \<not> cp_write_closed ?c then
      (case k_shutdown (cp_write_fd ?c) (kern w) of (r, k) \<Rightarrow>
        if r \<noteq> None \<and> r \<noteq> Some ENOTCONN \<and> r \<noteq> Some EPIPE then Some (ERROR, put_socks p s (w\<lparr>kern := k\<rparr>))
        else fin (put_copy side (?c\<lparr>cp_write_closed := True\<rparr>) s) (put_socks p (put_copy side (?c\<lparr>cp_write_closed := True\<rparr>) s) (w\<lparr>kern := k\<rparr>)))
    else fin s (put_socks p s w))"
    by (simp add: copy_step_end_def copy_shutdown_write_def ownD(3) [OF o] get buffer_can_read_iff [OF wf] fin_def Let_def split: prod.split option.split cong: if_cong)
  show ?thesis
  proof (cases "cp_eof ?c \<and> buffer_contents ?b = [] \<and> \<not> cp_write_closed ?c")
    case False
    have f: "flow_ok c (so_read_buffer s)" "flow_ok oc (so_write_buffer s)"
      using False half other by (cases side; auto simp: flow_half_def flow_ok_def)+
    have same: "put_socks p s w = w" using ownD(3) [OF o] by (simp add: put_socks_def fun_upd_idem)
    have "copy_step_end side p w = fin s w" using False by (simp only: run same if_False)
    then show ?thesis using fin [OF o refl cur c f] by simp
  next
    case True
    obtain r k where r: "k_shutdown (cp_write_fd ?c) (kern w) = (r, k)" by (cases "k_shutdown (cp_write_fd ?c) (kern w)")
    note sil = silent_shutdown [OF r]
    have o1: "own g p s ci oi False (w\<lparr>kern := k\<rparr>)" by (rule own_silent [OF o sil])
    have same: "put_socks p s (w\<lparr>kern := k\<rparr>) = w\<lparr>kern := k\<rparr>" using ownD(3) [OF o] by (simp add: put_socks_def fun_upd_idem)
    show ?thesis
    proof (cases "r \<noteq> None \<and> r \<noteq> Some ENOTCONN \<and> r \<noteq> Some EPIPE")
      case bad: True
      then show ?thesis using run True r same next_error [OF o1 refl cur] by simp
    next
      case good: False
      let ?s = "put_copy side (?c\<lparr>cp_write_closed := True\<rparr>) s"
      let ?w = "put_socks p ?s (w\<lparr>kern := k\<rparr>)"
      let ?c1 = "case side of Client_Copy \<Rightarrow> c\<lparr>cp_write_closed := True\<rparr> | Orig_Copy \<Rightarrow> c"
      let ?oc1 = "case side of Client_Copy \<Rightarrow> oc | Orig_Copy \<Rightarrow> oc\<lparr>cp_write_closed := True\<rparr>"
      have o2: "own g p ?s ci oi False ?w" by (rule own_put_copy [OF o1])
      have "copying ?s ?c1 ?oc1 (talk_of s (kern w))"
        using copying_flags(3,4) [OF c, of True] by (cases side) simp_all
      then have c2: "copying ?s ?c1 ?oc1 (talk_of ?s (kern ?w))" using talk_silent [OF sil, of s] by (cases side) simp_all
      have f: "flow_ok ?c1 (so_read_buffer ?s)" "flow_ok ?oc1 (so_write_buffer ?s)"
        using True other by (cases side; simp add: flow_ok_def)+
      have i: "so_client_fd ?s = so_client_fd s" "so_current ?s = Some COPY" using cur by (cases side; simp)+
      have "copy_step_end side p w = fin ?s ?w" using run True r good by auto
      then show ?thesis using fin [OF o2 i c2 f] by simp
    qed
  qed
qed

section \<open>The two events\<close>

text \<open>What the interest of a descriptor says of the two sides.\<close>

lemma interest_bits:
  "OP_READ AND ((if a then OP_READ else OP_NOOP) OR (if b then OP_WRITE else OP_NOOP)) \<noteq> (0 :: u32) \<longleftrightarrow> a"
  "OP_WRITE AND ((if a then OP_READ else OP_NOOP) OR (if b then OP_WRITE else OP_NOOP)) \<noteq> (0 :: u32) \<longleftrightarrow> b"
  by (cases a; cases b; simp)+

lemma copy_interests:
  assumes "copying s c oc T"
  shows "copy_client_interest s = Some ci \<Longrightarrow> OP_READ AND ci \<noteq> 0 \<longleftrightarrow> \<not> cp_eof c \<and> buffer_can_write (so_read_buffer s)"
    and "copy_client_interest s = Some ci \<Longrightarrow> OP_WRITE AND ci \<noteq> 0 \<longleftrightarrow> \<not> cp_write_closed oc \<and> buffer_can_read (so_write_buffer s)"
    and "copy_origin_interest s = Some oi \<Longrightarrow> OP_READ AND oi \<noteq> 0 \<longleftrightarrow> \<not> cp_eof oc \<and> buffer_can_write (so_write_buffer s)"
    and "copy_origin_interest s = Some oi \<Longrightarrow> OP_WRITE AND oi \<noteq> 0 \<longleftrightarrow> \<not> cp_write_closed c \<and> buffer_can_read (so_read_buffer s)"
proof -
  note d = copyingD [OF assms]
  have i: "copy_client_interest s = Some ((if \<not> cp_eof c \<and> buffer_can_write (so_read_buffer s) then OP_READ else OP_NOOP)
      OR (if \<not> cp_write_closed oc \<and> buffer_can_read (so_write_buffer s) then OP_WRITE else OP_NOOP))"
    "copy_origin_interest s = Some ((if \<not> cp_eof oc \<and> buffer_can_write (so_write_buffer s) then OP_READ else OP_NOOP)
      OR (if \<not> cp_write_closed c \<and> buffer_can_read (so_read_buffer s) then OP_WRITE else OP_NOOP))"
    unfolding copy_client_interest_def copy_origin_interest_def d(1,2) by (simp_all add: d(4,5))
  show "copy_client_interest s = Some ci \<Longrightarrow> OP_READ AND ci \<noteq> 0 \<longleftrightarrow> \<not> cp_eof c \<and> buffer_can_write (so_read_buffer s)"
    "copy_client_interest s = Some ci \<Longrightarrow> OP_WRITE AND ci \<noteq> 0 \<longleftrightarrow> \<not> cp_write_closed oc \<and> buffer_can_read (so_write_buffer s)"
    "copy_origin_interest s = Some oi \<Longrightarrow> OP_READ AND oi \<noteq> 0 \<longleftrightarrow> \<not> cp_eof oc \<and> buffer_can_write (so_write_buffer s)"
    "copy_origin_interest s = Some oi \<Longrightarrow> OP_WRITE AND oi \<noteq> 0 \<longleftrightarrow> \<not> cp_write_closed c \<and> buffer_can_read (so_read_buffer s)"
    unfolding i option.inject by (drule sym, simp only: interest_bits)+
qed

lemma copy_read_ok:
  assumes o: "own g p s ci oi False w" and key: "k_data key = Some (Socks_Ptr p)"
    and fd: "k_fd key = so_client_fd s \<and> OP_READ AND ci \<noteq> 0 \<or> k_fd key = so_origin_fd s \<and> OP_READ AND oi \<noteq> 0"
    and at: "at_copy s ci oi (talk_of s (kern w))" and cur: "so_current s = Some COPY"
  shows "returns (copy_read key w) (next_state (pending g) (finished g) p (so_client_fd s) COPY)"
proof -
  obtain c oc where c: "copying s c oc (talk_of s (kern w))" "flow_ok c (so_read_buffer s)" "flow_ok oc (so_write_buffer s)"
    and i: "copy_client_interest s = Some ci" "copy_origin_interest s = Some oi" using at by (auto simp: at_copy_def)
  note cd = copyingD [OF c(1)]
  note ne = own_fds(2) [OF o]
  let ?side = "if k_fd key = so_client_fd s then Client_Copy else Orig_Copy"
  define side where "side = ?side"
  have rs: "copy_read_state s (k_fd key) = Some side" using fd by (auto simp: copy_read_state_def side_def)
  let ?c = "side_of side c oc"
  let ?b = "side_buffer side s"
  have get: "get_copy side s = Some ?c" "get_buffer (cp_rb ?c) s = ?b" using cd by (cases side; simp)+
  have room: "\<not> cp_eof ?c" "buffer_can_write ?b"
    using fd copy_interests [OF c(1)] i ne by (auto simp: side_def split: if_splits)
  have half: "flow_half ?c ?b" and open': "\<not> cp_write_closed ?c"
    using c(2,3) room(1) by (cases side; simp add: flow_ok_def flow_half_def)+
  have other: "flow_ok (side_of (other_side side) c oc) (side_buffer (other_side side) s)" using c(2,3) by (cases side) simp_all
  have wf: "buffer_wf ?b" "b_limit ?b = BUFFER_SIZE" using ownD(4) [OF o] by (cases side; simp add: sess_wf_def)+
  have same: "put_buffer (cp_rb ?c) ?b s = s" using cd by (cases side) simp_all
  obtain r k where r: "k_recv (cp_read_fd ?c) (b_limit ?b - b_write ?b) (kern w) = (r, k)" by (cases "k_recv (cp_read_fd ?c) (b_limit ?b - b_write ?b) (kern w)")
  have rfd: "cp_read_fd ?c = (case side of Client_Copy \<Rightarrow> so_client_fd s | Orig_Copy \<Rightarrow> so_origin_fd s)" using cd by (cases side) simp_all
  let ?w = "w\<lparr>kern := k\<rparr>"
  have o1: "own g p s ci oi False ?w" by (rule own_recv [OF o r]) (use rfd cd(3) in \<open>cases side; simp\<close>)
  have put1: "put_socks p s ?w = ?w" using ownD(3) [OF o] by (simp add: put_socks_def fun_upd_idem)
  let ?hear = "case side of Client_Copy \<Rightarrow> heard_client | Orig_Copy \<Rightarrow> heard_origin"
  have t: "talk_of s k = ?hear (case r of Inl e \<Rightarrow> [] | Inr bs \<Rightarrow> bs) (talk_of s (kern w))"
    using talk_recv [OF r ne] rfd by (cases side) simp_all
  have run: "copy_read key w = (case r of
      Inl e \<Rightarrow> if transient e then copy_go_on p ?w else Some (ERROR, ?w)
    | Inr bs \<Rightarrow> do {
        s \<leftarrow> (if bs = [] then Some (put_copy side (?c\<lparr>cp_eof := True\<rparr>) s)
              else do {
                b \<leftarrow> buffer_store ?b bs;
                b \<leftarrow> buffer_write_adv b (int (length bs));
                Some ((put_buffer (cp_rb ?c) b s)\<lparr>so_last_activity := clock w\<rparr>)
              });
        copy_step_end side p (put_socks p s ?w)
      })"
    using room wf r by (simp add: copy_read_def own_attachment [OF o key] rs get same put1 Let_def cong: if_cong sum.case_cong)
  show ?thesis
  proof (cases r)
    case (Inl e)
    have same_talk: "talk_of s (kern ?w) = talk_of s (kern w)"
      using t Inl by (cases "talk_of s (kern w)" rule: prod_cases5; cases side) simp_all
    have nd: "\<not> (cp_write_closed c \<and> cp_write_closed oc)" using open' by (cases side) auto
    have "returns (copy_go_on p ?w) (next_state (pending g) (finished g) p (so_client_fd s) COPY)"
      by (rule copy_go_on_ok [OF o1 _ c(2,3) nd cur]) (use c(1) same_talk in simp)
    then show ?thesis using run Inl next_error [OF o1 refl cur] by simp
  next
    case (Inr bs)
    show ?thesis
    proof (cases "bs = []")
      case True
      let ?s = "put_copy side (?c\<lparr>cp_eof := True\<rparr>) s"
      let ?c1 = "case side of Client_Copy \<Rightarrow> c\<lparr>cp_eof := True\<rparr> | Orig_Copy \<Rightarrow> c"
      let ?oc1 = "case side of Client_Copy \<Rightarrow> oc | Orig_Copy \<Rightarrow> oc\<lparr>cp_eof := True\<rparr>"
      have o2: "own g p ?s ci oi False (put_socks p ?s ?w)" by (rule own_put_copy [OF o1])
      have same_talk: "talk_of s (kern ?w) = talk_of s (kern w)"
        using t Inr True by (cases "talk_of s (kern w)" rule: prod_cases5; cases side) simp_all
      have "copying ?s ?c1 ?oc1 (talk_of s (kern w))"
        using copying_flags(1,2) [OF c(1), of True] by (cases side) simp_all
      then have c2: "copying ?s ?c1 ?oc1 (talk_of ?s (kern (put_socks p ?s ?w)))" using same_talk by (cases side) simp_all
      have "returns (copy_step_end side p (put_socks p ?s ?w)) (next_state (pending g) (finished g) p (so_client_fd ?s) COPY)"
        by (rule copy_step_end_ok [OF o2 c2]) (use open' other cur in \<open>cases side; simp add: flow_half_def\<close>)+
      then show ?thesis using run Inr True by (cases side) simp_all
    next
      case False
      have "length bs \<le> b_limit ?b - b_write ?b" using k_recv_trace [OF r] Inr by auto
      from buffer_push_ok [OF wf(1) this] obtain b1 b2 where b: "buffer_store ?b bs = Some b1"
        "buffer_write_adv b1 (int (length bs)) = Some b2" "buffer_wf b2" "b_limit b2 = BUFFER_SIZE" "buffer_contents b2 = buffer_contents ?b @ bs"
        using wf(2) by (auto simp: buffer_push_def returns_iff bind_eq_Some_conv)
      let ?s = "(put_buffer (cp_rb ?c) b2 s)\<lparr>so_last_activity := clock w\<rparr>"
      have o2: "own g p ?s ci oi False (put_socks p ?s ?w)"
        by (rule own_put [OF o1]) (use ownD(4) [OF o] b cd in \<open>cases side; simp add: sess_wf_def\<close>)+
      have "copying (put_buffer (cp_rb ?c) b2 s) c oc (?hear bs (talk_of s (kern w)))"
        using copying_heard [OF c(1)] b(5) cd by (cases side) simp_all
      then have "copying ?s c oc (?hear bs (talk_of s (kern w)))" by (simp add: copying_def)
      then have c2: "copying ?s c oc (talk_of ?s (kern (put_socks p ?s ?w)))" using t Inr cd by (cases side) simp_all
      have "returns (copy_step_end side p (put_socks p ?s ?w)) (next_state (pending g) (finished g) p (so_client_fd ?s) COPY)"
        by (rule copy_step_end_ok [OF o2 c2]) (use open' other cur cd in \<open>cases side; simp add: flow_half_def\<close>)+
      then show ?thesis using run Inr False b(1,2) cd by (cases side) simp_all
    qed
  qed
qed

text \<open>Writing on a descriptor serves the side whose sink it is.\<close>

lemma copy_write_ok:
  assumes o: "own g p s ci oi False w" and key: "k_data key = Some (Socks_Ptr p)"
    and fd: "k_fd key = so_client_fd s \<and> OP_WRITE AND ci \<noteq> 0 \<or> k_fd key = so_origin_fd s \<and> OP_WRITE AND oi \<noteq> 0"
    and at: "at_copy s ci oi (talk_of s (kern w))" and cur: "so_current s = Some COPY"
  shows "returns (copy_write key w) (next_state (pending g) (finished g) p (so_client_fd s) COPY)"
proof -
  obtain c oc where c: "copying s c oc (talk_of s (kern w))" "flow_ok c (so_read_buffer s)" "flow_ok oc (so_write_buffer s)"
    and i: "copy_client_interest s = Some ci" "copy_origin_interest s = Some oi" using at by (auto simp: at_copy_def)
  note cd = copyingD [OF c(1)]
  note ne = own_fds(2) [OF o]
  define side where "side = (if k_fd key = so_client_fd s then Orig_Copy else Client_Copy)"
  have ws: "copy_write_state s (k_fd key) = Some side" using fd by (auto simp: copy_write_state_def side_def)
  let ?c = "side_of side c oc"
  let ?b = "side_buffer side s"
  have get: "get_copy side s = Some ?c" "get_buffer (cp_rb ?c) s = ?b" using cd by (cases side; simp)+
  have more: "\<not> cp_write_closed ?c" "buffer_can_read ?b"
    using fd copy_interests [OF c(1)] i ne by (auto simp: side_def split: if_splits)
  have nd: "\<not> (cp_write_closed c \<and> cp_write_closed oc)" using more(1) by (cases side) auto
  have other: "flow_ok (side_of (other_side side) c oc) (side_buffer (other_side side) s)" using c(2,3) by (cases side) simp_all
  have wf: "buffer_wf ?b" "b_limit ?b = BUFFER_SIZE" using ownD(4) [OF o] by (cases side; simp add: sess_wf_def)+
  obtain r k where r: "k_send (cp_write_fd ?c) (buffer_contents ?b) (kern w) = (r, k)"
    by (cases "k_send (cp_write_fd ?c) (buffer_contents ?b) (kern w)")
  have wfd: "cp_write_fd ?c = (case side of Client_Copy \<Rightarrow> so_origin_fd s | Orig_Copy \<Rightarrow> so_client_fd s)" using cd by (cases side) simp_all
  let ?w = "w\<lparr>kern := k\<rparr>"
  have o1: "own g p s ci oi False ?w" by (rule own_send [OF o r]) (use wfd cd(3) in \<open>cases side; simp\<close>)
  let ?tell = "case side of Client_Copy \<Rightarrow> told_origin | Orig_Copy \<Rightarrow> told_client"
  have t: "talk_of s k = ?tell (case r of Inl e \<Rightarrow> [] | Inr n \<Rightarrow> take n (buffer_contents ?b)) (talk_of s (kern w))"
    using talk_send [OF r ne] wfd by (cases side) simp_all
  have run: "copy_write key w = (case r of
      Inl e \<Rightarrow> if transient e then copy_go_on p ?w else Some (ERROR, ?w)
    | Inr n \<Rightarrow>
        if n = 0 then copy_go_on p ?w
        else do {
          b \<leftarrow> buffer_read_adv ?b (int n);
          let s = put_copy side (?c\<lparr>cp_transferred := cp_transferred ?c + of_nat n\<rparr>) (put_buffer (cp_rb ?c) b s);
          let w = count (if side = Client_Copy then metrics_add_bytes_c2o (of_nat n) else metrics_add_bytes_o2c (of_nat n)) ?w;
          copy_step_end side p (put_socks p s w)
        })"
    using more wf r by (simp add: copy_write_def own_attachment [OF o key] ws get Let_def cong: if_cong sum.case_cong)
  have still: "returns (copy_go_on p ?w) (next_state (pending g) (finished g) p (so_client_fd s) COPY)"
    if "(case r of Inl e \<Rightarrow> [] | Inr n \<Rightarrow> take n (buffer_contents ?b)) = []"
  proof -
    have same_talk: "talk_of s (kern ?w) = talk_of s (kern w)"
      using t that by (cases "talk_of s (kern w)" rule: prod_cases5; cases side) simp_all
    show ?thesis by (rule copy_go_on_ok [OF o1 _ c(2,3) nd cur]) (use c(1) same_talk in simp)
  qed
  show ?thesis
  proof (cases r)
    case (Inl e)
    then show ?thesis using run still next_error [OF o1 refl cur] by simp
  next
    case (Inr n)
    show ?thesis
    proof (cases "n = 0")
      case True
      then show ?thesis using run Inr still by simp
    next
      case False
      have n: "n \<le> length (buffer_contents ?b)" using k_send_trace [OF r] Inr by auto
      from buffer_read_adv_ok [OF wf(1) n] obtain b where b: "buffer_read_adv ?b (int n) = Some b" "buffer_wf b" "b_limit b = BUFFER_SIZE"
        "buffer_contents b = drop n (buffer_contents ?b)" using wf(2) by (auto simp: returns_iff)
      let ?c' = "?c\<lparr>cp_transferred := cp_transferred ?c + of_nat n\<rparr>"
      let ?s = "put_copy side ?c' (put_buffer (cp_rb ?c) b s)"
      let ?f = "if side = Client_Copy then metrics_add_bytes_c2o (of_nat n) else metrics_add_bytes_o2c (of_nat n)"
      let ?w' = "put_socks p ?s (count ?f ?w)"
      let ?c1 = "case side of Client_Copy \<Rightarrow> ?c' | Orig_Copy \<Rightarrow> c"
      let ?oc1 = "case side of Client_Copy \<Rightarrow> oc | Orig_Copy \<Rightarrow> ?c'"
      have o2: "own g p ?s ci oi False ?w'"
        by (rule own_put [OF own_count [OF o1]]) (use ownD(4) [OF o] b cd in \<open>cases side; simp add: sess_wf_def\<close>)+
      have out: "take n (buffer_contents ?b) @ buffer_contents b = buffer_contents ?b" "length (take n (buffer_contents ?b)) = n"
        using b(4) n by simp_all
      have c2: "copying ?s ?c1 ?oc1 (?tell (take n (buffer_contents ?b)) (talk_of s (kern w)))"
      proof (cases side)
        case Client_Copy
        then show ?thesis using copying_told(1) [OF c(1), of "take n (rb s)" b ?c'] out cd by simp
      next
        case Orig_Copy
        then show ?thesis using copying_told(2) [OF c(1), of "take n (wb s)" b ?c'] out cd by simp
      qed
      have c3: "copying ?s ?c1 ?oc1 (talk_of ?s (kern ?w'))" using t c2 Inr cd by (cases side) simp_all
      have "returns (copy_step_end side p ?w') (next_state (pending g) (finished g) p (so_client_fd ?s) COPY)"
        by (rule copy_step_end_ok [OF o2 c3]) (use more(1) other cur cd in \<open>cases side; simp add: flow_half_def flow_ok_def\<close>)+
      then show ?thesis using run Inr False b(1) cd by (cases side) simp_all
    qed
  qed
qed

end
