(* ===== verification/Socks5_Events.thy ===== *)
theory Socks5_Events
  imports Socks5_Relay
begin

text \<open>
  An event of a session, from the state machine engine down: the callback of the current state, the jump to
  the state it returns, the loop that carries on as long as there is something to do, and the release of a
  session that is done.
\<close>

section \<open>The assertions do not depend on the current state\<close>

lemma early_current [simp]: "early (s\<lparr>so_current := cu\<rparr>) = early s"
  by (simp add: early_def)

lemma requested_current [simp]: "requested (s\<lparr>so_current := cu\<rparr>) = requested s"
  by (simp add: requested_def fun_eq_iff)

lemma tunnel_current [simp]: "tunnel (s\<lparr>so_current := cu\<rparr>) = tunnel s"
  by (simp add: tunnel_def fun_eq_iff)

lemma connecting_to_current [simp]: "connecting_to (s\<lparr>so_current := cu\<rparr>) = connecting_to s"
  by (simp add: connecting_to_def fun_eq_iff)

lemma copying_current [simp]: "copying (s\<lparr>so_current := cu\<rparr>) = copying s"
  by (simp add: copying_def fun_eq_iff)

lemma interest_current [simp]:
  "copy_client_interest (s\<lparr>so_current := cu\<rparr>) = copy_client_interest s"
  "copy_origin_interest (s\<lparr>so_current := cu\<rparr>) = copy_origin_interest s"
proof -
  have "get_buffer r (s\<lparr>so_current := cu\<rparr>) = get_buffer r s" for r by (cases r) simp_all
  then show "copy_client_interest (s\<lparr>so_current := cu\<rparr>) = copy_client_interest s"
    "copy_origin_interest (s\<lparr>so_current := cu\<rparr>) = copy_origin_interest s"
    by (simp_all add: copy_client_interest_def copy_origin_interest_def)
qed

lemma at_current [simp]: "at st (s\<lparr>so_current := cu\<rparr>) = at st s"
  by (cases st) (simp_all add: fun_eq_iff at_start_def at_hello_read_def at_hello_write_def at_auth_read_def at_auth_write_def
    at_request_read_def at_resolv_def at_connecting_def at_request_write_def at_copy_def)

lemma entering_current [simp]: "entering st (s\<lparr>so_current := cu\<rparr>) = entering st s"
  by (simp add: fun_eq_iff entering_def enter_auth_def enter_request_def enter_connecting_def enter_copy_def del: at.simps)

section \<open>The engine on the table of a session\<close>

lemma client_get: "own g p s ci oi d w \<Longrightarrow> sm_get (client_stm H p) w = Some (so_current s)"
  by (simp add: client_stm_def ownD(3))

lemma client_set: "own g p s ci oi d w \<Longrightarrow>
  sm_set (client_stm H p) v w = Some (put_socks p (s\<lparr>so_current := v\<rparr>) w) \<and> own g p (s\<lparr>so_current := v\<rparr>) ci oi d (put_socks p (s\<lparr>so_current := v\<rparr>) w)"
  using own_put [of g p s ci oi d w "s\<lparr>so_current := v\<rparr>"] ownD(3,4) [of g p s ci oi d w] by (simp add: client_stm_def upd_socks_def sess_wf_def)

lemma states_split: "st \<le> ERROR \<Longrightarrow> st \<in> {HELLO_READ, HELLO_WRITE, AUTH_READ, AUTH_WRITE, REQUEST_READ, REQUEST_RESOLV, CONNECTING,
    REQUEST_WRITE, COPY, DONE, ERROR}"
  by simp presburger

lemma client_table:
  assumes "st \<le> ERROR"
  shows "arr_get (sm_states (client_stm H p)) (int st) = Some (client_statbl H ! st)" "sd_state (client_statbl H ! st) = st"
    "on_departure (client_statbl H ! st) = None"
    "on_arrival (client_statbl H ! st) = (if st = HELLO_READ then Some hello_read_init else if st = AUTH_READ then Some auth_read_init
       else if st = REQUEST_READ then Some request_read_init else if st = CONNECTING then Some connecting_init
       else if st = COPY then Some copy_init else None)"
proof -
  have "length (client_statbl H) = Suc ERROR" by (simp add: client_statbl_def)
  then show "arr_get (sm_states (client_stm H p)) (int st) = Some (client_statbl H ! st)" using assms by (simp add: client_stm_def)
  show "sd_state (client_statbl H ! st) = st" "on_departure (client_statbl H ! st) = None"
    "on_arrival (client_statbl H ! st) = (if st = HELLO_READ then Some hello_read_init else if st = AUTH_READ then Some auth_read_init
       else if st = REQUEST_READ then Some request_read_init else if st = CONNECTING then Some connecting_init
       else if st = COPY then Some copy_init else None)"
    using states_split [OF assms] by (auto simp: client_statbl_def bare_state_def)
qed

text \<open>After an event the session rests in the state that the engine returns.\<close>

definition rests :: "nat \<Rightarrow> nat \<Rightarrow> socks5 \<Rightarrow> u32 \<Rightarrow> u32 \<Rightarrow> talk \<Rightarrow> bool" where
  "rests st st' s ci oi T \<longleftrightarrow> so_current s = Some st' \<and> at (Some st') s ci oi T \<and> (st' = st \<and> reading st \<longrightarrow> rb s = [])"

definition rests_at :: "int list \<Rightarrow> int list \<Rightarrow> nat \<Rightarrow> int \<Rightarrow> nat \<Rightarrow> nat \<times> proxy \<Rightarrow> bool" where
  "rests_at js fs p c st x \<longleftrightarrow> (case x of (st', w') \<Rightarrow> st \<le> st' \<and> st' \<le> ERROR
     \<and> session js fs p c (st' = REQUEST_RESOLV) (rests st st') w')"

text \<open>The callback on arrival takes the session to rest.\<close>

lemma arrival_ok:
  assumes o: "own g p s ci oi (st = REQUEST_RESOLV) w" and key: "k_data key = Some (Socks_Ptr p)" and cur: "so_current s = Some st"
    and e: "entering st s ci oi (talk_of s (kern w))" and st: "st \<le> ERROR"
  shows "returns (run_hook (on_arrival (client_statbl H ! st)) st key w)
    (session (pending g) (finished g) p (so_client_fd s) (st = REQUEST_RESOLV) (\<lambda>s ci oi T. so_current s = Some st \<and> at (Some st) s ci oi T))"
proof -
  have keep: "session (pending g) (finished g) p (so_client_fd s) d (\<lambda>s ci oi T. so_current s = Some st \<and> at (Some st) s ci oi T) w'"
    if "own g p s' ci' oi' d w'" "so_client_fd s' = so_client_fd s" "so_current s' = so_current s" "at (Some st) s' ci' oi' (talk_of s' (kern w'))"
    for s' ci' oi' w' d
    by (rule sessionI [OF that(1,2)]) (use that(3,4) cur in simp)
  consider "st = AUTH_READ" | "st = REQUEST_READ" | "st = CONNECTING" | "st = COPY"
    | "st \<noteq> HELLO_READ" "st \<noteq> AUTH_READ" "st \<noteq> REQUEST_READ" "st \<noteq> CONNECTING" "st \<noteq> COPY"
    using e by (auto simp: entering_def simp del: at.simps split: if_splits)
  then show ?thesis
  proof cases
    case 1
    have "returns (auth_read_init st key w) (\<lambda>w'. \<exists>s'. own g p s' ci oi False w' \<and> so_client_fd s' = so_client_fd s
        \<and> so_current s' = so_current s \<and> at_auth_read s' ci (talk_of s' (kern w')))"
      by (rule auth_read_init_ok [OF _ key]) (use o e 1 in \<open>simp_all add: entering_def\<close>)
    moreover have "run_hook (on_arrival (client_statbl H ! st)) st key w = auth_read_init st key w" using 1 client_table(4) [OF st, of H] by (simp add: run_hook_def)
    ultimately show ?thesis by (simp only:) (erule returns_mono, elim exE conjE, rule keep, use 1 in simp_all)
  next
    case 2
    have "returns (request_read_init st key w) (\<lambda>w'. \<exists>s'. own g p s' ci oi False w' \<and> so_client_fd s' = so_client_fd s
        \<and> so_current s' = so_current s \<and> at_request_read s' ci (talk_of s' (kern w')))"
      by (rule request_read_init_ok [OF _ key]) (use o e 2 in \<open>simp_all add: entering_def\<close>)
    moreover have "run_hook (on_arrival (client_statbl H ! st)) st key w = request_read_init st key w" using 2 client_table(4) [OF st, of H] by (simp add: run_hook_def)
    ultimately show ?thesis by (simp only:) (erule returns_mono, elim exE conjE, rule keep, use 2 in simp_all)
  next
    case 3
    have "returns (connecting_init st key w) (connects g p (so_client_fd s) (so_current s))"
      by (rule connecting_init_ok [OF _ key]) (use o e 3 in \<open>simp_all add: entering_def\<close>)
    moreover have "run_hook (on_arrival (client_statbl H ! st)) st key w = connecting_init st key w" using 3 client_table(4) [OF st, of H] by (simp add: run_hook_def)
    ultimately show ?thesis by (simp only: connects_def [abs_def]) (erule returns_mono, elim exE conjE, rule keep, use 3 in simp_all)
  next
    case 4
    have "returns (copy_init st key w) (\<lambda>w'. \<exists>s' ci' oi'. own g p s' ci' oi' False w' \<and> so_client_fd s' = so_client_fd s
        \<and> so_current s' = so_current s \<and> at_copy s' ci' oi' (talk_of s' (kern w')))"
      by (rule copy_init_ok [OF _ key]) (use o e 4 in \<open>simp_all add: entering_def\<close>)
    moreover have "run_hook (on_arrival (client_statbl H ! st)) st key w = copy_init st key w" using 4 client_table(4) [OF st, of H] by (simp add: run_hook_def)
    ultimately show ?thesis by (simp only:) (erule returns_mono, elim exE conjE, rule keep, use 4 in simp_all)
  next
    case 5
    then have "at (Some st) s ci oi (talk_of s (kern w))" using e by (simp add: entering_def del: at.simps)
    then show ?thesis using 5 client_table(4) [OF st] keep [OF o refl refl] by (simp add: run_hook_def del: at.simps)
  qed
qed

lemma jump_client_ok:
  assumes n: "next_state js fs p c st (st', w)" and key: "k_data key = Some (Socks_Ptr p)" and st: "st \<le> COPY"
  shows "returns (jump (client_stm H p) st' key w) (\<lambda>w'. rests_at js fs p c st (st', w'))"
proof -
  from n have le: "st \<le> st'" "st' \<le> ERROR" and s: "session js fs p c (st' = REQUEST_RESOLV) (after st st') w" by (auto simp: next_state_def)
  from s obtain g s ci oi where g: "pending g = js" "finished g = fs" and o: "own g p s ci oi (st' = REQUEST_RESOLV) w" "so_client_fd s = c"
    and a: "after st st' s ci oi (talk_of s (kern w))" by (rule sessionE)
  have cur: "so_current s = Some st" using a by (simp add: after_def)
  have max: "sm_max_state (client_stm H p) = ERROR" by (simp add: client_stm_def)
  show ?thesis
  proof (cases "st' = st")
    case True
    have "rests st st s ci oi (talk_of s (kern w))" using a True cur by (auto simp: after_def rests_def)
    then have "session js fs p c (st' = REQUEST_RESOLV) (rests st st') w" using sessionI [OF o, of "rests st st'"] g True by simp
    then show ?thesis using True le max cur by (simp add: jump_def client_get [OF o(1)] rests_at_def)
  next
    case False
    let ?s = "s\<lparr>so_current := Some st'\<rparr>"
    let ?w = "put_socks p ?s w"
    have st'': "st \<le> ERROR" using st by simp
    have o1: "own g p ?s ci oi (st' = REQUEST_RESOLV) ?w" using client_set [OF o(1)] by blast
    have "entering st' ?s ci oi (talk_of ?s (kern ?w))" using a False by (simp add: after_def)
    from arrival_ok [OF o1 key _ this le(2), of H] have arr: "returns (run_hook (on_arrival (client_statbl H ! st')) st' key ?w)
        (session js fs p c (st' = REQUEST_RESOLV) (\<lambda>s ci oi T. so_current s = Some st' \<and> at (Some st') s ci oi T))" using o(2) g by simp
    have "jump (client_stm H p) st' key w = run_hook (on_arrival (client_statbl H ! st')) st' key ?w"
      using False le max cur client_set [OF o(1), of H "Some st'"] client_table(1) [OF le(2), of H p] client_table(2) [OF le(2), of H]
        client_table(1) [OF st'', of H p] client_table(3) [OF st'', of H]
      by (simp add: jump_def client_get [OF o(1)] run_hook_def [of None])
    moreover have "rests st st' = (\<lambda>s ci oi T. so_current s = Some st' \<and> at (Some st') s ci oi T)"
      using False by (auto simp: rests_def fun_eq_iff simp del: at.simps)
    ultimately show ?thesis using arr le by (simp add: rests_at_def del: at.simps)
  qed
qed

lemma event_client_ok:
  assumes o: "own g p s ci oi d w" and cur: "so_current s = Some st" and st: "st \<le> COPY" and key: "k_data key = Some (Socks_Ptr p)"
    and f: "pick (client_statbl H ! st) = Some f" and n: "returns (f key w) (next_state js fs p c st)"
  shows "returns (stm_handle pick (client_stm H p) key w) (rests_at js fs p c st)"
proof -
  have st'': "st \<le> ERROR" using st by simp
  have "stm_handle pick (client_stm H p) key w = do { (ret, w2) \<leftarrow> f key w; w3 \<leftarrow> jump (client_stm H p) ret key w2; Some (ret, w3) }"
    using cur f client_table(1) [OF st'', of H p] by (simp add: stm_handle_def handle_first_def client_get [OF o])
  moreover obtain st' w2 where x: "f key w = Some (st', w2)" "next_state js fs p c st (st', w2)" using n by (auto simp: returns_iff)
  ultimately show ?thesis using jump_client_ok [OF x(2) key st, of H] by simp
qed

section \<open>The callbacks of the states\<close>

lemma client_callbacks:
  "on_read_ready (client_statbl H ! HELLO_READ) = Some hello_read" "on_read_ready (client_statbl H ! AUTH_READ) = Some auth_read"
  "on_read_ready (client_statbl H ! REQUEST_READ) = Some request_read" "on_read_ready (client_statbl H ! COPY) = Some copy_read"
  "on_write_ready (client_statbl H ! HELLO_WRITE) = Some hello_write" "on_write_ready (client_statbl H ! AUTH_WRITE) = Some auth_write"
  "on_write_ready (client_statbl H ! CONNECTING) = Some (connecting_write H)"
  "on_write_ready (client_statbl H ! REQUEST_WRITE) = Some request_write" "on_write_ready (client_statbl H ! COPY) = Some copy_write"
  "on_block_ready (client_statbl H ! REQUEST_RESOLV) = Some request_resolv_done"
  by (simp_all add: client_statbl_def bare_state_def)

text \<open>A reading or a writing state of the negotiation, on the client's descriptor.\<close>

lemma reading_step_ok:
  assumes o: "own g p s ci oi False w" and cur: "so_current s = Some st" and st: "reading st" and key: "k_data key = Some (Socks_Ptr p)" "k_fd key = so_client_fd s"
    and a: "at (Some st) s ci oi (talk_of s (kern w))"
  shows "returns (stm_handler_read (client_stm H p) key w) (rests_at (pending g) (finished g) p (so_client_fd s) st)"
proof -
  have step: "returns (stm_handler_read (client_stm H p) key w) (rests_at (pending g) (finished g) p (so_client_fd s) st)"
    if "on_read_ready (client_statbl H ! st) = Some f" "returns (f key w) (next_state (pending g) (finished g) p (so_client_fd s) st)" for f
    unfolding stm_handler_read_def by (rule event_client_ok [where pick = on_read_ready and f = f and H = H and st = st, OF o cur _ key(1) that]) (use st in \<open>auto simp: reading_def\<close>)
  consider "st = HELLO_READ" | "st = AUTH_READ" | "st = REQUEST_READ" using st by (auto simp: reading_def)
  then show ?thesis
  proof cases
    case 1
    have "returns (hello_read key w) (next_state (pending g) (finished g) p (so_client_fd s) HELLO_READ)"
      by (rule hello_read_ok [OF o key]) (use cur a 1 in simp_all)
    then show ?thesis by (intro step [of hello_read]) (simp_all only: 1 client_callbacks)
  next
    case 2
    have "returns (auth_read key w) (next_state (pending g) (finished g) p (so_client_fd s) AUTH_READ)"
      by (rule auth_read_ok [OF o key]) (use cur a 2 in simp_all)
    then show ?thesis by (intro step [of auth_read]) (simp_all only: 2 client_callbacks)
  next
    case 3
    have "returns (request_read key w) (next_state (pending g) (finished g) p (so_client_fd s) REQUEST_READ)"
      by (rule request_read_ok [OF o key]) (use cur a 3 in simp_all)
    then show ?thesis by (intro step [of request_read]) (simp_all only: 3 client_callbacks)
  qed
qed

definition writing :: "nat \<Rightarrow> bool" where
  "writing st \<longleftrightarrow> st = HELLO_WRITE \<or> st = AUTH_WRITE \<or> st = REQUEST_WRITE"

lemma writing_step_ok:
  assumes o: "own g p s ci oi False w" and cur: "so_current s = Some st" and st: "writing st" and key: "k_data key = Some (Socks_Ptr p)" "k_fd key = so_client_fd s"
    and a: "at (Some st) s ci oi (talk_of s (kern w))"
  shows "returns (stm_handler_write (client_stm H p) key w) (rests_at (pending g) (finished g) p (so_client_fd s) st)"
proof -
  have step: "returns (stm_handler_write (client_stm H p) key w) (rests_at (pending g) (finished g) p (so_client_fd s) st)"
    if "on_write_ready (client_statbl H ! st) = Some f" "returns (f key w) (next_state (pending g) (finished g) p (so_client_fd s) st)" for f
    unfolding stm_handler_write_def by (rule event_client_ok [where pick = on_write_ready and f = f and H = H and st = st, OF o cur _ key(1) that]) (use st in \<open>auto simp: writing_def\<close>)
  consider "st = HELLO_WRITE" | "st = AUTH_WRITE" | "st = REQUEST_WRITE" using st by (auto simp: writing_def)
  then show ?thesis
  proof cases
    case 1
    have "returns (hello_write key w) (next_state (pending g) (finished g) p (so_client_fd s) HELLO_WRITE)"
      by (rule hello_write_ok [OF o key]) (use cur a 1 in simp_all)
    then show ?thesis by (intro step [of hello_write]) (simp_all only: 1 client_callbacks)
  next
    case 2
    have "returns (auth_write key w) (next_state (pending g) (finished g) p (so_client_fd s) AUTH_WRITE)"
      by (rule auth_write_ok [OF o key]) (use cur a 2 in simp_all)
    then show ?thesis by (intro step [of auth_write]) (simp_all only: 2 client_callbacks)
  next
    case 3
    have "returns (request_write key w) (next_state (pending g) (finished g) p (so_client_fd s) REQUEST_WRITE)"
      by (rule request_write_ok [OF o key]) (use cur a 3 in simp_all)
    then show ?thesis by (intro step [of request_write]) (simp_all only: 3 client_callbacks)
  qed
qed

section \<open>The first event\<close>

lemma handle_first_twice:
  assumes "handle_first stm key w = Some w1" and "sm_get stm w1 = Some (Some c)"
  shows "stm_handle pick stm key w = stm_handle pick stm key w1"
  using assms by (simp add: stm_handle_def handle_first_def)

lemma first_read_ok:
  assumes o: "own g p s ci oi False w" and cur: "so_current s = None" and key: "k_data key = Some (Socks_Ptr p)" "k_fd key = so_client_fd s"
    and a: "at_start s ci (talk_of s (kern w))"
  shows "returns (stm_handler_read (client_stm H p) key w) (rests_at (pending g) (finished g) p (so_client_fd s) HELLO_READ)"
proof -
  let ?s = "s\<lparr>so_current := Some HELLO_READ\<rparr>"
  let ?w = "put_socks p ?s w"
  have o1: "own g p ?s ci oi False ?w" using client_set [OF o] by blast
  have "at_start ?s ci (talk_of ?s (kern ?w))" using a by (simp add: at_start_def)
  from hello_read_init_ok [OF o1 key(1) this, of HELLO_READ] obtain w2 s2 where i: "hello_read_init HELLO_READ key ?w = Some w2"
    and o2: "own g p s2 ci oi False w2" "so_client_fd s2 = so_client_fd s" "so_current s2 = Some HELLO_READ" "at_hello_read s2 ci (talk_of s2 (kern w2))"
    by (auto simp: returns_iff)
  have "handle_first (client_stm H p) key w = Some w2"
    using cur client_get [OF o, of H] client_set [OF o, of H "Some HELLO_READ"] i client_table(2,4) [of HELLO_READ H] client_table(1) [of HELLO_READ H p]
      client_stm_def [THEN arg_cong [where f = sm_initial], of H p]
    by (simp add: handle_first_def run_hook_def)
  from handle_first_twice [OF this] have "stm_handler_read (client_stm H p) key w = stm_handler_read (client_stm H p) key w2"
    using client_get [OF o2(1), of H] o2(3) by (simp add: stm_handler_read_def)
  then show ?thesis using reading_step_ok [OF o2(1,3), of key H] key o2(2,4) by (simp add: reading_def)
qed

section \<open>Events of the selector\<close>

definition state_of :: "socks5 \<Rightarrow> nat" where
  "state_of s = (case so_current s of None \<Rightarrow> HELLO_READ | Some st \<Rightarrow> st)"

text \<open>The descriptor of the key belongs to the session and waits for the event.\<close>

definition ready :: "socks5 \<Rightarrow> u32 \<Rightarrow> u32 \<Rightarrow> int \<Rightarrow> u32 \<Rightarrow> bool" where
  "ready s ci oi fd ev \<longleftrightarrow> fd = so_client_fd s \<and> ev AND ci \<noteq> 0 \<or> so_origin_fd s \<noteq> -1 \<and> fd = so_origin_fd s \<and> ev AND oi \<noteq> 0"

lemma ready_states:
  assumes a: "at (so_current s) s ci oi T" and live: "so_current s \<noteq> Some DONE" "so_current s \<noteq> Some ERROR"
  shows "ready s ci oi fd OP_READ \<Longrightarrow> so_current s = None \<and> fd = so_client_fd s
      \<or> (\<exists>st. so_current s = Some st \<and> reading st) \<and> fd = so_client_fd s \<or> so_current s = Some COPY"
    and "ready s ci oi fd OP_WRITE \<Longrightarrow> (\<exists>st. so_current s = Some st \<and> writing st) \<and> fd = so_client_fd s
      \<or> so_current s = Some CONNECTING \<and> (if so_origin_fd s = -1 then fd = so_client_fd s else fd = so_origin_fd s)
      \<or> so_current s = Some COPY"
proof -
  obtain crx ctx orx otx peer where T: "T = (crx, ctx, orx, otx, peer)" by (cases T rule: prod_cases5)
  note defs = T at_start_def at_hello_read_def at_hello_write_def at_auth_read_def at_auth_write_def at_request_read_def at_resolv_def
    at_connecting_def at_request_write_def early_def
  show "ready s ci oi fd OP_READ \<Longrightarrow> so_current s = None \<and> fd = so_client_fd s
      \<or> (\<exists>st. so_current s = Some st \<and> reading st) \<and> fd = so_client_fd s \<or> so_current s = Some COPY"
    using a live by (cases "so_current s") (auto simp: defs ready_def reading_def split: if_splits)
  show "ready s ci oi fd OP_WRITE \<Longrightarrow> (\<exists>st. so_current s = Some st \<and> writing st) \<and> fd = so_client_fd s
      \<or> so_current s = Some CONNECTING \<and> (if so_origin_fd s = -1 then fd = so_client_fd s else fd = so_origin_fd s)
      \<or> so_current s = Some COPY"
    using a live by (cases "so_current s") (auto simp: defs ready_def writing_def split: if_splits)
qed

lemma own_ready: "ready s ci oi (k_fd key) ev \<Longrightarrow> k_fd key = so_client_fd s \<and> ev AND ci \<noteq> 0 \<or> k_fd key = so_origin_fd s \<and> ev AND oi \<noteq> 0"
  by (auto simp: ready_def)

lemma read_event_ok:
  assumes o: "own g p s ci oi (so_current s = Some REQUEST_RESOLV) w" and key: "k_data key = Some (Socks_Ptr p)"
    and a: "at (so_current s) s ci oi (talk_of s (kern w))" and live: "so_current s \<noteq> Some DONE" "so_current s \<noteq> Some ERROR"
    and r: "ready s ci oi (k_fd key) OP_READ"
  shows "returns (stm_handler_read (client_stm H p) key w) (rests_at (pending g) (finished g) p (so_client_fd s) (state_of s))"
    and "state_of s \<le> REQUEST_READ \<longrightarrow> k_fd key = so_client_fd s"
proof -
  consider "so_current s = None" "k_fd key = so_client_fd s"
    | st where "so_current s = Some st" "reading st" "k_fd key = so_client_fd s" | "so_current s = Some COPY"
    using ready_states(1) [OF a live r] by (elim disjE exE conjE) (simp_all only: simp_thms)
  then have "returns (stm_handler_read (client_stm H p) key w) (rests_at (pending g) (finished g) p (so_client_fd s) (state_of s))
    \<and> (state_of s \<le> REQUEST_READ \<longrightarrow> k_fd key = so_client_fd s)"
  proof cases
    case 1
    then have "at_start s ci (talk_of s (kern w))" "own g p s ci oi False w" using a o by simp_all
    from first_read_ok [OF this(2) 1(1) key 1(2) this(1), of H] show ?thesis using 1 by (simp add: state_of_def)
  next
    case 2
    then have "own g p s ci oi False w" using o by (auto simp: reading_def)
    moreover have "at (Some st) s ci oi (talk_of s (kern w))" using a 2(1) by (simp only:)
    ultimately show ?thesis using reading_step_ok [OF _ 2(1,2) key 2(3), of g ci oi w H] 2 by (simp add: state_of_def del: at.simps)
  next
    case 3
    have "returns (copy_read key w) (next_state (pending g) (finished g) p (so_client_fd s) COPY)"
      by (rule copy_read_ok [OF _ key own_ready [OF r]]) (use o a 3 in simp_all)
    then have "returns (stm_handle on_read_ready (client_stm H p) key w) (rests_at (pending g) (finished g) p (so_client_fd s) COPY)"
      by (intro event_client_ok [where pick = on_read_ready and f = copy_read and H = H, OF o 3 _ key client_callbacks(4)]) simp_all
    then show ?thesis using 3 by (simp add: stm_handler_read_def state_of_def)
  qed
  then show "returns (stm_handler_read (client_stm H p) key w) (rests_at (pending g) (finished g) p (so_client_fd s) (state_of s))"
    "state_of s \<le> REQUEST_READ \<longrightarrow> k_fd key = so_client_fd s" by blast+
qed

lemma write_event_ok:
  assumes H: "socks_host_ok H" and o: "own g p s ci oi (so_current s = Some REQUEST_RESOLV) w" and key: "k_data key = Some (Socks_Ptr p)"
    and a: "at (so_current s) s ci oi (talk_of s (kern w))" and live: "so_current s \<noteq> Some DONE" "so_current s \<noteq> Some ERROR"
    and r: "ready s ci oi (k_fd key) OP_WRITE"
  shows "returns (stm_handler_write (client_stm H p) key w) (rests_at (pending g) (finished g) p (so_client_fd s) (state_of s))"
    and "state_of s \<le> REQUEST_READ \<longrightarrow> k_fd key = so_client_fd s"
proof -
  consider st where "so_current s = Some st" "writing st" "k_fd key = so_client_fd s"
    | "so_current s = Some CONNECTING" "if so_origin_fd s = -1 then k_fd key = so_client_fd s else k_fd key = so_origin_fd s"
    | "so_current s = Some COPY"
    using ready_states(2) [OF a live r] by (elim disjE exE conjE) (simp_all only: simp_thms)
  then have "returns (stm_handler_write (client_stm H p) key w) (rests_at (pending g) (finished g) p (so_client_fd s) (state_of s))
    \<and> (state_of s \<le> REQUEST_READ \<longrightarrow> k_fd key = so_client_fd s)"
  proof cases
    case 1
    then have "own g p s ci oi False w" using o by (auto simp: writing_def)
    moreover have "at (Some st) s ci oi (talk_of s (kern w))" using a 1(1) by (simp only:)
    ultimately show ?thesis using writing_step_ok [OF _ 1(1,2) key 1(3), of g ci oi w H] 1 by (simp add: state_of_def del: at.simps)
  next
    case 2
    have "returns (connecting_write H key w) (next_state (pending g) (finished g) p (so_client_fd s) CONNECTING)"
      by (rule connecting_write_ok [OF H _ key 2(2)]) (use o a 2 in simp_all)
    then have "returns (stm_handle on_write_ready (client_stm H p) key w) (rests_at (pending g) (finished g) p (so_client_fd s) CONNECTING)"
      by (intro event_client_ok [where pick = on_write_ready and f = "connecting_write H" and H = H, OF o 2(1) _ key client_callbacks(7)]) simp_all
    then show ?thesis using 2 by (simp add: stm_handler_write_def state_of_def)
  next
    case 3
    have "returns (copy_write key w) (next_state (pending g) (finished g) p (so_client_fd s) COPY)"
      by (rule copy_write_ok [OF _ key own_ready [OF r]]) (use o a 3 in simp_all)
    then have "returns (stm_handle on_write_ready (client_stm H p) key w) (rests_at (pending g) (finished g) p (so_client_fd s) COPY)"
      by (intro event_client_ok [where pick = on_write_ready and f = copy_write and H = H, OF o 3 _ key client_callbacks(9)]) simp_all
    then show ?thesis using 3 by (simp add: stm_handler_write_def state_of_def)
  qed
  then show "returns (stm_handler_write (client_stm H p) key w) (rests_at (pending g) (finished g) p (so_client_fd s) (state_of s))"
    "state_of s \<le> REQUEST_READ \<longrightarrow> k_fd key = so_client_fd s" by blast+
qed

lemma block_event_ok:
  assumes o: "own g p s ci oi True w" and key: "k_data key = Some (Socks_Ptr p)" "k_fd key = so_client_fd s"
    and a: "at_resolv s ci (talk_of s (kern w))" and cur: "so_current s = Some REQUEST_RESOLV" and free: "so_client_fd s \<notin> set (owed g w)"
  shows "returns (stm_handler_block (client_stm H p) key w) (rests_at (pending g) (finished g) p (so_client_fd s) REQUEST_RESOLV)"
  unfolding stm_handler_block_def
  by (rule event_client_ok [where pick = on_block_ready and f = request_resolv_done and H = H, OF o cur _ key(1) client_callbacks(10)
        request_resolv_done_ok [OF o key free a cur]]) simp

section \<open>The loop that carries on\<close>

text \<open>Nothing is left to do before the next event: a reading state has used up its input.\<close>

definition quiet :: "int list \<Rightarrow> int list \<Rightarrow> nat \<Rightarrow> int \<Rightarrow> nat \<times> proxy \<Rightarrow> bool" where
  "quiet js fs p c x \<longleftrightarrow> (case x of (st', w') \<Rightarrow> st' \<le> ERROR
     \<and> session js fs p c (st' = REQUEST_RESOLV) (\<lambda>s ci oi T. so_current s = Some st' \<and> at (Some st') s ci oi T \<and> (reading st' \<longrightarrow> rb s = [])) w')"

text \<open>
  Twelve iterations are enough: every iteration but the last two moves to a later state, and there are
  eleven.
\<close>

lemma pump_ok:
  assumes "rests_at js fs p c st0 (st, w)" and "k_data key = Some (Socks_Ptr p)" and "st0 \<le> REQUEST_READ \<longrightarrow> k_fd key = c"
    and "11 < n + st"
  shows "returns (pump H n p key st w) (quiet js fs p c)"
  using assms
proof (induction n arbitrary: st0 st w)
  case 0
  then show ?case by (auto simp: rests_at_def)
next
  case (Suc n)
  from Suc.prems(1) have le: "st0 \<le> st" "st \<le> ERROR" and "session js fs p c (st = REQUEST_RESOLV) (rests st0 st) w" by (auto simp: rests_at_def)
  then obtain g s ci oi where g: "pending g = js" "finished g = fs" and o: "own g p s ci oi (st = REQUEST_RESOLV) w" "so_client_fd s = c"
    and a: "rests st0 st s ci oi (talk_of s (kern w))" by (elim sessionE)
  have cur: "so_current s = Some st" and at: "at (Some st) s ci oi (talk_of s (kern w))" using a by (simp_all add: rests_def del: at.simps)
  have rd: "buffer_can_read (so_read_buffer s) \<longleftrightarrow> rb s \<noteq> []" using ownD(4) [OF o(1)] by (simp add: sess_wf_def buffer_can_read_iff)
  have rest: "quiet js fs p c (st, w)" if "reading st \<longrightarrow> rb s = []"
    using sessionI [OF o, of "\<lambda>s ci oi T. so_current s = Some st \<and> at (Some st) s ci oi T \<and> (reading st \<longrightarrow> rb s = [])"] that cur at g le(2)
    by (simp add: quiet_def del: at.simps)
  have again: "returns (pump H n p key st' w') (quiet js fs p c)" if r: "rests_at js fs p c st (st', w')" and ne: "st' \<noteq> st" and big: "11 < Suc n + st" for st' w'
    by (rule Suc.IH [OF r Suc.prems(2)]) (use Suc.prems(3) r ne big le in \<open>auto simp: rests_at_def\<close>)
  show ?case
  proof (cases "reading st \<and> rb s \<noteq> []")
    case True
    then have o1: "own g p s ci oi False w" and "st \<le> REQUEST_READ" using o by (auto simp: reading_def)
    then obtain st' w' where e: "stm_handler_read (client_stm H p) key w = Some (st', w')" "rests_at js fs p c st (st', w')"
      using reading_step_ok [OF o1 cur _ Suc.prems(2) _ at, where H = H] True o(2) g Suc.prems(3) le by (auto simp: returns_iff simp del: at.simps)
    have run: "pump H (Suc n) p key st w = pump H n p key st' w'" using ownD(3) [OF o(1)] rd True e(1) by (auto simp: reading_def)
    note big = Suc.prems(4)
    show ?thesis
    proof (cases "st' = st")
      case False
      then show ?thesis using again [OF e(2) False big] run by simp
    next
      case same: True
      then have "session js fs p c (st = REQUEST_RESOLV) (rests st st) w'" using e(2) by (auto simp: rests_at_def)
      then obtain g' s' ci' oi' where g': "pending g' = js" "finished g' = fs" and o': "own g' p s' ci' oi' (st = REQUEST_RESOLV) w'" "so_client_fd s' = c"
        and a': "rests st st s' ci' oi' (talk_of s' (kern w'))" by (elim sessionE)
      have none: "rb s' = []" using a' True by (simp add: rests_def del: at.simps)
      have q: "quiet js fs p c (st, w')"
        using sessionI [OF o', of "\<lambda>s ci oi T. so_current s = Some st \<and> at (Some st) s ci oi T \<and> (reading st \<longrightarrow> rb s = [])"] a' none g' le(2)
        by (simp add: quiet_def rests_def del: at.simps)
      obtain m where m: "n = Suc m" using big True by (cases n) (auto simp: reading_def)
      have "\<not> buffer_can_read (so_read_buffer s')" using ownD(4) [OF o'(1)] none by (simp add: sess_wf_def buffer_can_read_iff)
      then have "pump H n p key st w' = Some (st, w')" using ownD(3) [OF o'(1)] True m by (auto simp: reading_def)
      then show ?thesis using run same q by simp
    qed
  next
    case False
    show ?thesis
    proof (cases "writing st")
      case True
      then have o1: "own g p s ci oi False w" using o by (auto simp: writing_def)
      then obtain st' w' where e: "stm_handler_write (client_stm H p) \<lparr>k_fd = so_client_fd s, k_data = Some (Socks_Ptr p)\<rparr> w = Some (st', w')"
          "rests_at js fs p c st (st', w')"
        using writing_step_ok [OF o1 cur True _ _ at, where key = "\<lparr>k_fd = so_client_fd s, k_data = Some (Socks_Ptr p)\<rparr>" and H = H] o(2) g by (auto simp: returns_iff simp del: at.simps)
      have run: "pump H (Suc n) p key st w = (if st' = st then Some (st, w') else pump H n p key st' w')"
        using ownD(3) [OF o(1)] True e(1) by (auto simp: writing_def)
      show ?thesis
      proof (cases "st' = st")
        case True
        have "quiet js fs p c (st, w')" using e(2) \<open>writing st\<close> True
          by (auto simp: quiet_def rests_at_def rests_def session_def writing_def reading_def)
        then show ?thesis using run True by simp
      next
        case False
        show ?thesis using again [OF e(2) False Suc.prems(4)] run False by simp
      qed
    next
      case calm: False
      have "pump H (Suc n) p key st w = Some (st, w)" using ownD(3) [OF o(1)] rd False calm by (auto simp: reading_def writing_def)
      then show ?thesis using rest False by auto
    qed
  qed
qed

end
