(* ===== verification/Socks5_Lists.thy ===== *)
theory Socks5_Lists
  imports Socks5_Events
begin

text \<open>
  The doubly linked list of the active sessions: taking a session out of it and putting one in front, and
  what the other sessions see of it, which is nothing.
\<close>

section \<open>Segments\<close>

fun first :: "nat list \<Rightarrow> nat option \<Rightarrow> nat option" where
  "first [] nx = nx"
| "first (q # qs) nx = Some q"

definition lastof :: "nat option \<Rightarrow> nat list \<Rightarrow> nat option" where
  "lastof pr ps = (if ps = [] then pr else Some (last ps))"

lemma lastof_simps [simp]: "lastof pr [] = pr" "lastof pr (ps @ [q]) = Some q" "lastof pr (p # ps) = lastof (Some p) ps"
  by (simp_all add: lastof_def)

lemma first_append: "first (ps @ qs) nx = first ps (first qs nx)"
  by (cases ps) simp_all

text \<open>A part of the list, with the pointers that lead into it and out of it.\<close>

fun seg :: "(nat \<Rightarrow> socks5 option) \<Rightarrow> nat option \<Rightarrow> nat list \<Rightarrow> nat option \<Rightarrow> bool" where
  "seg h pr [] nx \<longleftrightarrow> True"
| "seg h pr (p # ps) nx \<longleftrightarrow> (\<exists>s. h p = Some s \<and> so_active_prev s = pr \<and> so_active_next s = first ps nx \<and> seg h (Some p) ps nx)"

lemma seg_append: "seg h pr (ps @ qs) nx \<longleftrightarrow> seg h pr ps (first qs nx) \<and> seg h (lastof pr ps) qs nx"
  by (induction ps arbitrary: pr) (auto simp: first_append)

lemma dll_seg: "dll h pr x ps \<longleftrightarrow> x = first ps None \<and> seg h pr ps None"
  by (induction ps arbitrary: pr x) (auto split: option.splits)

lemma seg_cong: "(\<And>q. q \<in> set ps \<Longrightarrow> h' q = h q) \<Longrightarrow> seg h' pr ps nx \<longleftrightarrow> seg h pr ps nx"
  by (induction ps arbitrary: pr) auto

lemma relink_next:
  assumes s: "seg h pr (ps @ [a]) nx" and d: "distinct (ps @ [a])"
  shows "\<exists>t. h a = Some t \<and> seg (h(a \<mapsto> t\<lparr>so_active_next := nx'\<rparr>)) pr (ps @ [a]) nx'"
proof -
  obtain t where t: "h a = Some t" "so_active_prev t = lastof pr ps" "seg h pr ps (Some a)" using s by (auto simp: seg_append)
  have "seg (h(a \<mapsto> t\<lparr>so_active_next := nx'\<rparr>)) pr ps (Some a) \<longleftrightarrow> seg h pr ps (Some a)" by (rule seg_cong) (use d in auto)
  then show ?thesis using t by (simp add: seg_append)
qed

lemma relink_prev:
  assumes s: "seg h pr (a # ps) nx" and d: "distinct (a # ps)"
  shows "\<exists>t. h a = Some t \<and> seg (h(a \<mapsto> t\<lparr>so_active_prev := pr'\<rparr>)) pr' (a # ps) nx"
proof -
  obtain t where t: "h a = Some t" "so_active_next t = first ps nx" "seg h (Some a) ps nx" using s by auto
  have "seg (h(a \<mapsto> t\<lparr>so_active_prev := pr'\<rparr>)) (Some a) ps nx \<longleftrightarrow> seg h (Some a) ps nx" by (rule seg_cong) (use d in auto)
  then show ?thesis using t by simp
qed

section \<open>The links of a session\<close>

definition strip :: "socks5 \<Rightarrow> socks5" where
  "strip s = s\<lparr>so_active_prev := None, so_active_next := None\<rparr>"

text \<open>The heaps differ in the links of the list alone.\<close>

definition relinked :: "(nat \<Rightarrow> socks5 option) \<Rightarrow> (nat \<Rightarrow> socks5 option) \<Rightarrow> bool" where
  "relinked h h' \<longleftrightarrow> (\<forall>q. map_option strip (h' q) = map_option strip (h q))"

lemma relinked_refl [simp]: "relinked h h"
  by (simp add: relinked_def)

lemma relinked_trans: "relinked h h1 \<Longrightarrow> relinked h1 h2 \<Longrightarrow> relinked h h2"
  by (simp add: relinked_def)

lemma relinked_upd: "h q = Some t \<Longrightarrow> strip t' = strip t \<Longrightarrow> relinked h (h(q \<mapsto> t'))"
  by (simp add: relinked_def)

lemma strip_upd [simp]: "strip (t\<lparr>so_active_prev := x\<rparr>) = strip t" "strip (t\<lparr>so_active_next := x\<rparr>) = strip t" "strip (strip t) = strip t"
  by (simp_all add: strip_def)

lemma strip_same:
  assumes "strip t = strip s"
  shows "so_client_fd t = so_client_fd s" "so_origin_fd t = so_origin_fd s" "so_resolution t = so_resolution s"
    "so_read_buffer t = so_read_buffer s" "so_write_buffer t = so_write_buffer s" "so_current t = so_current s"
    "so_client t = so_client s" "so_orig t = so_orig s" "so_references t = so_references s" "so_next t = so_next s"
    "so_user t = so_user s" "so_destination t = so_destination s" "so_port t = so_port s" "so_destination_set t = so_destination_set s"
    "so_tunnel_opened t = so_tunnel_opened s"
proof -
  show "so_client_fd t = so_client_fd s" "so_origin_fd t = so_origin_fd s" using arg_cong [OF assms, of so_client_fd] arg_cong [OF assms, of so_origin_fd]
    by (simp_all add: strip_def)
  show "so_resolution t = so_resolution s" "so_read_buffer t = so_read_buffer s" "so_write_buffer t = so_write_buffer s"
    using arg_cong [OF assms, of so_resolution] arg_cong [OF assms, of so_read_buffer] arg_cong [OF assms, of so_write_buffer] by (simp_all add: strip_def)
  show "so_current t = so_current s" "so_client t = so_client s" "so_orig t = so_orig s" "so_references t = so_references s" "so_next t = so_next s"
    using arg_cong [OF assms, of so_current] arg_cong [OF assms, of so_client] arg_cong [OF assms, of so_orig] arg_cong [OF assms, of so_references]
      arg_cong [OF assms, of so_next] by (simp_all add: strip_def)
  show "so_user t = so_user s" "so_destination t = so_destination s" "so_port t = so_port s" "so_destination_set t = so_destination_set s"
    "so_tunnel_opened t = so_tunnel_opened s"
    using arg_cong [OF assms, of so_user] arg_cong [OF assms, of so_destination] arg_cong [OF assms, of so_port]
      arg_cong [OF assms, of so_destination_set] arg_cong [OF assms, of so_tunnel_opened] by (simp_all add: strip_def)
qed

lemma at_cong:
  assumes "strip s' = strip s"
  shows "at st s' = at st s"
proof -
  note e = strip_same [OF assms]
  have "early s' = early s" "requested s' = requested s" by (simp_all add: early_def requested_def fun_eq_iff e)
  moreover from this(2) have "tunnel s' = tunnel s" "connecting_to s' = connecting_to s" by (simp_all add: tunnel_def connecting_to_def fun_eq_iff e)
  moreover from this(1) have "copying s' = copying s" by (simp add: copying_def fun_eq_iff e)
  moreover have "get_buffer r s' = get_buffer r s" for r by (cases r) (simp_all add: e)
  then have "copy_client_interest s' = copy_client_interest s" "copy_origin_interest s' = copy_origin_interest s"
    by (simp_all add: copy_client_interest_def copy_origin_interest_def e)
  ultimately show ?thesis
    by (cases st) (simp_all add: fun_eq_iff at_start_def at_hello_read_def at_hello_write_def at_auth_read_def at_auth_write_def
        at_request_read_def at_resolv_def at_connecting_def at_request_write_def at_copy_def e)
qed

text \<open>A session at rest does not see the links either.\<close>

lemma alive_relinked:
  assumes a: "alive g w q" and h: "map_option strip (socks_heap w' q) = map_option strip (socks_heap w q)"
    and f: "\<And>s. socks_heap w q = Some s \<Longrightarrow> regs (sel w') (so_client_fd s) = regs (sel w) (so_client_fd s)
      \<and> (so_origin_fd s \<noteq> -1 \<longrightarrow> regs (sel w') (so_origin_fd s) = regs (sel w) (so_origin_fd s))
      \<and> talk_of s (kern w') = talk_of s (kern w)
      \<and> (so_client_fd s \<in> set (owed g' w') \<longrightarrow> so_client_fd s \<in> set (owed g w))"
  shows "alive g' w' q"
proof -
  obtain s ci oi where s: "socks_heap w q = Some s" "settled g q s ci oi w" using a by (auto simp: alive_def)
  obtain t where t: "socks_heap w' q = Some t" "strip t = strip s" using h s(1) by auto
  note e = strip_same [OF t(2)]
  have "talk_of t (kern w') = talk_of s (kern w)" using f [OF s(1)] by (simp add: talk_of_def e)
  moreover have "sess_wf t = sess_wf s" "held t = held s" "registered q t = registered q s"
    by (simp_all add: sess_wf_def held_def registered_def fun_eq_iff e)
  moreover have "registered q s ci oi (regs (sel w)) \<Longrightarrow> registered q s ci oi (regs (sel w'))" using f [OF s(1)] by (auto simp: registered_def)
  ultimately have "settled g' q t ci oi w'" using s(2) f [OF s(1)]
    unfolding settled_def at_cong [OF t(2)] by (simp only: e simp_thms) blast
  then show ?thesis using t(1) by (auto simp: alive_def)
qed

lemma pool_list_relinked: "relinked h h' \<Longrightarrow> pool_list h' x ps = pool_list h x ps"
proof (rule pool_list_cong)
  fix q assume "relinked h h'"
  then have "map_option strip (h' q) = map_option strip (h q)" by (simp add: relinked_def)
  then show "map_option so_next (h' q) = map_option so_next (h q)"
    by (cases "h q"; cases "h' q") (auto dest: strip_same(10))
qed

section \<open>Taking a session out\<close>

lemma unlink_left:
  assumes "seg (socks_heap w) None pre (Some p)" and "distinct pre"
  shows "\<exists>h1. (case lastof None pre of Some q \<Rightarrow> upd_socks q (\<lambda>t. t\<lparr>so_active_next := nx\<rparr>) w | None \<Rightarrow> Some (w\<lparr>g_active_head := nx\<rparr>))
      = Some (w\<lparr>socks_heap := h1, g_active_head := if pre = [] then nx else g_active_head w\<rparr>)
    \<and> seg h1 None pre nx \<and> (\<forall>q. q \<notin> set pre \<longrightarrow> h1 q = socks_heap w q) \<and> relinked (socks_heap w) h1"
proof (cases pre rule: rev_cases)
  case Nil
  then show ?thesis by (intro exI [of _ "socks_heap w"]) simp
next
  case (snoc ps a)
  from relink_next [OF assms [unfolded snoc], of nx] obtain t where t: "socks_heap w a = Some t"
    "seg ((socks_heap w)(a \<mapsto> t\<lparr>so_active_next := nx\<rparr>)) None (ps @ [a]) nx" by blast
  then show ?thesis using snoc by (intro exI [of _ "(socks_heap w)(a \<mapsto> t\<lparr>so_active_next := nx\<rparr>)"])
    (simp add: upd_socks_def put_socks_def relinked_upd)
qed

lemma unlink_right:
  assumes "seg (socks_heap w) pr0 post None" and "distinct post"
  shows "\<exists>h1. (case first post None of Some q \<Rightarrow> upd_socks q (\<lambda>t. t\<lparr>so_active_prev := pr\<rparr>) w | None \<Rightarrow> Some w)
      = Some (w\<lparr>socks_heap := h1\<rparr>) \<and> seg h1 pr post None \<and> (\<forall>q. q \<notin> set post \<longrightarrow> h1 q = socks_heap w q) \<and> relinked (socks_heap w) h1"
proof (cases post)
  case Nil
  then show ?thesis by (intro exI [of _ "socks_heap w"]) simp
next
  case (Cons a ps)
  from relink_prev [OF assms [unfolded Cons], of pr] obtain t where t: "socks_heap w a = Some t"
    "seg ((socks_heap w)(a \<mapsto> t\<lparr>so_active_prev := pr\<rparr>)) pr (a # ps) None" by blast
  then show ?thesis using Cons by (intro exI [of _ "(socks_heap w)(a \<mapsto> t\<lparr>so_active_prev := pr\<rparr>)"])
    (simp add: upd_socks_def put_socks_def relinked_upd)
qed

lemma active_list_remove_ok:
  assumes l: "dll (socks_heap w) None (g_active_head w) (pre @ p # post)" and d: "distinct (pre @ p # post)"
  shows "\<exists>h' s. socks_heap w p = Some s \<and> active_list_remove p w = Some (w\<lparr>socks_heap := h', g_active_head := first (pre @ post) None\<rparr>)
    \<and> dll h' None (first (pre @ post) None) (pre @ post) \<and> h' p = Some (strip s) \<and> relinked (socks_heap w) h'"
proof -
  from l obtain s where s: "seg (socks_heap w) None pre (Some p)" "socks_heap w p = Some s" "so_active_prev s = lastof None pre"
    "so_active_next s = first post None" "seg (socks_heap w) (Some p) post None" "g_active_head w = first (pre @ [p]) None"
    by (auto simp: dll_seg seg_append first_append)
  have dis: "distinct pre" "distinct post" "p \<notin> set pre" "p \<notin> set post" "set pre \<inter> set post = {}" using d by auto
  from unlink_left [OF s(1) dis(1), of "first post None"] obtain h1 where h1:
    "(case lastof None pre of Some q \<Rightarrow> upd_socks q (\<lambda>t. t\<lparr>so_active_next := first post None\<rparr>) w | None \<Rightarrow> Some (w\<lparr>g_active_head := first post None\<rparr>))
      = Some (w\<lparr>socks_heap := h1, g_active_head := if pre = [] then first post None else g_active_head w\<rparr>)"
    "seg h1 None pre (first post None)" "\<forall>q. q \<notin> set pre \<longrightarrow> h1 q = socks_heap w q" "relinked (socks_heap w) h1" by blast
  let ?hd = "if pre = [] then first post None else g_active_head w"
  let ?w1 = "w\<lparr>socks_heap := h1, g_active_head := ?hd\<rparr>"
  have "seg h1 (Some p) post None" using seg_cong [of post h1 "socks_heap w" "Some p" None] h1(3) dis(5) s(5) by auto
  then have "seg (socks_heap ?w1) (Some p) post None" by simp
  from unlink_right [OF this dis(2), of "lastof None pre"] obtain h2 where h2:
    "(case first post None of Some q \<Rightarrow> upd_socks q (\<lambda>t. t\<lparr>so_active_prev := lastof None pre\<rparr>) ?w1 | None \<Rightarrow> Some ?w1) = Some (?w1\<lparr>socks_heap := h2\<rparr>)"
    "seg h2 (lastof None pre) post None" "\<forall>q. q \<notin> set post \<longrightarrow> h2 q = h1 q" "relinked h1 h2" by auto
  have p2: "h2 p = Some s" using h2(3) h1(3) dis(3,4) s(2) by simp
  let ?h = "h2(p \<mapsto> strip s)"
  have "active_list_remove p w = Some (w\<lparr>socks_heap := ?h, g_active_head := ?hd\<rparr>)"
    unfolding active_list_remove_def s(2) Option.bind_lunit s(3,4) h1(1) h2(1) using p2 by (simp add: upd_socks_def put_socks_def strip_def)
  moreover have "?hd = first (pre @ post) None" using s(6) by (cases pre) simp_all
  moreover have "seg ?h None pre (first post None)"
  proof -
    have "seg ?h None pre (first post None) \<longleftrightarrow> seg h1 None pre (first post None)" by (rule seg_cong) (use dis(3,5) h2(3) in auto)
    then show ?thesis using h1(2) by simp
  qed
  moreover have "seg ?h (lastof None pre) post None"
  proof -
    have "seg ?h (lastof None pre) post None \<longleftrightarrow> seg h2 (lastof None pre) post None" by (rule seg_cong) (use dis(4) in auto)
    then show ?thesis using h2(2) by simp
  qed
  moreover have "relinked (socks_heap w) ?h"
    by (rule relinked_trans [OF relinked_trans [OF h1(4) h2(4)]]) (use p2 in \<open>simp add: relinked_upd\<close>)
  ultimately show ?thesis using s(2) by (intro exI [of _ ?h] exI [of _ s]) (simp add: dll_seg seg_append)
qed

section \<open>Putting a session in front\<close>

lemma active_list_add_ok:
  assumes l: "dll (socks_heap w) None (g_active_head w) ps" and d: "distinct ps" "p \<notin> set ps" and s: "socks_heap w p = Some s"
  shows "\<exists>h'. active_list_add p w = Some (w\<lparr>socks_heap := h', g_active_head := Some p\<rparr>)
    \<and> dll h' None (Some p) (p # ps) \<and> relinked (socks_heap w) h'"
proof -
  let ?h1 = "(socks_heap w)(p \<mapsto> s\<lparr>so_active_prev := None, so_active_next := g_active_head w\<rparr>)"
  let ?w1 = "w\<lparr>socks_heap := ?h1\<rparr>"
  have hd: "g_active_head w = first ps None" and sg: "seg (socks_heap w) None ps None" using l by (simp_all add: dll_seg)
  have "seg ?h1 None ps None \<longleftrightarrow> seg (socks_heap w) None ps None" by (rule seg_cong) (use d(2) in auto)
  then have "seg (socks_heap ?w1) None ps None" using sg by simp
  from unlink_right [OF this d(1), of "Some p"] obtain h2 where h2:
    "(case first ps None of Some q \<Rightarrow> upd_socks q (\<lambda>t. t\<lparr>so_active_prev := Some p\<rparr>) ?w1 | None \<Rightarrow> Some ?w1) = Some (?w1\<lparr>socks_heap := h2\<rparr>)"
    "seg h2 (Some p) ps None" "\<forall>q. q \<notin> set ps \<longrightarrow> h2 q = ?h1 q" "relinked ?h1 h2" by auto
  have "active_list_add p w = Some (w\<lparr>socks_heap := h2, g_active_head := Some p\<rparr>)"
    using s h2(1) [folded hd] by (simp add: active_list_add_def upd_socks_def put_socks_def)
  moreover have "dll h2 None (Some p) (p # ps)" using h2(2,3) d(2) hd by (simp add: dll_seg)
  moreover have "relinked (socks_heap w) h2" by (rule relinked_trans [OF _ h2(4)]) (use s in \<open>simp add: relinked_upd\<close>)
  ultimately show ?thesis by blast
qed

end
