(* ===== verification/Socks5_Release.thy ===== *)
theory Socks5_Release
  imports Socks5_Lists
begin

text \<open>
  The end of a session: it is logged, taken out of the list, its descriptors are unregistered and closed,
  and its memory goes to the pool or is freed when the last reference is given up. What is left is the
  invariant without that session.
\<close>

section \<open>The last line of the log\<close>

lemma socks5_log_event_ok:
  assumes o: "own g p s ci oi d w"
  shows "\<exists>w' e. socks5_log_event p w = Some w' \<and> own g p (s\<lparr>so_log_emitted := e\<rparr>) ci oi d w' \<and> kern w' = kern w \<and> sel w' = sel w"
proof (cases "\<exists>log. g_access_log w = Some log \<and> \<not> so_log_emitted s \<and> so_destination_set s")
  case False
  then have "socks5_log_event p w = Some w" by (auto simp: socks5_log_event_def ownD(3) [OF o] split: option.split)
  moreover have "s\<lparr>so_log_emitted := so_log_emitted s\<rparr> = s" by simp
  ultimately show ?thesis using o by (intro exI [of _ w] exI [of _ "so_log_emitted s"]) simp
next
  case True
  then obtain log where log: "g_access_log w = Some log" "\<not> so_log_emitted s" "so_destination_set s" by blast
  have "\<exists>l. socks5_log_event p w = Some (put_socks p (s\<lparr>so_log_emitted := True\<rparr>) (w\<lparr>g_access_log := Some l\<rparr>))"
  proof (cases "so_tunnel_opened s")
    case True
    then obtain c oc where "client_copy s = Some c" "orig_copy s = Some oc" using ownD(4) [OF o] by (auto simp: sess_wf_def)
    then show ?thesis using log True by (simp add: socks5_log_event_def ownD(3) [OF o]) (rule exI, rule refl)
  next
    case False
    then show ?thesis using log by (simp add: socks5_log_event_def ownD(3) [OF o]) (rule exI, rule refl)
  qed
  then obtain l where l: "socks5_log_event p w = Some (put_socks p (s\<lparr>so_log_emitted := True\<rparr>) (w\<lparr>g_access_log := Some l\<rparr>))" by blast
  have "own g p (s\<lparr>so_log_emitted := True\<rparr>) ci oi d (put_socks p (s\<lparr>so_log_emitted := True\<rparr>) (w\<lparr>g_access_log := Some l\<rparr>))"
    by (rule own_put [OF own_log [OF o]]) (use ownD(4) [OF o] in \<open>simp_all add: sess_wf_def\<close>)
  then show ?thesis using l
    by (intro exI [of _ "put_socks p (s\<lparr>so_log_emitted := True\<rparr>) (w\<lparr>g_access_log := Some l\<rparr>)"] exI [of _ True]) simp
qed

section \<open>The memory\<close>

lemma destroy_last:
  assumes s: "socks_heap w p = Some s" "so_references s = 1"
    and pl: "pool_list (socks_heap w) (pool w) ps" "pool_size w = of_nat (length ps)" "length ps \<le> 50" and p: "p \<notin> set ps"
  shows "\<exists>h' x' ps'. socks5_destroy (Some p) w = Some (w\<lparr>socks_heap := h', pool := x', pool_size := of_nat (length ps')\<rparr>)
    \<and> pool_list h' x' ps' \<and> length ps' \<le> 50 \<and> (\<forall>q. q \<noteq> p \<longrightarrow> h' q = socks_heap w q) \<and> (ps' = p # ps \<or> ps' = ps)"
proof -
  have room: "pool_size w < 50 \<longleftrightarrow> length ps < 50" using pl(2,3) by (simp add: word_less_nat_alt unat_of_nat)
  show ?thesis
  proof (cases "length ps < 50")
    case True
    let ?h = "(socks_heap w)(p \<mapsto> s\<lparr>so_resolution := [], so_next := pool w\<rparr>)"
    have "pool_list ?h (pool w) ps = pool_list (socks_heap w) (pool w) ps" by (rule pool_list_cong) (use p in auto)
    then have "pool_list ?h (Some p) (p # ps)" using pl(1) by simp
    then show ?thesis using s True room pl(2)
      by (intro exI [of _ ?h] exI [of _ "Some p"] exI [of _ "p # ps"]) (simp add: socks5_destroy_def put_socks_def add.commute)
  next
    case False
    let ?h = "(socks_heap w)(p := None)"
    have "pool_list ?h (pool w) ps = pool_list (socks_heap w) (pool w) ps" by (rule pool_list_cong) (use p in auto)
    then show ?thesis using s False room pl
      by (intro exI [of _ ?h] exI [of _ "pool w"] exI [of _ ps]) (simp add: socks5_destroy_def socks5_free_def)
  qed
qed

section \<open>The descriptors\<close>

lemma unregister_invalid: "selector_unregister_fd H (-1) w = Some (SELECTOR_IARGS, w)"
  by (simp add: selector_unregister_fd_def INVALID_FD_def)

text \<open>Both descriptors go, and then the memory.\<close>

lemma close_fds_ok:
  assumes H: "socks_host_ok H" and s: "socks_heap w p = Some s" and h: "held s False" and fs: "full_sel (sel w)"
    and r: "registered p s ci oi (regs (sel w))"
    and pl: "pool_list (socks_heap w) (pool w) ps" "pool_size w = of_nat (length ps)" "length ps \<le> 50" and p: "p \<notin> set ps"
  shows "\<exists>h' x' ps' sl k'. close_fds H [so_client_fd s, so_origin_fd s] w
      = Some (w\<lparr>socks_heap := h', pool := x', pool_size := of_nat (length ps'), sel := sl, kern := k'\<rparr>)
    \<and> pool_list h' x' ps' \<and> length ps' \<le> 50 \<and> (\<forall>q. q \<noteq> p \<longrightarrow> h' q = socks_heap w q) \<and> (ps' = p # ps \<or> ps' = ps)
    \<and> full_sel sl \<and> resolution_jobs sl = resolution_jobs (sel w) \<and> regs sl = (regs (sel w))(so_client_fd s := None, so_origin_fd s := None)
    \<and> k_rx k' = k_rx (kern w) \<and> k_tx k' = k_tx (kern w) \<and> k_peer k' = k_peer (kern w)
    \<and> set (k_open k') = set (k_open (kern w)) - {so_client_fd s, so_origin_fd s} \<union> ({-1} \<inter> set (k_open (kern w)))"
proof -
  let ?c = "so_client_fd s" and ?og = "so_origin_fd s"
  have rc: "regs (sel w) ?c = Some (socks5_handler, ci, Some (Socks_Ptr p))" using r by (simp add: registered_def)
  have ne: "?c \<noteq> -1" using sel.entry_legal [OF fs, of ?c] rc by (auto simp: INVALID_FD_def)
  have none: "regs (sel w) (-1) = None" using sel.entry_legal [OF fs, of "-1"] by (cases "regs (sel w) (-1)") (auto simp: INVALID_FD_def)
  show ?thesis
  proof (cases "?og = -1")
    case True
    have "so_references s = 1" using h True by (simp add: held_def)
    from destroy_last [OF s this pl p] obtain h' x' ps' where d:
      "socks5_destroy (Some p) w = Some (w\<lparr>socks_heap := h', pool := x', pool_size := of_nat (length ps')\<rparr>)"
      "pool_list h' x' ps'" "length ps' \<le> 50" "\<forall>q. q \<noteq> p \<longrightarrow> h' q = socks_heap w q" "ps' = p # ps \<or> ps' = ps" by blast
    from unregister_run [OF H fs rc d(1)] obtain sl where sl:
      "selector_unregister_fd H ?c w = Some (SELECTOR_SUCCESS, w\<lparr>socks_heap := h', pool := x', pool_size := of_nat (length ps'), sel := sl\<rparr>)"
      "full_sel sl" "regs sl = (regs (sel w))(?c := None)" "resolution_jobs sl = resolution_jobs (sel w)" by auto
    have "(regs (sel w))(?c := None) = (regs (sel w))(?c := None, ?og := None)" using True none by (simp add: fun_upd_idem)
    then show ?thesis using d sl True ne
      by (intro exI [of _ h'] exI [of _ x'] exI [of _ ps'] exI [of _ sl] exI [of _ "k_close ?c (kern w)"]) (auto simp: k_close_def)
  next
    case False
    then have ro: "regs (sel w) ?og = Some (socks5_handler, oi, Some (Socks_Ptr p))" "?og \<noteq> ?c" using r by (auto simp: registered_def)
    have two: "so_references s = 2" using h False by (simp add: held_def)
    let ?s1 = "s\<lparr>so_references := 1\<rparr>"
    let ?w1 = "put_socks p ?s1 w"
    have "socks5_destroy (Some p) w = Some ?w1" using s two by (simp add: socks5_destroy_def)
    from unregister_run [OF H fs rc this] obtain sl1 where sl1:
      "selector_unregister_fd H ?c w = Some (SELECTOR_SUCCESS, ?w1\<lparr>sel := sl1\<rparr>)"
      "full_sel sl1" "regs sl1 = (regs (sel w))(?c := None)" "resolution_jobs sl1 = resolution_jobs (sel w)" by auto
    let ?w2 = "?w1\<lparr>sel := sl1, kern := k_close ?c (kern w)\<rparr>"
    have "pool_list (socks_heap ?w2) (pool ?w2) ps = pool_list (socks_heap w) (pool w) ps"
      by (simp, rule pool_list_cong) (use p in auto)
    then have pl2: "pool_list (socks_heap ?w2) (pool ?w2) ps" "pool_size ?w2 = of_nat (length ps)" using pl by simp_all
    have s2: "socks_heap ?w2 p = Some ?s1" "so_references ?s1 = 1" by simp_all
    from destroy_last [OF s2 pl2 pl(3) p] obtain h' x' ps' where d:
      "socks5_destroy (Some p) ?w2 = Some (?w2\<lparr>socks_heap := h', pool := x', pool_size := of_nat (length ps')\<rparr>)"
      "pool_list h' x' ps'" "length ps' \<le> 50" "\<forall>q. q \<noteq> p \<longrightarrow> h' q = socks_heap ?w2 q" "ps' = p # ps \<or> ps' = ps" by blast
    have r2: "full_sel (sel ?w2)" "regs (sel ?w2) ?og = Some (socks5_handler, oi, Some (Socks_Ptr p))" using sl1 ro by simp_all
    from unregister_run [OF H r2 d(1)] obtain sl where sl:
      "selector_unregister_fd H ?og ?w2 = Some (SELECTOR_SUCCESS, ?w2\<lparr>socks_heap := h', pool := x', pool_size := of_nat (length ps'), sel := sl\<rparr>)"
      "full_sel sl" "regs sl = (regs (sel ?w2))(?og := None)" "resolution_jobs sl = resolution_jobs (sel ?w2)" by auto
    let ?k = "k_close ?og (k_close ?c (kern w))"
    have "close_fds H [?c, ?og] w = Some (w\<lparr>socks_heap := h', pool := x', pool_size := of_nat (length ps'), sel := sl, kern := ?k\<rparr>)"
      using sl1(1) sl(1) ne False by (simp add: put_socks_def)
    moreover have "regs sl = (regs (sel w))(?c := None, ?og := None)" using sl(3) sl1(3) by simp
    moreover have "set (k_open ?k) = set (k_open (kern w)) - {?c, ?og} \<union> ({-1} \<inter> set (k_open (kern w)))"
      using ne False by (auto simp: k_close_def)
    ultimately show ?thesis using d(2-5) sl sl1(4)
      by (intro exI [of _ h'] exI [of _ x'] exI [of _ ps'] exI [of _ sl] exI [of _ ?k]) (simp add: k_close_def)
  qed
qed

section \<open>The rest of the server\<close>

text \<open>The counter of the sessions does not wrap: there are no more sessions than descriptors.\<close>

lemma active_bound:
  assumes w: "world g w" and a: "\<forall>q \<in> set (active g). \<exists>s i. socks_heap w q = Some s \<and> regs (sel w) (so_client_fd s) = Some (socks5_handler, i, Some (Socks_Ptr q))"
  shows "length (active g) \<le> ITEMS_MAX_SIZE"
proof -
  let ?f = "\<lambda>q. nat (so_client_fd (the (socks_heap w q)))"
  have fs: "full_sel (sel w)" using w by (simp add: world_def)
  have legal: "\<not> INVALID_FD (so_client_fd (the (socks_heap w q)))" if q: "q \<in> set (active g)" for q
    using a q sel.entry_legal [OF fs, of "so_client_fd (the (socks_heap w q))"] by fastforce
  have "inj_on ?f (set (active g))"
  proof (rule inj_onI)
    fix q q' assume q: "q \<in> set (active g)" "q' \<in> set (active g)" "?f q = ?f q'"
    then have "so_client_fd (the (socks_heap w q)) = so_client_fd (the (socks_heap w q'))"
      using legal [OF q(1)] legal [OF q(2)] by (auto simp: INVALID_FD_def nat_eq_iff)
    moreover obtain t i where "socks_heap w q = Some t" "regs (sel w) (so_client_fd t) = Some (socks5_handler, i, Some (Socks_Ptr q))" using a q(1) by blast
    moreover obtain t' i' where "socks_heap w q' = Some t'" "regs (sel w) (so_client_fd t') = Some (socks5_handler, i', Some (Socks_Ptr q'))" using a q(2) by blast
    ultimately show "q = q'" by simp
  qed
  moreover have "?f ` set (active g) \<subseteq> {..< ITEMS_MAX_SIZE}"
    using legal by (fastforce simp: INVALID_FD_def)
  ultimately have "card (set (active g)) \<le> card {..< ITEMS_MAX_SIZE}" by (intro card_inj_on_le) auto
  moreover have "distinct (active g)" using w by (simp add: world_def)
  ultimately show ?thesis by (simp add: distinct_card)
qed

lemma own_active_bound: "own g p s ci oi d w \<Longrightarrow> length (active g) \<le> ITEMS_MAX_SIZE"
proof (rule active_bound)
  assume o: "own g p s ci oi d w"
  show "world g w" by (rule ownD(1) [OF o])
  show "\<forall>q \<in> set (active g). \<exists>s i. socks_heap w q = Some s \<and> regs (sel w) (so_client_fd s) = Some (socks5_handler, i, Some (Socks_Ptr q))"
  proof
    fix q assume q: "q \<in> set (active g)"
    show "\<exists>s i. socks_heap w q = Some s \<and> regs (sel w) (so_client_fd s) = Some (socks5_handler, i, Some (Socks_Ptr q))"
    proof (cases "q = p")
      case True
      then show ?thesis using ownD(3) [OF o] own_fds(7) [OF o] by auto
    next
      case False
      then show ?thesis using ownD(8) [OF o q] by (auto simp: alive_def settled_def registered_def)
    qed
  qed
qed

text \<open>The session is gone, and everything else is as it was.\<close>

lemma world_drop:
  assumes o: "own g p s ci oi False w"
    and sl: "full_sel (sel w')" "resolution_jobs (sel w') = resolution_jobs (sel w)"
      "regs (sel w') = (regs (sel w))(so_client_fd s := None, so_origin_fd s := None)"
    and h: "\<And>q. q \<noteq> p \<Longrightarrow> map_option strip (socks_heap w' q) = map_option strip (socks_heap w q)"
    and l: "dll (socks_heap w') None (g_active_head w') (pre @ post)" "active g = pre @ p # post" "socks_active w' = of_nat (length (pre @ post))"
    and pl: "pool_list (socks_heap w') (pool w') ps" "pool_size w' = of_nat (length ps)" "length ps \<le> 50" "ps = p # pooled g \<or> ps = pooled g"
    and k: "k_rx (kern w') = k_rx (kern w)" "k_tx (kern w') = k_tx (kern w)" "k_peer (kern w') = k_peer (kern w)"
      "set (k_open (kern w)) - {so_client_fd s, so_origin_fd s} \<subseteq> set (k_open (kern w'))"
    and same: "next_ptr w' = next_ptr w" "g_users w' = g_users w" "g_dns_worker w' = g_dns_worker w" "dns_thread w' = dns_thread w"
      "mng_heap w' = mng_heap w" "socks_fd w' = socks_fd w" "mng_fd w' = mng_fd w"
  shows "sound (g\<lparr>active := pre @ post, pooled := ps\<rparr>) w'"
proof -
  let ?g = "g\<lparr>active := pre @ post, pooled := ps\<rparr>"
  note a = ownD [OF o]
  note W = a(1) [unfolded world_def]
  have dist: "distinct (pre @ p # post)" "set (pre @ p # post) \<inter> set (pooled g) = {}" "distinct (pooled g)" using W l(2) by auto
  have mem: "q \<in> set (active g)" "q \<noteq> p" if "q \<in> set (pre @ post)" for q using that l(2) dist(1) by auto
  have fq: "fds_of w' q = fds_of w q" if "q \<noteq> p" for q
    using h [OF that] by (cases "socks_heap w q"; cases "socks_heap w' q") (auto simp: fds_of_def dest: strip_same(1,2))
  have fp: "fds_of w p = Some (so_client_fd s, so_origin_fd s)" using a(3) by (simp add: fds_of_def)
  have ow: "owed ?g w' = owed g w" using owed_cong [OF same(3,4), of g] by (simp add: owed_def)
  have free: "so_client_fd s \<notin> set (owed g w)" using a(7) by blast
  have hand: "in_hand w' = in_hand w" using same(4) by (simp add: in_hand_def)
  have dn: "dns_ok g w" using W by simp
  have keep: "p' \<in> set (pre @ post) \<and> fds_of w' p' = Some (fd, og)"
    if "p' \<in> set (active g)" "fds_of w p' = Some (fd, og)" "fd \<in> set (owed g w)" for p' fd og
  proof -
    have "p' \<noteq> p" using that free fp by auto
    then show ?thesis using that fq l(2) by auto
  qed
  have "dns_ok ?g w'"
  proof -
    have jobs: "job_ok ?g w' d j" if "job_ok g w d j" "g_dns_worker w = Some d" "j \<in> set (queued g @ in_hand w)" for d j
    proof -
      from that(1) obtain job og where j: "w_jobs d j = Some job" "j_target job \<in> set (active g)" "fds_of w (j_target job) = Some (j_fd job, og)"
        by (auto simp: job_ok_def)
      have "job_fd w j = j_fd job" using j(1) that(2) by (simp add: job_fd_def)
      moreover have "job_fd w j \<in> set (owed g w)" using that(3) by (auto simp: owed_def)
      ultimately have "j_fd job \<in> set (owed g w)" by simp
      then show ?thesis using keep [OF j(2,3)] j(1) by (auto simp: job_ok_def)
    qed
    moreover have "\<exists>p \<in> set (active ?g). \<exists>og. fds_of w' p = Some (fd, og)" if fd: "fd \<in> set (owed g w)" for fd
    proof -
      from dn fd obtain p' og where p': "p' \<in> set (active g)" "fds_of w p' = Some (fd, og)" by (auto simp: dns_ok_def)
      then show ?thesis using keep [OF p' fd] by auto
    qed
    ultimately show ?thesis using dn unfolding dns_ok_def ow hand same(3) by (cases "g_dns_worker w") auto
  qed
  moreover have "fd \<in> set (k_open (kern w')) \<and> owner_ok ?g w' fd hh i x" if r: "regs (sel w') fd = Some (hh, i, x)" for fd hh i x
  proof -
    have fd: "fd \<noteq> so_client_fd s" "fd \<noteq> so_origin_fd s" "regs (sel w) fd = Some (hh, i, x)" using r sl(3) by (auto split: if_splits)
    then have "fd \<in> set (k_open (kern w))" "owner_ok g w fd hh i x" using W by auto
    moreover have "owner_ok ?g w' fd hh i x" if "owner_ok g w fd hh i x"
    proof (cases hh)
      case socks5_handler
      with that obtain q c og where q: "q \<in> set (active g)" "x = Some (Socks_Ptr q)" "fds_of w q = Some (c, og)" "fd = c \<or> fd = og"
        by (auto simp: owner_ok_def socks_reg_def)
      then have "q \<noteq> p" using fp fd by auto
      then show ?thesis using q fq [of q] l(2) socks5_handler by (auto simp: owner_ok_def socks_reg_def)
    qed (use that same in \<open>simp_all add: owner_ok_def mng_reg_def\<close>)
    ultimately show ?thesis using fd(1,2) k(4) by auto
  qed
  moreover have "q < next_ptr w'" if "socks_heap w' q \<noteq> None" for q
  proof (cases "q = p")
    case True
    then show ?thesis using W a(3) same(1) by auto
  next
    case False
    then have "socks_heap w q \<noteq> None" using h [OF False] that by (cases "socks_heap w q") auto
    then show ?thesis using W same(1) by auto
  qed
  moreover have "distinct ((pre @ post) @ ps)" using dist pl(4) by auto
  moreover have "resolution_jobs (sel w') = finished g" "\<forall>u. g_users w' = Some u \<longrightarrow> users_wf u" using W sl(2) same(2) by auto
  moreover have "listens w'"
  proof (rule listens_frame [of w])
    fix fd h assume h: "h \<noteq> socks5_handler" and r: "regs (sel w) fd = Some (h, OP_READ, None)"
    have "regs (sel w) (-1) = None" using sel.entry_legal [OF a(9), of "-1"] by (cases "regs (sel w) (-1)") (auto simp: INVALID_FD_def)
    then have "fd \<noteq> so_client_fd s" "fd \<noteq> so_origin_fd s" using h r own_fds(7,8) [OF o] by (cases "so_origin_fd s = -1"; auto)+
    then show "regs (sel w') fd = Some (h, OP_READ, None)" using r sl(3) by simp
  qed (use W same in simp_all)
  ultimately have "world ?g w'" using sl(1) l(1,3) pl(1-3) by (simp add: world_def)
  moreover have "alive ?g w' q" if q: "q \<in> set (pre @ post)" for q
  proof (rule alive_relinked [OF a(8) [OF mem [OF q]] h [OF mem(2) [OF q]]])
    fix t assume t: "socks_heap w q = Some t"
    note f = other_fds [OF o mem [OF q] t]
    show "regs (sel w') (so_client_fd t) = regs (sel w) (so_client_fd t)
      \<and> (so_origin_fd t \<noteq> -1 \<longrightarrow> regs (sel w') (so_origin_fd t) = regs (sel w) (so_origin_fd t))
      \<and> talk_of t (kern w') = talk_of t (kern w)
      \<and> (so_client_fd t \<in> set (owed ?g w') \<longrightarrow> so_client_fd t \<in> set (owed g w))"
      using f ow k(1-3) sl(3) by (auto simp: talk_of_def)
  qed
  ultimately show ?thesis by (simp add: sound_def)
qed

text \<open>What \<^verbatim>\<open>socksv5_done\<close> leaves.\<close>

definition dropped :: "ghost \<Rightarrow> nat \<Rightarrow> socks5 \<Rightarrow> proxy \<Rightarrow> proxy \<Rightarrow> bool" where
  "dropped g p s w w' \<longleftrightarrow> (\<exists>pre post ps. active g = pre @ p # post \<and> sound (g\<lparr>active := pre @ post, pooled := ps\<rparr>) w')
     \<and> regs (sel w') = (regs (sel w))(so_client_fd s := None, so_origin_fd s := None)
     \<and> so_client_fd s \<notin> set (k_open (kern w')) \<and> (so_origin_fd s \<noteq> -1 \<longrightarrow> so_origin_fd s \<notin> set (k_open (kern w')))"

lemma socksv5_done_ok:
  assumes H: "socks_host_ok H" and o: "own g p s ci oi False w"
  shows "returns (socksv5_done H p w) (dropped g p s w)"
proof -
  obtain w1 e where w1: "socks5_log_event p w = Some w1" and o1: "own g p (s\<lparr>so_log_emitted := e\<rparr>) ci oi False w1" and k1: "kern w1 = kern w" "sel w1 = sel w"
    using socks5_log_event_ok [OF o] by blast
  let ?s1 = "s\<lparr>so_log_emitted := e\<rparr>"
  note a = ownD [OF o1]
  note W = a(1) [unfolded world_def]
  obtain pre post where act: "active g = pre @ p # post" using a(2) by (metis split_list)
  have dl: "dll (socks_heap w1) None (g_active_head w1) (pre @ p # post)" "distinct (pre @ p # post)" using W act by auto
  from active_list_remove_ok [OF dl] a(3) obtain h2 where h2: "active_list_remove p w1 = Some (w1\<lparr>socks_heap := h2, g_active_head := first (pre @ post) None\<rparr>)"
    "dll h2 None (first (pre @ post) None) (pre @ post)" "h2 p = Some (strip ?s1)" "relinked (socks_heap w1) h2" by auto
  have len: "length (pre @ p # post) \<le> ITEMS_MAX_SIZE" using own_active_bound [OF o1] act by simp
  have cnt: "socks_active w1 = of_nat (Suc (length (pre @ post)))" using W act by simp
  have pos: "socks_active w1 > 0"
  proof -
    have "unat (socks_active w1) = Suc (length (pre @ post))" unfolding cnt using len by (simp add: unat_of_nat del: of_nat_Suc of_nat_add)
    then show ?thesis by (simp add: word_less_nat_alt)
  qed
  let ?n = "of_nat (length (pre @ post)) :: u32"
  have dec: "socks_active w1 - 1 = ?n" unfolding cnt by simp
  let ?w3 = "count metrics_conn_closed (w1\<lparr>socks_heap := h2, g_active_head := first (pre @ post) None, socks_active := ?n\<rparr>)"
  have e3: "so_client_fd (strip ?s1) = so_client_fd s" "so_origin_fd (strip ?s1) = so_origin_fd s" by (simp_all add: strip_def)
  have pl: "pool_list (socks_heap ?w3) (pool ?w3) (pooled g)" "pool_size ?w3 = of_nat (length (pooled g))" "length (pooled g) \<le> 50" "p \<notin> set (pooled g)"
    using W pool_list_relinked [OF h2(4), of "pool w1" "pooled g"] act by (auto simp: count_def)
  have x: "socks_heap ?w3 p = Some (strip ?s1)" "held (strip ?s1) False" "full_sel (sel ?w3)" "registered p (strip ?s1) ci oi (regs (sel ?w3))"
    using h2(3) a(5,6,9) by (simp_all add: held_def registered_def strip_def)
  have sels: "socks_heap ?w3 = h2" "sel ?w3 = sel w1" "kern ?w3 = kern w1" by simp_all
  from close_fds_ok [OF H x pl, unfolded e3 sels] obtain h' x' ps' sl k' where f: "close_fds H [so_client_fd s, so_origin_fd s] ?w3
      = Some (?w3\<lparr>socks_heap := h', pool := x', pool_size := of_nat (length ps'), sel := sl, kern := k'\<rparr>)"
    "pool_list h' x' ps'" "length ps' \<le> 50" "\<forall>q. q \<noteq> p \<longrightarrow> h' q = h2 q" "ps' = p # pooled g \<or> ps' = pooled g"
    "full_sel sl" "resolution_jobs sl = resolution_jobs (sel w1)" "regs sl = (regs (sel w1))(so_client_fd s := None, so_origin_fd s := None)"
    "k_rx k' = k_rx (kern w1)" "k_tx k' = k_tx (kern w1)" "k_peer k' = k_peer (kern w1)"
    "set (k_open k') = set (k_open (kern w1)) - {so_client_fd s, so_origin_fd s} \<union> ({-1} \<inter> set (k_open (kern w1)))" by - (elim exE conjE, rule that, assumption+)
  let ?w4 = "?w3\<lparr>socks_heap := h', pool := x', pool_size := of_nat (length ps'), sel := sl, kern := k'\<rparr>"
  have run: "socksv5_done H p w = Some ?w4"
    using w1 h2(1) f(1) pos dec h2(3) e3 by (simp add: socksv5_done_def Let_def del: close_fds.simps of_nat_add length_append)
  have "dll h' None (first (pre @ post) None) (pre @ post) = dll h2 None (first (pre @ post) None) (pre @ post)"
    by (rule dll_cong) (use f(4) dl(2) in auto)
  then have "sound (g\<lparr>active := pre @ post, pooled := ps'\<rparr>) ?w4" using h2(2)
    by (intro world_drop [OF o1 _ _ _ _ _ act _ _ _ f(3,5)]) (use f h2(4) in \<open>auto simp: relinked_def count_def\<close>)
  moreover have "so_client_fd s \<noteq> -1" using own_fds(1) [OF o] by simp
  ultimately show ?thesis using run act f(8,12) k1 by (auto simp: dropped_def)
qed

end
