(* ===== verification/Socks5_Handlers.thy ===== *)
theory Socks5_Handlers
  imports Socks5_Release
begin

text \<open>
  The handlers of a session keep the invariant of the server: the read, write and block handlers that the
  selector calls, each an event of the state machine, the loop that carries on, and the release.
\<close>

section \<open>Into a handler and out of it\<close>

lemma sound_own:
  assumes s: "sound g w" and p: "p \<in> set (active g)"
  obtains s ci oi where "own g p s ci oi (so_current s = Some REQUEST_RESOLV) w" "settled g p s ci oi w"
proof -
  obtain s ci oi where a: "socks_heap w p = Some s" "settled g p s ci oi w" using s p by (auto simp: sound_def alive_def)
  then have "own g p s ci oi (so_current s = Some REQUEST_RESOLV) w" using s p unfolding own_def settled_def sound_def by blast
  then show thesis using a(2) that by blast
qed

lemma settledD:
  assumes "settled g p s ci oi w"
  shows "at (so_current s) s ci oi (talk_of s (kern w))" "so_current s \<noteq> Some DONE" "so_current s \<noteq> Some ERROR"
    "so_client_fd s \<in> set (owed g w) \<Longrightarrow> so_current s = Some REQUEST_RESOLV"
  using assms unfolding settled_def by blast+

lemma own_sound:
  assumes o: "own g p s ci oi (so_current s = Some REQUEST_RESOLV) w" and at: "at (so_current s) s ci oi (talk_of s (kern w))"
    and live: "so_current s \<noteq> Some DONE" "so_current s \<noteq> Some ERROR"
    and rd: "so_current s \<in> {Some HELLO_READ, Some AUTH_READ, Some REQUEST_READ} \<Longrightarrow> rb s = []"
  shows "sound g w"
proof -
  have "settled g p s ci oi w" unfolding settled_def using ownD(4-7) [OF o] at live rd by blast
  then have "alive g w p" using ownD(3) [OF o] by (auto simp: alive_def)
  then show ?thesis using ownD(1,8) [OF o] unfolding sound_def by blast
qed

text \<open>A descriptor keeps its session or is not registered any more.\<close>

definition kept :: "int \<Rightarrow> nat \<Rightarrow> proxy \<Rightarrow> bool" where
  "kept fd p w \<longleftrightarrow> (\<forall>h i d. regs (sel w) fd = Some (h, i, d) \<longrightarrow> d = Some (Socks_Ptr p))"

lemma dropped_inv: "dropped g p s w w' \<Longrightarrow> proxy_inv (pending g) (finished g) w'"
  by (auto simp: dropped_def proxy_inv_def)

lemma finish_ok:
  assumes H: "socks_host_ok H" and q: "quiet js fs p c (st, w)"
  shows "returns (socksv5_finish H reason p st w) (\<lambda>w'. proxy_inv js fs w' \<and> kept c p w'
    \<and> (\<forall>fd h i d. regs (sel w') fd = Some (h, i, d) \<longrightarrow> w' = w \<or> regs (sel w) fd = Some (h, i, d)))"
proof -
  from q have le: "st \<le> ERROR" and "session js fs p c (st = REQUEST_RESOLV) (\<lambda>s ci oi T. so_current s = Some st \<and> at (Some st) s ci oi T \<and> (reading st \<longrightarrow> rb s = [])) w"
    by (auto simp: quiet_def)
  then obtain g s ci oi where g: "pending g = js" "finished g = fs" and o: "own g p s ci oi (st = REQUEST_RESOLV) w" and c: "so_client_fd s = c"
    and a: "so_current s = Some st" "at (Some st) s ci oi (talk_of s (kern w))" "reading st \<longrightarrow> rb s = []" by (elim sessionE) blast
  show ?thesis
  proof (cases "st = ERROR \<or> st = DONE")
    case False
    have "sound g w" by (rule own_sound [of g p s ci oi]) (use o a False in \<open>simp_all add: reading_def del: at.simps\<close>)
    moreover have "kept c p w" using own_fds(7) [OF o] c by (simp add: kept_def)
    ultimately show ?thesis using False g by (auto simp: socksv5_finish_def proxy_inv_def)
  next
    case True
    then have o': "own g p s ci oi False w" using o by auto
    obtain f where f: "upd_socks p (socks5_set_failure reason) w = Some (put_socks p (s\<lparr>so_failure := f\<rparr>) w)"
      "own g p (s\<lparr>so_failure := f\<rparr>) ci oi False (put_socks p (s\<lparr>so_failure := f\<rparr>) w)" by (rule own_failure [OF o'])
    obtain s1 w1 where w1: "(if st = ERROR then upd_socks p (socks5_set_failure reason) w else Some w) = Some w1" "own g p s1 ci oi False w1"
      "so_client_fd s1 = c" "sel w1 = sel w"
    proof (cases "st = ERROR")
      case True
      then show ?thesis using that [of "put_socks p (s\<lparr>so_failure := f\<rparr>) w" "s\<lparr>so_failure := f\<rparr>"] f c by simp
    next
      case False
      then show ?thesis using that [of w s] o' c by simp
    qed
    from socksv5_done_ok [OF H w1(2)] obtain w' where w': "socksv5_done H p w1 = Some w'" "dropped g p s1 w1 w'" by (auto simp: returns_iff)
    have "regs (sel w') = (regs (sel w))(so_client_fd s1 := None, so_origin_fd s1 := None)" using w'(2) w1(4) by (simp add: dropped_def)
    then show ?thesis using True w1(1,3) w'(1) dropped_inv [OF w'(2)] g by (auto simp: socksv5_finish_def kept_def split: if_splits)
  qed
qed

section \<open>Registrations during the relay\<close>

definition owners :: "(handler, attachment) fdselector \<Rightarrow> int \<Rightarrow> (handler \<times> attachment option) option" where
  "owners s fd = map_option (\<lambda>(h, i, d). (h, d)) (regs s fd)"

definition owners_kept :: "proxy \<Rightarrow> proxy \<Rightarrow> bool" where
  "owners_kept w w' \<longleftrightarrow> (full_sel (sel w) \<longrightarrow> full_sel (sel w') \<and> owners (sel w') = owners (sel w))"

lemma owners_kept_trans: "owners_kept w w1 \<Longrightarrow> owners_kept w1 w2 \<Longrightarrow> owners_kept w w2"
  by (auto simp: owners_kept_def)

lemma owners_kept_sel: "sel w' = sel w \<Longrightarrow> owners_kept w w'"
  by (simp add: owners_kept_def)

lemma interest_owners:
  assumes "socks_interest fd i w = Some (b, w')"
  shows "owners_kept w w'"
proof (cases "INVALID_FD fd")
  case True
  then show ?thesis using assms by (auto simp: socks_interest_def selector_set_interest_def owners_kept_def)
next
  case False
  show ?thesis unfolding owners_kept_def
  proof
    assume "full_sel (sel w)"
    from full_change [OF this False, of i] assms show "full_sel (sel w') \<and> owners (sel w') = owners (sel w)"
      by (auto simp: socks_interest_def returns_prod owners_def fun_eq_iff split: option.splits)
  qed
qed

lemma update_interests_owners: "copy_update_interests p w = Some (b, w') \<Longrightarrow> owners_kept w w'"
  by (auto simp: copy_update_interests_def bind_eq_Some_conv split: if_splits dest!: interest_owners intro: owners_kept_trans)

lemma go_on_owners: "copy_go_on p w = Some (st, w') \<Longrightarrow> owners_kept w w'"
  by (auto simp: copy_go_on_def bind_eq_Some_conv dest: update_interests_owners)

lemma step_end_owners:
  assumes run: "copy_step_end side p w = Some (st, w')"
  shows "owners_kept w w'"
proof -
  obtain s where s: "socks_heap w p = Some s" using run by (auto simp: copy_step_end_def bind_eq_Some_conv)
  obtain ok s' k where sh: "copy_shutdown_write side s (kern w) = Some (ok, s', k)"
    using run s by (auto simp: copy_step_end_def bind_eq_Some_conv)
  let ?w = "put_socks p s' (w\<lparr>kern := k\<rparr>)"
  have same: "owners_kept w ?w" by (rule owners_kept_sel) simp
  then show ?thesis using run s sh owners_kept_trans [OF same go_on_owners, of p st w']
    by (auto simp: copy_step_end_def bind_eq_Some_conv Let_def split: if_splits)
qed

lemma copy_read_owners:
  assumes run: "copy_read key w = Some (st, w')"
  shows "owners_kept w w'"
proof -
  have g: "owners_kept w w'" if "copy_go_on p w1 = Some (st, w')" "sel w1 = sel w" for p w1
    using owners_kept_trans [OF owners_kept_sel [OF that(2)] go_on_owners [OF that(1)]] .
  have e: "owners_kept w w'" if "copy_step_end side p w1 = Some (st, w')" "sel w1 = sel w" for side p w1
    using owners_kept_trans [OF owners_kept_sel [OF that(2)] step_end_owners [OF that(1)]] .
  obtain p s where at: "ATTACHMENT key w = Some (p, s)" using run by (auto simp: copy_read_def bind_eq_Some_conv)
  show ?thesis
  proof (cases "copy_read_state s (k_fd key)")
    case None
    then show ?thesis using run at by (simp add: copy_read_def owners_kept_sel)
  next
    case (Some side)
    obtain c where c: "get_copy side s = Some c" using run at Some by (auto simp: copy_read_def bind_eq_Some_conv)
    define b where "b = (if \<not> buffer_can_write (get_buffer (cp_rb c) s) then buffer_compact (get_buffer (cp_rb c) s) else get_buffer (cp_rb c) s)"
    define s1 where "s1 = put_buffer (cp_rb c) b s"
    have r1: "copy_read key w = (if \<not> buffer_can_write b then copy_go_on p (put_socks p s1 w) else do {
        (ptr, available) \<leftarrow> buffer_write_ptr b;
        let (r, k) = k_recv (cp_read_fd c) available (kern w);
        let w = put_socks p s1 (w\<lparr>kern := k\<rparr>);
        case r of
          Inl e \<Rightarrow> if transient e then copy_go_on p w else Some (ERROR, w)
        | Inr bs \<Rightarrow> do {
            s \<leftarrow> (if bs = [] then Some (put_copy side (c\<lparr>cp_eof := True\<rparr>) s1)
                  else do {
                    b \<leftarrow> buffer_store b bs;
                    b \<leftarrow> buffer_write_adv b (int (length bs));
                    Some ((put_buffer (cp_rb c) b s1)\<lparr>so_last_activity := clock w\<rparr>)
                  });
            copy_step_end side p (put_socks p s w)
          }
      })"
      unfolding copy_read_def at Option.bind_lunit prod.case Some option.case c Let_def b_def s1_def by (rule refl)
    show ?thesis
    proof (cases "buffer_can_write b")
      case False
      then show ?thesis using run r1 g [of p "put_socks p s1 w"] by simp
    next
      case True
      then obtain ptr av where wp: "buffer_write_ptr b = Some (ptr, av)" using run r1 by (auto simp: bind_eq_Some_conv)
      obtain r k where r: "k_recv (cp_read_fd c) av (kern w) = (r, k)" by (cases "k_recv (cp_read_fd c) av (kern w)")
      show ?thesis
      proof (cases r)
        case (Inl err)
        then show ?thesis using run r1 True wp r g [of p "put_socks p s1 (w\<lparr>kern := k\<rparr>)"]
          by (auto simp: owners_kept_sel Let_def split: if_splits)
      next
        case (Inr bs)
        then obtain s2 where "copy_step_end side p (put_socks p s2 (put_socks p s1 (w\<lparr>kern := k\<rparr>))) = Some (st, w')"
          using run unfolding r1 using True wp r by (auto simp: bind_eq_Some_conv Let_def split: if_splits)
        from e [OF this] show ?thesis by simp
      qed
    qed
  qed
qed

text \<open>The event as a whole: the state that comes next has no callback on arrival.\<close>

lemma relay_read_owners:
  assumes o: "own g p s ci oi False w" and key: "k_data key = Some (Socks_Ptr p)" and r: "ready s ci oi (k_fd key) OP_READ"
    and a: "at_copy s ci oi (talk_of s (kern w))" and cur: "so_current s = Some COPY"
    and run: "stm_handler_read (client_stm H p) key w = Some (st, w')"
  shows "owners_kept w w' \<and> COPY \<le> st"
proof -
  have n: "returns (copy_read key w) (next_state (pending g) (finished g) p (so_client_fd s) COPY)"
    by (rule copy_read_ok [OF o key own_ready [OF r] a cur])
  then obtain st1 w1 where w1: "copy_read key w = Some (st1, w1)" "next_state (pending g) (finished g) p (so_client_fd s) COPY (st1, w1)"
    by (auto simp: returns_iff)
  have le: "COPY \<le> st1" "st1 \<le> ERROR" and "session (pending g) (finished g) p (so_client_fd s) (st1 = REQUEST_RESOLV) (after COPY st1) w1"
    using w1(2) by (auto simp: next_state_def)
  then obtain g1 s1 ci1 oi1 where o1: "own g1 p s1 ci1 oi1 (st1 = REQUEST_RESOLV) w1" and cur1: "so_current s1 = Some COPY"
    by (elim sessionE) (auto simp: after_def)
  have copy: "COPY \<le> ERROR" by simp
  have max: "sm_max_state (client_stm H p) = ERROR" by (simp add: client_stm_def)
  have "jump (client_stm H p) st1 key w1 = Some (if st1 = COPY then w1 else put_socks p (s1\<lparr>so_current := Some st1\<rparr>) w1)"
  proof (cases "st1 = COPY")
    case True
    then show ?thesis using cur1 max by (simp add: jump_def client_get [OF o1])
  next
    case False
    then have "st1 = DONE \<or> st1 = ERROR" using le by auto
    then have "on_arrival (client_statbl H ! st1) = None" using client_table(4) [OF le(2), of H] by auto
    then show ?thesis using False le(2) cur1 client_set [OF o1, of H "Some st1"] client_table(1) [OF le(2), of H p] client_table(2) [OF le(2), of H]
        client_table(1) [OF copy, of H p] client_table(3) [OF copy, of H] max
      by (simp add: jump_def client_get [OF o1] run_hook_def)
  qed
  moreover have "stm_handler_read (client_stm H p) key w = do { (ret, w2) \<leftarrow> copy_read key w; w3 \<leftarrow> jump (client_stm H p) ret key w2; Some (ret, w3) }"
    using cur client_callbacks(4) [of H] client_table(1) [OF copy, of H p]
    by (simp add: stm_handler_read_def stm_handle_def handle_first_def client_get [OF o])
  ultimately have "st = st1" "sel w' = sel w1" using run w1(1) by auto
  then show ?thesis using copy_read_owners [OF w1(1)] owners_kept_trans [OF _ owners_kept_sel, of w w1 w'] le(1) by simp
qed

section \<open>The handlers\<close>

lemma registered_ready:
  assumes o: "own g p s ci oi d w" and r: "regs (sel w) fd = Some (h, i, x)" and fd: "fd = so_client_fd s \<or> fd = so_origin_fd s" and i: "ev AND i \<noteq> 0"
  shows "ready s ci oi fd ev"
proof -
  have "fd \<noteq> -1" using sel.entry_legal [OF ownD(9) [OF o], of fd] r by (auto simp: INVALID_FD_def)
  then show ?thesis using fd r i own_fds(7,8) [OF o] by (auto simp: ready_def)
qed

text \<open>A registration of the handler belongs to an active session.\<close>

lemma socks_registration:
  assumes s: "sound g w" and r: "regs (sel w) fd = Some (socks5_handler, i, d)"
  obtains p s ci oi where "p \<in> set (active g)" "d = Some (Socks_Ptr p)" "own g p s ci oi (so_current s = Some REQUEST_RESOLV) w"
    "settled g p s ci oi w" "fd = so_client_fd s \<or> fd = so_origin_fd s"
proof -
  have "owner_ok g w fd socks5_handler i d" using s r by (simp add: sound_def world_def)
  then obtain p c og where p: "p \<in> set (active g)" "d = Some (Socks_Ptr p)" "fds_of w p = Some (c, og)" "fd = c \<or> fd = og"
    by (auto simp: owner_ok_def socks_reg_def)
  obtain s ci oi where o: "own g p s ci oi (so_current s = Some REQUEST_RESOLV) w" "settled g p s ci oi w" by (rule sound_own [OF s p(1)])
  have "fd = so_client_fd s \<or> fd = so_origin_fd s" using p(3,4) ownD(3) [OF o(1)] by (auto simp: fds_of_def)
  then show thesis using that p(1,2) o by blast
qed

text \<open>How far the handlers get: the session is quiet when \<^verbatim>\<open>socksv5_finish\<close> is called.\<close>

lemma read_runs:
  assumes s: "sound g w" and r: "regs (sel w) fd = Some (socks5_handler, i, d)" and i: "OP_READ AND i \<noteq> 0"
  obtains p s ci oi st1 w1 st2 w2 where "d = Some (Socks_Ptr p)" "own g p s ci oi (so_current s = Some REQUEST_RESOLV) w" "settled g p s ci oi w"
    "ready s ci oi fd OP_READ" "stm_handler_read (client_stm H p) \<lparr>k_fd = fd, k_data = d\<rparr> w = Some (st1, w1)" "socks_heap w1 p \<noteq> None"
    "socksv5_pump H p \<lparr>k_fd = fd, k_data = d\<rparr> st1 w1 = Some (st2, w2)" "quiet (pending g) (finished g) p (so_client_fd s) (st2, w2)"
    "socksv5_read H \<lparr>k_fd = fd, k_data = d\<rparr> w = socksv5_finish H ''read error'' p st2 w2"
proof -
  obtain p s ci oi where p: "p \<in> set (active g)" "d = Some (Socks_Ptr p)" and o: "own g p s ci oi (so_current s = Some REQUEST_RESOLV) w"
    and st: "settled g p s ci oi w" and fd: "fd = so_client_fd s \<or> fd = so_origin_fd s" by (rule socks_registration [OF s r])
  let ?key = "\<lparr>k_fd = fd, k_data = d\<rparr>"
  have key: "k_data ?key = Some (Socks_Ptr p)" using p(2) by simp
  have rdy: "ready s ci oi (k_fd ?key) OP_READ" using registered_ready [OF o r fd i] by simp
  note ev = read_event_ok(1) [OF o key settledD(1-3) [OF st] rdy, of H] read_event_ok(2) [OF o key settledD(1-3) [OF st] rdy]
  from ev(1) obtain st1 w1 where e: "stm_handler_read (client_stm H p) ?key w = Some (st1, w1)"
    "rests_at (pending g) (finished g) p (so_client_fd s) (state_of s) (st1, w1)" by (auto simp: returns_iff)
  from pump_ok [OF e(2) key ev(2), of 12 H] obtain st2 w2 where w2: "socksv5_pump H p ?key st1 w1 = Some (st2, w2)"
    "quiet (pending g) (finished g) p (so_client_fd s) (st2, w2)" by (auto simp: returns_iff socksv5_pump_def simp del: pump.simps)
  have "ATTACHMENT ?key w = Some (p, s)" by (rule own_attachment [OF o key])
  then have "socksv5_read H ?key w = socksv5_finish H ''read error'' p st2 w2" using e(1) w2(1) by (simp add: socksv5_read_def)
  moreover have "socks_heap w1 p \<noteq> None" using e(2) by (auto simp: rests_at_def elim!: sessionE dest: ownD(3))
  ultimately show thesis using that [OF p(2) o st _ e(1) _ w2] rdy by simp
qed

lemma socksv5_read_ok:
  assumes H: "socks_host_ok H" and s: "sound g w" and r: "regs (sel w) fd = Some (socks5_handler, i, d)" and i: "OP_READ AND i \<noteq> 0"
  shows "returns (socksv5_read H \<lparr>k_fd = fd, k_data = d\<rparr> w) (\<lambda>w'. proxy_inv (pending g) (finished g) w'
    \<and> (\<forall>h' i' d'. regs (sel w') fd = Some (h', i', d') \<longrightarrow> d' = d))"
proof -
  let ?key = "\<lparr>k_fd = fd, k_data = d\<rparr>"
  obtain p s ci oi st1 w1 st2 w2 where p: "d = Some (Socks_Ptr p)" and o: "own g p s ci oi (so_current s = Some REQUEST_RESOLV) w"
    and st: "settled g p s ci oi w" and rdy: "ready s ci oi fd OP_READ"
    and e: "stm_handler_read (client_stm H p) ?key w = Some (st1, w1)" "socks_heap w1 p \<noteq> None"
    and w2: "socksv5_pump H p ?key st1 w1 = Some (st2, w2)" "quiet (pending g) (finished g) p (so_client_fd s) (st2, w2)"
    and run: "socksv5_read H ?key w = socksv5_finish H ''read error'' p st2 w2" by (rule read_runs [OF s r i])
  from finish_ok [OF H w2(2), of "''read error''"] obtain w3 where w3: "socksv5_finish H ''read error'' p st2 w2 = Some w3"
    "proxy_inv (pending g) (finished g) w3" "kept (so_client_fd s) p w3"
    "\<forall>fd h i d. regs (sel w3) fd = Some (h, i, d) \<longrightarrow> w3 = w2 \<or> regs (sel w2) fd = Some (h, i, d)" by (auto simp: returns_iff)
  have "d' = d" if r': "regs (sel w3) fd = Some (h', i', d')" for h' i' d'
  proof (cases "fd = so_client_fd s")
    case True
    then show ?thesis using w3(3) r' p by (auto simp: kept_def)
  next
    case False
    then have cur: "so_current s = Some COPY" using ready_states(1) [OF settledD(1-3) [OF st] rdy] by auto
    have o': "own g p s ci oi False w" using o cur by simp
    have a: "at_copy s ci oi (talk_of s (kern w))" using settledD(1) [OF st] cur by simp
    have key: "k_data ?key = Some (Socks_Ptr p)" "ready s ci oi (k_fd ?key) OP_READ" using p rdy by simp_all
    from relay_read_owners [OF o' key a cur e(1)] have k: "owners (sel w1) = owners (sel w)" "COPY \<le> st1"
      using ownD(9) [OF o] by (auto simp: owners_kept_def)
    have "w2 = w1" using w2(1) e(2) k(2) by (auto simp: socksv5_pump_def eval_nat_numeral)
    then have "\<exists>i. regs (sel w1) fd = Some (h', i, d')" using w3(4) r' by (cases "w3 = w2") (simp, blast)
    then have "owners (sel w1) fd = Some (h', d')" by (auto simp: owners_def)
    moreover have "owners (sel w) fd = Some (socks5_handler, d)" using r by (simp add: owners_def)
    ultimately show ?thesis using k(1) by simp
  qed
  then show ?thesis using run w3(1,2) by simp
qed

lemma write_runs:
  assumes H: "socks_host_ok H" and s: "sound g w" and r: "regs (sel w) fd = Some (socks5_handler, i, d)" and i: "OP_WRITE AND i \<noteq> 0"
  obtains p s ci oi st1 w1 st2 w2 where "d = Some (Socks_Ptr p)" "own g p s ci oi (so_current s = Some REQUEST_RESOLV) w"
    "stm_handler_write (client_stm H p) \<lparr>k_fd = fd, k_data = d\<rparr> w = Some (st1, w1)"
    "socksv5_pump H p \<lparr>k_fd = fd, k_data = d\<rparr> st1 w1 = Some (st2, w2)" "quiet (pending g) (finished g) p (so_client_fd s) (st2, w2)"
    "socksv5_write H \<lparr>k_fd = fd, k_data = d\<rparr> w = socksv5_finish H ''write error'' p st2 w2"
proof -
  obtain p s ci oi where p: "p \<in> set (active g)" "d = Some (Socks_Ptr p)" and o: "own g p s ci oi (so_current s = Some REQUEST_RESOLV) w"
    and st: "settled g p s ci oi w" and fd: "fd = so_client_fd s \<or> fd = so_origin_fd s" by (rule socks_registration [OF s r])
  let ?key = "\<lparr>k_fd = fd, k_data = d\<rparr>"
  have key: "k_data ?key = Some (Socks_Ptr p)" using p(2) by simp
  have rdy: "ready s ci oi (k_fd ?key) OP_WRITE" using registered_ready [OF o r fd i] by simp
  note ev = write_event_ok [OF H o key settledD(1-3) [OF st] rdy]
  from ev(1) obtain st1 w1 where e: "stm_handler_write (client_stm H p) ?key w = Some (st1, w1)"
    "rests_at (pending g) (finished g) p (so_client_fd s) (state_of s) (st1, w1)" by (auto simp: returns_iff)
  from pump_ok [OF e(2) key ev(2), of 12 H] obtain st2 w2 where w2: "socksv5_pump H p ?key st1 w1 = Some (st2, w2)"
    "quiet (pending g) (finished g) p (so_client_fd s) (st2, w2)" by (auto simp: returns_iff socksv5_pump_def simp del: pump.simps)
  have "ATTACHMENT ?key w = Some (p, s)" by (rule own_attachment [OF o key])
  then have "socksv5_write H ?key w = socksv5_finish H ''write error'' p st2 w2" using e(1) w2(1) by (simp add: socksv5_write_def)
  then show thesis using that [OF p(2) o e(1) w2] by simp
qed

lemma socksv5_write_ok:
  assumes H: "socks_host_ok H" and s: "sound g w" and r: "regs (sel w) fd = Some (socks5_handler, i, d)" and i: "OP_WRITE AND i \<noteq> 0"
  shows "returns (socksv5_write H \<lparr>k_fd = fd, k_data = d\<rparr> w) (proxy_inv (pending g) (finished g))"
proof -
  obtain p s ci oi st1 w1 st2 w2 where "d = Some (Socks_Ptr p)" "own g p s ci oi (so_current s = Some REQUEST_RESOLV) w"
    "stm_handler_write (client_stm H p) \<lparr>k_fd = fd, k_data = d\<rparr> w = Some (st1, w1)"
    "socksv5_pump H p \<lparr>k_fd = fd, k_data = d\<rparr> st1 w1 = Some (st2, w2)" and q: "quiet (pending g) (finished g) p (so_client_fd s) (st2, w2)"
    and run: "socksv5_write H \<lparr>k_fd = fd, k_data = d\<rparr> w = socksv5_finish H ''write error'' p st2 w2" by (rule write_runs [OF H s r i])
  show ?thesis unfolding run by (rule returns_mono [OF finish_ok [OF H q]]) simp
qed

text \<open>The block handler, called for the first of the jobs that are still to be handed out.\<close>

lemma owed_next: "pending g = j # js \<Longrightarrow> set (owed (g\<lparr>pending := js\<rparr>) w) \<subseteq> set (owed g w) \<and> (distinct (owed g w) \<longrightarrow>
    j \<in> set (owed g w) \<and> j \<notin> set (owed (g\<lparr>pending := js\<rparr>) w) \<and> distinct (owed (g\<lparr>pending := js\<rparr>) w))"
  by (auto simp: owed_def)

lemma own_next_job:
  assumes o: "own g p s ci oi True w" and p: "pending g = j # js"
  shows "own (g\<lparr>pending := js\<rparr>) p s ci oi True w"
proof -
  let ?g = "g\<lparr>pending := js\<rparr>"
  note a = ownD [OF o]
  have dn: "dns_ok g w" using a(1) by (simp add: world_def)
  have ow: "set (owed ?g w) \<subseteq> set (owed g w)" "distinct (owed ?g w)" using owed_next [OF p] dn by (auto simp: dns_ok_def)
  have "dns_ok ?g w" using dn ow by (auto simp: dns_ok_def job_ok_def split: option.splits)
  moreover have "owner_ok ?g w = owner_ok g w" by (simp add: owner_ok_def socks_reg_def fun_eq_iff split: handler.split)
  ultimately have "world ?g w" using a(1) by (simp add: world_def)
  moreover have "alive ?g w q" if "alive g w q" for q by (rule alive_frame [OF that]) (use ow in auto)
  ultimately show ?thesis using o by (simp add: own_def)
qed

lemma block_runs:
  assumes s: "sound g w" and j: "pending g = j # js" and r: "regs (sel w) j = Some (h, i, d)"
  obtains p s ci oi st1 w1 where "h = socks5_handler" "d = Some (Socks_Ptr p)" "own g p s ci oi True w"
    "stm_handler_block (client_stm H p) \<lparr>k_fd = j, k_data = d\<rparr> w = Some (st1, w1)" "quiet js (finished g) p j (st1, w1)"
    "socksv5_block H \<lparr>k_fd = j, k_data = d\<rparr> w = socksv5_finish H ''block error'' p st1 w1"
proof -
  have dn: "dns_ok g w" using s by (simp add: sound_def world_def)
  then have jo: "j \<in> set (owed g w)" "j \<notin> set (owed (g\<lparr>pending := js\<rparr>) w)" using owed_next [OF j] by (auto simp: dns_ok_def)
  then obtain p og where p: "p \<in> set (active g)" "fds_of w p = Some (j, og)" using dn by (auto simp: dns_ok_def)
  obtain s ci oi where o: "own g p s ci oi (so_current s = Some REQUEST_RESOLV) w" and st: "settled g p s ci oi w" by (rule sound_own [OF s p(1)])
  have fd: "so_client_fd s = j" using p(2) ownD(3) [OF o] by (simp add: fds_of_def)
  have cur: "so_current s = Some REQUEST_RESOLV" using settledD(4) [OF st] jo(1) fd by simp
  then have o0: "own g p s ci oi True w" using o by simp
  have d: "h = socks5_handler" "d = Some (Socks_Ptr p)" using own_fds(7) [OF o] r fd by auto
  let ?g = "g\<lparr>pending := js\<rparr>"
  let ?key = "\<lparr>k_fd = j, k_data = d\<rparr>"
  have key: "k_data ?key = Some (Socks_Ptr p)" "k_fd ?key = so_client_fd s" using d fd by simp_all
  have o1: "own ?g p s ci oi True w" by (rule own_next_job [OF o0 j])
  have a: "at_resolv s ci (talk_of s (kern w))" using settledD(1) [OF st] cur by simp
  from block_event_ok [OF o1 key a cur, of H] jo(2) fd obtain st1 w1 where e: "stm_handler_block (client_stm H p) ?key w = Some (st1, w1)"
    "rests_at js (finished g) p j REQUEST_RESOLV (st1, w1)" by (auto simp: returns_iff)
  have "quiet js (finished g) p j (st1, w1)"
  proof -
    have le: "REQUEST_RESOLV \<le> st1" "st1 \<le> ERROR" "session js (finished g) p j (st1 = REQUEST_RESOLV) (rests REQUEST_RESOLV st1) w1"
      using e(2) by (auto simp: rests_at_def)
    have "\<not> reading st1" "\<not> reading REQUEST_RESOLV" using le(1) by (auto simp: reading_def)
    then have "rests REQUEST_RESOLV st1 = (\<lambda>s ci oi T. so_current s = Some st1 \<and> at (Some st1) s ci oi T \<and> (reading st1 \<longrightarrow> rb s = []))"
      by (simp add: rests_def fun_eq_iff del: at.simps)
    then show ?thesis using le(2,3) by (simp add: quiet_def del: at.simps)
  qed
  moreover have "ATTACHMENT ?key w = Some (p, s)" by (rule own_attachment [OF o key(1)])
  then have "socksv5_block H ?key w = socksv5_finish H ''block error'' p st1 w1" using e(1) by (simp add: socksv5_block_def)
  ultimately show thesis using that [OF d o0 e(1)] by simp
qed

lemma socksv5_block_ok:
  assumes H: "socks_host_ok H" and s: "sound g w" and j: "pending g = j # js" and r: "regs (sel w) j = Some (h, i, d)"
  shows "h = socks5_handler" and "returns (socksv5_block H \<lparr>k_fd = j, k_data = d\<rparr> w) (proxy_inv js (finished g))"
proof -
  show "h = socks5_handler" by (rule block_runs [OF s j r])
  obtain p s ci oi st1 w1 where "h = socks5_handler" "d = Some (Socks_Ptr p)" "own g p s ci oi True w"
    "stm_handler_block (client_stm H p) \<lparr>k_fd = j, k_data = d\<rparr> w = Some (st1, w1)" and q: "quiet js (finished g) p j (st1, w1)"
    and run: "socksv5_block H \<lparr>k_fd = j, k_data = d\<rparr> w = socksv5_finish H ''block error'' p st1 w1" by (rule block_runs [OF s j r])
  show "returns (socksv5_block H \<lparr>k_fd = j, k_data = d\<rparr> w) (proxy_inv js (finished g))" unfolding run by (rule returns_mono [OF finish_ok [OF H q]]) simp
qed

end
