(* ===== verification/Socks5_Accept.thy ===== *)
theory Socks5_Accept
  imports Socks5_Handlers
begin

text \<open>
  New sessions and timeouts: the accepting handler adds a session to the invariant or leaves it alone, and the
  sweep walks the list of the active sessions while it takes some of them out.
\<close>

section \<open>Frames\<close>

lemma soundD:
  assumes "sound g w"
  shows "world g w" "full_sel (sel w)" "\<And>q. q \<in> set (active g) \<Longrightarrow> alive g w q"
  using assms by (auto simp: sound_def world_def)

lemma aliveD:
  assumes "alive g w q" "socks_heap w q = Some s"
  shows "regs (sel w) (so_client_fd s) \<noteq> None" "so_origin_fd s \<noteq> -1 \<Longrightarrow> regs (sel w) (so_origin_fd s) \<noteq> None"
  using assms by (auto simp: alive_def settled_def registered_def)

text \<open>System calls that do not touch a registered descriptor.\<close>

lemma sound_kern:
  assumes s: "sound g w" and op: "\<And>f. f \<in> set (k_open (kern w)) \<Longrightarrow> regs (sel w) f \<noteq> None \<Longrightarrow> f \<in> set (k_open k)"
    and tr: "\<And>f. f = -1 \<or> regs (sel w) f \<noteq> None \<Longrightarrow> k_rx k f = k_rx (kern w) f \<and> k_tx k f = k_tx (kern w) f \<and> k_peer k f = k_peer (kern w) f"
  shows "sound g (w\<lparr>kern := k\<rparr>)"
proof -
  have ow: "owed g (w\<lparr>kern := k\<rparr>) = owed g w" by (rule owed_cong) simp_all
  have "alive g (w\<lparr>kern := k\<rparr>) q" if q: "q \<in> set (active g)" for q
  proof (rule alive_frame [OF soundD(3) [OF s q]])
    fix t assume t: "socks_heap w q = Some t"
    note r = aliveD [OF soundD(3) [OF s q] t]
    have "talk_of t k = talk_of t (kern w)" using tr [of "so_client_fd t"] tr [of "so_origin_fd t"] r by (cases "so_origin_fd t = -1") (auto simp: talk_of_def)
    then show "regs (sel (w\<lparr>kern := k\<rparr>)) (so_client_fd t) = regs (sel w) (so_client_fd t)
      \<and> (so_origin_fd t \<noteq> -1 \<longrightarrow> regs (sel (w\<lparr>kern := k\<rparr>)) (so_origin_fd t) = regs (sel w) (so_origin_fd t))
      \<and> talk_of t (kern (w\<lparr>kern := k\<rparr>)) = talk_of t (kern w)
      \<and> (so_client_fd t \<in> set (owed g (w\<lparr>kern := k\<rparr>)) \<longrightarrow> so_client_fd t \<in> set (owed g w))" using ow by simp
  qed simp
  then show ?thesis using world_kern [OF soundD(1) [OF s] op] by (simp add: sound_def)
qed

lemma sound_silent: "sound g w \<Longrightarrow> silent (kern w) k \<Longrightarrow> sound g (w\<lparr>kern := k\<rparr>)"
  by (rule sound_kern) (simp_all add: silent_def)

lemma sound_cong:
  assumes s: "sound g w" and "sel w' = sel w" "socks_heap w' = socks_heap w" "kern w' = kern w"
    "g_active_head w' = g_active_head w" "pool w' = pool w" "pool_size w' = pool_size w" "next_ptr w' = next_ptr w"
    "socks_active w' = socks_active w" "\<forall>u. g_users w' = Some u \<longrightarrow> users_wf u" "g_dns_worker w' = g_dns_worker w"
    "dns_thread w' = dns_thread w" "mng_heap w' = mng_heap w" "socks_fd w' = socks_fd w" "mng_fd w' = mng_fd w"
  shows "sound g w'"
proof -
  have ow: "owed g w' = owed g w" by (rule owed_cong) (simp_all add: assms)
  have f: "fds_of w' = fds_of w" by (simp add: fds_of_def fun_eq_iff assms)
  have "owner_ok g w' fd h i a = owner_ok g w fd h i a" for fd h i a
    by (rule owner_ok_cong [OF f]) (simp_all add: assms)
  moreover have "dns_ok g w' = dns_ok g w" by (rule dns_ok_cong [OF _ _ f]) (simp_all add: assms)
  ultimately have "world g w'" using soundD(1) [OF s] assms listens_cong [of w' w] by (simp add: world_def)
  moreover have "settled g q t ci' oi' w' = settled g q t ci' oi' w" for q t ci' oi' using assms ow by (simp add: settled_def)
  ultimately show ?thesis using s assms by (auto simp: sound_def alive_def)
qed

lemma sound_users: "sound g w \<Longrightarrow> \<forall>u. g_users w = Some u \<longrightarrow> users_wf u"
  by (simp add: sound_def world_def)

lemma sound_count: "sound g w \<Longrightarrow> sound g (count f w)"
  by (rule sound_cong) (auto dest: sound_users)

text \<open>Memory that belongs to no active session.\<close>

lemma sound_pool:
  assumes s: "sound g w" and h: "\<And>q. q \<in> set (active g) \<Longrightarrow> h q = socks_heap w q" "\<And>q. h q \<noteq> None \<Longrightarrow> q < n" "next_ptr w \<le> n"
    and pl: "pool_list h x ps" "length ps \<le> 50" "distinct (active g @ ps)"
  shows "sound (g\<lparr>pooled := ps\<rparr>) (w\<lparr>socks_heap := h, pool := x, pool_size := of_nat (length ps), next_ptr := n\<rparr>)"
proof -
  let ?w = "w\<lparr>socks_heap := h, pool := x, pool_size := of_nat (length ps), next_ptr := n\<rparr>"
  let ?g = "g\<lparr>pooled := ps\<rparr>"
  note W = soundD(1) [OF s, unfolded world_def]
  have f: "fds_of ?w q = fds_of w q" if "q \<in> set (active g)" for q using h(1) [OF that] by (simp add: fds_of_def)
  have ow: "owed ?g ?w = owed g w" by (simp add: owed_def in_hand_def job_fd_def [abs_def])
  have hand: "in_hand ?w = in_hand w" by (simp add: in_hand_def)
  have j: "job_ok ?g ?w d j = job_ok g w d j" for d j by (auto simp: job_ok_def f)
  have "dns_ok ?g ?w = dns_ok g w" unfolding dns_ok_def ow hand by (simp add: j f cong: option.case_cong bex_cong)
  moreover have "owner_ok ?g ?w fd hh i a" if "owner_ok g w fd hh i a" for fd hh i a
    using that h(3) by (cases hh) (force simp: owner_ok_def socks_reg_def mng_reg_def f)+
  moreover have "dll h None (g_active_head w) (active g) = dll (socks_heap w) None (g_active_head w) (active g)"
    by (rule dll_cong) (use h(1) in simp)
  moreover have "listens ?w = listens w" by (rule listens_cong) simp_all
  ultimately have "world ?g ?w" using W pl h(2) by (simp add: world_def)
  moreover have "alive ?g ?w q" if q: "q \<in> set (active g)" for q
    by (rule alive_frame [OF soundD(3) [OF s q]]) (use h(1) [OF q] ow in simp_all)
  ultimately show ?thesis by (simp add: sound_def)
qed

section \<open>Memory for a new session\<close>

lemma client_init: "stm_init (client_stm H p) w = sm_set (client_stm H p) None w"
proof -
  have "stm_check (client_stm H p) 0 (Suc (sm_max_state (client_stm H p))) = Some ()"
    unfolding stm_check_iff
  proof (intro allI impI)
    fix j assume "0 \<le> j \<and> j < 0 + Suc (sm_max_state (client_stm H p))"
    then have "j \<le> ERROR" by (simp add: client_stm_def)
    moreover have "length (sm_states (client_stm H p)) = Suc ERROR" by (simp add: client_stm_def client_statbl_def)
    ultimately show "j < length (sm_states (client_stm H p)) \<and> sd_state (sm_states (client_stm H p) ! j) = j"
      using client_table(2) [of j H] by (simp add: client_stm_def)
  qed
  then show ?thesis by (simp add: stm_init_def) (simp add: client_stm_def)
qed

text \<open>A session in nobody's hands yet.\<close>

definition spare :: "ghost \<Rightarrow> nat \<Rightarrow> socks5 \<Rightarrow> proxy \<Rightarrow> bool" where
  "spare g p s w \<longleftrightarrow> sound g w \<and> p \<notin> set (active g @ pooled g) \<and> socks_heap w p = Some s"

lemma socks5_new_ok:
  assumes s: "sound g w"
  shows "returns (socks5_new H fd w) (\<lambda>(ptr, w'). sel w' = sel w \<and> silent (kern w) (kern w') \<and> socks_active w' = socks_active w \<and> (case ptr of
      None \<Rightarrow> sound g w'
    | Some p \<Rightarrow> \<exists>ps. spare (g\<lparr>pooled := ps\<rparr>) p (fresh_socks5 fd (clock w) (g_config w)) w'))"
proof -
  note W = soundD(1) [OF s, unfolded world_def]
  let ?s = "fresh_socks5 fd (clock w) (g_config w)"
  have cur: "?s\<lparr>so_current := None\<rparr> = ?s" by (simp add: fresh_socks5_def)
  have init: "stm_init (client_stm H p) (put_socks p ?s v) = Some (put_socks p ?s v)" for p v
    unfolding client_init by (simp add: client_stm_def upd_socks_def cur)
  show ?thesis
  proof (cases "pool w")
    case (Some p)
    then obtain ps where ps: "pooled g = p # ps" using W by (cases "pooled g") auto
    then obtain t where t: "socks_heap w p = Some t" "pool_list (socks_heap w) (so_next t) ps" using W by (auto split: option.splits)
    let ?h = "(socks_heap w)(p \<mapsto> ?s)"
    have dis: "distinct (active g @ ps)" "p \<notin> set (active g)" "p \<notin> set ps" using W ps by auto
    have "pool_list ?h (so_next t) ps = pool_list (socks_heap w) (so_next t) ps" by (rule pool_list_cong) (use dis in auto)
    then have "sound (g\<lparr>pooled := ps\<rparr>) (w\<lparr>socks_heap := ?h, pool := so_next t, pool_size := of_nat (length ps), next_ptr := next_ptr w\<rparr>)"
      using t dis W ps by (intro sound_pool [OF s]) (auto split: if_splits)
    moreover have "pool_size w - 1 = of_nat (length ps)" using W ps by simp
    moreover have "socks5_new H fd w = Some (Some p, put_socks p ?s (w\<lparr>pool := so_next t, pool_size := pool_size w - 1\<rparr>))"
      using Some t(1) init by (simp add: socks5_new_def)
    moreover have "put_socks p ?s (w\<lparr>pool := so_next t, pool_size := pool_size w - 1\<rparr>)
        = w\<lparr>socks_heap := ?h, pool := so_next t, pool_size := pool_size w - 1, next_ptr := next_ptr w\<rparr>"
      by (simp add: put_socks_def)
    ultimately have "sound (g\<lparr>pooled := ps\<rparr>) (put_socks p ?s (w\<lparr>pool := so_next t, pool_size := pool_size w - 1\<rparr>))" by simp
    then show ?thesis using dis \<open>socks5_new H fd w = _\<close> by (simp add: spare_def silent_def) (rule exI [of _ ps], simp)
  next
    case None
    obtain mem k where k: "k_alloc (kern w) = (mem, k)" by (cases "k_alloc (kern w)")
    note sil = silent_alloc [OF k]
    show ?thesis
    proof (cases mem)
      case False
      then show ?thesis using None k sound_silent [OF s sil] sil by (simp add: socks5_new_def)
    next
      case True
      let ?p = "next_ptr w"
      let ?h = "(socks_heap w)(?p \<mapsto> ?s)"
      have none: "socks_heap w ?p = None" using W by (cases "socks_heap w ?p") auto
      have new: "?p \<notin> set (active g)" "?p \<notin> set (pooled g)"
        using W none dll_allocated [of "socks_heap w" None "g_active_head w" "active g"] pool_list_allocated [of "socks_heap w" "pool w" "pooled g"] by metis+
      have "pool_list ?h (pool w) (pooled g) = pool_list (socks_heap w) (pool w) (pooled g)" by (rule pool_list_cong) (use new in auto)
      then have "sound (g\<lparr>pooled := pooled g\<rparr>) (w\<lparr>socks_heap := ?h, pool := pool w, pool_size := of_nat (length (pooled g)), next_ptr := ?p + 1\<rparr>)"
        using W new by (intro sound_pool [OF s]) (auto split: if_splits simp: less_Suc_eq)
      moreover have "put_socks ?p ?s (w\<lparr>kern := k, next_ptr := ?p + 1\<rparr>)
          = w\<lparr>socks_heap := ?h, pool := pool w, pool_size := of_nat (length (pooled g)), next_ptr := ?p + 1, kern := k\<rparr>"
        using W by (simp add: put_socks_def)
      ultimately have "sound g (put_socks ?p ?s (w\<lparr>kern := k, next_ptr := ?p + 1\<rparr>))" using sound_silent [OF _, of g _ k] sil by simp
      moreover have "socks5_new H fd w = Some (Some ?p, put_socks ?p ?s (w\<lparr>kern := k, next_ptr := ?p + 1\<rparr>))"
        using None True k init by (simp add: socks5_new_def)
      moreover have "g\<lparr>pooled := pooled g\<rparr> = g" by simp
      ultimately show ?thesis using new sil by (simp add: spare_def) (rule exI [of _ "pooled g"], simp)
    qed
  qed
qed

section \<open>Giving it up again\<close>

lemma spare_destroy:
  assumes sp: "spare g p s w" and r: "so_references s = 1"
  shows "returns (socks5_destroy (Some p) w) (\<lambda>w'. \<exists>ps. sound (g\<lparr>pooled := ps\<rparr>) w' \<and> sel w' = sel w \<and> kern w' = kern w)"
proof -
  have s: "sound g w" and p: "p \<notin> set (active g)" "p \<notin> set (pooled g)" "socks_heap w p = Some s" using sp by (auto simp: spare_def)
  note W = soundD(1) [OF s, unfolded world_def]
  have pl: "pool_list (socks_heap w) (pool w) (pooled g)" "pool_size w = of_nat (length (pooled g))" "length (pooled g) \<le> 50" using W by auto
  from destroy_last [OF p(3) r pl p(2)] obtain h' x' ps' where d:
    "socks5_destroy (Some p) w = Some (w\<lparr>socks_heap := h', pool := x', pool_size := of_nat (length ps')\<rparr>)"
    "pool_list h' x' ps'" "length ps' \<le> 50" "\<forall>q. q \<noteq> p \<longrightarrow> h' q = socks_heap w q" "ps' = p # pooled g \<or> ps' = pooled g" by blast
  have "sound (g\<lparr>pooled := ps'\<rparr>) (w\<lparr>socks_heap := h', pool := x', pool_size := of_nat (length ps'), next_ptr := next_ptr w\<rparr>)"
  proof (rule sound_pool [OF s _ _ _ d(2,3)])
    show "h' q = socks_heap w q" if "q \<in> set (active g)" for q using d(4) p(1) that by auto
    show "q < next_ptr w" if "h' q \<noteq> None" for q using that d(4) W p(3) by (cases "q = p") auto
    show "distinct (active g @ ps')" using W p d(5) by auto
  qed simp
  then show ?thesis using d(1) by (auto intro!: exI [of _ ps'])
qed

section \<open>A session enters\<close>

lemma fresh_at_start:
  assumes "T = ([], [], orx, otx, peer)"
  shows "at_start (fresh_socks5 fd now conf) OP_READ T"
proof -
  have "buffer_contents (buffer_init n (replicate n 0)) = []" for n by (simp add: buffer_init_def buffer_contents_def buffer_reset_def)
  then show ?thesis using assms by (simp add: at_start_def early_def fresh_socks5_def)
qed

lemma fresh_wf: "sess_wf (fresh_socks5 fd now conf)" "held (fresh_socks5 fd now conf) False"
  "so_current (fresh_socks5 fd now conf) = None" "so_client_fd (fresh_socks5 fd now conf) = fd" "so_origin_fd (fresh_socks5 fd now conf) = -1"
  "so_references (fresh_socks5 fd now conf) = 1"
proof -
  have "buffer_wf (buffer_init n (replicate n 0)) \<and> b_limit (buffer_init n (replicate n 0)) = n" for n
    by (simp add: buffer_init_def buffer_wf_def buffer_reset_def)
  then show "sess_wf (fresh_socks5 fd now conf)" by (simp add: sess_wf_def fresh_socks5_def)
qed (simp_all add: fresh_socks5_def held_def)

text \<open>The new session is registered and put in front of the list.\<close>

lemma enter_ok:
  assumes sp: "spare g p (fresh_socks5 c now conf) w" and none: "regs (sel w) c = None"
    and op: "c \<in> set (k_open (kern w))" "k_rx (kern w) c = []" "k_tx (kern w) c = []"
    and sl: "full_sel sl" "resolution_jobs sl = resolution_jobs (sel w)" "regs sl = (regs (sel w))(c \<mapsto> (socks5_handler, OP_READ, Some (Socks_Ptr p)))"
  shows "returns (active_list_add p (w\<lparr>sel := sl, socks_active := socks_active w + 1\<rparr>)) (sound (g\<lparr>active := p # active g\<rparr>))"
proof -
  let ?s = "fresh_socks5 c now conf"
  let ?g = "g\<lparr>active := p # active g\<rparr>"
  let ?w = "w\<lparr>sel := sl, socks_active := socks_active w + 1\<rparr>"
  have s: "sound g w" and p: "p \<notin> set (active g)" "p \<notin> set (pooled g)" "socks_heap w p = Some ?s" using sp by (auto simp: spare_def)
  note W = soundD(1) [OF s, unfolded world_def]
  have leg: "c \<noteq> -1" using sel.entry_legal [OF sl(1), of c] sl(3) by (auto simp: INVALID_FD_def)
  have dl: "dll (socks_heap ?w) None (g_active_head ?w) (active g)" "distinct (active g)" "socks_heap ?w p = Some ?s" using W p(3) by simp_all
  from active_list_add_ok [OF dl(1,2) p(1) dl(3)] obtain h where h: "active_list_add p ?w = Some (?w\<lparr>socks_heap := h, g_active_head := Some p\<rparr>)"
    "dll h None (Some p) (p # active g)" "relinked (socks_heap w) h" by auto
  let ?w' = "?w\<lparr>socks_heap := h, g_active_head := Some p\<rparr>"
  have hs: "map_option strip (h q) = map_option strip (socks_heap w q)" for q using h(3) by (simp add: relinked_def)
  have f: "fds_of ?w' q = fds_of w q" for q
    using hs [of q] by (cases "socks_heap w q"; cases "h q") (auto simp: fds_of_def dest: strip_same(1,2))
  have ow: "owed ?g ?w' = owed g w" by (simp add: owed_def in_hand_def job_fd_def [abs_def])
  have hand: "in_hand ?w' = in_hand w" by (simp add: in_hand_def)
  have j: "job_ok g w d j \<Longrightarrow> job_ok ?g ?w' d j" for d j by (auto simp: job_ok_def f)
  have "dns_ok g w" using W by simp
  then have "dns_ok ?g ?w'" unfolding dns_ok_def ow hand by (auto simp: j f split: option.splits)
  moreover have "owner_ok ?g ?w' fd hh i a" if "owner_ok g w fd hh i a" for fd hh i a
    using that by (cases hh) (auto simp: owner_ok_def socks_reg_def mng_reg_def f)
  moreover have fp: "fds_of w p = Some (c, -1)" using p(3) fresh_wf(4,5) [of c now conf] by (simp add: fds_of_def)
  moreover have "pool_list h (pool w) (pooled g)" using W pool_list_relinked [OF h(3)] by simp
  moreover have bound: "q < next_ptr w" if "h q \<noteq> None" for q using W hs [of q] that by (cases "socks_heap w q") auto
  moreover have "owner_ok ?g ?w' c socks5_handler OP_READ (Some (Socks_Ptr p))"
    using f [of p] fp by (simp add: owner_ok_def socks_reg_def)
  ultimately have "fd \<in> set (k_open (kern ?w')) \<and> owner_ok ?g ?w' fd hh i a" if "regs (sel ?w') fd = Some (hh, i, a)" for fd hh i a
    using that W sl(3) op(1) by (cases "fd = c") auto
  moreover have "listens ?w'" by (rule listens_frame [of w]) (use W none sl(3) in auto)
  ultimately have "world ?g ?w'" using W sl h(2) p(1,2) \<open>dns_ok ?g ?w'\<close> \<open>pool_list h (pool w) (pooled g)\<close> bound
    by (simp add: world_def)
  moreover
  have free: "c \<notin> set (owed g w)"
  proof
    assume "c \<in> set (owed g w)"
    then obtain q og where q: "q \<in> set (active g)" "fds_of w q = Some (c, og)" using \<open>dns_ok g w\<close> by (auto simp: dns_ok_def)
    then show False using aliveD(1) [OF soundD(3) [OF s q(1)]] none by (auto simp: fds_of_def)
  qed
  have "alive ?g ?w' q" if q: "q \<in> set (active g)" for q
  proof (rule alive_relinked [OF soundD(3) [OF s q]])
    show "map_option strip (socks_heap ?w' q) = map_option strip (socks_heap w q)" using hs by simp
    fix t assume t: "socks_heap w q = Some t"
    note r = aliveD [OF soundD(3) [OF s q] t]
    show "regs (sel ?w') (so_client_fd t) = regs (sel w) (so_client_fd t)
      \<and> (so_origin_fd t \<noteq> -1 \<longrightarrow> regs (sel ?w') (so_origin_fd t) = regs (sel w) (so_origin_fd t))
      \<and> talk_of t (kern ?w') = talk_of t (kern w)
      \<and> (so_client_fd t \<in> set (owed ?g ?w') \<longrightarrow> so_client_fd t \<in> set (owed g w))"
      using r none sl(3) ow leg by auto
  qed
  moreover have "alive ?g ?w' p"
  proof -
    obtain t where t: "h p = Some t" "strip t = strip ?s" using hs [of p] p(3) by auto
    note e = strip_same [OF t(2)]
    have "at_start ?s OP_READ (talk_of ?s (kern w))"
      by (rule fresh_at_start) (use op fresh_wf(4) in \<open>simp add: talk_of_def\<close>)
    then have "at None t OP_READ oi (talk_of ?s (kern w))" for oi unfolding at_cong [OF t(2)] by simp
    moreover have "talk_of t (kern w) = talk_of ?s (kern w)" by (simp add: talk_of_def e)
    moreover have "sess_wf t" "held t False" "registered p t OP_READ 0 (regs sl)"
      using fresh_wf(1,2) [of c now conf] sl(3) fresh_wf(4,5) by (simp_all add: sess_wf_def held_def registered_def e)
    ultimately have "settled ?g p t OP_READ 0 ?w'" using free fresh_wf(3,4) [of c now conf] ow by (simp add: settled_def e)
    then show ?thesis using t(1) by (auto simp: alive_def)
  qed
  ultimately have "sound ?g ?w'" by (simp add: sound_def)
  then show ?thesis using h(1) by simp
qed

section \<open>The accepting handler\<close>

lemma do_accept_kern:
  assumes "k_do_accept fd k = (r, k')"
  shows "case r of Inl e \<Rightarrow> silent k k'
    | Inr c \<Rightarrow> 0 \<le> c \<and> c \<notin> set (k_open k) \<and> k_open k' = c # k_open k \<and> k_rx k' = (k_rx k)(c := []) \<and> k_tx k' = (k_tx k)(c := [])
        \<and> k_peer k' = (k_peer k)(c := None)"
  using assms fresh_fd_new [of "k_open k"]
  by (auto simp: k_do_accept_def k_socket_def silent_def Let_def split: list.splits option.splits)

lemma sound_open: "sound g w \<Longrightarrow> regs (sel w) f \<noteq> None \<Longrightarrow> f \<in> set (k_open (kern w))"
  by (auto simp: sound_def world_def)

lemma sound_close:
  assumes s: "sound g w" and c: "regs (sel w) c = None"
  shows "sound g (w\<lparr>kern := k_close c (kern w)\<rparr>)"
  by (rule sound_kern [OF s]) (use c in \<open>auto simp: k_close_def\<close>)

text \<open>What the handler leaves: the invariant, and the old registrations.\<close>

definition accepted :: "ghost \<Rightarrow> proxy \<Rightarrow> proxy \<Rightarrow> bool" where
  "accepted g w w' \<longleftrightarrow> proxy_inv (pending g) (finished g) w' \<and> (\<forall>fd. regs (sel w) fd \<noteq> None \<longrightarrow> regs (sel w') fd = regs (sel w) fd)"

lemma acceptedI: "sound g' w' \<Longrightarrow> pending g' = pending g \<Longrightarrow> finished g' = finished g \<Longrightarrow>
    (\<And>fd. regs (sel w) fd \<noteq> None \<Longrightarrow> regs (sel w') fd = regs (sel w) fd) \<Longrightarrow> accepted g w w'"
  by (auto simp: accepted_def proxy_inv_def)

lemma socksv5_passive_accept_ok:
  assumes s: "sound g w"
  shows "returns (socksv5_passive_accept H key w) (accepted g w)"
proof -
  obtain r k1 where r: "k_do_accept (k_fd key) (kern w) = (r, k1)" by (cases "k_do_accept (k_fd key) (kern w)")
  note acc = do_accept_kern [OF r]
  show ?thesis
  proof (cases r)
    case (Inl e)
    then have "sound g (count metrics_conn_rejected (w\<lparr>kern := k1\<rparr>))" using sound_count [OF sound_silent [OF s]] acc by simp
    then show ?thesis using r Inl by (auto simp: socksv5_passive_accept_def accept_fail_def socks5_destroy_def intro: acceptedI)
  next
    case (Inr c)
    then have c: "c \<notin> set (k_open (kern w))" "k_open k1 = c # k_open (kern w)" "k_rx k1 = (k_rx (kern w))(c := [])"
      "k_tx k1 = (k_tx (kern w))(c := [])" "k_peer k1 = (k_peer (kern w))(c := None)" "0 \<le> c" using acc by auto
    have none: "regs (sel w) c = None" using c(1) sound_open [OF s, of c] by (cases "regs (sel w) c") auto
    have s1: "sound g (w\<lparr>kern := k1\<rparr>)" by (rule sound_kern [OF s]) (use c none in auto)
    obtain b k2 where b: "k_set_nio c k1 = (b, k2)" by (cases "k_set_nio c k1")
    note sil2 = silent_nio [OF b]
    have s2: "sound g (w\<lparr>kern := k2\<rparr>)" using sound_silent [OF s1, of k2] sil2 by simp
    have fail: "accepted g w (count metrics_conn_rejected (w'\<lparr>kern := k_close c (kern w')\<rparr>))" if "sound g' w'" "pending g' = pending g" "finished g' = finished g"
        "sel w' = sel w" for g' w'
      by (rule acceptedI [OF sound_count [OF sound_close [OF that(1)]]]) (use none that(2-4) in simp_all)
    show ?thesis
    proof (cases b)
      case False
      then show ?thesis using r Inr b fail [OF s2] by (simp add: socksv5_passive_accept_def accept_fail_def socks5_destroy_def)
    next
      case True
      let ?w2 = "w\<lparr>kern := k2\<rparr>"
      let ?full = "case g_config w of Some c \<Rightarrow> max_connections c > 0 \<and> socks_active w \<ge> of_int (max_connections c) | None \<Rightarrow> False"
      show ?thesis
      proof (cases ?full)
        case full: True
        have "socksv5_passive_accept H key w = Some (count metrics_conn_rejected (?w2\<lparr>kern := k_close c (kern ?w2)\<rparr>))"
          using r Inr b True full by (simp add: socksv5_passive_accept_def Let_def split: option.splits)
        then show ?thesis using fail [OF s2] by simp
      next
        case room: False
        have e: "clock ?w2 = clock w" "g_config ?w2 = g_config w" by simp_all
        from socks5_new_ok [OF s2, of H c, unfolded e] obtain ptr w3 where n: "socks5_new H c ?w2 = Some (ptr, w3)" "sel w3 = sel w" "silent k2 (kern w3)"
          "case ptr of None \<Rightarrow> sound g w3
            | Some p \<Rightarrow> \<exists>ps. spare (g\<lparr>pooled := ps\<rparr>) p (fresh_socks5 c (clock w) (g_config w)) w3" by (auto simp: returns_prod)
        have run: "socksv5_passive_accept H key w = (case ptr of None \<Rightarrow> accept_fail (Some c) None w3
          | Some p \<Rightarrow> do {
              let (mem, k) = k_alloc (kern w3);
              (st, sl) \<leftarrow> selector_register mem c (Some socks5_handler) OP_READ (Some (Socks_Ptr p)) (sel w3);
              let w = w3\<lparr>kern := k, sel := sl\<rparr>;
              if st \<noteq> SELECTOR_SUCCESS then accept_fail (Some c) (Some p) w
              else do {
                w \<leftarrow> active_list_add p (w\<lparr>socks_active := socks_active w + 1\<rparr>);
                Some (count metrics_conn_accepted w)
              }
            })"
          using r Inr b True room n(1) by (simp add: socksv5_passive_accept_def Let_def cong: option.case_cong)
        show ?thesis
        proof (cases ptr)
          case None
          then show ?thesis using run fail [of g w3] n by (simp add: accept_fail_def socks5_destroy_def)
        next
          case (Some p)
          let ?s = "fresh_socks5 c (clock w) (g_config w)"
          obtain ps where sp: "spare (g\<lparr>pooled := ps\<rparr>) p ?s w3" using n(4) Some by auto
          let ?g = "g\<lparr>pooled := ps\<rparr>"
          obtain mem k4 where k4: "k_alloc (kern w3) = (mem, k4)" by (cases "k_alloc (kern w3)")
          have sil: "silent k1 k4" "silent (kern w3) k4" using sil2 n(3) silent_alloc [OF k4] by (simp_all add: silent_def)
          have s3: "sound ?g w3" and p: "p \<notin> set (active g @ ps)" "socks_heap w3 p = Some ?s" using sp by (auto simp: spare_def)
          have fs: "full_sel (sel w)" by (rule soundD(2) [OF s])
          obtain st sl where sl: "selector_register mem c (Some socks5_handler) OP_READ (Some (Socks_Ptr p)) (sel w3) = Some (st, sl)"
            "full_sel sl" "st = SELECTOR_SUCCESS \<and> regs sl = (regs (sel w))(c \<mapsto> (socks5_handler, OP_READ, Some (Socks_Ptr p)))
              \<or> st \<noteq> SELECTOR_SUCCESS \<and> sl = sel w"
          proof (cases "INVALID_FD c")
            case True
            then show ?thesis using that [of SELECTOR_IARGS "sel w3"] fs n(2) by (simp add: selector_register_def)
          next
            case False
            from full_enter [OF fs False, of mem socks5_handler OP_READ "Some (Socks_Ptr p)"] none n(2) that show ?thesis
              by (auto simp: returns_prod)
          qed
          have jobs: "resolution_jobs sl = resolution_jobs (sel w3)" by (rule enter_jobs [OF sl(1)])
          let ?w4 = "w3\<lparr>kern := k4\<rparr>"
          have sp4: "spare ?g p ?s ?w4" using sound_silent [OF s3 sil(2)] p by (simp add: spare_def)
          show ?thesis
          proof (cases "st = SELECTOR_SUCCESS")
            case True
            with sl(3) have R: "regs sl = (regs (sel w))(c \<mapsto> (socks5_handler, OP_READ, Some (Socks_Ptr p)))" by blast
            have "returns (active_list_add p (?w4\<lparr>sel := sl, socks_active := socks_active ?w4 + 1\<rparr>)) (sound (?g\<lparr>active := p # active ?g\<rparr>))"
              by (rule enter_ok [OF sp4]) (use c none sl(2) jobs R n(2) sil(1) in \<open>simp_all add: silent_def\<close>)
            then obtain w5 where w5: "active_list_add p (?w4\<lparr>sel := sl, socks_active := socks_active ?w4 + 1\<rparr>) = Some w5" "sound (?g\<lparr>active := p # active ?g\<rparr>) w5"
              by (auto simp: returns_iff)
            have "sel w5 = sl" using w5(1) by (auto simp: active_list_add_def upd_socks_def bind_eq_Some_conv split: option.splits)
            then have "accepted g w (count metrics_conn_accepted w5)" by (intro acceptedI [OF sound_count [OF w5(2)]]) (use R none in auto)
            then show ?thesis using run Some k4 sl(1) True w5(1) by simp
          next
            case False
            with sl(3) have R: "sl = sel w3" using n(2) by simp
            have "spare ?g p ?s (count metrics_conn_rejected (?w4\<lparr>kern := k_close c k4\<rparr>))"
              using sound_count [OF sound_close [of ?g ?w4 c]] sp4 none n(2) by (simp add: spare_def)
            from spare_destroy [OF this fresh_wf(6)] obtain w5 ps5 where w5: "socks5_destroy (Some p) (count metrics_conn_rejected (?w4\<lparr>kern := k_close c k4\<rparr>)) = Some w5"
              "sound (?g\<lparr>pooled := ps5\<rparr>) w5" "sel w5 = sel w3" by (auto simp: returns_iff)
            have "w3\<lparr>sel := sl, kern := k_close c k4\<rparr> = ?w4\<lparr>kern := k_close c k4\<rparr>" using R by simp
            then have "socksv5_passive_accept H key w = Some w5" using run Some k4 sl(1) False w5(1) by (simp add: accept_fail_def)
            moreover have "accepted g w w5" by (intro acceptedI [OF w5(2)]) (use w5(3) n(2) in auto)
            ultimately show ?thesis by simp
          qed
        qed
      qed
    qed
  qed
qed

section \<open>The sweep\<close>

lemma dll_at: "dll h pr x (pre @ p # post) \<Longrightarrow> \<exists>s. h p = Some s \<and> so_active_next s = first post None"
  by (auto simp: dll_seg seg_append)

text \<open>One session: it stays, or it is taken out.\<close>

lemma sweep_one_ok:
  assumes H: "socks_host_ok H" and s: "sound g w" and act: "active g = pre @ p # post"
  shows "returns (sweep_one H p w) (\<lambda>w'. \<exists>g'. sound g' w' \<and> pending g' = pending g \<and> finished g' = finished g
    \<and> (active g' = pre @ p # post \<or> active g' = pre @ post))"
proof -
  have pm: "p \<in> set (active g)" using act by simp
  obtain s ci oi where o: "own g p s ci oi (so_current s = Some REQUEST_RESOLV) w" and st: "settled g p s ci oi w" by (rule sound_own [OF s pm])
  note a = settledD [OF st]
  have max: "c \<le> ERROR" if "so_current s = Some c" for c using a(1) that by (auto split: if_splits)
  have state: "stm_state (client_stm H p) w = Some (state_of s)"
    using client_table(1) [of "state_of s" H p] client_table(2) [of "state_of s" H] max
    by (cases "so_current s") (simp_all add: stm_state_def client_get [OF o] state_of_def, simp add: client_stm_def)
  have stay: "\<exists>g'. sound g' w \<and> pending g' = pending g \<and> finished g' = finished g \<and> (active g' = pre @ p # post \<or> active g' = pre @ post)"
    using s act by blast
  have gone: "returns (do { w \<leftarrow> upd_socks p (socks5_set_failure reason) w; socksv5_done H p w }) (\<lambda>w'. \<exists>g'. sound g' w' \<and> pending g' = pending g
      \<and> finished g' = finished g \<and> (active g' = pre @ p # post \<or> active g' = pre @ post))" if "so_current s \<noteq> Some REQUEST_RESOLV" for reason
  proof -
    have o': "own g p s ci oi False w" using o that by simp
    obtain f where f: "upd_socks p (socks5_set_failure reason) w = Some (put_socks p (s\<lparr>so_failure := f\<rparr>) w)"
      "own g p (s\<lparr>so_failure := f\<rparr>) ci oi False (put_socks p (s\<lparr>so_failure := f\<rparr>) w)" by (rule own_failure [OF o'])
    have dis: "distinct (active g)" using s by (simp add: sound_def world_def)
    from socksv5_done_ok [OF H f(2)] obtain w' pre' post' ps where w': "socksv5_done H p (put_socks p (s\<lparr>so_failure := f\<rparr>) w) = Some w'"
      "active g = pre' @ p # post'" "sound (g\<lparr>active := pre' @ post', pooled := ps\<rparr>) w'" by (auto simp: returns_iff dropped_def)
    have "pre' = pre \<and> post' = post" using w'(2) act dis by (auto simp: append_eq_append_conv2 append_eq_Cons_conv Cons_eq_append_conv)
    then show ?thesis using f(1) w'(1,3) by (auto intro!: exI [of _ "g\<lparr>active := pre @ post, pooled := ps\<rparr>"])
  qed
  have conn: "returns (connecting_timeout H p w) (\<lambda>w'. \<exists>g'. sound g' w' \<and> pending g' = pending g \<and> finished g' = finished g
      \<and> (active g' = pre @ p # post \<or> active g' = pre @ post))" if cur: "so_current s = Some CONNECTING"
  proof -
    have o': "own g p s ci oi False w" using o cur by simp
    have at: "at_connecting s ci oi (talk_of s (kern w))" using a(1) cur by simp
    show ?thesis
    proof (rule returns_mono [OF connecting_timeout_ok [OF H o' at]])
      fix w' assume "connects g p (so_client_fd s) (so_current s) w'"
      then obtain s' ci' oi' where o2: "own g p s' ci' oi' False w'" "so_current s' = Some CONNECTING" "at_connecting s' ci' oi' (talk_of s' (kern w'))"
        using cur by (auto simp: connects_def)
      have "sound g w'" by (rule own_sound [of g p s' ci' oi']) (use o2 in simp_all)
      then show "\<exists>g'. sound g' w' \<and> pending g' = pending g \<and> finished g' = finished g \<and> (active g' = pre @ p # post \<or> active g' = pre @ post)"
        using act by blast
    qed
  qed
  have cs: "state_of s = CONNECTING \<longleftrightarrow> so_current s = Some CONNECTING" "state_of s = COPY \<longleftrightarrow> so_current s = Some COPY"
    "state_of s = REQUEST_RESOLV \<longleftrightarrow> so_current s = Some REQUEST_RESOLV"
    by (auto simp: state_of_def split: option.splits)
  show ?thesis using state conn gone stay cs by (auto simp: sweep_one_def ownD(3) [OF o] simp del: returns_bind)
qed

lemma sweep_ok:
  assumes H: "socks_host_ok H"
  shows "sound g w \<Longrightarrow> active g = pre @ ps \<Longrightarrow> returns (sweep H (first ps None) w) (proxy_inv (pending g) (finished g))"
proof (induction ps arbitrary: g w pre)
  case Nil
  then show ?case by (auto simp: sweep.simps proxy_inv_def)
next
  case (Cons p ps)
  have "dll (socks_heap w) None (g_active_head w) (pre @ p # ps)" using Cons.prems by (simp add: sound_def world_def)
  from dll_at [OF this] obtain s where s: "socks_heap w p = Some s" "so_active_next s = first ps None" by blast
  from sweep_one_ok [OF H Cons.prems] obtain w1 g1 where w1: "sweep_one H p w = Some w1" "sound g1 w1" "pending g1 = pending g" "finished g1 = finished g"
    "active g1 = (pre @ [p]) @ ps \<or> active g1 = pre @ ps" by (auto simp: returns_iff)
  have "returns (sweep H (first ps None) w1) (proxy_inv (pending g) (finished g))"
    using w1(5) Cons.IH [OF w1(2)] w1(3,4) by metis
  then show ?case using s w1(1) by (simp add: sweep.simps [of H "Some p"])
qed

lemma socksv5_check_timeouts_ok:
  assumes H: "socks_host_ok H" and s: "sound g w"
  shows "returns (socksv5_check_timeouts H w) (proxy_inv (pending g) (finished g))"
proof -
  have "g_active_head w = first (active g) None" using s by (simp add: sound_def world_def dll_seg)
  then show ?thesis using sweep_ok [OF H s, of "[]" "active g"] by (simp add: socksv5_check_timeouts_def)
qed

end
