(* ===== verification/Args.thy ===== *)
theory Args
  imports Users World
begin

text \<open>
  The command line: \<^verbatim>\<open>src/shared/args.c\<close>. \<open>getopt\<close> is what the C library's \<^verbatim>\<open>getopt\<close> and \<^verbatim>\<open>getopt_long\<close> (without
  long options) make of the arguments behind the program's name; the two programs use it with different
  option letters. A branch that ends the process is \<open>Inl\<close> of its exit status. What is printed is left out.
\<close>

section \<open>The library's option scanner\<close>

text \<open>
  \<open>kind c\<close>: whether \<open>c\<close> is an option, and whether it takes an argument. An unknown option and a missing
  argument are reported as \<^verbatim>\<open>?\<close>.
\<close>

type_synonym opt = "char \<times> string"

definition bad_opt :: opt where
  "bad_opt = (CHR ''?'', [])"

text \<open>The letters behind a dash: the options in them, and the arguments that are left.\<close>

fun opt_cluster :: "(char \<Rightarrow> bool option) \<Rightarrow> string \<Rightarrow> string list \<Rightarrow> opt list \<times> string list" where
  "opt_cluster kind [] as = ([], as)"
| "opt_cluster kind (c # cs) as =
     (case kind c of
        None \<Rightarrow> (case opt_cluster kind cs as of (os, as') \<Rightarrow> (bad_opt # os, as'))
      | Some False \<Rightarrow> (case opt_cluster kind cs as of (os, as') \<Rightarrow> ((c, []) # os, as'))
      | Some True \<Rightarrow> if cs \<noteq> [] then ([(c, cs)], as)
                     else (case as of [] \<Rightarrow> ([bad_opt], []) | a # as' \<Rightarrow> ([(c, a)], as')))"

lemma opt_cluster_shorter: "length (snd (opt_cluster kind cs as)) \<le> length as"
  by (induction kind cs as rule: opt_cluster.induct) (auto split: option.splits bool.splits list.splits prod.splits)

text \<open>All the options and, after them, the operands: the scanner moves the operands to the end.\<close>

function getopt :: "(char \<Rightarrow> bool option) \<Rightarrow> string list \<Rightarrow> opt list \<times> string list" where
  "getopt kind [] = ([], [])"
| "getopt kind (a # as) =
     (if a = ''--'' then ([], as)
      else case a of
        [] \<Rightarrow> (case getopt kind as of (os, rest) \<Rightarrow> (os, a # rest))
      | c # cs \<Rightarrow>
          if c \<noteq> CHR ''-'' \<or> cs = [] then (case getopt kind as of (os, rest) \<Rightarrow> (os, a # rest))
          else (case opt_cluster kind cs as of (os, as') \<Rightarrow>
                 (case getopt kind as' of (os', rest) \<Rightarrow> (os @ os', rest))))"
  by pat_completeness auto

termination getopt
proof (relation "measure (length o snd)", goal_cases)
  case (4 kind a "as" c cs x)
  then show ?case using opt_cluster_shorter [of kind cs "as"] by (auto dest: sym simp del: opt_cluster.simps)
qed simp_all

section \<open>The settings\<close>

abbreviation (input) MAX_USERS :: nat where "MAX_USERS \<equiv> 10"
abbreviation (input) USHRT_MAX :: int where "USHRT_MAX \<equiv> 65535"
abbreviation (input) INT_MAX :: int where "INT_MAX \<equiv> 2147483647"

text \<open>A user's name and password; none for the null pointers that \<^verbatim>\<open>memset\<close> leaves.\<close>

type_synonym user_arg = "(char list \<times> char list) option"

record socks5args =
  ar_socks_addr :: "char list"
  ar_socks_port :: u16
  ar_mng_addr :: "char list"
  ar_mng_port :: u16
  ar_admin_secret :: "char list option"
  ar_max_connections :: int
  ar_negotiation_timeout :: int
  ar_connect_timeout :: int
  ar_idle_timeout :: int
  ar_access_log :: "char list option"
  ar_users :: "user_arg list"

definition default_args :: socks5args where
  "default_args = \<lparr>ar_socks_addr = ''0.0.0.0'', ar_socks_port = 1080, ar_mng_addr = ''127.0.0.1'', ar_mng_port = 8080,
     ar_admin_secret = None, ar_max_connections = 0, ar_negotiation_timeout = 0, ar_connect_timeout = 0,
     ar_idle_timeout = 0, ar_access_log = None, ar_users = replicate MAX_USERS None\<rparr>"

definition arg_port :: "char list \<Rightarrow> int + u16" where
  "arg_port s = (case strtol10 s of (sl, rest, converted, erange) \<Rightarrow>
     if \<not> converted \<or> rest \<noteq> [] \<or> ((LONG_MIN = sl \<or> LONG_MAX = sl) \<and> erange) \<or> sl < 0 \<or> sl > USHRT_MAX
     then Inl 1 else Inr (of_int sl))"

definition nonneg_int :: "char list \<Rightarrow> int + int" where
  "nonneg_int s = (case strtol10 s of (sl, rest, converted, erange) \<Rightarrow>
     if \<not> converted \<or> rest \<noteq> [] \<or> sl < 0 \<or> sl > INT_MAX then Inl 1 else Inr sl)"

text \<open>The text before the first colon and the text behind it.\<close>

definition arg_user :: "char list \<Rightarrow> int + char list \<times> char list" where
  "arg_user s = (if CHR '':'' \<notin> set (cstr s) then Inl 1
     else Inr (takeWhile (\<lambda>c. c \<noteq> CHR '':'') (cstr s), tl (dropWhile (\<lambda>c. c \<noteq> CHR '':'') (cstr s))))"

text \<open>\<^verbatim>\<open>"hl:L:p:P:u:a:m:t:c:i:o:v"\<close>.\<close>

definition server_opts :: "char \<Rightarrow> bool option" where
  "server_opts c = (if c \<in> set ''hv'' then Some False else if c \<in> set ''lLpPuamtcio'' then Some True else None)"

text \<open>A setting that may end the process.\<close>

fun set_arg :: "int + 'b \<Rightarrow> ('b \<Rightarrow> socks5args) \<Rightarrow> int + socks5args" where
  "set_arg (Inl e) f = Inl e"
| "set_arg (Inr v) f = Inr (f v)"

text \<open>One option, with the number of users so far.\<close>

definition parse_opt :: "opt \<Rightarrow> nat \<Rightarrow> socks5args \<Rightarrow> (int + nat \<times> socks5args) option" where
  "parse_opt o' nusers args = (case o' of (c, optarg) \<Rightarrow>
     let keep = (\<lambda>r. Some (case r of Inl e \<Rightarrow> Inl e | Inr args \<Rightarrow> Inr (nusers, args)))
     in if c = CHR ''h'' then Some (Inl 1)
        else if c = CHR ''l'' then keep (Inr (args\<lparr>ar_socks_addr := optarg\<rparr>))
        else if c = CHR ''L'' then keep (Inr (args\<lparr>ar_mng_addr := optarg\<rparr>))
        else if c = CHR ''p'' then keep (set_arg (arg_port optarg) (\<lambda>v. args\<lparr>ar_socks_port := v\<rparr>))
        else if c = CHR ''P'' then keep (set_arg (arg_port optarg) (\<lambda>v. args\<lparr>ar_mng_port := v\<rparr>))
        else if c = CHR ''u'' then
          (if nusers \<ge> MAX_USERS then Some (Inl 1)
           else case arg_user optarg of
             Inl e \<Rightarrow> Some (Inl e)
           | Inr u \<Rightarrow> do {
               us \<leftarrow> arr_set (ar_users args) (int nusers) (Some u);
               Some (Inr (nusers + 1, args\<lparr>ar_users := us\<rparr>))
             })
        else if c = CHR ''a'' then keep (Inr (args\<lparr>ar_admin_secret := Some optarg\<rparr>))
        else if c = CHR ''m'' then keep (set_arg (nonneg_int optarg) (\<lambda>v. args\<lparr>ar_max_connections := v\<rparr>))
        else if c = CHR ''t'' then keep (set_arg (nonneg_int optarg) (\<lambda>v. args\<lparr>ar_negotiation_timeout := v\<rparr>))
        else if c = CHR ''c'' then keep (set_arg (nonneg_int optarg) (\<lambda>v. args\<lparr>ar_connect_timeout := v\<rparr>))
        else if c = CHR ''i'' then keep (set_arg (nonneg_int optarg) (\<lambda>v. args\<lparr>ar_idle_timeout := v\<rparr>))
        else if c = CHR ''o'' then keep (Inr (args\<lparr>ar_access_log := Some optarg\<rparr>))
        else if c = CHR ''v'' then Some (Inl 0)
        else Some (Inl 1))"

fun parse_opts :: "opt list \<Rightarrow> nat \<Rightarrow> socks5args \<Rightarrow> (int + socks5args) option" where
  "parse_opts [] nusers args = Some (Inr args)"
| "parse_opts (o' # os) nusers args =
     (case parse_opt o' nusers args of
        None \<Rightarrow> None
      | Some (Inl e) \<Rightarrow> Some (Inl e)
      | Some (Inr (nusers, args)) \<Rightarrow> parse_opts os nusers args)"

definition parse_args :: "string list \<Rightarrow> (int + socks5args) option" where
  "parse_args argv = (case getopt server_opts argv of (os, operands) \<Rightarrow>
     case parse_opts os 0 default_args of
       None \<Rightarrow> None
     | Some (Inl e) \<Rightarrow> Some (Inl e)
     | Some (Inr args) \<Rightarrow> Some (if operands \<noteq> [] then Inl 1 else Inr args))"

section \<open>What the parser gives\<close>

definition int_setting :: "int \<Rightarrow> bool" where
  "int_setting n \<longleftrightarrow> 0 \<le> n \<and> n \<le> INT_MAX"

definition user_ok :: "char list \<times> char list \<Rightarrow> bool" where
  "user_ok u \<longleftrightarrow> CHR '':'' \<notin> set (fst u) \<and> NUL \<notin> set (fst u) \<and> NUL \<notin> set (snd u)"

text \<open>The first \<open>us\<close> entries of the table are users, the others are still null.\<close>

definition user_table :: "(char list \<times> char list) list \<Rightarrow> user_arg list" where
  "user_table us = map Some us @ replicate (MAX_USERS - length us) None"

definition settings_ok :: "(char list \<times> char list) list \<Rightarrow> socks5args \<Rightarrow> bool" where
  "settings_ok us a \<longleftrightarrow> int_setting (ar_max_connections a) \<and> int_setting (ar_negotiation_timeout a)
     \<and> int_setting (ar_connect_timeout a) \<and> int_setting (ar_idle_timeout a)
     \<and> length us \<le> MAX_USERS \<and> list_all user_ok us \<and> ar_users a = user_table us"

lemma nonneg_int_range: "nonneg_int s = Inr n \<Longrightarrow> int_setting n" "nonneg_int s = Inl e \<Longrightarrow> e = 1"
  by (auto simp: nonneg_int_def int_setting_def split: prod.splits if_splits)

lemma arg_port_status: "arg_port s = Inl e \<Longrightarrow> e = 1"
  by (auto simp: arg_port_def split: prod.splits if_splits)

lemma arg_user_ok: "arg_user s = Inr u \<Longrightarrow> user_ok u" "arg_user s = Inl e \<Longrightarrow> e = 1"
proof -
  have n: "NUL \<notin> set (cstr s)" by (simp add: cstr_def) (metis set_takeWhileD)
  have "set (tl xs) \<subseteq> set xs" for xs :: "char list" by (cases xs) auto
  then have "NUL \<notin> set (tl (dropWhile P (cstr s)))" for P using n set_dropWhileD [of NUL P "cstr s"] by blast
  moreover have "NUL \<notin> set (takeWhile P (cstr s))" for P using n set_takeWhileD [of NUL P "cstr s"] by blast
  moreover have "c \<notin> set (takeWhile (\<lambda>x. x \<noteq> c) (cstr s))" for c using set_takeWhileD [of c "\<lambda>x. x \<noteq> c" "cstr s"] by blast
  ultimately
  show "user_ok u" if "arg_user s = Inr u" using that by (auto simp: arg_user_def user_ok_def split: if_splits)
  show "arg_user s = Inl e \<Longrightarrow> e = 1" by (auto simp: arg_user_def split: if_splits)
qed

lemma user_table_add:
  assumes "length us < MAX_USERS"
  shows "arr_set (user_table us) (int (length us)) (Some u) = Some (user_table (us @ [u]))"
proof -
  have "replicate (MAX_USERS - length us) None = None # replicate (MAX_USERS - Suc (length us)) (None :: user_arg)"
    using assms by (metis Suc_diff_Suc replicate_Suc)
  then show ?thesis using assms by (simp add: user_table_def arr_set_def list_update_append)
qed

text \<open>What one option does.\<close>

fun opt_ok :: "int + nat \<times> socks5args \<Rightarrow> bool" where
  "opt_ok (Inl st) = (st \<in> {0, 1})"
| "opt_ok (Inr (n, a)) = (\<exists>us. n = length us \<and> settings_ok us a)"

lemma parse_opt_ok:
  assumes a: "settings_ok us a"
  shows "returns (parse_opt o' (length us) a) opt_ok"
proof -
  obtain c s where o: "o' = (c, s)" by (cases o')
  have branch: "returns (if b then x else y) opt_ok" if "returns x opt_ok" "returns y opt_ok" for b x y
    using that by simp
  have plain: "returns (Some (case Inr x of Inl e \<Rightarrow> Inl e | Inr args \<Rightarrow> Inr (length us, args))) opt_ok" if "settings_ok us x" for x
    using that by auto
  have set: "returns (Some (case set_arg v f of Inl e \<Rightarrow> Inl e | Inr args \<Rightarrow> Inr (length us, args))) opt_ok"
    if "\<And>e. v = Inl e \<Longrightarrow> e = 1" "\<And>x. v = Inr x \<Longrightarrow> settings_ok us (f x)" for v :: "int + 'b" and f
    using that by (cases v) auto
  have user: "returns (if MAX_USERS \<le> length us then Some (Inl 1) else case arg_user s of Inl e \<Rightarrow> Some (Inl e)
      | Inr u \<Rightarrow> do { xs \<leftarrow> arr_set (ar_users a) (int (length us)) (Some u); Some (Inr (length us + 1, a\<lparr>ar_users := xs\<rparr>)) }) opt_ok"
  proof (cases "arg_user s")
    case (Inr u)
    show ?thesis
    proof (cases "MAX_USERS \<le> length us")
      case False
      have "user_ok u" by (rule arg_user_ok(1) [OF Inr])
      then have "settings_ok (us @ [u]) (a\<lparr>ar_users := user_table (us @ [u])\<rparr>)" using a False by (simp add: settings_ok_def)
      moreover have "Suc (length us) = length (us @ [u])" by simp
      ultimately have "\<exists>vs. Suc (length us) = length vs \<and> settings_ok vs (a\<lparr>ar_users := user_table (us @ [u])\<rparr>)" by blast
      then show ?thesis using a user_table_add [of us u] False Inr by (simp add: settings_ok_def)
    qed simp
  qed (use arg_user_ok(2) in auto)
  show ?thesis unfolding parse_opt_def o prod.case Let_def
    by (intro branch plain set user) (use a in \<open>auto simp: settings_ok_def dest: nonneg_int_range arg_port_status\<close>)
qed

lemma parse_opts_ok:
  "settings_ok us a \<Longrightarrow> returns (parse_opts os (length us) a) (\<lambda>r. case r of Inl st \<Rightarrow> st \<in> {0, 1} | Inr a' \<Rightarrow> (\<exists>us'. settings_ok us' a'))"
proof (induction os arbitrary: us a)
  case (Cons o' os)
  from parse_opt_ok [OF Cons.prems, of o'] obtain r where r: "parse_opt o' (length us) a = Some r"
    "opt_ok r" by (auto simp: returns_iff)
  show ?case
  proof (cases r)
    case (Inr p)
    obtain n a' where p: "p = (n, a')" by (cases p)
    obtain us' where "n = length us'" "settings_ok us' a'" using r(2) Inr p by auto
    then show ?thesis using Cons.IH [of us' a'] r(1) Inr p by (simp add: returns_iff)
  qed (use r in simp)
qed auto

lemma parse_args_ok: "returns (parse_args argv) (\<lambda>r. case r of Inl st \<Rightarrow> st \<in> {0, 1} | Inr a \<Rightarrow> (\<exists>us. settings_ok us a))"
proof -
  have "settings_ok [] default_args" by (simp add: settings_ok_def default_args_def int_setting_def user_table_def)
  from parse_opts_ok [OF this, of "fst (getopt server_opts argv)"] obtain r where
    "parse_opts (fst (getopt server_opts argv)) 0 default_args = Some r"
    "case r of Inl st \<Rightarrow> st \<in> {0, 1} | Inr a \<Rightarrow> (\<exists>us. settings_ok us a)" by (auto simp: returns_iff)
  then show ?thesis by (cases r) (auto simp: parse_args_def split: prod.split)
qed

section \<open>Options and operands\<close>

text \<open>An option with its argument as two words.\<close>

fun opt_words :: "opt list \<Rightarrow> string list" where
  "opt_words [] = []"
| "opt_words ((c, a) # os) = [CHR ''-'', c] # a # opt_words os"

lemma getopt_words:
  "(\<And>c a. (c, a) \<in> set os \<Longrightarrow> kind c = Some True \<and> c \<noteq> CHR ''-'') \<Longrightarrow> getopt kind (opt_words os) = (os, [])"
proof (induction os rule: opt_words.induct)
  case (2 c a os)
  have "kind c = Some True" "c \<noteq> CHR ''-''" using 2(2) [of c a] by simp_all
  moreover have "getopt kind (opt_words os) = (os, [])" by (rule 2(1), rule 2(2)) auto
  ultimately show ?case by simp
qed simp

text \<open>A command line that asks for the settings \<open>a\<close> with the users \<open>us\<close>.\<close>

definition user_text :: "char list \<times> char list \<Rightarrow> char list" where
  "user_text u = fst u @ CHR '':'' # snd u"

definition settings_opts :: "(char list \<times> char list) list \<Rightarrow> socks5args \<Rightarrow> opt list" where
  "settings_opts us a =
     [(CHR ''l'', ar_socks_addr a), (CHR ''p'', dec (unat (ar_socks_port a))),
      (CHR ''L'', ar_mng_addr a), (CHR ''P'', dec (unat (ar_mng_port a))),
      (CHR ''m'', dec (nat (ar_max_connections a))), (CHR ''t'', dec (nat (ar_negotiation_timeout a))),
      (CHR ''c'', dec (nat (ar_connect_timeout a))), (CHR ''i'', dec (nat (ar_idle_timeout a)))]
     @ (case ar_admin_secret a of None \<Rightarrow> [] | Some s \<Rightarrow> [(CHR ''a'', s)])
     @ (case ar_access_log a of None \<Rightarrow> [] | Some f \<Rightarrow> [(CHR ''o'', f)])
     @ map (\<lambda>u. (CHR ''u'', user_text u)) us"

lemma arg_port_dec [simp]: "arg_port (dec (unat (p :: u16))) = Inr p"
proof -
  have "int (unat p) \<le> 65535" using unsigned_less [of p, where 'a = int] by simp
  then show ?thesis by (simp add: arg_port_def strtol10_dec)
qed

lemma nonneg_int_dec: "int_setting n \<Longrightarrow> nonneg_int (dec (nat n)) = Inr n"
  by (simp add: nonneg_int_def strtol10_dec int_setting_def)

lemma arg_user_text: "user_ok u \<Longrightarrow> arg_user (user_text u) = Inr u"
proof -
  assume u: "user_ok u"
  have "cstr (user_text u) = user_text u" using u by (auto simp: cstr_def user_text_def user_ok_def takeWhile_eq_all_conv)
  moreover have "CHR '':'' \<notin> set (fst u)" using u by (simp add: user_ok_def)
  ultimately show ?thesis by (cases u) (auto simp: arg_user_def user_text_def takeWhile_append dropWhile_append)
qed

lemma parse_users:
  "list_all user_ok vs \<Longrightarrow> length us + length vs \<le> MAX_USERS \<Longrightarrow> ar_users a = user_table us \<Longrightarrow>
   parse_opts (map (\<lambda>u. (CHR ''u'', user_text u)) vs) (length us) a = Some (Inr (a\<lparr>ar_users := user_table (us @ vs)\<rparr>))"
proof (induction vs arbitrary: us a)
  case Nil
  then have "a\<lparr>ar_users := user_table us\<rparr> = a" by (cases a) simp
  then show ?case by simp
next
  case (Cons u vs)
  from Cons.IH [of "us @ [u]" "a\<lparr>ar_users := user_table (us @ [u])\<rparr>"] Cons.prems show ?case
    using user_table_add [of us u] by (simp add: parse_opt_def arg_user_text)
qed

lemma parse_opt_simps:
  "parse_opt (CHR ''l'', s) n a = Some (Inr (n, a\<lparr>ar_socks_addr := s\<rparr>))"
  "parse_opt (CHR ''L'', s) n a = Some (Inr (n, a\<lparr>ar_mng_addr := s\<rparr>))"
  "parse_opt (CHR ''a'', s) n a = Some (Inr (n, a\<lparr>ar_admin_secret := Some s\<rparr>))"
  "parse_opt (CHR ''o'', s) n a = Some (Inr (n, a\<lparr>ar_access_log := Some s\<rparr>))"
  "parse_opt (CHR ''p'', dec (unat p)) n a = Some (Inr (n, a\<lparr>ar_socks_port := p\<rparr>))"
  "parse_opt (CHR ''P'', dec (unat p)) n a = Some (Inr (n, a\<lparr>ar_mng_port := p\<rparr>))"
  "int_setting i \<Longrightarrow> parse_opt (CHR ''m'', dec (nat i)) n a = Some (Inr (n, a\<lparr>ar_max_connections := i\<rparr>))"
  "int_setting i \<Longrightarrow> parse_opt (CHR ''t'', dec (nat i)) n a = Some (Inr (n, a\<lparr>ar_negotiation_timeout := i\<rparr>))"
  "int_setting i \<Longrightarrow> parse_opt (CHR ''c'', dec (nat i)) n a = Some (Inr (n, a\<lparr>ar_connect_timeout := i\<rparr>))"
  "int_setting i \<Longrightarrow> parse_opt (CHR ''i'', dec (nat i)) n a = Some (Inr (n, a\<lparr>ar_idle_timeout := i\<rparr>))"
  by (simp_all add: parse_opt_def nonneg_int_dec)

lemma parse_settings:
  assumes ok: "settings_ok us a"
  shows "parse_opts (settings_opts us a) 0 default_args = Some (Inr a)"
proof -
  let ?users = "map (\<lambda>u. (CHR ''u'', user_text u)) us"
  have users: "parse_opts ?users 0 x = Some (Inr (x\<lparr>ar_users := user_table us\<rparr>))" if "ar_users x = user_table []" for x
    using parse_users [of us "[]" x] that ok by (simp add: settings_ok_def)
  have d: "ar_users default_args = user_table []" "ar_admin_secret default_args = None" "ar_access_log default_args = None"
    by (simp_all add: default_args_def user_table_def)
  define a0 where a0: "a0 = default_args\<lparr>ar_socks_addr := ar_socks_addr a, ar_socks_port := ar_socks_port a, ar_mng_addr := ar_mng_addr a,
    ar_mng_port := ar_mng_port a, ar_max_connections := ar_max_connections a, ar_negotiation_timeout := ar_negotiation_timeout a,
    ar_connect_timeout := ar_connect_timeout a, ar_idle_timeout := ar_idle_timeout a\<rparr>"
  have first: "parse_opts (settings_opts us a) 0 default_args
      = parse_opts ((case ar_admin_secret a of None \<Rightarrow> [] | Some s \<Rightarrow> [(CHR ''a'', s)])
          @ (case ar_access_log a of None \<Rightarrow> [] | Some f \<Rightarrow> [(CHR ''o'', f)]) @ ?users) 0 a0"
    using ok by (simp add: settings_opts_def parse_opt_simps settings_ok_def a0 default_args_def)
  have a: "a = a0\<lparr>ar_admin_secret := ar_admin_secret a, ar_access_log := ar_access_log a, ar_users := user_table us\<rparr>"
    using ok by (cases a) (simp add: a0 default_args_def settings_ok_def)
  have "ar_users a0 = user_table []" "ar_admin_secret a0 = None" "ar_access_log a0 = None" by (simp_all add: a0 d)
  then have "parse_opts (settings_opts us a) 0 default_args = Some (Inr (a0\<lparr>ar_admin_secret := ar_admin_secret a, ar_access_log := ar_access_log a, ar_users := user_table us\<rparr>))"
    unfolding first by (cases "ar_admin_secret a"; cases "ar_access_log a") (simp_all add: parse_opt_simps users)
  then show ?thesis using a by simp
qed

lemma settings_opts_letters: "(c, s) \<in> set (settings_opts us a) \<Longrightarrow> server_opts c = Some True \<and> c \<noteq> CHR ''-''"
  by (auto simp: settings_opts_def server_opts_def split: option.splits)

section \<open>Properties\<close>

text \<open>C32: Whatever the command line, \<^verbatim>\<open>parse_args\<close> ends: it either ends the program with status 0 or 1, or it
  fills the settings: the four numbers fit a non-negative \<^verbatim>\<open>int\<close>, and the table of the users starts with at most ten
  users whose names hold no colon, with null entries behind them.\<close>

theorem parse_args_settings:
  "\<exists>r. parse_args argv = Some r \<and> (case r of
     Inl status \<Rightarrow> status \<in> {0, 1}
   | Inr a \<Rightarrow> \<exists>us. settings_ok us a)"
  using parse_args_ok [of argv] unfolding returns_iff by blast

text \<open>C30: Every such settings can be asked for: the command line that \<open>settings_opts\<close> spells, with two words for each
  option, is parsed to exactly these settings, in whatever words the addresses, the secret, the passwords and the name
  of the log are.\<close>

theorem parse_args_round_trip:
  assumes "settings_ok us a"
  shows "parse_args (opt_words (settings_opts us a)) = Some (Inr a)"
  using getopt_words [of "settings_opts us a" server_opts, OF settings_opts_letters] parse_settings [OF assms] by (simp add: parse_args_def)

theorem parse_args_round_trip_witness:
  "parse_args (opt_words (settings_opts [(''ann'', ''s:3'')] (default_args\<lparr>ar_idle_timeout := 30, ar_access_log := Some ''-v'',
     ar_users := user_table [(''ann'', ''s:3'')]\<rparr>)))
   = Some (Inr (default_args\<lparr>ar_idle_timeout := 30, ar_access_log := Some ''-v'', ar_users := user_table [(''ann'', ''s:3'')]\<rparr>))"
  by (rule parse_args_round_trip) (simp add: settings_ok_def default_args_def int_setting_def user_ok_def)

end
