(* ===== verification/Server.thy ===== *)
theory Server
  imports Socks5_Accept Args
begin

text \<open>
  \<^verbatim>\<open>src/server/main.c\<close> and the thread of \<^verbatim>\<open>src/shared/dns_worker.c\<close>: the dispatch table, the set-up, the loop with
  its two-step shutdown, and the clean-up. What the environment does between two iterations of the loop (the
  resolver's thread runs, time passes, data arrives, signals come) is a sequence of events; an iteration of
  the loop is one event more. Diagnostics are left out.
\<close>

section \<open>The dispatch table\<close>

text \<open>
  The handlers that release a descriptor only reach the close handlers through \<^verbatim>\<open>selector_unregister_fd\<close>, so the
  table that they are given holds just those.
\<close>

definition server_close :: "handler \<Rightarrow> (attachment, proxy) callback" where
  "server_close h = (case h of
     socks5_handler \<Rightarrow> Some socksv5_close
   | mng_handler \<Rightarrow> Some mng_close
   | _ \<Rightarrow> None)"

definition close_host :: proxy_host where
  "close_host = \<lparr>h_sel = sel, h_put = \<lambda>sl w. w\<lparr>sel := sl\<rparr>, handle_read = \<lambda>_. None, handle_write = \<lambda>_. None,
     handle_block = \<lambda>_. None, handle_close = server_close\<rparr>"

definition server_read :: "handler \<Rightarrow> (attachment, proxy) callback" where
  "server_read h = (case h of
     socks_passive_handler \<Rightarrow> Some (socksv5_passive_accept close_host)
   | mng_passive_handler \<Rightarrow> Some mng_passive_accept
   | socks5_handler \<Rightarrow> Some (socksv5_read close_host)
   | mng_handler \<Rightarrow> Some (mng_read close_host))"

definition server_write :: "handler \<Rightarrow> (attachment, proxy) callback" where
  "server_write h = (case h of
     socks5_handler \<Rightarrow> Some (socksv5_write close_host)
   | mng_handler \<Rightarrow> Some (mng_write close_host)
   | _ \<Rightarrow> None)"

definition server_block :: "handler \<Rightarrow> (attachment, proxy) callback" where
  "server_block h = (case h of socks5_handler \<Rightarrow> Some (socksv5_block close_host) | _ \<Rightarrow> None)"

definition server_host :: proxy_host where
  "server_host = close_host\<lparr>handle_read := server_read, handle_write := server_write, handle_block := server_block\<rparr>"

section \<open>The resolver's thread\<close>

text \<open>
  One step of \<^verbatim>\<open>dns_thread\<close>. \<open>gai\<close> is \<^verbatim>\<open>getaddrinfo\<close>; \<open>mem\<close> is whether the allocation in \<^verbatim>\<open>selector_notify_block\<close>
  succeeds, which the thread does not look at.
\<close>

type_synonym resolver = "string \<Rightarrow> string \<Rightarrow> sockaddr list"

definition dns_step :: "resolver \<Rightarrow> bool \<Rightarrow> proxy \<Rightarrow> proxy option" where
  "dns_step gai mem w =
     (case g_dns_worker w of
        None \<Rightarrow> Some w
      | Some d \<Rightarrow> (case dns_thread w of
          T_Wait \<Rightarrow> do {
            (turn, d) \<leftarrow> dns_take d;
            Some (case turn of
                    Dns_Wait \<Rightarrow> w
                  | Dns_Exit \<Rightarrow> w\<lparr>dns_thread := T_Exit\<rparr>
                  | Dns_Take j \<Rightarrow> w\<lparr>g_dns_worker := Some d, dns_thread := T_Resolve j\<rparr>)
          }
        | T_Resolve j \<Rightarrow> do {
            result \<leftarrow> dns_lookup gai j d;
            job \<leftarrow> w_jobs d j;
            w \<leftarrow> upd_socks (j_target job) (\<lambda>s. s\<lparr>so_resolution := result\<rparr>) w;
            Some (w\<lparr>dns_thread := T_Notify j\<rparr>)
          }
        | T_Notify j \<Rightarrow> do {
            job \<leftarrow> w_jobs d j;
            let (_, sl) = selector_notify_block mem (j_fd job) (sel w);
            d \<leftarrow> dns_free j d;
            Some (w\<lparr>sel := sl, g_dns_worker := Some d, dns_thread := T_Wait\<rparr>)
          }
        | T_Exit \<Rightarrow> Some w))"

text \<open>
  \<^verbatim>\<open>pthread_join\<close>: the thread runs until it ends; \<open>mems\<close> are the allocations of its notifications. The steps of the
  main thread are over by then.
\<close>

partial_function (option) dns_join :: "resolver \<Rightarrow> bool list \<Rightarrow> proxy \<Rightarrow> proxy option" where
  "dns_join gai mems w =
     (if dns_thread w = T_Exit \<or> g_dns_worker w = None then Some w
      else do { w \<leftarrow> dns_step gai (fst (next_ok mems)) w; dns_join gai (snd (next_ok mems)) w })"

definition dns_worker_destroy :: "resolver \<Rightarrow> bool list \<Rightarrow> proxy \<Rightarrow> proxy option" where
  "dns_worker_destroy gai mems w =
     (case g_dns_worker w of
        None \<Rightarrow> Some w
      | Some d \<Rightarrow> do {
          w \<leftarrow> dns_join gai mems (w\<lparr>g_dns_worker := Some (d\<lparr>w_running := False\<rparr>)\<rparr>);
          d \<leftarrow> g_dns_worker w;
          d \<leftarrow> dns_drain (queue_head d) d;
          Some (w\<lparr>g_dns_worker := None\<rparr>)
        })"

section \<open>The end of the program\<close>

definition close_if :: "int \<Rightarrow> kernel \<Rightarrow> kernel" where
  "close_if fd k = (if fd \<ge> 0 then k_close fd k else k)"

text \<open>\<open>selector\<close>: whether there is one. \<^verbatim>\<open>mng_pool_destroy\<close> is empty.\<close>

definition cleanup :: "resolver \<Rightarrow> bool list \<Rightarrow> bool \<Rightarrow> proxy \<Rightarrow> proxy option" where
  "cleanup gai mems selector w = do {
     w \<leftarrow> dns_worker_destroy gai mems w;
     w \<leftarrow> (if selector then selector_destroy server_host w else Some w);
     w \<leftarrow> socksv5_pool_destroy w;
     Some (w\<lparr>kern := close_if (mng_fd w) (close_if (socks_fd w) (kern w)), g_users := None, g_metrics := None,
             g_access_log := None\<rparr>)
   }"

section \<open>The loop\<close>

text \<open>Giving up a listening socket: what the setter does is to store -1 in the variable.\<close>

definition stop_listening :: "int \<Rightarrow> (proxy \<Rightarrow> proxy) \<Rightarrow> proxy \<Rightarrow> proxy option" where
  "stop_listening fd forget w =
     (if fd \<ge> 0 then do {
        (_, w) \<leftarrow> selector_unregister_fd server_host fd w;
        Some (forget (w\<lparr>kern := k_close fd (kern w)\<rparr>))
      } else Some w)"

definition start_draining :: "proxy \<Rightarrow> proxy option" where
  "start_draining w = do {
     w \<leftarrow> stop_listening (socks_fd w) (\<lambda>w. w\<lparr>socks_fd := -1\<rparr>) w;
     w \<leftarrow> stop_listening (mng_fd w) (\<lambda>w. w\<lparr>mng_fd := -1\<rparr>) w;
     Some (w\<lparr>draining := True\<rparr>)
   }"

text \<open>
  One iteration. The number of signals is read twice, and a signal may come in between: \<open>n1\<close> and \<open>n2\<close> are what is
  read. The loop goes on, or it is left with the exit status of the program, whether
  there is a selector, and the state for the clean-up.
\<close>

datatype main_turn = Goes_On proxy | Leaves int bool proxy

definition main_iteration :: "(int set \<Rightarrow> int set \<Rightarrow> errno + int set \<times> int set) \<Rightarrow> nat \<Rightarrow> nat \<Rightarrow> proxy \<Rightarrow> main_turn option" where
  "main_iteration poll n1 n2 w =
     (if n1 > 1 then Some (Leaves 0 True w)
      else do {
        w \<leftarrow> (if n2 = 1 \<and> \<not> draining w then start_draining w else Some w);
        if draining w \<and> socksv5_active_sessions w = 0 \<and> mng_active_sessions w = 0 then Some (Leaves 0 True w)
        else do {
          (ss, w) \<leftarrow> selector_select poll server_host w;
          if ss \<noteq> SELECTOR_SUCCESS then Some (Leaves 1 True w)
          else do { w \<leftarrow> socksv5_check_timeouts server_host w; Some (Goes_On w) }
        }
      })"

section \<open>The set-up\<close>

text \<open>
  What the set-up finds: which allocations and initialisations succeed, the text already on \<^verbatim>\<open>stderr\<close>, \<^verbatim>\<open>fopen\<close>,
  \<^verbatim>\<open>getaddrinfo\<close> for the addresses of the listening sockets (none when it fails), \<^verbatim>\<open>bind\<close> and \<^verbatim>\<open>listen\<close> by the
  address, and the kernel.
\<close>

record main_env =
  me_users :: bool
  me_metrics :: bool
  me_log :: bool
  me_stderr :: string
  me_fopen :: "char list \<Rightarrow> string option"
  me_gai :: "string \<Rightarrow> string \<Rightarrow> sockaddr list option"
  me_bind :: "sockaddr \<Rightarrow> bool"
  me_listen :: "sockaddr \<Rightarrow> bool"
  me_masked :: bool
  me_installed :: bool
  me_selector :: "bool \<times> bool"
  me_worker :: "bool \<times> bool \<times> bool \<times> bool"
  me_resolver :: resolver
  me_notify :: "bool list"
  me_kernel :: kernel
  me_time :: int
  me_text_of_time :: "int \<Rightarrow> string"
  me_text_of_addr :: "sockaddr \<Rightarrow> string"

text \<open>The options set on the socket before \<^verbatim>\<open>bind\<close> have no effect in the model.\<close>

definition passive_socket :: "main_env \<Rightarrow> char list \<Rightarrow> u16 \<Rightarrow> kernel \<Rightarrow> (int \<times> kernel) option" where
  "passive_socket env addr port k = do {
     port_str \<leftarrow> snprintf (replicate PORT_STR_LEN NUL) PORT_STR_LEN (dec (unat port));
     case me_gai env (cstr addr) (cstr port_str) of
       None \<Rightarrow> Some (-1, k)
     | Some res \<Rightarrow> (case res of [] \<Rightarrow> None | a # _ \<Rightarrow>
         (case k_new_socket k of
            (Inl e, k) \<Rightarrow> Some (-1, k)
          | (Inr fd, k) \<Rightarrow>
              if \<not> me_bind env a then Some (-1, k_close fd k)
              else if \<not> me_listen env a then Some (-1, k_close fd k)
              else Some (fd, k)))
   }"

text \<open>The descriptor that \<^verbatim>\<open>fopen\<close> takes for the log.\<close>

definition k_fopen :: "kernel \<Rightarrow> kernel" where
  "k_fopen k = k\<lparr>k_open := fresh_fd (k_open k) # k_open k\<rparr>"

text \<open>The program's globals and the locals of \<^verbatim>\<open>main\<close> before anything is created.\<close>

definition initial_world :: "main_env \<Rightarrow> kernel \<Rightarrow> proxy" where
  "initial_world env k =
     \<lparr>kern = k, sel = \<lparr>fds = [], max_fd = 0, master_r = {}, master_w = {}, slave_r = {}, slave_w = {}, master_t = (0, 0),
        slave_t = (0, 0), resolution_jobs = []\<rparr>,
      g_admin_secret = None, g_users = None, g_metrics = None, g_config = None, g_active_sessions = 0,
      mng_heap = \<lambda>_. None, next_ptr = 0, socks_heap = \<lambda>_. None, pool = None, pool_size = 0, socks_active = 0,
      g_dns_worker = None, g_access_log = None, g_active_head = None, clock = me_time env, dns_thread = T_Wait,
      socks_fd = -1, mng_fd = -1, draining = False, text_of_time = me_text_of_time env, text_of_addr = me_text_of_addr env\<rparr>"

text \<open>The loop that adds the users of the command line, up to the first null name.\<close>

fun add_users :: "user_arg list \<Rightarrow> users \<Rightarrow> (bool \<times> users) option" where
  "add_users [] u = Some (True, u)"
| "add_users (None # as) u = Some (True, u)"
| "add_users (Some (name, pass) # as) u = do {
     (ok, u) \<leftarrow> users_add u name pass;
     if ok then add_users as u else Some (False, u)
   }"

text \<open>The registration of a listening socket, with the allocation that the selector may need.\<close>

definition register_passive :: "int \<Rightarrow> handler \<Rightarrow> proxy \<Rightarrow> (selector_status \<times> proxy) option" where
  "register_passive fd h w = (case k_alloc (kern w) of (mem, k) \<Rightarrow> do {
     (ss, sl) \<leftarrow> selector_register mem fd (Some h) OP_READ None (sel w);
     Some (ss, w\<lparr>kern := k, sel := sl\<rparr>)
   })"

text \<open>
  Everything before the loop. Going on means that the server is set up; leaving means that the program ends
  with that status, after the clean-up.
\<close>

definition server_conf :: selector_conf where
  "server_conf = \<lparr>conf_signal = 14, conf_timeout = (10, 0)\<rparr>"

definition main_objects :: "main_env \<Rightarrow> socks5args \<Rightarrow> main_turn option" where
  "main_objects env args =
     (let w = initial_world env (k_close 0 (me_kernel env));
          log = access_log_create (me_log env) (me_stderr env) (me_fopen env) (ar_access_log args);
          w = (if ar_access_log args \<noteq> None \<and> log \<noteq> None then w\<lparr>kern := k_fopen (kern w)\<rparr> else w);
          w = w\<lparr>g_users := if me_users env then Some users_create else None,
                g_metrics := if me_metrics env then Some metrics_create else None, g_access_log := log,
                g_config := Some (config_set_defaults (ar_negotiation_timeout args) (ar_connect_timeout args)
                                    (ar_idle_timeout args) (ar_max_connections args))\<rparr>
      in case g_users w of
           None \<Rightarrow> Some (Leaves 1 False w)
         | Some u \<Rightarrow>
             if g_metrics w = None \<or> log = None then Some (Leaves 1 False w)
             else do {
               (ok, u) \<leftarrow> add_users (ar_users args) u;
               Some (if ok then Goes_On (w\<lparr>g_users := Some u\<rparr>) else Leaves 1 False (w\<lparr>g_users := Some u\<rparr>))
             })"

definition main_listen :: "main_env \<Rightarrow> socks5args \<Rightarrow> proxy \<Rightarrow> main_turn option" where
  "main_listen env args w = do {
     (fd, k) \<leftarrow> passive_socket env (ar_socks_addr args) (ar_socks_port args) (kern w);
     let w = w\<lparr>kern := k, socks_fd := fd\<rparr>;
     if fd < 0 then Some (Leaves 1 False w)
     else do {
       (fd, k) \<leftarrow> passive_socket env (ar_mng_addr args) (ar_mng_port args) (kern w);
       let w = w\<lparr>kern := k, mng_fd := fd\<rparr>;
       if fd < 0 then Some (Leaves 1 False w)
       else (case k_set_nio (socks_fd w) (kern w) of
           (False, k) \<Rightarrow> Some (Leaves 1 False (w\<lparr>kern := k\<rparr>))
         | (True, k) \<Rightarrow> (case k_set_nio (mng_fd w) k of
             (ok, k) \<Rightarrow> Some (if ok then Goes_On (w\<lparr>kern := k\<rparr>) else Leaves 1 False (w\<lparr>kern := k\<rparr>))))
     }
   }"

definition main_register :: "proxy \<Rightarrow> main_turn option" where
  "main_register w = do {
     (ss, w) \<leftarrow> register_passive (socks_fd w) socks_passive_handler w;
     if ss \<noteq> SELECTOR_SUCCESS then Some (Leaves 1 True w)
     else do {
       (ss, w) \<leftarrow> register_passive (mng_fd w) mng_passive_handler w;
       Some (if ss \<noteq> SELECTOR_SUCCESS then Leaves 1 True w else Goes_On w)
     }
   }"

definition main_serve :: "main_env \<Rightarrow> socks5args \<Rightarrow> proxy \<Rightarrow> main_turn option" where
  "main_serve env args w =
     (if fst (selector_init (me_masked env) (me_installed env) server_conf) \<noteq> SELECTOR_SUCCESS then Some (Leaves 1 False w)
      else do {
        s \<leftarrow> selector_new (fst (me_selector env)) (snd (me_selector env)) server_conf ITEMS_MAX_SIZE;
        case s of
          None \<Rightarrow> Some (Leaves 1 False w)
        | Some s \<Rightarrow> (case me_worker env of (mem, mutex, cond, thread) \<Rightarrow>
            (case dns_worker_create mem mutex cond thread of
               None \<Rightarrow> Some (Leaves 1 True (w\<lparr>sel := s\<rparr>))
             | Some d \<Rightarrow> main_register (mng_set_context (ar_admin_secret args) (g_users w) (g_metrics w) (g_config w)
                 (w\<lparr>sel := s, g_dns_worker := Some d\<rparr>))))
      })"

text \<open>The steps of \<^verbatim>\<open>main\<close> one after the other, until one of them leaves.\<close>

definition and_then :: "main_turn \<Rightarrow> (proxy \<Rightarrow> main_turn option) \<Rightarrow> main_turn option" where
  "and_then t f = (case t of Goes_On w \<Rightarrow> f w | Leaves st se w \<Rightarrow> Some (Leaves st se w))"

definition main_setup :: "main_env \<Rightarrow> socks5args \<Rightarrow> main_turn option" where
  "main_setup env args = do {
     t \<leftarrow> main_objects env args;
     t \<leftarrow> and_then t (main_listen env args);
     and_then t (main_serve env args)
   }"

section \<open>The program\<close>

text \<open>
  What happens between two iterations, and an iteration. The network is the scripts of the kernel: what the calls
  to come will give.
\<close>

datatype server_event =
    Resolver_Runs resolver bool
  | Time_Is int
  | Network kernel
  | Iteration "int set \<Rightarrow> int set \<Rightarrow> errno + int set \<times> int set" nat nat

definition new_scripts :: "kernel \<Rightarrow> kernel \<Rightarrow> kernel" where
  "new_scripts n k = k\<lparr>k_in := k_in n, k_out := k_out n, k_accept := k_accept n, k_fcntl := k_fcntl n, k_mem := k_mem n,
     k_sock := k_sock n, k_conn := k_conn n, k_soerr := k_soerr n, k_shut := k_shut n\<rparr>"

fun server_step :: "server_event \<Rightarrow> proxy \<Rightarrow> main_turn option" where
  "server_step (Resolver_Runs gai mem) w = do { w \<leftarrow> dns_step gai mem w; Some (Goes_On w) }"
| "server_step (Time_Is now) w = Some (Goes_On (w\<lparr>clock := now\<rparr>))"
| "server_step (Network n) w = Some (Goes_On (w\<lparr>kern := new_scripts n (kern w)\<rparr>))"
| "server_step (Iteration poll n1 n2) w = main_iteration poll n1 n2 w"

fun main_loop :: "server_event list \<Rightarrow> proxy \<Rightarrow> main_turn option" where
  "main_loop [] w = Some (Goes_On w)"
| "main_loop (e # es) w = do { t \<leftarrow> server_step e w; and_then t (main_loop es) }"

text \<open>The program on a schedule: the state it is in at the end of it, or its exit status.\<close>

definition server_main :: "main_env \<Rightarrow> string list \<Rightarrow> server_event list \<Rightarrow> (int + proxy) option" where
  "server_main env argv es = do {
     r \<leftarrow> parse_args argv;
     case r of
       Inl status \<Rightarrow> Some (Inl status)
     | Inr args \<Rightarrow> do {
         t \<leftarrow> main_setup env args;
         t \<leftarrow> and_then t (main_loop es);
         case t of
           Goes_On w \<Rightarrow> Some (Inr w)
         | Leaves status selector w \<Rightarrow> do {
             _ \<leftarrow> cleanup (me_resolver env) (me_notify env) selector w;
             Some (Inl status)
           }
       }
   }"

end
