(* ===== verification/Server_Inv.thy ===== *)
theory Server_Inv
  imports Server
begin

text \<open>
  The invariant of the server over a whole iteration of the loop: the management handlers keep what the SOCKS
  sessions rely on and the other way round, the dispatch table provides every callback that the selector asks
  for, and so do the steps of the resolver's thread.
\<close>

lemma close_host_ok: "socks_host_ok close_host" "mng_host_ok close_host" "socks_host_ok server_host"
  by (simp_all add: socks_host_ok_def mng_host_ok_def close_host_def server_host_def server_close_def)

section \<open>The management handlers\<close>

text \<open>The fields that \<^verbatim>\<open>mng.c\<close> does not know.\<close>

lemma same_more:
  fixes w w' :: proxy
  assumes "srv.more w' = srv.more w"
  shows "socks_heap w' = socks_heap w" "pool w' = pool w" "pool_size w' = pool_size w" "socks_active w' = socks_active w"
    "g_dns_worker w' = g_dns_worker w" "g_active_head w' = g_active_head w" "dns_thread w' = dns_thread w"
    "socks_fd w' = socks_fd w" "mng_fd w' = mng_fd w"
  using assms by (cases w; cases w'; simp)+

text \<open>A handler of one management session, seen from the rest of the server.\<close>

lemma sound_mng:
  assumes s: "sound g w" and loc: "mng_local key p w w'" and more: "mng_gone key p w' \<or> (\<exists>m'. mng_inv key p m' w')"
    and r: "regs (sel w) (k_fd key) = Some (mng_handler, i, k_data key)" and m: "mng_heap w p = Some m" "ms_fd m = k_fd key" "p < next_ptr w"
  shows "sound g w'"
proof -
  let ?fd = "k_fd key"
  note W = soundD(1) [OF s, unfolded world_def]
  have L: "srv.more w' = srv.more w" "next_ptr w' = next_ptr w" "\<And>q. q \<noteq> p \<Longrightarrow> mng_heap w' q = mng_heap w q" "full_sel (sel w')"
    "\<And>f. f \<noteq> ?fd \<Longrightarrow> regs (sel w') f = regs (sel w) f" "resolution_jobs (sel w') = resolution_jobs (sel w)"
    "\<forall>u. g_users w' = Some u \<longrightarrow> users_wf u" "elsewhere ?fd (kern w) (kern w')"
    "\<And>f. f \<in> set (k_open (kern w)) \<Longrightarrow> f \<in> set (k_open (kern w')) \<or> f = ?fd \<and> regs (sel w') f = None"
    using loc unfolding mng_local_def by blast+
  note E = same_more [OF L(1)]
  have fds: "fds_of w' = fds_of w" by (simp add: fds_of_def fun_eq_iff E)
  have ow: "owed g w' = owed g w" by (rule owed_cong) (simp_all add: E)
  have dn: "dns_ok g w' = dns_ok g w" by (rule dns_ok_cong [OF E(5,7) fds])
  have own: "f \<in> set (k_open (kern w')) \<and> owner_ok g w' f h j d" if r': "regs (sel w') f = Some (h, j, d)" for f h j d
  proof (cases "f = ?fd")
    case True
    then obtain m' where m': "mng_inv key p m' w'" using more r' by (auto simp: mng_gone_def)
    have "f \<in> set (k_open (kern w))" using sound_open [OF s, of f] r True by simp
    then have "f \<in> set (k_open (kern w'))" using L(9) [of f] r' by auto
    moreover have "h = mng_handler" "d = Some (Mng_Ptr p)" "j = (if ms_out_len m' = 0 then OP_READ else OP_WRITE)" "mng_heap w' p = Some m'"
      "session_wf m'" "ms_fd m' = f" using m' r' True by (auto simp: mng_inv_def mng_ok_def mng_owned_def split: if_splits)
    ultimately show ?thesis using m(3) L(2) by (simp add: owner_ok_def mng_reg_def)
  next
    case False
    then have r: "regs (sel w) f = Some (h, j, d)" using L(5) r' by simp
    then have "f \<in> set (k_open (kern w))" "owner_ok g w f h j d" using W by auto
    moreover have "mng_reg f j d w'" if mr: "mng_reg f j d w"
    proof -
      obtain q m1 where q: "d = Some (Mng_Ptr q)" "mng_heap w q = Some m1" "session_wf m1" "ms_fd m1 = f"
        "j = (if ms_out_len m1 = 0 then OP_READ else OP_WRITE)" "q < next_ptr w" using mr unfolding mng_reg_def by blast
      have "q \<noteq> p" using q(2,4) m(1,2) False by auto
      then show ?thesis using q L(2,3) by (simp add: mng_reg_def)
    qed
    ultimately have "owner_ok g w' f h j d" by (cases h) (simp_all add: owner_ok_def socks_reg_def fds)
    then show ?thesis using L(9) [of f] \<open>f \<in> set (k_open (kern w))\<close> False by auto
  qed
  have "listens w'"
    by (rule listens_frame [of w]) (use W E L(5) r in \<open>auto split: if_splits\<close>, metis Pair_inject option.inject L(5))
  then have "world g w'" using W E L own by (simp add: world_def dn)
  moreover have "alive g w' q" if q: "q \<in> set (active g)" for q
  proof (rule alive_frame [OF soundD(3) [OF s q]])
    fix t assume t: "socks_heap w q = Some t"
    obtain ci oi where "settled g q t ci oi w" using soundD(3) [OF s q] t by (auto simp: alive_def)
    then have reg: "registered q t ci oi (regs (sel w))" by (simp add: settled_def)
    have leg: "?fd \<noteq> -1" using sel.entry_legal [OF soundD(2) [OF s], of ?fd] r by (auto simp: INVALID_FD_def)
    have ne: "so_client_fd t \<noteq> ?fd" "so_origin_fd t \<noteq> ?fd" using reg r leg by (auto simp: registered_def)
    then have "talk_of t (kern w') = talk_of t (kern w)" using L(8) by (simp add: elsewhere_def talk_of_def)
    then show "regs (sel w') (so_client_fd t) = regs (sel w) (so_client_fd t)
      \<and> (so_origin_fd t \<noteq> -1 \<longrightarrow> regs (sel w') (so_origin_fd t) = regs (sel w) (so_origin_fd t))
      \<and> talk_of t (kern w') = talk_of t (kern w)
      \<and> (so_client_fd t \<in> set (owed g w') \<longrightarrow> so_client_fd t \<in> set (owed g w))" using ne L(5) ow by simp
  qed (simp add: E)
  ultimately show ?thesis by (simp add: sound_def)
qed

lemma mng_registration:
  assumes s: "sound g w" and r: "regs (sel w) fd = Some (mng_handler, i, d)"
  obtains p m where "d = Some (Mng_Ptr p)" "mng_inv \<lparr>k_fd = fd, k_data = d\<rparr> p m w" "mng_heap w p = Some m" "ms_fd m = fd" "p < next_ptr w"
    "i = (if ms_out_len m = 0 then OP_READ else OP_WRITE)"
proof -
  have "owner_ok g w fd mng_handler i d" using s r by (simp add: sound_def world_def)
  then obtain p m where p: "d = Some (Mng_Ptr p)" "mng_heap w p = Some m" "session_wf m" "ms_fd m = fd"
    "i = (if ms_out_len m = 0 then OP_READ else OP_WRITE)" "p < next_ptr w" unfolding owner_ok_def mng_reg_def by auto
  have "mng_inv \<lparr>k_fd = fd, k_data = d\<rparr> p m w"
    using p r soundD(2) [OF s] sound_users [OF s] by (simp add: mng_inv_def mng_ok_def mng_owned_def)
  then show thesis using that p by blast
qed

text \<open>The two event handlers.\<close>

lemma mng_event_ok:
  assumes s: "sound g w" and r: "regs (sel w) fd = Some (mng_handler, i, d)"
  shows "OP_READ AND i \<noteq> 0 \<Longrightarrow> returns (mng_read close_host \<lparr>k_fd = fd, k_data = d\<rparr> w) (\<lambda>w'. sound g w'
      \<and> (\<forall>h i d'. regs (sel w') fd = Some (h, i, d') \<longrightarrow> d' = d))"
    and "OP_WRITE AND i \<noteq> 0 \<Longrightarrow> returns (mng_write close_host \<lparr>k_fd = fd, k_data = d\<rparr> w) (sound g)"
proof -
  let ?key = "\<lparr>k_fd = fd, k_data = d\<rparr>"
  obtain p m where p: "d = Some (Mng_Ptr p)" "mng_inv ?key p m w" "mng_heap w p = Some m" "ms_fd m = fd" "p < next_ptr w"
    "i = (if ms_out_len m = 0 then OP_READ else OP_WRITE)" by (rule mng_registration [OF s r])
  have snd: "sound g w'" if "mng_local ?key p w w'" "mng_gone ?key p w' \<or> (\<exists>m'. mng_inv ?key p m' w')" for w'
    by (rule sound_mng [OF s that(1,2), of i m]) (use r p in simp_all)
  have data: "d' = d" if "mng_gone ?key p w' \<or> (\<exists>m'. mng_inv ?key p m' w')" "regs (sel w') fd = Some (h, j, d')" for w' h j d'
    using that by (auto simp: mng_gone_def mng_inv_def mng_owned_def)
  show "returns (mng_read close_host ?key w) (\<lambda>w'. sound g w' \<and> (\<forall>h i d'. regs (sel w') fd = Some (h, i, d') \<longrightarrow> d' = d))"
    if "OP_READ AND i \<noteq> 0"
  proof -
    have "ms_out_len m = 0" using that p(6) by (simp split: if_splits)
    from mng_read_ok [OF close_host_ok(2) p(2) this] show ?thesis by (rule returns_mono) (use snd data in blast)
  qed
  show "returns (mng_write close_host ?key w) (sound g)" if "OP_WRITE AND i \<noteq> 0"
  proof -
    have "ms_out_len m \<noteq> 0" using that p(6) by (simp split: if_splits)
    from mng_write_ok [OF close_host_ok(2) p(2) this] show ?thesis by (rule returns_mono) (use snd in blast)
  qed
qed

text \<open>The accepting handler, whatever fails.\<close>

lemma sound_mng_count: "sound g w \<Longrightarrow> sound g (case g_metrics w of None \<Rightarrow> w | Some mt \<Rightarrow> w\<lparr>g_metrics := Some (f mt)\<rparr>)"
  using sound_users [of g w] by (cases "g_metrics w") (auto elim!: sound_cong)

lemma sound_mng_enter:
  assumes s: "sound g w" and none: "regs (sel w) c = None" and op: "c \<in> set (k_open (kern w))"
    and sl: "full_sel sl" "resolution_jobs sl = resolution_jobs (sel w)"
      "regs sl = (regs (sel w))(c \<mapsto> (mng_handler, OP_READ, Some (Mng_Ptr (next_ptr w))))"
  shows "sound g (w\<lparr>sel := sl, mng_heap := (mng_heap w)(next_ptr w \<mapsto> new_session c), next_ptr := Suc (next_ptr w),
    g_active_sessions := n\<rparr>)"
proof -
  let ?w = "w\<lparr>sel := sl, mng_heap := (mng_heap w)(next_ptr w \<mapsto> new_session c), next_ptr := Suc (next_ptr w), g_active_sessions := n\<rparr>"
  note W = soundD(1) [OF s, unfolded world_def]
  have fds: "fds_of ?w = fds_of w" by (simp add: fds_of_def fun_eq_iff)
  have ow: "owed g ?w = owed g w" by (rule owed_cong) simp_all
  have dn: "dns_ok g ?w = dns_ok g w" by (rule dns_ok_cong [OF _ _ fds]) simp_all
  have new: "ms_fd (new_session c) = c" "ms_out_len (new_session c) = 0" by (simp_all add: new_session_def)
  have old: "mng_reg f j d ?w" if "mng_reg f j d w" for f j d using that unfolding mng_reg_def by fastforce
  have own: "f \<in> set (k_open (kern ?w)) \<and> owner_ok g ?w f h j d" if r: "regs (sel ?w) f = Some (h, j, d)" for f h j d
  proof (cases "f = c")
    case True
    have "mng_reg c OP_READ (Some (Mng_Ptr (next_ptr w))) ?w" unfolding mng_reg_def
      by (rule exI [of _ "next_ptr w"], rule exI [of _ "new_session c"]) (simp add: new)
    then show ?thesis using True r sl(3) op by (auto simp: owner_ok_def)
  next
    case False
    then have "f \<in> set (k_open (kern w)) \<and> owner_ok g w f h j d" using r sl(3) W by simp
    then show ?thesis using old by (cases h) (simp_all add: owner_ok_def socks_reg_def fds)
  qed
  have "listens ?w" by (rule listens_frame [of w]) (use W none sl(3) in auto)
  then have "world g ?w" using W sl(1,2) own by (auto simp: world_def dn less_Suc_eq)
  moreover have "alive g ?w q" if q: "q \<in> set (active g)" for q
  proof (rule alive_frame [OF soundD(3) [OF s q]])
    fix t assume t: "socks_heap w q = Some t"
    show "regs (sel ?w) (so_client_fd t) = regs (sel w) (so_client_fd t)
      \<and> (so_origin_fd t \<noteq> -1 \<longrightarrow> regs (sel ?w) (so_origin_fd t) = regs (sel w) (so_origin_fd t))
      \<and> talk_of t (kern ?w) = talk_of t (kern w)
      \<and> (so_client_fd t \<in> set (owed g ?w) \<longrightarrow> so_client_fd t \<in> set (owed g w))"
      using aliveD [OF soundD(3) [OF s q] t] none sl(3) ow by (cases "so_origin_fd t = -1") auto
  qed simp
  ultimately show ?thesis by (simp add: sound_def)
qed

lemma mng_passive_accept_ok:
  assumes s: "sound g w"
  shows "returns (mng_passive_accept key w) (\<lambda>w'. sound g w' \<and> (\<forall>fd. regs (sel w) fd \<noteq> None \<longrightarrow> regs (sel w') fd = regs (sel w) fd))"
proof -
  obtain r k1 where r: "k_do_accept (k_fd key) (kern w) = (r, k1)" by (cases "k_do_accept (k_fd key) (kern w)")
  note acc = do_accept_kern [OF r]
  show ?thesis
  proof (cases r)
    case (Inl e)
    then show ?thesis using r acc sound_silent [OF s] by (simp add: mng_passive_accept_def)
  next
    case (Inr c)
    then have c: "c \<notin> set (k_open (kern w))" "k_open k1 = c # k_open (kern w)" "k_rx k1 = (k_rx (kern w))(c := [])"
      "k_tx k1 = (k_tx (kern w))(c := [])" "k_peer k1 = (k_peer (kern w))(c := None)" "0 \<le> c" using acc by auto
    have none: "regs (sel w) c = None" using c(1) sound_open [OF s, of c] by (cases "regs (sel w) c") auto
    have s1: "sound g (w\<lparr>kern := k1\<rparr>)" by (rule sound_kern [OF s]) (use c none in auto)
    obtain b k2 where b: "k_set_nio c k1 = (b, k2)" by (cases "k_set_nio c k1")
    obtain b3 k3 where b3: "k_alloc k2 = (b3, k3)" by (cases "k_alloc k2")
    obtain b4 k4 where b4: "k_alloc k3 = (b4, k4)" by (cases "k_alloc k3")
    have snd: "sound g (w\<lparr>kern := k2\<rparr>)" "sound g (w\<lparr>kern := k3\<rparr>)" "sound g (w\<lparr>kern := k4\<rparr>)" and op: "c \<in> set (k_open k4)"
      using sound_silent [OF s1] silent_nio [OF b] silent_alloc [OF b3] silent_alloc [OF b4] c(2) by (simp_all add: silent_def)
    have cl: "sound g (w\<lparr>kern := k_close c k\<rparr>)" if "sound g (w\<lparr>kern := k\<rparr>)" for k using sound_close [OF that, of c] none by simp
    have fs: "full_sel (sel w)" by (rule soundD(2) [OF s])
    obtain st sl where sl: "selector_register b4 c (Some mng_handler) OP_READ (Some (Mng_Ptr (next_ptr w))) (sel w) = Some (st, sl)"
      "full_sel sl" "st = SELECTOR_SUCCESS \<and> regs sl = (regs (sel w))(c \<mapsto> (mng_handler, OP_READ, Some (Mng_Ptr (next_ptr w))))
        \<or> st \<noteq> SELECTOR_SUCCESS \<and> sl = sel w"
    proof (cases "INVALID_FD c")
      case True
      then show ?thesis using that [of SELECTOR_IARGS "sel w"] fs by (simp add: selector_register_def)
    next
      case False
      from full_enter [OF fs False, of b4 mng_handler OP_READ "Some (Mng_Ptr (next_ptr w))"] none that show ?thesis
        by (auto simp: returns_prod)
    qed
    have jobs: "resolution_jobs sl = resolution_jobs (sel w)" by (rule enter_jobs [OF sl(1)])
    note run = mng_passive_accept_def r Inr Let_def prod.case b b3 b4 sum.case
    show ?thesis
    proof (cases "b \<and> b3 \<and> st = SELECTOR_SUCCESS")
      case False
      then show ?thesis unfolding run using sl(1,3) cl [OF snd(1)] cl [OF snd(2)] cl [OF snd(3)] by (auto simp: b3 b4)
    next
      case True
      with sl(3) have R: "regs sl = (regs (sel w))(c \<mapsto> (mng_handler, OP_READ, Some (Mng_Ptr (next_ptr w))))" by blast
      have e: "w\<lparr>kern := k4, sel := sl, mng_heap := (mng_heap w)(next_ptr w \<mapsto> new_session c), next_ptr := next_ptr w + 1,
          g_active_sessions := g_active_sessions w + 1\<rparr>
        = (w\<lparr>kern := k4\<rparr>)\<lparr>sel := sl, mng_heap := (mng_heap (w\<lparr>kern := k4\<rparr>))(next_ptr (w\<lparr>kern := k4\<rparr>) \<mapsto> new_session c),
          next_ptr := Suc (next_ptr (w\<lparr>kern := k4\<rparr>)), g_active_sessions := g_active_sessions w + 1\<rparr>" by simp
      have "sound g (w\<lparr>kern := k4, sel := sl, mng_heap := (mng_heap w)(next_ptr w \<mapsto> new_session c), next_ptr := next_ptr w + 1,
          g_active_sessions := g_active_sessions w + 1\<rparr>)"
        unfolding e by (rule sound_mng_enter [OF snd(3)]) (use none op sl(2) jobs R in simp_all)
      from sound_mng_count [OF this, of metrics_admin_session_open] show ?thesis
        unfolding run using True sl(1) R none by (cases "g_metrics w") (auto simp: b3 b4)
    qed
  qed
qed

section \<open>What the selector asks for\<close>

lemma server_invD:
  assumes "server_inv w"
  obtains g where "sound g w" "pending g = resolution_jobs (sel w)" "finished g = resolution_jobs (sel w)"
  using assms by (auto simp: server_inv_def proxy_inv_def)

lemma server_invI: "sound g w \<Longrightarrow> pending g = finished g \<Longrightarrow> server_inv w"
  by (auto simp: server_inv_def proxy_inv_def sound_def world_def)

lemma inv_jobs: "proxy_inv fs fs w \<Longrightarrow> server_inv w"
  by (auto simp: proxy_inv_def intro: server_invI)

text \<open>A change of the selector that is no change of the registrations.\<close>

lemma sound_same_sel:
  assumes s: "sound g w" and sl: "full_sel sl" "regs sl = regs (sel w)" "resolution_jobs sl = finished g"
  shows "sound g (w\<lparr>sel := sl\<rparr>)"
proof -
  let ?w = "w\<lparr>sel := sl\<rparr>"
  note W = soundD(1) [OF s, unfolded world_def]
  have fds: "fds_of ?w = fds_of w" by (simp add: fds_of_def fun_eq_iff)
  have ow: "owed g ?w = owed g w" by (rule owed_cong) simp_all
  have dn: "dns_ok g ?w = dns_ok g w" by (rule dns_ok_cong [OF _ _ fds]) simp_all
  have own: "owner_ok g ?w f h i d = owner_ok g w f h i d" for f h i d by (rule owner_ok_cong [OF fds]) simp_all
  have "listens ?w = listens w" by (simp add: listens_def sl(2))
  then have "world g ?w" using W sl by (simp add: world_def dn own)
  moreover have "alive g ?w q" if q: "q \<in> set (active g)" for q
    by (rule alive_frame [OF soundD(3) [OF s q]]) (use sl(2) ow in simp_all)
  ultimately show ?thesis by (simp add: sound_def)
qed

lemma server_host_ok: "host_ok server_host server_inv"
proof -
  have h: "h_sel server_host = sel" "h_put server_host = (\<lambda>sl w. w\<lparr>sel := sl\<rparr>)" by (simp_all add: server_host_def close_host_def)
  have "full_sel (sel w)" if "server_inv w" for w using that by (rule server_invD) (rule soundD(2))
  moreover have "server_inv (w\<lparr>sel := sl\<rparr>)"
    if w: "server_inv w" "full_sel sl" "regs sl = regs (sel w)" "resolution_jobs sl = resolution_jobs (sel w)" for w sl
  proof -
    obtain g where g: "sound g w" "pending g = resolution_jobs (sel w)" "finished g = resolution_jobs (sel w)" by (rule server_invD [OF w(1)])
    have "sound g (w\<lparr>sel := sl\<rparr>)" by (rule sound_same_sel [OF g(1)]) (use w g in simp_all)
    then show ?thesis by (rule server_invI) (use g in simp)
  qed
  ultimately show ?thesis by (simp add: host_ok_def h)
qed

lemma server_read_ok: "read_ok server_host server_inv"
  unfolding read_ok_def callback_ok_def
proof (intro allI impI)
  fix w fd h i d
  assume w: "server_inv w" and r: "regs (h_sel server_host w) fd = Some (h, i, d)" and i: "OP_READ AND i \<noteq> 0"
  have r: "regs (sel w) fd = Some (h, i, d)" using r by (simp add: server_host_def close_host_def)
  obtain g where g: "sound g w" "pending g = resolution_jobs (sel w)" "finished g = resolution_jobs (sel w)" by (rule server_invD [OF w])
  let ?key = "\<lparr>k_fd = fd, k_data = d\<rparr>"
  let ?Q = "\<lambda>w'. server_inv w' \<and> keeps_data server_host fd d w'"
  have kd: "keeps_data server_host fd d w' = (\<forall>h' i' d'. regs (sel w') fd = Some (h', i', d') \<longrightarrow> d' = d)" for w'
    by (simp add: keeps_data_def server_host_def close_host_def)
  have rd: "handle_read server_host = server_read" by (simp add: server_host_def)
  show "\<exists>f. handle_read server_host h = Some f \<and> returns (f ?key w) ?Q"
  proof (cases h)
    case socks_passive_handler
    have "returns (socksv5_passive_accept close_host ?key w) ?Q"
      by (rule returns_mono [OF socksv5_passive_accept_ok [OF g(1)]]) (use r g in \<open>auto simp: accepted_def kd intro: inv_jobs\<close>)
    then show ?thesis using socks_passive_handler by (simp add: rd server_read_def)
  next
    case mng_passive_handler
    have "returns (mng_passive_accept ?key w) ?Q"
      by (rule returns_mono [OF mng_passive_accept_ok [OF g(1)]]) (use r g in \<open>auto simp: kd intro: server_invI\<close>)
    then show ?thesis using mng_passive_handler by (simp add: rd server_read_def)
  next
    case socks5_handler
    have "returns (socksv5_read close_host ?key w) ?Q"
      by (rule returns_mono [OF socksv5_read_ok [OF close_host_ok(1) g(1) r [unfolded socks5_handler] i]])
        (use g in \<open>auto simp: kd intro: inv_jobs\<close>)
    then show ?thesis using socks5_handler by (simp add: rd server_read_def)
  next
    case mng_handler
    have "returns (mng_read close_host ?key w) ?Q"
      by (rule returns_mono [OF mng_event_ok(1) [OF g(1) r [unfolded mng_handler] i]]) (use g in \<open>auto simp: kd intro: server_invI\<close>)
    then show ?thesis using mng_handler by (simp add: rd server_read_def)
  qed
qed

lemma server_write_ok: "write_ok server_host server_inv"
  unfolding write_ok_def callback_ok_def
proof (intro allI impI)
  fix w fd h i d
  assume w: "server_inv w" and r: "regs (h_sel server_host w) fd = Some (h, i, d)" and i: "OP_WRITE AND i \<noteq> 0"
  have r: "regs (sel w) fd = Some (h, i, d)" using r by (simp add: server_host_def close_host_def)
  obtain g where g: "sound g w" "pending g = resolution_jobs (sel w)" "finished g = resolution_jobs (sel w)" by (rule server_invD [OF w])
  let ?key = "\<lparr>k_fd = fd, k_data = d\<rparr>"
  have wr: "handle_write server_host = server_write" by (simp add: server_host_def)
  have own: "owner_ok g w fd h i d" using g(1) r by (simp add: sound_def world_def)
  show "\<exists>f. handle_write server_host h = Some f \<and> returns (f ?key w) (\<lambda>w'. server_inv w' \<and> True)"
  proof (cases h)
    case socks5_handler
    have "returns (socksv5_write close_host ?key w) server_inv"
      by (rule returns_mono [OF socksv5_write_ok [OF close_host_ok(1) g(1) r [unfolded socks5_handler] i]])
        (use g in \<open>auto intro: inv_jobs\<close>)
    then show ?thesis using socks5_handler by (simp add: wr server_write_def)
  next
    case mng_handler
    have "returns (mng_write close_host ?key w) server_inv"
      by (rule returns_mono [OF mng_event_ok(2) [OF g(1) r [unfolded mng_handler] i]]) (use g in \<open>auto intro: server_invI\<close>)
    then show ?thesis using mng_handler by (simp add: wr server_write_def)
  qed (use own i in \<open>simp_all add: owner_ok_def\<close>)
qed

text \<open>The notifications: while the jobs \<open>js\<close> are still to be handed out.\<close>

definition handing_out :: "int list \<Rightarrow> proxy \<Rightarrow> bool" where
  "handing_out js w \<longleftrightarrow> (\<exists>fs. proxy_inv js fs w)"

lemma server_jobs_ok: "jobs_ok server_host server_inv handing_out"
  unfolding jobs_ok_def
proof (intro conjI allI impI)
  have h: "h_sel server_host = sel" "h_put server_host = (\<lambda>sl w. w\<lparr>sel := sl\<rparr>)" "handle_block server_host = server_block"
    by (simp_all add: server_host_def close_host_def)
  show "handing_out (resolution_jobs (h_sel server_host w)) w" if "server_inv w" for w
    using that by (auto simp: handing_out_def server_inv_def h)
  show "server_inv (h_put server_host ((h_sel server_host w)\<lparr>resolution_jobs := []\<rparr>) w)" if Q: "handing_out [] w" for w
  proof -
    obtain g where g: "sound g w" "pending g = []" using Q by (auto simp: handing_out_def proxy_inv_def)
    let ?g = "g\<lparr>finished := []\<rparr>" and ?sl = "(sel w)\<lparr>resolution_jobs := []\<rparr>"
    have fs: "full_sel ?sl" "regs ?sl = regs (sel w)" using full_sel_cong [OF soundD(2) [OF g(1)], of ?sl] regs_cong [of ?sl "sel w"] by simp_all
    have "owed ?g = owed g" "dns_ok ?g = dns_ok g" "owner_ok ?g = owner_ok g"
      by (simp_all add: fun_eq_iff owed_def dns_ok_def job_ok_def owner_ok_def socks_reg_def split: option.split handler.split)
    then have gg: "alive ?g = alive g"
      by (simp_all add: fun_eq_iff alive_def settled_def)
    have w0: "world ?g (w\<lparr>sel := ?sl\<rparr>) \<and> (\<forall>q \<in> set (active g). alive g (w\<lparr>sel := ?sl\<rparr>) q)"
    proof -
      have e: "fds_of (w\<lparr>sel := ?sl\<rparr>) = fds_of w" by (simp add: fds_of_def fun_eq_iff)
      have dn: "dns_ok g (w\<lparr>sel := ?sl\<rparr>) = dns_ok g w" by (rule dns_ok_cong [OF _ _ e]) simp_all
      have own: "owner_ok g (w\<lparr>sel := ?sl\<rparr>) f h i d = owner_ok g w f h i d" for f h i d by (rule owner_ok_cong [OF e]) simp_all
      have ow: "owed g (w\<lparr>sel := ?sl\<rparr>) = owed g w" by (rule owed_cong) simp_all
      have "listens (w\<lparr>sel := ?sl\<rparr>) = listens w" by (simp add: listens_def fs(2))
      then have "world ?g (w\<lparr>sel := ?sl\<rparr>)"
        using soundD(1) [OF g(1)] fs \<open>dns_ok ?g = dns_ok g\<close> \<open>owner_ok ?g = owner_ok g\<close> by (simp add: world_def dn own)
      moreover have "alive g (w\<lparr>sel := ?sl\<rparr>) q" if q: "q \<in> set (active g)" for q
        by (rule alive_frame [OF soundD(3) [OF g(1) q]]) (use fs(2) ow in simp_all)
      ultimately show ?thesis by simp
    qed
    then have "sound ?g (w\<lparr>sel := ?sl\<rparr>)" using gg by (simp add: sound_def)
    then show ?thesis unfolding h by (rule server_invI) (use g(2) in simp)
  qed
  fix j js w assume Q: "handing_out (j # js) w"
  then obtain g where g: "sound g w" "pending g = j # js" by (auto simp: handing_out_def proxy_inv_def)
  have dn: "dns_ok g w" using g(1) by (simp add: sound_def world_def)
  then have "j \<in> set (owed g w)" using owed_next [OF g(2)] by (auto simp: dns_ok_def)
  then obtain p og where p: "p \<in> set (active g)" "fds_of w p = Some (j, og)" using dn by (auto simp: dns_ok_def)
  have reg: "regs (sel w) j \<noteq> None" using aliveD(1) [OF soundD(3) [OF g(1) p(1)]] p(2) by (auto simp: fds_of_def)
  then obtain hd i d where r: "regs (sel w) j = Some (hd, i, d)" by auto
  show "full_sel (h_sel server_host w)" unfolding h by (rule soundD(2) [OF g(1)])
  show "\<not> INVALID_FD j" using sel.entry_legal [OF soundD(2) [OF g(1)] reg] by simp
  note b = socksv5_block_ok [OF close_host_ok(1) g r]
  have "returns (socksv5_block close_host \<lparr>k_fd = j, k_data = d\<rparr> w) (handing_out js)"
    by (rule returns_mono [OF b(2)]) (auto simp: handing_out_def)
  then show "case regs (h_sel server_host w) j of None \<Rightarrow> handing_out js w
    | Some (h, i, d) \<Rightarrow> \<exists>f. handle_block server_host h = Some f \<and> returns (f \<lparr>k_fd = j, k_data = d\<rparr> w) (handing_out js)"
    using r b(1) by (simp add: h server_block_def)
qed

end
