(* ===== verification/Server_Run.thy ===== *)
theory Server_Run
  imports Server_Inv
begin

text \<open>
  The steps of the resolver's thread, the iteration of the loop and the set-up keep the invariant of the
  server, so a server that has been set up runs for ever, whatever happens around it.
\<close>

section \<open>The resolver's thread\<close>

text \<open>A step that is about the jobs only.\<close>

lemma sound_dns:
  assumes s: "sound g w" and g': "active g' = active g" "pooled g' = pooled g"
    and sl: "full_sel sl" "regs sl = regs (sel w)" "resolution_jobs sl = finished g'"
    and dn: "dns_ok g' (w\<lparr>sel := sl, g_dns_worker := dw, dns_thread := t\<rparr>)"
    and ow: "set (owed g' (w\<lparr>sel := sl, g_dns_worker := dw, dns_thread := t\<rparr>)) \<subseteq> set (owed g w)"
  shows "sound g' (w\<lparr>sel := sl, g_dns_worker := dw, dns_thread := t\<rparr>)"
proof -
  let ?w = "w\<lparr>sel := sl, g_dns_worker := dw, dns_thread := t\<rparr>"
  note W = soundD(1) [OF s, unfolded world_def]
  have fds: "fds_of ?w = fds_of w" by (simp add: fds_of_def fun_eq_iff)
  have own: "owner_ok g' ?w f h i d = owner_ok g w f h i d" for f h i d
  proof -
    have "owner_ok g' ?w f h i d = owner_ok g ?w f h i d" by (cases h) (simp_all add: owner_ok_def socks_reg_def g')
    then show ?thesis using owner_ok_cong [OF fds, of g f h i d] by simp
  qed
  have "listens ?w = listens w" by (simp add: listens_def sl(2))
  then have "world g' ?w" using W sl dn by (simp add: world_def own g')
  moreover have "alive g' ?w q" if q: "q \<in> set (active g)" for q
    by (rule alive_frame [OF soundD(3) [OF s q]]) (use sl(2) ow in auto)
  ultimately show ?thesis by (simp add: sound_def g')
qed

text \<open>The result of a job goes to a session that waits for it.\<close>

lemma sound_resolution:
  assumes s: "sound g w" and q: "q \<in> set (active g)" "socks_heap w q = Some t" "so_current t = Some REQUEST_RESOLV"
  shows "sound g (put_socks q (t\<lparr>so_resolution := rs\<rparr>) w)"
proof -
  obtain t' ci oi where o': "own g q t' ci oi (so_current t' = Some REQUEST_RESOLV) w" "settled g q t' ci oi w" by (rule sound_own [OF s q(1)])
  then have "t' = t" using ownD(3) [OF o'(1)] q(2) by simp
  then have o: "own g q t ci oi True w" and st: "settled g q t ci oi w" using o' q(3) by simp_all
  let ?t = "t\<lparr>so_resolution := rs\<rparr>"
  have wf: "sess_wf ?t" using ownD(4) [OF o] by (simp add: sess_wf_def)
  have o': "own g q ?t ci oi True (put_socks q ?t w)" by (rule own_put [OF o wf]) simp
  have "at_resolv t ci (talk_of t (kern w))" using settledD(1) [OF st] q(3) by simp
  then have "at_resolv ?t ci (talk_of ?t (kern w))" by (simp add: at_resolv_def requested_def talk_of_def cong: prod.case_cong)
  then show ?thesis by (intro own_sound [of g q ?t ci oi]) (use o' q(3) in simp_all)
qed

text \<open>How many steps the thread still has before it, when no job comes in any more.\<close>

definition dns_rank :: "ghost \<Rightarrow> proxy \<Rightarrow> nat" where
  "dns_rank g w = 3 * length (queued g) + (case dns_thread w of T_Exit \<Rightarrow> 0 | T_Wait \<Rightarrow> 1 | T_Notify _ \<Rightarrow> 2 | T_Resolve _ \<Rightarrow> 3)"

definition dns_runs :: "proxy \<Rightarrow> bool" where
  "dns_runs w \<longleftrightarrow> (case g_dns_worker w of None \<Rightarrow> False | Some d \<Rightarrow> w_running d)"

definition resolver_ran :: "ghost \<Rightarrow> proxy \<Rightarrow> proxy \<Rightarrow> bool" where
  "resolver_ran g w w' \<longleftrightarrow> (\<exists>g'. sound g' w' \<and> pending g' = finished g' \<and> dns_runs w' = dns_runs w
     \<and> (g_dns_worker w' = None \<longleftrightarrow> g_dns_worker w = None)
     \<and> (g_dns_worker w \<noteq> None \<longrightarrow> dns_thread w \<noteq> T_Exit \<longrightarrow> \<not> dns_runs w \<longrightarrow> dns_rank g' w' < dns_rank g w))"

lemma dns_step_ok:
  assumes s: "sound g w" and pf: "pending g = finished g"
  shows "returns (dns_step gai mem w) (resolver_ran g w)"
proof (cases "g_dns_worker w")
  case None
  then show ?thesis using s pf by (auto simp: dns_step_def resolver_ran_def)
next
  case (Some d)
  note W = soundD(1) [OF s, unfolded world_def]
  have fs: "full_sel (sel w)" and jobs: "resolution_jobs (sel w) = finished g" using W by blast+
  have dn: "queue_ok d (queued g)" "distinct (queued g @ in_hand w)" "distinct (owed g w)" "\<And>j. j \<in> set (queued g @ in_hand w) \<Longrightarrow> job_ok g w d j"
    "\<And>fd. fd \<in> set (owed g w) \<Longrightarrow> \<exists>p \<in> set (active g). \<exists>og. fds_of w p = Some (fd, og)"
    using W Some by (auto simp: dns_ok_def)
  show ?thesis
  proof (cases "dns_thread w")
    case T_Exit
    then show ?thesis using s pf Some by (auto simp: dns_step_def resolver_ran_def)
  next
    case T_Wait
    then have hand: "in_hand w = []" by (simp add: in_hand_def)
    show ?thesis
    proof (cases "queued g")
      case Nil
      then have tk: "dns_take d = Some (if w_running d then Dns_Wait else Dns_Exit, d)" using dn(1) take_empty by simp
      let ?w = "w\<lparr>sel := sel w, g_dns_worker := g_dns_worker w, dns_thread := T_Exit\<rparr>"
      have "in_hand ?w = []" by (simp add: in_hand_def)
      then have "dns_ok g ?w" "owed g ?w = owed g w" using W Some hand Nil by (auto simp: dns_ok_def owed_def job_fd_def fds_of_def)
      then have "sound g ?w" by (intro sound_dns [OF s]) (use fs jobs in simp_all)
      moreover have "?w = w\<lparr>dns_thread := T_Exit\<rparr>" by simp
      ultimately have "sound g (w\<lparr>dns_thread := T_Exit\<rparr>)" by metis
      then have "resolver_ran g w (w\<lparr>dns_thread := T_Exit\<rparr>)" "w_running d \<Longrightarrow> resolver_ran g w w"
        using s pf Some T_Wait Nil by (auto simp: resolver_ran_def dns_rank_def dns_runs_def intro!: exI [of _ g])
      then show ?thesis using Some T_Wait tk by (simp add: dns_step_def)
    next
      case (Cons j js)
      then obtain d' where d': "dns_take d = Some (Dns_Take j, d')" "queue_ok d' js" "w_jobs d' = w_jobs d" "w_running d' = w_running d"
        using take_ok [of d j js] dn(1) by auto
      let ?g = "g\<lparr>queued := js\<rparr>"
      define v where v: "v = w\<lparr>sel := sel w, g_dns_worker := Some d', dns_thread := T_Resolve j\<rparr>"
      have V: "g_dns_worker v = Some d'" "in_hand v = [j]" "fds_of v = fds_of w" by (simp_all add: v in_hand_def fds_of_def fun_eq_iff)
      have fd: "job_fd v = job_fd w" by (simp add: fun_eq_iff job_fd_def Some d'(3) V)
      have "owed ?g v = map (job_fd w) (js @ [j]) @ pending g" "owed g w = map (job_fd w) (j # js) @ pending g"
        by (simp_all add: owed_def V hand fd Cons)
      then have ow: "set (owed ?g v) = set (owed g w)" "distinct (owed ?g v)" using dn(3) by auto
      have "job_ok ?g v d' k" if "job_ok g w d k" for k using that by (simp add: job_ok_def d'(3) V)
      then have "dns_ok ?g v" using dn d'(2) ow Cons hand V by (auto simp: dns_ok_def)
      then have "sound ?g v" unfolding v by (intro sound_dns [OF s]) (use fs jobs ow in \<open>simp_all add: v\<close>)
      moreover have "dns_step gai mem w = Some v" using Some T_Wait d'(1) by (simp add: dns_step_def v)
      moreover have "dns_thread v = T_Resolve j" by (simp add: v)
      ultimately show ?thesis using pf T_Wait Some Cons V d'(4)
        by (auto simp: resolver_ran_def dns_rank_def dns_runs_def intro!: exI [of _ ?g])
    qed
  next
    case (T_Resolve j)
    then have "job_ok g w d j" and jin: "j \<in> set (queued g @ in_hand w)" using dn(4) by (simp_all add: in_hand_def)
    then obtain job og where j: "w_jobs d j = Some job" "j_target job \<in> set (active g)" "fds_of w (j_target job) = Some (j_fd job, og)"
      by (auto simp: job_ok_def)
    let ?q = "j_target job"
    obtain t where t: "socks_heap w ?q = Some t" "so_client_fd t = j_fd job" using j(3) by (auto simp: fds_of_def)
    have "job_fd w j = j_fd job" using Some j(1) by (simp add: job_fd_def)
    then have "j_fd job \<in> set (owed g w)" using jin by (force simp: owed_def)
    then have cur: "so_current t = Some REQUEST_RESOLV" using soundD(3) [OF s j(2)] t by (auto simp: alive_def settled_def)
    let ?t = "t\<lparr>so_resolution := gai (cstr (j_host job)) (cstr (j_port job))\<rparr>"
    let ?w1 = "put_socks ?q ?t w"
    define v where v: "v = ?w1\<lparr>sel := sel ?w1, g_dns_worker := g_dns_worker ?w1, dns_thread := T_Notify j\<rparr>"
    have s1: "sound g ?w1" by (rule sound_resolution [OF s j(2) t(1) cur])
    have V: "in_hand v = in_hand ?w1" "g_dns_worker v = g_dns_worker ?w1" "fds_of v = fds_of ?w1"
      using T_Resolve by (simp_all add: v in_hand_def fds_of_def fun_eq_iff)
    have ow: "owed g v = owed g ?w1" using V by (simp add: owed_def job_fd_def [abs_def])
    have "job_ok g v = job_ok g ?w1" by (simp add: fun_eq_iff job_ok_def V)
    moreover have "dns_ok g ?w1" using s1 by (simp add: sound_def world_def)
    ultimately have "dns_ok g v" unfolding dns_ok_def ow V using Some by simp
    then have "sound g v" unfolding v by (intro sound_dns [OF s1]) (use fs jobs ow in \<open>simp_all add: v\<close>)
    moreover have "dns_step gai mem w = Some v" using Some T_Resolve j(1) t(1) by (simp add: dns_step_def dns_lookup_def upd_socks_def v)
    moreover have "dns_thread v = T_Notify j" by (simp add: v)
    ultimately show ?thesis using pf T_Resolve Some V by (auto simp: resolver_ran_def dns_rank_def dns_runs_def intro!: exI [of _ g])
  next
    case (T_Notify j)
    then have hand: "in_hand w = [j]" by (simp add: in_hand_def)
    then have "job_ok g w d j" using dn(4) by simp
    then obtain job og where j: "w_jobs d j = Some job" by (auto simp: job_ok_def)
    have nq: "j \<notin> set (queued g)" using dn(2) hand by simp
    obtain d' where d': "dns_free j d = Some d'" "queue_ok d' (queued g)" "w_jobs d' = (w_jobs d)(j := None)" "w_running d' = w_running d"
      using free_ok [OF dn(1) nq] j by auto
    let ?sl = "snd (selector_notify_block mem (j_fd job) (sel w))"
    let ?new = "if mem then [j_fd job] else []"
    let ?g = "g\<lparr>pending := ?new @ pending g, finished := ?new @ finished g\<rparr>"
    define v where v: "v = w\<lparr>sel := ?sl, g_dns_worker := Some d', dns_thread := T_Wait\<rparr>"
    have sl: "full_sel ?sl" "regs ?sl = regs (sel w)" "resolution_jobs ?sl = finished ?g"
      using fs jobs full_sel_cong [OF fs, of ?sl] regs_cong [of ?sl "sel w"] by (simp_all add: selector_notify_block_def)
    have V: "in_hand v = []" "g_dns_worker v = Some d'" "fds_of v = fds_of w" by (simp_all add: v in_hand_def fds_of_def fun_eq_iff)
    have fd: "job_fd v k = job_fd w k" if "k \<noteq> j" for k using that by (simp add: job_fd_def Some d'(3) V)
    have fdj: "job_fd w j = j_fd job" using Some j by (simp add: job_fd_def)
    have "map (job_fd v) (queued g) = map (job_fd w) (queued g)" by (rule map_cong [OF refl], rule fd) (use nq in blast)
    then have o1: "owed ?g v = map (job_fd w) (queued g) @ ?new @ pending g" by (simp add: owed_def V)
    have o2: "owed g w = map (job_fd w) (queued g) @ j_fd job # pending g" by (simp add: owed_def hand fdj)
    have ow: "set (owed ?g v) \<subseteq> set (owed g w)" "distinct (owed ?g v)" unfolding o1 using dn(3) unfolding o2 by auto
    have "job_ok ?g v d' k" if "job_ok g w d k" "k \<noteq> j" for k using that by (simp add: job_ok_def d'(3) V)
    then have jk: "job_ok ?g v d' k" if "k \<in> set (queued g)" for k using dn(4) [of k] that nq by (cases "k = j") auto
    have "\<exists>p \<in> set (active g). \<exists>og. fds_of v p = Some (fd, og)" if "fd \<in> set (owed ?g v)" for fd using dn(5) [of fd] that ow(1) V by auto
    then have "dns_ok ?g v" using dn(2) d'(2) ow(2) jk V by (simp add: dns_ok_def)
    then have "sound ?g v" unfolding v by (intro sound_dns [OF s]) (use sl ow in \<open>simp_all add: v\<close>)
    moreover have "dns_step gai mem w = Some v"
      using Some T_Notify j d'(1) by (simp add: dns_step_def v split: prod.split)
    moreover have "dns_thread v = T_Wait" by (simp add: v)
    ultimately show ?thesis using pf T_Notify Some V d'(4)
      by (auto simp: resolver_ran_def dns_rank_def dns_runs_def intro!: exI [of _ ?g])
  qed
qed

section \<open>The iteration\<close>

text \<open>A listening socket is given up.\<close>

lemma unlisten_ok:
  assumes s: "sound g w" and r: "regs (sel w) fd = Some (h, OP_READ, None)" and h: "h \<noteq> socks5_handler" "h \<noteq> mng_handler"
    and v: "\<And>sl k. regs sl = (regs (sel w))(fd := None) \<Longrightarrow> listens (forget (w\<lparr>sel := sl, kern := k\<rparr>))"
    and f: "\<And>v. \<exists>a b. forget v = v\<lparr>socks_fd := a, mng_fd := b\<rparr>"
  shows "returns (stop_listening fd forget w) (sound g)"
proof -
  note W = soundD(1) [OF s, unfolded world_def]
  have fs: "full_sel (sel w)" by (rule soundD(2) [OF s])
  have leg: "\<not> INVALID_FD fd" using sel.entry_legal [OF fs, of fd] r by simp
  obtain k where k: "fd = int k" "k < ITEMS_MAX_SIZE" using leg by (cases fd) (auto simp: INVALID_FD_def)
  obtain it where it: "arr_get (fds (sel w)) (int k) = Some it"
    "item_used it \<longrightarrow> (\<exists>h. i_handler it = Some h \<and> i_fd it = int k \<and> regs (sel w) (int k) = Some (h, i_interest it, i_data it))"
    "\<not> item_used it \<longrightarrow> regs (sel w) (int k) = None \<and> i_interest it = OP_NOOP"
    using item_view [OF fs k(2)] by blast
  with r k have u: "item_used it" "i_handler it = Some h" by auto
  from full_remove [OF fs leg] obtain sl where sl: "item_remove fd (sel w) = Some sl" "full_sel sl" "regs sl = (regs (sel w))(fd := None)"
    by (auto simp: returns_iff)
  have jobs: "resolution_jobs sl = finished g" using remove_jobs [OF sl(1)] W by simp
  define w1 where w1: "w1 = w\<lparr>sel := sl, kern := k_close fd (kern w)\<rparr>"
  have nc: "handle_close server_host h = None" using h by (cases h) (simp_all add: server_host_def close_host_def server_close_def)
  have "selector_unregister_fd server_host fd w = Some (SELECTOR_SUCCESS, w\<lparr>sel := sl\<rparr>)"
    using it(1) u k leg nc sl(1) by (simp add: selector_unregister_fd_def server_host_def close_host_def)
  then have run: "stop_listening fd forget w = Some (forget w1)" using k by (simp add: stop_listening_def w1)
  obtain a b where ab: "forget w1 = w1\<lparr>socks_fd := a, mng_fd := b\<rparr>" using f by blast
  define w2 where w2: "w2 = w1\<lparr>socks_fd := a, mng_fd := b\<rparr>"
  have li: "listens w2" using v [OF sl(3), of "k_close fd (kern w)"] ab unfolding w1 [symmetric] w2 by simp
  have E: "sel w2 = sl" "kern w2 = k_close fd (kern w)" "fds_of w2 = fds_of w" "owed g w2 = owed g w" "socks_heap w2 = socks_heap w"
    "g_users w2 = g_users w"
    by (simp_all add: w1 w2 fds_of_def fun_eq_iff owed_def in_hand_def job_fd_def [abs_def])
  have dn: "dns_ok g w2 = dns_ok g w" by (rule dns_ok_cong) (simp_all add: E(3), simp_all add: w1 w2)
  have own: "owner_ok g w2 f h i d = owner_ok g w f h i d" for f h i d by (rule owner_ok_cong [OF E(3)]) (simp_all add: w1 w2)
  have "world g w2" using W sl(2,3) jobs li unfolding world_def dn own E
    by (auto simp: k_close_def w1 w2 split: if_splits)
  moreover have "alive g w2 q" if q: "q \<in> set (active g)" for q
  proof (rule alive_frame [OF soundD(3) [OF s q]])
    fix t assume t: "socks_heap w q = Some t"
    obtain ci oi where "settled g q t ci oi w" using soundD(3) [OF s q] t by (auto simp: alive_def)
    then have "registered q t ci oi (regs (sel w))" by (simp add: settled_def)
    then have "so_client_fd t \<noteq> fd" "so_origin_fd t = -1 \<or> so_origin_fd t \<noteq> fd" using r h by (auto simp: registered_def)
    then show "regs (sel w2) (so_client_fd t) = regs (sel w) (so_client_fd t)
      \<and> (so_origin_fd t \<noteq> -1 \<longrightarrow> regs (sel w2) (so_origin_fd t) = regs (sel w) (so_origin_fd t))
      \<and> talk_of t (kern w2) = talk_of t (kern w)
      \<and> (so_client_fd t \<in> set (owed g w2) \<longrightarrow> so_client_fd t \<in> set (owed g w))"
      using sl(3) by (auto simp: E k_close_def talk_of_def)
  qed (simp add: E)
  ultimately show ?thesis unfolding run by (simp add: sound_def ab w2)
qed

lemma stop_listening_none: "fd < 0 \<Longrightarrow> stop_listening fd forget w = Some w"
  by (simp add: stop_listening_def)

lemma start_draining_ok:
  assumes s: "sound g w"
  shows "returns (start_draining w) (sound g)"
proof -
  have L: "0 \<le> socks_fd w \<Longrightarrow> regs (sel w) (socks_fd w) = Some (socks_passive_handler, OP_READ, None)"
    "0 \<le> mng_fd w \<Longrightarrow> regs (sel w) (mng_fd w) = Some (mng_passive_handler, OP_READ, None)" if "sound g w" for w
    using that by (auto simp: sound_def world_def listens_def)
  have "returns (stop_listening (socks_fd w) (\<lambda>w. w\<lparr>socks_fd := -1\<rparr>) w) (sound g)"
  proof (cases "0 \<le> socks_fd w")
    case True
    show ?thesis
    proof (rule unlisten_ok [OF s L(1) [OF s True]])
      show "listens ((\<lambda>w. w\<lparr>socks_fd := -1\<rparr>) (w\<lparr>sel := sl, kern := k\<rparr>))" if "regs sl = (regs (sel w))(socks_fd w := None)" for sl k
        using L [OF s] that by (auto simp: listens_def)
      show "\<exists>a b. (\<lambda>w. w\<lparr>socks_fd := -1\<rparr>) v = v\<lparr>socks_fd := a, mng_fd := b\<rparr>" for v :: proxy
        by (intro exI [of _ "-1"] exI [of _ "mng_fd v"]) simp
    qed simp_all
  qed (use s in \<open>simp add: stop_listening_none\<close>)
  then obtain w1 where w1: "stop_listening (socks_fd w) (\<lambda>w. w\<lparr>socks_fd := -1\<rparr>) w = Some w1" "sound g w1" by (auto simp: returns_iff)
  have "returns (stop_listening (mng_fd w1) (\<lambda>w. w\<lparr>mng_fd := -1\<rparr>) w1) (sound g)"
  proof (cases "0 \<le> mng_fd w1")
    case True
    show ?thesis
    proof (rule unlisten_ok [OF w1(2) L(2) [OF w1(2) True]])
      show "listens ((\<lambda>w. w\<lparr>mng_fd := -1\<rparr>) (w1\<lparr>sel := sl, kern := k\<rparr>))" if "regs sl = (regs (sel w1))(mng_fd w1 := None)" for sl k
        using L [OF w1(2)] that by (auto simp: listens_def)
      show "\<exists>a b. (\<lambda>w. w\<lparr>mng_fd := -1\<rparr>) v = v\<lparr>socks_fd := a, mng_fd := b\<rparr>" for v :: proxy
        by (intro exI [of _ "socks_fd v"] exI [of _ "-1"]) simp
    qed simp_all
  qed (use w1(2) in \<open>simp add: stop_listening_none\<close>)
  then obtain w2 where w2: "stop_listening (mng_fd w1) (\<lambda>w. w\<lparr>mng_fd := -1\<rparr>) w1 = Some w2" "sound g w2" by (auto simp: returns_iff)
  have "sound g (w2\<lparr>draining := True\<rparr>)" by (rule sound_cong [OF w2(2)]) (use sound_users [OF w2(2)] in simp_all)
  then show ?thesis using w1(1) w2(1) by (simp add: start_draining_def)
qed

text \<open>What an event leaves: a server that goes on, or one to be cleaned up.\<close>

fun turn_ok :: "main_turn \<Rightarrow> bool" where
  "turn_ok (Goes_On w) = server_inv w"
| "turn_ok (Leaves status selector w) = (status \<in> {0, 1} \<and> selector \<and> server_inv w)"

lemma main_iteration_ok:
  assumes w: "server_inv w"
  shows "returns (main_iteration poll n1 n2 w) turn_ok"
proof -
  obtain g where g: "sound g w" "pending g = resolution_jobs (sel w)" "finished g = resolution_jobs (sel w)" by (rule server_invD [OF w])
  have "returns (if n2 = 1 \<and> \<not> draining w then start_draining w else Some w) server_inv"
    using start_draining_ok [OF g(1)] g w by (auto elim!: returns_mono intro: server_invI)
  then obtain w1 where w1: "(if n2 = 1 \<and> \<not> draining w then start_draining w else Some w) = Some w1" "server_inv w1" by (auto simp: returns_iff)
  from selector_round [OF server_host_ok server_read_ok server_write_ok server_jobs_ok w1(2), of poll] obtain st w2
    where w2: "selector_select poll server_host w1 = Some (st, w2)" "server_inv w2" by (auto simp: returns_iff)
  obtain g2 where g2: "sound g2 w2" "pending g2 = resolution_jobs (sel w2)" "finished g2 = resolution_jobs (sel w2)" by (rule server_invD [OF w2(2)])
  from socksv5_check_timeouts_ok [OF close_host_ok(3) g2(1)] obtain w3 where w3: "socksv5_check_timeouts server_host w2 = Some w3" "server_inv w3"
    using g2 by (auto simp: returns_iff intro: inv_jobs)
  show ?thesis unfolding main_iteration_def w1(1) using w w1(2) w2 w3 by simp
qed

lemma server_step_ok:
  assumes w: "server_inv w"
  shows "returns (server_step e w) turn_ok"
proof -
  obtain g where g: "sound g w" "pending g = resolution_jobs (sel w)" "finished g = resolution_jobs (sel w)" by (rule server_invD [OF w])
  show ?thesis
  proof (cases e)
    case (Resolver_Runs gai mem)
    then show ?thesis using dns_step_ok [OF g(1), of gai mem] g by (auto simp: resolver_ran_def elim!: returns_mono intro: server_invI)
  next
    case (Time_Is now)
    have "sound g (w\<lparr>clock := now\<rparr>)" by (rule sound_cong [OF g(1)]) (use sound_users [OF g(1)] in simp_all)
    then show ?thesis using Time_Is g by (auto intro: server_invI)
  next
    case (Network n)
    have "silent (kern w) (new_scripts n (kern w))" by (simp add: silent_def new_scripts_def)
    then have "server_inv (w\<lparr>kern := new_scripts n (kern w)\<rparr>)" using sound_silent [OF g(1)] g by (metis server_invI)
    then show ?thesis using Network by simp
  next
    case (Iteration poll n1 n2)
    then show ?thesis using main_iteration_ok [OF w] by simp
  qed
qed

lemma main_loop_ok: "server_inv w \<Longrightarrow> returns (main_loop es w) turn_ok"
proof (induction es arbitrary: w)
  case (Cons e es)
  from server_step_ok [OF Cons.prems, of e] obtain t where t: "server_step e w = Some t" "turn_ok t" by (auto simp: returns_iff)
  then show ?case using Cons.IH by (cases t) (simp_all add: and_then_def)
qed simp

section \<open>The set-up\<close>

text \<open>The documented behaviour of \<^verbatim>\<open>getaddrinfo\<close>: when it succeeds there is an address.\<close>

definition gai_ok :: "main_env \<Rightarrow> bool" where
  "gai_ok env \<longleftrightarrow> (\<forall>a p. me_gai env a p \<noteq> Some [])"

lemma passive_socket_ok:
  assumes "gai_ok env"
  shows "returns (passive_socket env addr p k) (\<lambda>(fd, k'). (\<forall>f \<in> set (k_open k). f \<in> set (k_open k'))
    \<and> (0 \<le> fd \<longrightarrow> fd \<notin> set (k_open k) \<and> fd \<in> set (k_open k')))"
proof -
  obtain t where t: "snprintf (replicate PORT_STR_LEN NUL) PORT_STR_LEN (dec (unat p)) = Some t" using port_text by blast
  show ?thesis
  proof (cases "me_gai env (cstr addr) (cstr t)")
    case None
    then show ?thesis using t by (simp add: passive_socket_def)
  next
    case (Some res)
    then obtain a as where res: "res = a # as" using assms by (cases res) (auto simp: gai_ok_def)
    obtain r k1 where r: "k_new_socket k = (r, k1)" by (cases "k_new_socket k")
    have "case r of Inl e \<Rightarrow> k_open k1 = k_open k | Inr fd \<Rightarrow> fd \<notin> set (k_open k) \<and> k_open k1 = fd # k_open k"
      using r fresh_fd_new [of "k_open k"] by (auto simp: k_new_socket_def k_socket_def Let_def split: prod.splits option.splits)
    then show ?thesis using Some res t r by (auto simp: passive_socket_def k_close_def split: sum.splits)
  qed
qed

text \<open>A server without sessions.\<close>

definition no_sessions :: "proxy \<Rightarrow> bool" where
  "no_sessions w \<longleftrightarrow> socks_heap w = (\<lambda>_. None) \<and> pool w = None \<and> pool_size w = 0 \<and> socks_active w = 0 \<and> g_active_head w = None
     \<and> dns_thread w = T_Wait \<and> (\<forall>u. g_users w = Some u \<longrightarrow> users_wf u)"

lemma no_sessions_inv:
  assumes n: "no_sessions w" and fs: "full_sel (sel w)" "resolution_jobs (sel w) = []" and d: "\<And>d. g_dns_worker w = Some d \<Longrightarrow> queue_ok d []"
    and r: "\<And>fd h i x. regs (sel w) fd = Some (h, i, x) \<Longrightarrow> fd \<in> set (k_open (kern w)) \<and> h \<noteq> socks5_handler \<and> h \<noteq> mng_handler \<and> i = OP_READ \<and> x = None"
    and l: "listens w"
  shows "server_inv w"
proof -
  let ?g = "\<lparr>finished = [], pending = [], queued = [], active = [], pooled = []\<rparr>"
  have "in_hand w = []" using n by (simp add: no_sessions_def in_hand_def)
  then have "dns_ok ?g w" using d by (auto simp: dns_ok_def owed_def split: option.splits)
  moreover have "fd \<in> set (k_open (kern w)) \<and> owner_ok ?g w fd h i x" if "regs (sel w) fd = Some (h, i, x)" for fd h i x
    using r [OF that] by (cases h) (simp_all add: owner_ok_def)
  ultimately have "sound ?g w" using n fs l by (simp add: sound_def world_def no_sessions_def)
  then show ?thesis by (rule server_invI) simp
qed

text \<open>What the set-up leaves to be cleaned up: a server whose listening sockets may not be registered yet, or nothing.\<close>

definition ending :: "bool \<Rightarrow> proxy \<Rightarrow> bool" where
  "ending selector w \<longleftrightarrow> (if selector then server_inv (w\<lparr>socks_fd := -1, mng_fd := -1\<rparr>) else g_dns_worker w = None \<and> pool w = None)"

lemma server_ending: "server_inv w \<Longrightarrow> ending True w"
proof (erule server_invD)
  fix g assume g: "sound g w" "pending g = resolution_jobs (sel w)" "finished g = resolution_jobs (sel w)"
  let ?w = "w\<lparr>socks_fd := -1, mng_fd := -1\<rparr>"
  have fds: "fds_of ?w = fds_of w" by (simp add: fds_of_def fun_eq_iff)
  have ow: "owed g ?w = owed g w" by (rule owed_cong) simp_all
  have dn: "dns_ok g ?w = dns_ok g w" by (rule dns_ok_cong [OF _ _ fds]) simp_all
  have own: "owner_ok g ?w f h i d = owner_ok g w f h i d" for f h i d by (rule owner_ok_cong [OF fds]) simp_all
  have "world g ?w" using soundD(1) [OF g(1)] by (simp add: world_def dn own listens_def)
  moreover have "alive g ?w q" if q: "q \<in> set (active g)" for q
    by (rule alive_frame [OF soundD(3) [OF g(1) q]]) (use ow in simp_all)
  ultimately have "sound g ?w" by (simp add: sound_def)
  then have "server_inv ?w" by (rule server_invI) (use g in simp)
  then show "ending True w" by (simp add: ending_def)
qed

fun setup_turn :: "(proxy \<Rightarrow> bool) \<Rightarrow> main_turn \<Rightarrow> bool" where
  "setup_turn Q (Goes_On w) = Q w"
| "setup_turn Q (Leaves status selector w) = (status = 1 \<and> ending selector w)"

lemma and_then_ok: "setup_turn Q t \<Longrightarrow> (\<And>w. Q w \<Longrightarrow> returns (f w) (setup_turn R)) \<Longrightarrow> returns (and_then t f) (setup_turn R)"
  by (cases t) (simp_all add: and_then_def)

lemma add_users_ok: "users_wf u \<Longrightarrow> returns (add_users as u) (\<lambda>(ok, u'). users_wf u')"
proof (induction "as" u rule: add_users.induct)
  case (3 name pass as u)
  then show ?case using users_ops_return(1) [OF 3(2), of name pass] by (auto simp: returns_prod)
qed simp_all

lemma main_objects_ok: "returns (main_objects env args) (setup_turn (\<lambda>w. no_sessions w \<and> g_dns_worker w = None))"
proof -
  have "users_wf users_create" using users_inv_create by (simp add: users_inv_def)
  from add_users_ok [OF this, of "ar_users args"] show ?thesis
    by (auto simp: main_objects_def Let_def initial_world_def ending_def no_sessions_def returns_prod)
qed

definition has_sockets :: "proxy \<Rightarrow> bool" where
  "has_sockets w \<longleftrightarrow> no_sessions w \<and> g_dns_worker w = None
    \<and> socks_fd w \<in> set (k_open (kern w)) \<and> mng_fd w \<in> set (k_open (kern w)) \<and> 0 \<le> socks_fd w \<and> 0 \<le> mng_fd w \<and> socks_fd w \<noteq> mng_fd w"

lemma main_listen_ok:
  assumes gai: "gai_ok env" and w: "no_sessions w" "g_dns_worker w = None"
  shows "returns (main_listen env args w) (setup_turn has_sockets)"
proof -
  from passive_socket_ok [OF gai, of "ar_socks_addr args" "ar_socks_port args" "kern w"] obtain fd k
    where fd: "passive_socket env (ar_socks_addr args) (ar_socks_port args) (kern w) = Some (fd, k)" "0 \<le> fd \<longrightarrow> fd \<in> set (k_open k)"
    by (auto simp: returns_prod)
  from passive_socket_ok [OF gai, of "ar_mng_addr args" "ar_mng_port args" k] obtain fd' k'
    where fd': "passive_socket env (ar_mng_addr args) (ar_mng_port args) k = Some (fd', k')" "\<forall>f \<in> set (k_open k). f \<in> set (k_open k')"
      "0 \<le> fd' \<longrightarrow> fd' \<notin> set (k_open k) \<and> fd' \<in> set (k_open k')"
    by (auto simp: returns_prod)
  obtain b k1 where b: "k_set_nio fd k' = (b, k1)" by (cases "k_set_nio fd k'")
  obtain b2 k2 where b2: "k_set_nio fd' k1 = (b2, k2)" by (cases "k_set_nio fd' k1")
  have "k_open k2 = k_open k'" using silent_nio [OF b] silent_nio [OF b2] by (simp add: silent_def)
  then show ?thesis using w fd fd' b b2
    by (auto simp: main_listen_def Let_def ending_def no_sessions_def has_sockets_def split: bool.splits)
qed

text \<open>Registering the two sockets.\<close>

lemma register_passive_ok:
  assumes fs: "full_sel (sel w)" and none: "regs (sel w) fd = None"
  shows "returns (register_passive fd h w) (\<lambda>(ss, w'). full_sel (sel w') \<and> resolution_jobs (sel w') = resolution_jobs (sel w)
    \<and> k_open (kern w') = k_open (kern w) \<and> (\<exists>sl k. w' = w\<lparr>kern := k, sel := sl\<rparr>)
    \<and> regs (sel w') = (if ss = SELECTOR_SUCCESS then (regs (sel w))(fd \<mapsto> (h, OP_READ, None)) else regs (sel w)))"
proof -
  obtain mem k where k: "k_alloc (kern w) = (mem, k)" by (cases "k_alloc (kern w)")
  have o: "k_open k = k_open (kern w)" using silent_alloc [OF k] by (simp add: silent_def)
  show ?thesis
  proof (cases "INVALID_FD fd")
    case True
    have "\<exists>sl ka. w\<lparr>kern := k\<rparr> = w\<lparr>kern := ka, sel := sl\<rparr>" by (intro exI [of _ "sel w"] exI [of _ k]) simp
    then show ?thesis using True fs k o by (simp add: register_passive_def selector_register_def)
  next
    case False
    have ex: "\<exists>sl ka. w\<lparr>kern := k, sel := b\<rparr> = w\<lparr>kern := ka, sel := sl\<rparr>" for b by blast
    from full_enter [OF fs False, of mem h OP_READ None] none enter_jobs [of mem fd "Some h" OP_READ None "sel w"] show ?thesis
      using k o ex by (auto simp: register_passive_def returns_prod)
  qed
qed

lemma main_register_ok:
  assumes n: "no_sessions w" and fs: "full_sel (sel w)" "resolution_jobs (sel w) = []" "regs (sel w) = (\<lambda>_. None)"
    and d: "\<And>d. g_dns_worker w = Some d \<Longrightarrow> queue_ok d []"
    and fds: "socks_fd w \<in> set (k_open (kern w))" "mng_fd w \<in> set (k_open (kern w))" "socks_fd w \<noteq> mng_fd w"
  shows "returns (main_register w) (setup_turn server_inv)"
proof -
  from register_passive_ok [OF fs(1), of "socks_fd w" socks_passive_handler] fs(3) obtain ss w1 sl k where w1:
    "register_passive (socks_fd w) socks_passive_handler w = Some (ss, w1)" "full_sel (sel w1)" "resolution_jobs (sel w1) = []"
    "k_open (kern w1) = k_open (kern w)" "w1 = w\<lparr>kern := k, sel := sl\<rparr>"
    "regs (sel w1) = (if ss = SELECTOR_SUCCESS then [socks_fd w \<mapsto> (socks_passive_handler, OP_READ, None)] else (\<lambda>_. None))"
    using fs(2) by (auto simp: returns_prod)
  have "regs (sel w1) (mng_fd w1) = None" using w1(5,6) fds(3) by (auto split: if_splits)
  from register_passive_ok [OF w1(2) this, of mng_passive_handler] obtain ss' w2 sl' k' where w2:
    "register_passive (mng_fd w1) mng_passive_handler w1 = Some (ss', w2)" "full_sel (sel w2)" "resolution_jobs (sel w2) = []"
    "k_open (kern w2) = k_open (kern w)" "w2 = w1\<lparr>kern := k', sel := sl'\<rparr>"
    "regs (sel w2) = (if ss' = SELECTOR_SUCCESS then (regs (sel w1))(mng_fd w1 \<mapsto> (mng_passive_handler, OP_READ, None)) else regs (sel w1))"
    using w1(3,4) by (auto simp: returns_prod)
  have same: "no_sessions w1" "no_sessions w2" "g_dns_worker w1 = g_dns_worker w" "g_dns_worker w2 = g_dns_worker w" "socks_fd w1 = socks_fd w"
    "mng_fd w1 = mng_fd w" "socks_fd w2 = socks_fd w" "mng_fd w2 = mng_fd w" using n w1(5) w2(5) by (simp_all add: no_sessions_def)
  have e: "ending True v" if v: "no_sessions v" "full_sel (sel v)" "resolution_jobs (sel v) = []" "g_dns_worker v = g_dns_worker w"
    and r: "\<And>fd h i x. regs (sel v) fd = Some (h, i, x) \<Longrightarrow> fd \<in> set (k_open (kern v)) \<and> h \<noteq> socks5_handler \<and> h \<noteq> mng_handler \<and> i = OP_READ \<and> x = None"
    for v
  proof -
    have "server_inv (v\<lparr>socks_fd := -1, mng_fd := -1\<rparr>)"
      by (rule no_sessions_inv) (use v r d in \<open>simp_all add: no_sessions_def listens_def\<close>)
    then show ?thesis by (simp add: ending_def)
  qed
  show ?thesis
  proof (cases "ss = SELECTOR_SUCCESS")
    case False
    then have "ending True w1" by (intro e) (use same w1 in simp_all)
    then show ?thesis using w1(1) False by (simp add: main_register_def)
  next
    case True
    have r2: "fd \<in> set (k_open (kern w2)) \<and> h \<noteq> socks5_handler \<and> h \<noteq> mng_handler \<and> i = OP_READ \<and> x = None"
      if "regs (sel w2) fd = Some (h, i, x)" for fd h i x
      using that w2(4,6) w1(6) same fds by (auto split: if_splits)
    show ?thesis
    proof (cases "ss' = SELECTOR_SUCCESS")
      case False
      then have "ending True w2" by (intro e) (use same w2 r2 in simp_all)
      then show ?thesis using w1(1) w2(1) True False by (simp add: main_register_def)
    next
      case t2: True
      have "listens w2" using w2(6) w1(6) True t2 same fds(3) by (simp add: listens_def)
      then have "server_inv w2" by (intro no_sessions_inv) (use same w2 r2 d in simp_all)
      then show ?thesis using w1(1) w2(1) True t2 by (simp add: main_register_def)
    qed
  qed
qed

lemma main_setup_ok:
  assumes gai: "gai_ok env"
  shows "returns (main_setup env args) (setup_turn server_inv)"
proof -
  have serve: "returns (main_serve env args w) (setup_turn server_inv)"
    if "has_sockets w" for w
  proof -
    note w = that [unfolded has_sockets_def]
    have none: "ending False w" using w by (simp add: ending_def no_sessions_def)
    obtain s :: "(handler, attachment) fdselector option" where s: "selector_new (fst (me_selector env)) (snd (me_selector env)) server_conf ITEMS_MAX_SIZE = Some s"
      "\<And>x. s = Some x \<Longrightarrow> full_sel x \<and> regs x = (\<lambda>_. None) \<and> resolution_jobs x = []"
    proof (cases "fst (me_selector env) \<and> snd (me_selector env)")
      case True
      then show ?thesis using that selector_new_full [of server_conf] by auto
    next
      case False
      obtain c where "next_capacity ITEMS_MAX_SIZE = Some c" using next_capacity_ok [of ITEMS_MAX_SIZE] by (auto simp: returns_iff)
      then have "selector_new (fst (me_selector env)) (snd (me_selector env)) server_conf ITEMS_MAX_SIZE
          = (Some None :: (handler, attachment) fdselector option option)"
        using False by (auto simp: selector_new_def ensure_capacity_def fd_size_def)
      then show ?thesis using that by simp
    qed
    obtain m1 m2 m3 m4 where m: "me_worker env = (m1, m2, m3, m4)" by (cases "me_worker env")
    show ?thesis
    proof (cases s)
      case None
      then show ?thesis using s(1) none by (simp add: main_serve_def)
    next
      case (Some x)
      note x = s(2) [OF Some]
      show ?thesis
      proof (cases "dns_worker_create m1 m2 m3 m4")
        case None
        have "server_inv (w\<lparr>sel := x, socks_fd := -1, mng_fd := -1\<rparr>)"
          by (rule no_sessions_inv) (use x w in \<open>simp_all add: no_sessions_def listens_def\<close>)
        then have "ending True (w\<lparr>sel := x\<rparr>)" by (simp add: ending_def)
        then show ?thesis using s(1) Some None m none by (simp add: main_serve_def)
      next
        case d: (Some d)
        let ?w = "mng_set_context (ar_admin_secret args) (g_users w) (g_metrics w) (g_config w) (w\<lparr>sel := x, g_dns_worker := Some d\<rparr>)"
        have "returns (main_register ?w) (setup_turn server_inv)"
          by (rule main_register_ok) (use w x queue_ok_create [OF d] in \<open>simp_all add: no_sessions_def mng_set_context_def\<close>)
        then show ?thesis using s(1) Some d m none by (simp add: main_serve_def)
      qed
    qed
  qed
  from main_objects_ok [of env args] obtain t where t: "main_objects env args = Some t" "setup_turn (\<lambda>w. no_sessions w \<and> g_dns_worker w = None) t"
    by (auto simp: returns_iff)
  have "returns (and_then t (main_listen env args)) (setup_turn has_sockets)"
    by (rule and_then_ok [OF t(2)]) (use main_listen_ok [OF gai] in blast)
  then obtain t2 where t2: "and_then t (main_listen env args) = Some t2" "setup_turn has_sockets t2" by (auto simp: returns_iff)
  from and_then_ok [OF t2(2) serve] show ?thesis using t(1) t2(1) by (simp add: main_setup_def)
qed

end
