(* ===== verification/Server_End.thy ===== *)
theory Server_End
  imports Server_Run
begin

text \<open>
  The end of the program: the resolver's thread is joined, every registration is given up with its session,
  and the memory goes. Nothing fails on the way, from any state the server can be in.
\<close>

lemma unregister_runs:
  assumes fs: "full_sel (h_sel H w)" and r: "regs (h_sel H w) fd = Some (h, i, d)"
    and f: "(case handle_close H h of None \<Rightarrow> Some w | Some f \<Rightarrow> f \<lparr>k_fd = fd, k_data = d\<rparr> w) = Some w1" and fs1: "full_sel (h_sel H w1)"
  shows "\<exists>s. selector_unregister_fd H fd w = Some (SELECTOR_SUCCESS, h_put H s w1) \<and> full_sel s
    \<and> regs s = (regs (h_sel H w1))(fd := None) \<and> resolution_jobs s = resolution_jobs (h_sel H w1) \<and> fd_size s = fd_size (h_sel H w1)"
proof -
  have leg: "\<not> INVALID_FD fd" using sel.entry_legal [OF fs, of fd] r by simp
  then obtain k where k: "fd = int k" "k < ITEMS_MAX_SIZE" by (cases fd) (auto simp: INVALID_FD_def)
  obtain it where it: "arr_get (fds (h_sel H w)) (int k) = Some it"
    "item_used it \<longrightarrow> (\<exists>h. i_handler it = Some h \<and> i_fd it = int k \<and> regs (h_sel H w) (int k) = Some (h, i_interest it, i_data it))"
    "\<not> item_used it \<longrightarrow> regs (h_sel H w) (int k) = None \<and> i_interest it = OP_NOOP"
    using item_view [OF fs k(2)] by blast
  with r k have u: "item_used it" "i_handler it = Some h" "i_fd it = fd" "i_data it = d" by auto
  have wf: "sel_wf (h_sel H w1)" "nat fd < fd_size (h_sel H w1)" using fs1 full_sel_room [OF fs1 leg] by (auto simp: full_sel_def)
  from item_remove_ok [OF wf(1) leg wf(2)] full_remove [OF fs1 leg] obtain s where s: "item_remove fd (h_sel H w1) = Some s" "full_sel s"
    "regs s = (regs (h_sel H w1))(fd := None)" "resolution_jobs s = resolution_jobs (h_sel H w1)" "fd_size s = fd_size (h_sel H w1)"
    by (auto simp: returns_iff)
  have "selector_unregister_fd H fd w = Some (SELECTOR_SUCCESS, h_put H s w1)"
    using it(1) u(1,2) k(1) leg f [folded u(3,4)] s(1) by (simp add: selector_unregister_fd_def)
  then show ?thesis using s by blast
qed

section \<open>Joining the thread\<close>

text \<open>A program that ends early may have sockets that are not registered: they do not matter here.\<close>

abbreviation (input) forget_sockets :: "proxy \<Rightarrow> proxy" where
  "forget_sockets w \<equiv> w\<lparr>socks_fd := -1, mng_fd := -1\<rparr>"

lemma dns_step_forget:
  "dns_step gai mem (forget_sockets w) = map_option forget_sockets (dns_step gai mem w)"
  by (auto simp: dns_step_def upd_socks_def put_socks_def Let_def split: option.splits prod.splits dns_pc.splits dns_turn.splits bind_splits)

lemma dns_join_ok:
  "sound g (forget_sockets w) \<Longrightarrow> pending g = finished g \<Longrightarrow> g_dns_worker w \<noteq> None \<Longrightarrow> \<not> dns_runs w \<Longrightarrow>
   returns (dns_join gai mems w) (\<lambda>w'. server_inv (forget_sockets w') \<and> g_dns_worker w' \<noteq> None)"
proof (induction "dns_rank g w" arbitrary: g w mems rule: less_induct)
  case less
  show ?case
  proof (cases "dns_thread w = T_Exit")
    case True
    then show ?thesis using less.prems server_invI [OF less.prems(1)] by (subst dns_join.simps) auto
  next
    case False
    from dns_step_ok [OF less.prems(1,2), of gai "fst (next_ok mems)"] obtain w1 where w1: "dns_step gai (fst (next_ok mems)) w = Some w1"
      "resolver_ran g (forget_sockets w) (forget_sockets w1)" by (auto simp: returns_iff dns_step_forget)
    have same: "dns_runs (forget_sockets v) = dns_runs v" "dns_rank g (forget_sockets v) = dns_rank g v" for g v
      by (simp_all add: dns_runs_def dns_rank_def)
    obtain g1 where g1: "sound g1 (forget_sockets w1)" "pending g1 = finished g1" "\<not> dns_runs w1" "g_dns_worker w1 \<noteq> None" "dns_rank g1 w1 < dns_rank g w"
      using w1(2) less.prems(3,4) False unfolding resolver_ran_def same by auto
    from less.hyps [OF g1(5,1,2,4,3), of "snd (next_ok mems)"] show ?thesis
      using False less.prems(3) w1(1) by (subst dns_join.simps) simp
  qed
qed

text \<open>What the clean-up of the rest relies on.\<close>

definition refs_held :: "regmap \<Rightarrow> socks5 \<Rightarrow> nat" where
  "refs_held R s = (if R (so_client_fd s) \<noteq> None then 1 else 0) + (if R (so_origin_fd s) \<noteq> None then 1 else 0)
     + (if so_current s = Some REQUEST_RESOLV then 1 else 0)"

definition closable_socks :: "proxy \<Rightarrow> nat list \<Rightarrow> int \<Rightarrow> nat \<Rightarrow> socks5 \<Rightarrow> bool" where
  "closable_socks w ps fd p s \<longleftrightarrow> socks_heap w p = Some s \<and> p \<notin> set ps \<and> (fd = so_client_fd s \<or> fd = so_origin_fd s)
     \<and> so_client_fd s \<noteq> so_origin_fd s \<and> so_references s = of_nat (refs_held (regs (sel w)) s)
     \<and> (\<forall>f h i d. f = so_client_fd s \<or> f = so_origin_fd s \<longrightarrow> regs (sel w) f = Some (h, i, d) \<longrightarrow>
          h = socks5_handler \<and> d = Some (Socks_Ptr p))"

definition closable :: "proxy \<Rightarrow> nat list \<Rightarrow> int \<Rightarrow> handler \<Rightarrow> attachment option \<Rightarrow> bool" where
  "closable w ps fd h d \<longleftrightarrow> (case h of
     socks5_handler \<Rightarrow> (\<exists>p s. d = Some (Socks_Ptr p) \<and> closable_socks w ps fd p s)
   | mng_handler \<Rightarrow> (\<exists>p m. d = Some (Mng_Ptr p) \<and> mng_heap w p = Some m \<and> ms_fd m = fd)
   | _ \<Rightarrow> d = None)"

text \<open>What is left of the others when a descriptor is not registered any more.\<close>

lemma closable_frame:
  assumes c: "closable w ps fd' h' d'" and r: "regs (sel w) fd = Some (h, i, d)" and r': "regs (sel w') = (regs (sel w))(fd := None)"
    and socks: "\<And>q. h' = socks5_handler \<Longrightarrow> d' = Some (Socks_Ptr q) \<Longrightarrow> socks_heap w' q = socks_heap w q \<and> (q \<notin> set ps \<longrightarrow> q \<notin> set ps')
      \<and> \<not> (h = socks5_handler \<and> d = d')"
    and mng: "\<And>q. h' = mng_handler \<Longrightarrow> d' = Some (Mng_Ptr q) \<Longrightarrow> mng_heap w' q = mng_heap w q"
  shows "closable w' ps' fd' h' d'"
proof (cases h')
  case socks5_handler
  then obtain q t where q: "d' = Some (Socks_Ptr q)" "closable_socks w ps fd' q t" using c by (auto simp: closable_def)
  note s = socks [OF socks5_handler q(1)]
  note c = q(2) [unfolded closable_socks_def]
  have "so_client_fd t \<noteq> fd" "so_origin_fd t \<noteq> fd" using c r s q(1) by auto
  then have R: "regs (sel w') f = regs (sel w) f" if "f = so_client_fd t \<or> f = so_origin_fd t" for f using that r' by auto
  then have "refs_held (regs (sel w')) t = refs_held (regs (sel w)) t" by (simp add: refs_held_def)
  then have "closable_socks w' ps' fd' q t" using c s R unfolding closable_socks_def by simp
  then show ?thesis using socks5_handler q(1) by (auto simp: closable_def)
qed (use c mng in \<open>auto simp: closable_def\<close>)

definition teardown :: "nat list \<Rightarrow> proxy \<Rightarrow> bool" where
  "teardown ps w \<longleftrightarrow> full_sel (sel w) \<and> pool_list (socks_heap w) (pool w) ps \<and> pool_size w = of_nat (length ps) \<and> length ps \<le> 50
     \<and> distinct ps \<and> g_dns_worker w = None \<and> (\<forall>fd h i d. regs (sel w) fd = Some (h, i, d) \<longrightarrow> closable w ps fd h d)"

lemma teardown_cong:
  assumes "sel w' = sel w" "socks_heap w' = socks_heap w" "pool w' = pool w" "pool_size w' = pool_size w" "mng_heap w' = mng_heap w"
    "g_dns_worker w' = g_dns_worker w"
  shows "teardown ps w' = teardown ps w"
proof -
  have "closable_socks w' ps fd p s = closable_socks w ps fd p s" for fd p s by (simp add: closable_socks_def assms)
  then have "closable w' ps fd h d = closable w ps fd h d" for fd h d by (simp add: closable_def assms cong: handler.case_cong)
  then show ?thesis by (simp add: teardown_def assms)
qed

lemma sound_teardown:
  assumes s: "sound g w"
  shows "teardown (pooled g) (w\<lparr>g_dns_worker := None\<rparr>)"
proof -
  let ?w = "w\<lparr>g_dns_worker := None\<rparr>"
  note W = soundD(1) [OF s, unfolded world_def]
  have neg: "regs (sel w) (-1) = None" using sel.entry_legal [OF soundD(2) [OF s], of "-1"] by (cases "regs (sel w) (-1)") (auto simp: INVALID_FD_def)
  have "closable ?w (pooled g) fd h d" if r: "regs (sel w) fd = Some (h, i, d)" for fd h i d
  proof -
    have owned: "owner_ok g w fd h i d" using W r by blast
    show ?thesis
    proof (cases h)
      case socks5_handler
      obtain p t ci oi where p: "p \<in> set (active g)" "d = Some (Socks_Ptr p)" and o: "own g p t ci oi (so_current t = Some REQUEST_RESOLV) w"
        and st: "settled g p t ci oi w" and fd: "fd = so_client_fd t \<or> fd = so_origin_fd t" by (rule socks_registration [OF s r [unfolded socks5_handler]])
      note f = own_fds(7,8) [OF o]
      have ne: "so_client_fd t \<noteq> so_origin_fd t" using ownD(5) [OF o] f(1) neg by (cases "so_origin_fd t = -1") (auto simp: registered_def)
      have orig: "regs (sel w) (so_origin_fd t) \<noteq> None \<longleftrightarrow> so_origin_fd t \<noteq> -1" using f(2) neg by auto
      have "so_references t = of_nat (refs_held (regs (sel w)) t)" unfolding refs_held_def orig using ownD(6) [OF o] f(1) by (simp add: held_def)
      moreover have "p \<notin> set (pooled g)" using W p(1) by auto
      moreover have "h' = socks5_handler \<and> d' = d" if "f = so_client_fd t \<or> f = so_origin_fd t" "regs (sel w) f = Some (h', i', d')" for f h' i' d'
        using that f p(2) neg by (cases "so_origin_fd t = -1") auto
      ultimately have "closable_socks ?w (pooled g) fd p t" using ownD(3) [OF o] fd ne p(2) unfolding closable_socks_def by auto
      then show ?thesis using socks5_handler p(2) by (auto simp: closable_def)
    next
      case mng_handler
      obtain p m where "d = Some (Mng_Ptr p)" "mng_heap w p = Some m" "ms_fd m = fd" by (rule mng_registration [OF s r [unfolded mng_handler]]) blast
      then show ?thesis using mng_handler by (auto simp: closable_def)
    qed (use owned r in \<open>auto simp: closable_def owner_ok_def\<close>)
  qed
  then show ?thesis using W by (simp add: teardown_def)
qed

text \<open>One descriptor is given up.\<close>

lemma teardown_step:
  assumes t: "teardown ps w" and r: "regs (sel w) fd = Some (h, i, d)"
  shows "returns (selector_unregister_fd server_host fd w) (\<lambda>(_, w'). (\<exists>ps'. teardown ps' w') \<and> regs (sel w') = (regs (sel w))(fd := None)
    \<and> fd_size (sel w') = fd_size (sel w))"
proof -
  have T: "full_sel (sel w)" "pool_list (socks_heap w) (pool w) ps" "pool_size w = of_nat (length ps)" "length ps \<le> 50" "distinct ps" "g_dns_worker w = None"
    "\<And>fd h i d. regs (sel w) fd = Some (h, i, d) \<Longrightarrow> closable w ps fd h d" using t by (auto simp: teardown_def)
  have Hs: "h_sel server_host = sel" "h_put server_host = (\<lambda>sl w. w\<lparr>sel := sl\<rparr>)" "handle_close server_host = server_close"
    by (simp_all add: server_host_def close_host_def)
  have unreg: "\<exists>sl. selector_unregister_fd server_host fd w = Some (SELECTOR_SUCCESS, w1\<lparr>sel := sl\<rparr>) \<and> full_sel sl
      \<and> regs sl = (regs (sel w))(fd := None) \<and> fd_size sl = fd_size (sel w)"
    if "(case server_close h of None \<Rightarrow> Some w | Some f \<Rightarrow> f \<lparr>k_fd = fd, k_data = d\<rparr> w) = Some w1" "sel w1 = sel w" for w1
    using unregister_runs [of server_host w fd h i d w1] T(1) r that by (auto simp: Hs)
  have frame: "closable w' ps' fd' h' d'" if "regs (sel w') = (regs (sel w))(fd := None)" "regs (sel w') fd' = Some (h', i', d')"
      "\<And>q. h' = socks5_handler \<Longrightarrow> d' = Some (Socks_Ptr q) \<Longrightarrow> socks_heap w' q = socks_heap w q \<and> (q \<notin> set ps \<longrightarrow> q \<notin> set ps')
        \<and> \<not> (h = socks5_handler \<and> d = d')"
      "\<And>q. h' = mng_handler \<Longrightarrow> d' = Some (Mng_Ptr q) \<Longrightarrow> mng_heap w' q = mng_heap w q" for w' ps' fd' h' i' d'
  proof (rule closable_frame [OF T(7) r that(1,3,4)])
    show "regs (sel w) fd' = Some (h', i', d')" using that(1,2) by (simp split: if_splits)
  qed
  have listening: ?thesis if h: "h \<noteq> socks5_handler" "h \<noteq> mng_handler"
  proof -
    from unreg [of w] h obtain sl where sl: "selector_unregister_fd server_host fd w = Some (SELECTOR_SUCCESS, w\<lparr>sel := sl\<rparr>)"
      "full_sel sl" "regs sl = (regs (sel w))(fd := None)" "fd_size sl = fd_size (sel w)" by (cases h) (auto simp: server_close_def)
    have "closable (w\<lparr>sel := sl\<rparr>) ps fd' h' d'" if "regs sl fd' = Some (h', i', d')" for fd' h' i' d'
      by (rule frame [of _ fd' h' i' d']) (use sl(3) that h in simp_all)
    then have "teardown ps (w\<lparr>sel := sl\<rparr>)" using sl(2) T by (simp add: teardown_def)
    then show ?thesis using sl by (auto intro: exI [of _ ps])
  qed
  show ?thesis
  proof (cases h)
    case socks5_handler
    with T(7) [OF r] obtain p s where p: "d = Some (Socks_Ptr p)" "closable_socks w ps fd p s" by (auto simp: closable_def)
    note c = p(2) [unfolded closable_socks_def]
    let ?R = "regs (sel w)"
    let ?R' = "?R(fd := None)"
    have dec: "refs_held ?R s = Suc (refs_held ?R' s)" using c r by (auto simp: refs_held_def)
    have le: "refs_held ?R s \<le> 3" by (simp add: refs_held_def)
    have close: "(case server_close h of None \<Rightarrow> Some w | Some f \<Rightarrow> f \<lparr>k_fd = fd, k_data = d\<rparr> w) = socks5_destroy (Some p) w"
      using socks5_handler p(1) by (simp add: server_close_def socksv5_close_def socks_ptr_def)
    have mine: "h' = socks5_handler \<and> fd' \<noteq> fd \<and> (fd' = so_client_fd s \<or> fd' = so_origin_fd s)"
      if "?R' fd' = Some (h', i', Some (Socks_Ptr p))" for fd' h' i'
    proof -
      have "?R fd' = Some (h', i', Some (Socks_Ptr p))" "fd' \<noteq> fd" using that by (auto split: if_splits)
      then show ?thesis using T(7) [of fd' h' i' "Some (Socks_Ptr p)"] c by (cases h') (auto simp: closable_def closable_socks_def)
    qed
    show ?thesis
    proof (cases "so_references s = 1")
      case True
      have "unat (of_nat (refs_held ?R s) :: u32) = refs_held ?R s" using le by (simp add: unat_of_nat)
      then have n0: "refs_held ?R' s = 0" using True c dec by simp
      have sp: "socks_heap w p = Some s" "p \<notin> set ps" using c by auto
      from destroy_last [OF sp(1) True T(2,3,4) sp(2)] obtain h1 x1 ps1 where d1:
        "socks5_destroy (Some p) w = Some (w\<lparr>socks_heap := h1, pool := x1, pool_size := of_nat (length ps1)\<rparr>)"
        "pool_list h1 x1 ps1" "length ps1 \<le> 50" "\<forall>q. q \<noteq> p \<longrightarrow> h1 q = socks_heap w q" "ps1 = p # ps \<or> ps1 = ps" by blast
      let ?w1 = "w\<lparr>socks_heap := h1, pool := x1, pool_size := of_nat (length ps1)\<rparr>"
      from unreg [of ?w1] close d1(1) obtain sl where sl: "selector_unregister_fd server_host fd w = Some (SELECTOR_SUCCESS, ?w1\<lparr>sel := sl\<rparr>)"
        "full_sel sl" "regs sl = ?R'" "fd_size sl = fd_size (sel w)" by auto
      have "closable (?w1\<lparr>sel := sl\<rparr>) ps1 fd' h' d'" if r': "?R' fd' = Some (h', i', d')" for fd' h' i' d'
      proof -
        have "d' \<noteq> Some (Socks_Ptr p)" using mine [of fd' h' i'] r' n0 by (auto simp: refs_held_def split: if_splits)
        then show ?thesis by (intro frame [of _ fd' h' i' d']) (use sl(3) d1(4,5) r' p(1) in auto)
      qed
      then have "teardown ps1 (?w1\<lparr>sel := sl\<rparr>)" using sl(2,3) d1(2,3,5) T(5,6) sp(2) by (auto simp: teardown_def)
      then show ?thesis using sl by (auto intro: exI [of _ ps1])
    next
      case False
      let ?s = "s\<lparr>so_references := so_references s - 1\<rparr>"
      have sp: "socks_heap w p = Some s" using c by simp
      have d1: "socks5_destroy (Some p) w = Some (put_socks p ?s w)" using sp False by (simp add: socks5_destroy_def)
      from unreg [of "put_socks p ?s w"] close d1 obtain sl where sl: "selector_unregister_fd server_host fd w = Some (SELECTOR_SUCCESS, (put_socks p ?s w)\<lparr>sel := sl\<rparr>)"
        "full_sel sl" "regs sl = ?R'" "fd_size sl = fd_size (sel w)" by auto
      have "refs_held ?R' ?s = refs_held ?R' s" by (simp add: refs_held_def)
      then have refs: "so_references s - 1 = of_nat (refs_held ?R' ?s)" using c dec by simp
      have "closable ((put_socks p ?s w)\<lparr>sel := sl\<rparr>) ps fd' h' d'" if r': "?R' fd' = Some (h', i', d')" for fd' h' i' d'
      proof (cases "d' = Some (Socks_Ptr p)")
        case True
        note m = mine [of fd' h' i'] r' [unfolded True]
        have "h = socks5_handler \<and> d'' = Some (Socks_Ptr p)" if "f = so_client_fd s \<or> f = so_origin_fd s" "?R' f = Some (h, j, d'')" for f h j d''
          using c that by (auto split: if_splits)
        then have "closable_socks ((put_socks p ?s w)\<lparr>sel := sl\<rparr>) ps fd' p ?s" using m c refs sl(3) unfolding closable_socks_def by auto
        then show ?thesis using m True by (auto simp: closable_def)
      next
        case False
        then show ?thesis by (intro frame [of _ fd' h' i' d']) (use sl(3) r' p(1) in auto)
      qed
      moreover have "pool_list ((socks_heap w)(p \<mapsto> ?s)) (pool w) ps" using T(2) c by (subst pool_list_cong [where h = "socks_heap w"]) auto
      ultimately have "teardown ps ((put_socks p ?s w)\<lparr>sel := sl\<rparr>)" using sl(2,3) T(3-6) by (auto simp: teardown_def)
      then show ?thesis using sl by (auto intro: exI [of _ ps])
    qed
  next
    case mng_handler
    with T(7) [OF r] obtain p m where p: "d = Some (Mng_Ptr p)" "mng_heap w p = Some m" "ms_fd m = fd" by (auto simp: closable_def)
    obtain w1 where w1: "mng_close \<lparr>k_fd = fd, k_data = d\<rparr> w = Some w1" "sel w1 = sel w" "socks_heap w1 = socks_heap w" "pool w1 = pool w"
      "pool_size w1 = pool_size w" "mng_heap w1 = (mng_heap w)(p := None)" "g_dns_worker w1 = g_dns_worker w"
      using p by (cases "g_metrics w") (auto simp: mng_close_def session_of_def Let_def)
    from unreg [of w1] w1(1,2) mng_handler obtain sl where sl: "selector_unregister_fd server_host fd w = Some (SELECTOR_SUCCESS, w1\<lparr>sel := sl\<rparr>)"
      "full_sel sl" "regs sl = (regs (sel w))(fd := None)" "fd_size sl = fd_size (sel w)" by (auto simp: server_close_def)
    have "closable (w1\<lparr>sel := sl\<rparr>) ps fd' h' d'" if r': "regs sl fd' = Some (h', i', d')" for fd' h' i' d'
    proof (rule frame [of _ fd' h' i' d'])
      have old: "regs (sel w) fd' = Some (h', i', d')" "fd' \<noteq> fd" using r' sl(3) by (auto split: if_splits)
      show "mng_heap (w1\<lparr>sel := sl\<rparr>) q = mng_heap w q" if "h' = mng_handler" "d' = Some (Mng_Ptr q)" for q
        using T(7) [OF old(1)] that p old(2) w1(6) by (auto simp: closable_def)
    qed (use sl(3) r' w1(3) mng_handler in auto)
    then have "teardown ps (w1\<lparr>sel := sl\<rparr>)" using sl(2) w1(3-5,7) T by (simp add: teardown_def)
    then show ?thesis using sl by (auto intro: exI [of _ ps])
  qed (use listening in simp_all)
qed

text \<open>All of them.\<close>

lemma destroy_from_ok:
  assumes "teardown ps w" "is \<subseteq> {..< fd_size (sel w)}" "set xs = is"
  shows "returns (destroy_from server_host xs w) (\<lambda>w'. (\<exists>ps'. teardown ps' w') \<and> (\<forall>i \<in> is. regs (sel w') (int i) = None)
    \<and> (\<forall>fd. regs (sel w) fd = None \<longrightarrow> regs (sel w') fd = None) \<and> fd_size (sel w') = fd_size (sel w))"
  using assms
proof (induction xs arbitrary: ps w "is")
  case Nil
  then show ?case by auto
next
  case (Cons i xs)
  have Hs: "h_sel server_host = sel" by (simp add: server_host_def close_host_def)
  have wf: "sel_wf (sel w)" using Cons.prems(1) by (simp add: teardown_def full_sel_def)
  have i: "i < fd_size (sel w)" using Cons.prems(2,3) by auto
  then have look: "arr_get (fds (sel w)) (int i) = Some (fds (sel w) ! i)" by (simp add: fd_size_def)
  have used: "item_used (fds (sel w) ! i) \<longleftrightarrow> regs (sel w) (int i) \<noteq> None" using i by (simp add: regs_def)
  show ?case
  proof (cases "regs (sel w) (int i)")
    case None
    have "set xs \<subseteq> {..< fd_size (sel w)}" using Cons.prems(2,3) by auto
    from Cons.IH [OF Cons.prems(1) this refl] have "returns (destroy_from server_host xs w) (\<lambda>w'. (\<exists>ps'. teardown ps' w')
      \<and> (\<forall>i \<in> set xs. regs (sel w') (int i) = None) \<and> (\<forall>fd. regs (sel w) fd = None \<longrightarrow> regs (sel w') fd = None) \<and> fd_size (sel w') = fd_size (sel w))" .
    then show ?thesis using None used look Cons.prems(3) by (auto simp: Hs elim!: returns_mono)
  next
    case (Some x)
    then obtain h j d where r: "regs (sel w) (int i) = Some (h, j, d)" by (cases x) simp
    from teardown_step [OF Cons.prems(1) r] obtain st w1 ps1 where w1: "selector_unregister_fd server_host (int i) w = Some (st, w1)" "teardown ps1 w1"
      "regs (sel w1) = (regs (sel w))(int i := None)" "fd_size (sel w1) = fd_size (sel w)" by (auto simp: returns_prod)
    have "set xs \<subseteq> {..< fd_size (sel w1)}" using Cons.prems(2,3) w1(4) by auto
    from Cons.IH [OF w1(2) this refl] show ?thesis
      using used look w1(1,3,4) Some Cons.prems(3) by (auto simp: Hs elim!: returns_mono)
  qed
qed

lemma selector_destroy_ok:
  assumes t: "teardown ps w"
  shows "returns (selector_destroy server_host w) (\<lambda>w'. (\<exists>ps. pool_list (socks_heap w') (pool w') ps \<and> distinct ps) \<and> g_dns_worker w' = None \<and> (\<forall>fd. regs (sel w') fd = None))"
proof -
  from destroy_from_ok [OF t, of "{..< fd_size (sel w)}" "[0 ..< fd_size (sel w)]"] obtain w1 ps1 where w1:
    "destroy_from server_host [0 ..< fd_size (sel w)] w = Some w1" "teardown ps1 w1" by (auto simp: returns_iff atLeast0LessThan)
  then show ?thesis by (auto simp: selector_destroy_def server_host_def close_host_def teardown_def regs_def fd_size_def)
qed

lemma pool_free_ok: "pool_list (socks_heap w) x ps \<Longrightarrow> distinct ps \<Longrightarrow> returns (pool_free x w) (\<lambda>w'. \<exists>h. w' = w\<lparr>socks_heap := h\<rparr>)"
proof (induction ps arbitrary: x w)
  case Nil
  have "\<exists>h. w = w\<lparr>socks_heap := h\<rparr>" by (rule exI [of _ "socks_heap w"]) simp
  then show ?case using Nil by (subst pool_free.simps) simp
next
  case (Cons p ps)
  then obtain s where s: "x = Some p" "socks_heap w p = Some s" "pool_list (socks_heap w) (so_next s) ps" by (auto split: option.splits)
  let ?w = "w\<lparr>socks_heap := (socks_heap w)(p := None)\<rparr>"
  have "pool_list (socks_heap ?w) (so_next s) ps" using s(3) Cons.prems(2) by (subst pool_list_cong [where h = "socks_heap w"]) auto
  from Cons.IH [OF this] Cons.prems(2) show ?case using s(1,2) by (subst pool_free.simps) (auto elim!: returns_mono)
qed

section \<open>The clean-up\<close>

text \<open>What is left at the end of the program.\<close>

definition nothing_left :: "proxy \<Rightarrow> bool" where
  "nothing_left w \<longleftrightarrow> g_dns_worker w = None \<and> pool w = None \<and> g_users w = None \<and> g_metrics w = None \<and> g_access_log w = None"

lemma pool_destroy_ok:
  assumes "pool_list (socks_heap w) (pool w) ps" "distinct ps"
  shows "returns (socksv5_pool_destroy w) (\<lambda>w'. pool w' = None \<and> sel w' = sel w \<and> g_dns_worker w' = g_dns_worker w)"
  using pool_free_ok [OF assms] by (auto simp: socksv5_pool_destroy_def returns_iff)

lemma sound_stops:
  assumes s: "sound g w" and d: "g_dns_worker w = Some d"
  shows "sound g (w\<lparr>g_dns_worker := Some (d\<lparr>w_running := False\<rparr>)\<rparr>)"
proof -
  let ?d = "d\<lparr>w_running := False\<rparr>"
  let ?w = "w\<lparr>sel := sel w, g_dns_worker := Some ?d, dns_thread := dns_thread w\<rparr>"
  have W: "dns_ok g w" "full_sel (sel w)" "resolution_jobs (sel w) = finished g" using s by (auto simp: sound_def world_def)
  have E: "in_hand ?w = in_hand w" "fds_of ?w = fds_of w" by (simp_all add: in_hand_def fds_of_def fun_eq_iff)
  have "job_fd ?w = job_fd w" by (simp add: fun_eq_iff job_fd_def d)
  then have ow: "owed g ?w = owed g w" unfolding owed_def E by simp
  have "job_ok g ?w ?d = job_ok g w d" unfolding job_ok_def [abs_def] E by simp
  then have "dns_ok g ?w" using W(1) unfolding dns_ok_def ow E by (simp add: d queue_ok_def)
  then have "sound g ?w" by (intro sound_dns [OF s]) (use W ow in simp_all)
  then show ?thesis by simp
qed

lemma dns_worker_destroy_ok:
  assumes w: "server_inv (forget_sockets w)"
  shows "returns (dns_worker_destroy gai mems w) (\<lambda>w'. \<exists>ps. teardown ps w')"
proof -
  have seen: "teardown (pooled g) (v\<lparr>g_dns_worker := None\<rparr>)" if "sound g (forget_sockets v)" for g v
    by (subst teardown_cong [of _ "(forget_sockets v)\<lparr>g_dns_worker := None\<rparr>"]) (use sound_teardown [OF that] in simp_all)
  obtain g where g: "sound g (forget_sockets w)" "pending g = finished g" by (rule server_invD [OF w]) simp
  show ?thesis
  proof (cases "g_dns_worker w")
    case None
    then have "w\<lparr>g_dns_worker := None\<rparr> = w" by simp
    then have "teardown (pooled g) w" using seen [OF g(1)] by simp
    then show ?thesis using None by (auto simp: dns_worker_destroy_def)
  next
    case (Some d)
    let ?w = "w\<lparr>g_dns_worker := Some (d\<lparr>w_running := False\<rparr>)\<rparr>"
    have eq: "forget_sockets ?w = (forget_sockets w)\<lparr>g_dns_worker := Some (d\<lparr>w_running := False\<rparr>)\<rparr>" by simp
    have "sound g (forget_sockets ?w)" unfolding eq by (rule sound_stops [OF g(1)]) (simp add: Some)
    from dns_join_ok [OF this g(2), of gai mems] obtain w1 where w1: "dns_join gai mems ?w = Some w1" "server_inv (forget_sockets w1)" "g_dns_worker w1 \<noteq> None"
      by (auto simp: returns_iff dns_runs_def)
    obtain g1 where g1: "sound g1 (forget_sockets w1)" by (rule server_invD [OF w1(2)]) simp
    obtain d1 where d1: "g_dns_worker w1 = Some d1" using w1(3) by auto
    have "dns_ok g1 (forget_sockets w1)" using g1 by (simp add: sound_def world_def)
    then have "queue_ok d1 (queued g1)" "distinct (queued g1)" using d1 by (auto simp: dns_ok_def)
    then obtain d2 where "dns_drain (queue_head d1) d1 = Some d2" using drain_ok [of d1 "queue_head d1" "queued g1"] by (auto simp: queue_ok_def)
    moreover have "teardown (pooled g1) (w1\<lparr>g_dns_worker := None\<rparr>)"
      by (rule seen [OF g1])
    ultimately show ?thesis using Some w1(1) d1 by (auto simp: dns_worker_destroy_def)
  qed
qed

lemma cleanup_ok:
  assumes e: "ending selector w"
  shows "returns (cleanup gai mems selector w) (\<lambda>w'. nothing_left w' \<and> (selector \<longrightarrow> (\<forall>fd. regs (sel w') fd = None)))"
proof (cases selector)
  case True
  then have w: "server_inv (forget_sockets w)" using e by (simp add: ending_def)
  from dns_worker_destroy_ok [OF this, of gai mems] obtain w1 ps1 where w1: "dns_worker_destroy gai mems w = Some w1" "teardown ps1 w1"
    by (auto simp: returns_iff)
  from selector_destroy_ok [OF w1(2)] obtain w2 ps2 where w2: "selector_destroy server_host w1 = Some w2" "pool_list (socks_heap w2) (pool w2) ps2"
    "distinct ps2" "\<forall>fd. regs (sel w2) fd = None" "g_dns_worker w2 = None" by (auto simp: returns_iff)
  from pool_destroy_ok [OF w2(2,3)] obtain w3 where "socksv5_pool_destroy w2 = Some w3" "pool w3 = None" "sel w3 = sel w2"
    "g_dns_worker w3 = g_dns_worker w2" by (auto simp: returns_iff)
  then show ?thesis using True w1(1) w2(1,4,5) by (simp add: cleanup_def nothing_left_def)
next
  case False
  then show ?thesis using e by (simp add: ending_def cleanup_def dns_worker_destroy_def socksv5_pool_destroy_def pool_free.simps nothing_left_def)
qed

section \<open>The program\<close>

fun run_turn :: "main_turn \<Rightarrow> bool" where
  "run_turn (Goes_On w) = server_inv w"
| "run_turn (Leaves status selector w) = (status \<in> {0, 1} \<and> ending selector w)"

lemma turn_run: "turn_ok t \<Longrightarrow> run_turn t"
  by (cases t) (auto intro: server_ending)

lemma server_main_runs:
  assumes gai: "gai_ok env"
  shows "returns (server_main env argv es) (\<lambda>r. case r of Inl status \<Rightarrow> status \<in> {0, 1} | Inr w \<Rightarrow> server_inv w)"
proof -
  from parse_args_ok [of argv] obtain r where r: "parse_args argv = Some r" "case r of Inl st \<Rightarrow> st \<in> {0, 1} | Inr a \<Rightarrow> \<exists>us. settings_ok us a"
    by (auto simp: returns_iff)
  show ?thesis
  proof (cases r)
    case (Inl status)
    then show ?thesis using r by (auto simp: server_main_def)
  next
    case (Inr args)
    from main_setup_ok [OF gai, of args] obtain t where t: "main_setup env args = Some t" "setup_turn server_inv t" by (auto simp: returns_iff)
    have "returns (and_then t (main_loop es)) run_turn"
    proof (cases t)
      case (Goes_On w)
      then show ?thesis using t(2) main_loop_ok [of w es] by (auto simp: and_then_def elim!: returns_mono intro: turn_run)
    qed (use t(2) in \<open>simp add: and_then_def\<close>)
    then obtain t' where t': "and_then t (main_loop es) = Some t'" "run_turn t'" by (auto simp: returns_iff)
    show ?thesis
    proof (cases t')
      case (Goes_On w)
      then show ?thesis using r(1) Inr t(1) t' by (simp add: server_main_def)
    next
      case (Leaves status selector w)
      then have "ending selector w" "status \<in> {0, 1}" using t'(2) by auto
      with cleanup_ok [OF this(1), of "me_resolver env" "me_notify env"] Leaves show ?thesis
        using r(1) Inr t(1) t'(1) by (auto simp: server_main_def returns_iff)
    qed
  qed
qed

end
