(* ===== verification/Served.thy ===== *)
theory Served
  imports Server_End
begin

text \<open>
  The invariant of the server, seen from one session that its loop serves: what holds of the session's state, of
  its descriptors and of what has passed on them.
\<close>

section \<open>The sessions that the loop serves\<close>

text \<open>A session is served when a descriptor is registered for it.\<close>

definition serves :: "proxy \<Rightarrow> nat \<Rightarrow> socks5 \<Rightarrow> bool" where
  "serves w p s \<longleftrightarrow> socks_heap w p = Some s \<and> (\<exists>fd i. regs (sel w) fd = Some (socks5_handler, i, Some (Socks_Ptr p)))"

definition interest_of :: "proxy \<Rightarrow> int \<Rightarrow> u32" where
  "interest_of w fd = (case regs (sel w) fd of None \<Rightarrow> OP_NOOP | Some (h, i, d) \<Rightarrow> i)"

lemma served:
  assumes w: "server_inv w" and s: "serves w p s"
  obtains g ci oi where "sound g w" "p \<in> set (active g)" "own g p s ci oi (so_current s = Some REQUEST_RESOLV) w" "settled g p s ci oi w"
    "at (so_current s) s ci oi (talk_of s (kern w))" "interest_of w (so_client_fd s) = ci"
    "so_origin_fd s \<noteq> -1 \<longrightarrow> interest_of w (so_origin_fd s) = oi"
proof -
  obtain g where g: "sound g w" by (rule server_invD [OF w])
  obtain fd i where r: "regs (sel w) fd = Some (socks5_handler, i, Some (Socks_Ptr p))" and h: "socks_heap w p = Some s" using s by (auto simp: serves_def)
  obtain q t ci oi where q: "q \<in> set (active g)" "Some (Socks_Ptr p) = Some (Socks_Ptr q)" "own g q t ci oi (so_current t = Some REQUEST_RESOLV) w"
    "settled g q t ci oi w" by (rule socks_registration [OF g r])
  then have "q = p" "t = s" using ownD(3) [OF q(3)] h by auto
  note o = q(3,4) [unfolded this]
  show thesis
    by (rule that [OF g _ o settledD(1) [OF o(2)]]) (use q(1) \<open>q = p\<close> own_fds(7,8) [OF o(1)] in \<open>auto simp: interest_of_def\<close>)
qed

lemma active_served:
  assumes "sound g w"
  shows "serves w p s \<longleftrightarrow> p \<in> set (active g) \<and> socks_heap w p = Some s"
proof
  assume "serves w p s"
  then obtain fd i where r: "regs (sel w) fd = Some (socks5_handler, i, Some (Socks_Ptr p))" and h: "socks_heap w p = Some s" by (auto simp: serves_def)
  obtain q t ci oi where "q \<in> set (active g)" "Some (Socks_Ptr p) = Some (Socks_Ptr q)" by (rule socks_registration [OF assms r])
  then show "p \<in> set (active g) \<and> socks_heap w p = Some s" using h by simp
next
  assume p: "p \<in> set (active g) \<and> socks_heap w p = Some s"
  then obtain t ci oi where o: "own g p t ci oi (so_current t = Some REQUEST_RESOLV) w" using sound_own [OF assms, of p] by metis
  then show "serves w p s" using p own_fds(7) [OF o] ownD(3) [OF o] by (auto simp: serves_def)
qed

section \<open>Lemmas\<close>

lemma tunnel_requested:
  assumes "tunnel s n m peer"
  obtains n' r d hi lo a where "negotiated n' m (so_user s)" "n = n' @ request_msg r d hi lo" "a \<in> may_reach d (port_of hi lo) (so_resolution s)" "peer = Some a"
  using assms by (auto simp: tunnel_def requested_def)

lemma early_origin: "early s \<Longrightarrow> so_origin_fd s = -1"
  by (simp add: early_def)

lemma at_origin:
  assumes "at st s ci oi (crx, ctx, orx, otx, peer)" and "so_origin_fd s \<noteq> -1" and "st \<noteq> Some DONE" "st \<noteq> Some ERROR"
  shows "\<exists>n m r d hi lo rest a. negotiated n m (so_user s) \<and> crx = n @ request_msg r d hi lo @ rest \<and> peer = Some a
    \<and> a \<in> may_reach d (port_of hi lo) (so_resolution s)"
proof -
  have c: "\<exists>n m r d hi lo rest a. negotiated n m (so_user s) \<and> crx = n @ request_msg r d hi lo @ rest \<and> peer = Some a
    \<and> a \<in> may_reach d (port_of hi lo) (so_resolution s)" if "tunnel s k m peer" "crx = k @ rest" for k m rest
    using tunnel_requested [OF that(1)] that(2) by (metis append_assoc)
  show ?thesis
  proof (cases st)
    case None
    then show ?thesis using assms by (auto simp: at_start_def early_def)
  next
    case (Some t)
    consider "t = CONNECTING" | "t = REQUEST_WRITE" | "t = COPY" | "so_origin_fd s = -1"
      using assms(1,3,4) Some
      by (auto simp: at_hello_read_def at_hello_write_def at_auth_read_def at_auth_write_def at_request_read_def at_resolv_def early_def split: if_splits)
    then show ?thesis
    proof cases
      case 1
      then have "connecting_to s (crx, ctx, orx, otx, peer)" using assms(1) Some by (simp add: at_connecting_def)
      then show ?thesis using assms(2) by (fastforce simp: connecting_to_def requested_def)
    next
      case 2
      then have "at_request_write s ci oi (crx, ctx, orx, otx, peer)" using assms(1) Some by simp
      then obtain n m where "crx = n @ rb s" "tunnel s n m peer" using assms(2) by (auto simp: at_request_write_def split: if_splits)
      then show ?thesis using c by blast
    next
      case 3
      then obtain co oc where "copying s co oc (crx, ctx, orx, otx, peer)" using assms(1) Some by (auto simp: at_copy_def)
      then show ?thesis by (rule copyingE) (use c in blast)
    qed (use assms(2) in simp)
  qed
qed

lemma copy_tunnel:
  assumes "copying s c oc (crx, ctx, orx, otx, peer)"
  shows "\<exists>n m r d hi lo. negotiated n m (so_user s) \<and> crx = n @ request_msg r d hi lo @ otx @ rb s"
    and "\<exists>m. ctx @ wb s = m @ reply_msg SOCKS_REPLY_SUCCEEDED @ orx \<and> (\<exists>n. negotiated n m (so_user s))"
proof -
  obtain n m where c: "tunnel s n m peer" "crx = n @ otx @ rb s" "ctx @ wb s = m @ reply_msg SOCKS_REPLY_SUCCEEDED @ orx"
    using assms by (rule copyingE)
  obtain n' r d hi lo where t: "negotiated n' m (so_user s)" "n = n' @ request_msg r d hi lo" by (rule tunnel_requested [OF c(1)])
  show "\<exists>n m r d hi lo. negotiated n m (so_user s) \<and> crx = n @ request_msg r d hi lo @ otx @ rb s" using t c(2) by (metis append_assoc)
  show "\<exists>m. ctx @ wb s = m @ reply_msg SOCKS_REPLY_SUCCEEDED @ orx \<and> (\<exists>n. negotiated n m (so_user s))" using t(1) c(3) by blast
qed

lemma flow_waits:
  assumes f: "flow_ok c b" and wf: "buffer_wf b" "0 < b_limit b" and open': "\<not> cp_write_closed c"
  shows "\<not> cp_eof c \<and> buffer_can_write b \<or> buffer_can_read b"
proof (cases "buffer_contents b = []")
  case True
  then have "\<not> cp_eof c" using f open' by (simp add: flow_ok_def)
  moreover have "buffer_can_write b" using buffer_empty_room [OF wf(1) True] wf(2) by (simp add: buffer_can_write_def buffer_room_def)
  ultimately show ?thesis by simp
next
  case False
  then show ?thesis using buffer_can_read_iff [OF wf(1)] by simp
qed

text \<open>Of the states of a session only the one that waits for the resolver asks for no event.\<close>

lemma at_waits:
  assumes at: "at st s ci oi T" and "st \<noteq> Some REQUEST_RESOLV" "st \<noteq> Some DONE" "st \<noteq> Some ERROR" and wf: "sess_wf s"
  shows "ci \<noteq> OP_NOOP \<or> so_origin_fd s \<noteq> -1 \<and> oi \<noteq> OP_NOOP"
proof (cases "st = Some COPY")
  case False
  then show ?thesis using assms
    by (cases st) (auto simp: at_start_def at_hello_read_def at_hello_write_def at_auth_read_def at_auth_write_def at_request_read_def
      at_connecting_def at_request_write_def split: if_splits prod.splits)
next
  case True
  then obtain c oc where c: "copying s c oc T" "flow_ok c (so_read_buffer s)" "flow_ok oc (so_write_buffer s)"
    "\<not> (cp_write_closed c \<and> cp_write_closed oc)" "copy_client_interest s = Some ci" "copy_origin_interest s = Some oi"
    using at by (auto simp: at_copy_def)
  note i = copy_interests(1,2) [OF c(1,5)] copy_interests(3,4) [OF c(1,6)]
  have "\<not> cp_write_closed c \<Longrightarrow> ci \<noteq> 0 \<or> oi \<noteq> 0" using flow_waits [OF c(2)] wf i by (auto simp: sess_wf_def)
  moreover have "\<not> cp_write_closed oc \<Longrightarrow> ci \<noteq> 0 \<or> oi \<noteq> 0" using flow_waits [OF c(3)] wf i by (auto simp: sess_wf_def)
  ultimately show ?thesis using c(4) copyingD(3) [OF c(1)] by auto
qed

text \<open>Which variants the unions of a session hold, by its state.\<close>

fun union_type :: "nat option \<Rightarrow> socks5 \<Rightarrow> bool" where
  "union_type None s = (orig_conn s \<noteq> None)"
| "union_type (Some st) s =
     (if st \<le> HELLO_WRITE then client_hello s \<noteq> None \<and> orig_conn s \<noteq> None
      else if st \<le> AUTH_WRITE then client_auth s \<noteq> None \<and> orig_conn s \<noteq> None
      else if st \<le> REQUEST_WRITE then client_request s \<noteq> None \<and> orig_conn s \<noteq> None
      else st = COPY \<and> client_copy s \<noteq> None \<and> orig_copy s \<noteq> None)"

lemma at_union_type:
  assumes "at st s ci oi T" and "st \<noteq> Some DONE" "st \<noteq> Some ERROR"
  shows "union_type st s"
proof (cases st)
  case None
  then show ?thesis using assms(1) by (auto simp: at_start_def early_def split: prod.splits)
next
  case (Some t)
  show ?thesis
  proof (cases "t = COPY")
    case True
    then obtain c oc where "copying s c oc T" using assms(1) Some by (auto simp: at_copy_def)
    then show ?thesis using copyingD(10,11) True Some by simp
  next
    case False
    then show ?thesis using assms Some
      by (auto simp: at_hello_read_def at_hello_write_def at_auth_read_def at_auth_write_def at_request_read_def at_resolv_def early_def
        at_connecting_def connecting_to_def at_request_write_def split: if_splits prod.splits)
  qed
qed

text \<open>The descriptors of a session.\<close>

definition socks_fds :: "socks5 \<Rightarrow> int set" where
  "socks_fds s = {fd \<in> {so_client_fd s, so_origin_fd s}. fd \<noteq> -1}"

end
