(* ===== verification/Tunnel_Example.thy ===== *)
theory Tunnel_Example
  imports Served
begin

text \<open>
  A server in the middle of its work, for the instances of the theorems: the client at descriptor 4 asked for the
  address 127.0.0.1:80 and sent \<^verbatim>\<open>hi\<close>, of which the origin at descriptor 5 got the first byte; it answered \<^verbatim>\<open>ok\<close>, of which
  the client got nothing yet.
\<close>

definition ex_selector :: "(handler, attachment) fdselector" where
  "ex_selector =
     (let s = the (the (selector_new True True server_conf ITEMS_MAX_SIZE));
          s = snd (the (selector_register True 4 (Some socks5_handler) (OP_READ OR OP_WRITE) (Some (Socks_Ptr 0)) s))
      in snd (the (selector_register True 5 (Some socks5_handler) (OP_READ OR OP_WRITE) (Some (Socks_Ptr 0)) s)))"

definition ex_greeting :: "byte list" where "ex_greeting = hello_msg [SOCKS_HELLO_NOAUTHENTICATION_REQUIRED]"

definition ex_request :: "byte list" where "ex_request = request_msg SOCKS_RSV (V4 [127, 0, 0, 1]) 0 80"

definition ex_kernel :: kernel where
  "ex_kernel = \<lparr>k_open = [5, 4, 3, 2, 1], k_in = \<lambda>_. [], k_out = \<lambda>_. [], k_accept = \<lambda>_. [], k_fcntl = [], k_mem = [], k_sock = [], k_conn = [],
     k_soerr = [], k_shut = [], k_rx = (\<lambda>_. [])(4 := ex_greeting @ ex_request @ [104, 105], 5 := [111, 107]),
     k_tx = (\<lambda>_. [])(4 := [SOCKS_VERSION, 0] @ reply_msg SOCKS_REPLY_SUCCEEDED, 5 := [104]),
     k_peer = (\<lambda>_. None)(5 := Some (AF_INET [127, 0, 0, 1] (ntohs 80))), k_fin = []\<rparr>"

definition ex_buffer :: "byte list \<Rightarrow> buffer" where
  "ex_buffer bs = (buffer_init BUFFER_SIZE (bs @ replicate (BUFFER_SIZE - length bs) 0))\<lparr>b_write := length bs\<rparr>"

definition ex_session :: socks5 where
  "ex_session = (fresh_socks5 4 0 None)\<lparr>so_origin_fd := 5, so_current := Some COPY, so_references := 2, so_port := 80, so_destination_set := True,
     so_tunnel_opened := True, so_read_buffer := ex_buffer [105], so_write_buffer := ex_buffer [111, 107],
     so_client := C_copy \<lparr>cp_read_fd = 4, cp_write_fd = 5, cp_rb = Read_Buffer, cp_eof = False, cp_write_closed = False, cp_transferred = 1\<rparr>,
     so_orig := O_copy \<lparr>cp_read_fd = 5, cp_write_fd = 4, cp_rb = Write_Buffer, cp_eof = False, cp_write_closed = False, cp_transferred = 0\<rparr>\<rparr>"

definition ex_world :: proxy where
  "ex_world = \<lparr>kern = ex_kernel, sel = ex_selector, g_admin_secret = None, g_users = None, g_metrics = None, g_config = None, g_active_sessions = 0,
     mng_heap = \<lambda>_. None, next_ptr = 1, socks_heap = [0 \<mapsto> ex_session], pool = None, pool_size = 0, socks_active = 1,
     g_dns_worker = None, g_access_log = None, g_active_head = Some 0, clock = 0, dns_thread = T_Wait, socks_fd = -1, mng_fd = -1,
     draining = False, text_of_time = \<lambda>_. [], text_of_addr = \<lambda>_. []\<rparr>"

lemma ex_selector_ok:
  "full_sel ex_selector \<and> resolution_jobs ex_selector = []
   \<and> regs ex_selector = [4 \<mapsto> (socks5_handler, OP_READ OR OP_WRITE, Some (Socks_Ptr 0)), 5 \<mapsto> (socks5_handler, OP_READ OR OP_WRITE, Some (Socks_Ptr 0))]"
proof -
  obtain s :: "(handler, attachment) fdselector" where s: "selector_new True True server_conf ITEMS_MAX_SIZE = Some (Some s)" "full_sel s"
    "regs s = (\<lambda>_. None)" "resolution_jobs s = []" using selector_new_full [of server_conf] by auto
  have v: "\<not> INVALID_FD 4" "\<not> INVALID_FD 5" by (simp_all add: INVALID_FD_def)
  let ?i = "OP_READ OR OP_WRITE :: u32"
  from full_enter [OF s(2) v(1), of True socks5_handler ?i "Some (Socks_Ptr 0)"] s(3,4) enter_jobs [of True 4 "Some socks5_handler" ?i "Some (Socks_Ptr 0)" s]
  obtain s1 where s1: "selector_register True 4 (Some socks5_handler) ?i (Some (Socks_Ptr 0)) s = Some (SELECTOR_SUCCESS, s1)" "full_sel s1"
    "regs s1 = [4 \<mapsto> (socks5_handler, ?i, Some (Socks_Ptr 0))]" "resolution_jobs s1 = []" by (auto simp: returns_prod)
  from full_enter [OF s1(2) v(2), of True socks5_handler ?i "Some (Socks_Ptr 0)"] s1(3,4) enter_jobs [of True 5 "Some socks5_handler" ?i "Some (Socks_Ptr 0)" s1]
  obtain s2 where s2: "selector_register True 5 (Some socks5_handler) ?i (Some (Socks_Ptr 0)) s1 = Some (SELECTOR_SUCCESS, s2)" "full_sel s2"
    "regs s2 = (regs s1)(5 \<mapsto> (socks5_handler, ?i, Some (Socks_Ptr 0)))" "resolution_jobs s2 = []" by (auto simp: returns_prod)
  have "ex_selector = s2" unfolding ex_selector_def Let_def s(1) option.sel s1(1) snd_conv s2(1) ..
  then show ?thesis using s2(2-4) unfolding s1(3) by blast
qed

lemma ex_buffer_ok: "length bs \<le> BUFFER_SIZE \<Longrightarrow> buffer_wf (ex_buffer bs) \<and> b_limit (ex_buffer bs) = BUFFER_SIZE \<and> buffer_contents (ex_buffer bs) = bs"
  by (simp add: ex_buffer_def buffer_init_def buffer_wf_def buffer_contents_def buffer_reset_def)

lemma ex_session_simps [simp]:
  "so_client_fd ex_session = 4" "so_origin_fd ex_session = 5" "so_current ex_session = Some COPY" "so_references ex_session = 2"
  "so_read_buffer ex_session = ex_buffer [105]" "so_write_buffer ex_session = ex_buffer [111, 107]" "so_port ex_session = 80"
  "so_destination_set ex_session" "so_resolution ex_session = []" "so_tunnel_opened ex_session"
  "length (so_user ex_session) = USER_MAX_LEN" "length (so_destination ex_session) = DESTINATION_MAX_LEN"
  "so_client ex_session = C_copy \<lparr>cp_read_fd = 4, cp_write_fd = 5, cp_rb = Read_Buffer, cp_eof = False, cp_write_closed = False, cp_transferred = 1\<rparr>"
  "so_orig ex_session = O_copy \<lparr>cp_read_fd = 5, cp_write_fd = 4, cp_rb = Write_Buffer, cp_eof = False, cp_write_closed = False, cp_transferred = 0\<rparr>"
  "so_active_prev ex_session = None" "so_active_next ex_session = None"
  by (simp_all add: ex_session_def fresh_socks5_def)

lemma ex_tunnel: "tunnel ex_session (ex_greeting @ ex_request) [SOCKS_VERSION, 0] (Some (AF_INET [127, 0, 0, 1] (ntohs 80)))"
proof -
  have "negotiated ex_greeting [SOCKS_VERSION, 0] u" for u
    by (simp add: negotiated_def ex_greeting_def greeting_def exI [of _ "[0]"])
  moreover have "port_of 0 80 = 80" by (simp add: port_of_def)
  ultimately have "requested ex_session ex_greeting [SOCKS_VERSION, 0] (V4 [127, 0, 0, 1]) 80 ex_request"
    by (simp add: requested_def ex_request_def) (metis)
  then show ?thesis unfolding tunnel_def by (intro conjI exI [of _ ex_greeting] exI [of _ "V4 [127, 0, 0, 1]"] exI [of _ 80] exI [of _ ex_request]) simp_all
qed

lemma ex_copy: "at_copy ex_session (OP_READ OR OP_WRITE) (OP_READ OR OP_WRITE) (talk_of ex_session ex_kernel)"
proof -
  let ?c = "\<lparr>cp_read_fd = 4, cp_write_fd = 5, cp_rb = Read_Buffer, cp_eof = False, cp_write_closed = False, cp_transferred = 1\<rparr>"
  let ?oc = "\<lparr>cp_read_fd = 5, cp_write_fd = 4, cp_rb = Write_Buffer, cp_eof = False, cp_write_closed = False, cp_transferred = 0\<rparr>"
  have b: "buffer_contents (ex_buffer [105]) = [105]" "buffer_contents (ex_buffer [111, 107]) = [111, 107]" using ex_buffer_ok by auto
  have T: "talk_of ex_session ex_kernel = (ex_greeting @ ex_request @ [104, 105], [SOCKS_VERSION, 0] @ reply_msg SOCKS_REPLY_SUCCEEDED,
      [111, 107], [104], Some (AF_INET [127, 0, 0, 1] (ntohs 80)))"
    by (simp add: talk_of_def ex_kernel_def)
  have "copying ex_session ?c ?oc (talk_of ex_session ex_kernel)" unfolding T
    by (rule copyingI [OF _ _ _ _ _ _ _ _ ex_tunnel]) (simp_all add: b reply_msg_def)
  moreover have "flow_ok ?c (so_read_buffer ex_session)" "flow_ok ?oc (so_write_buffer ex_session)" by (simp_all add: flow_ok_def)
  moreover have "copy_client_interest ex_session = Some (OP_READ OR OP_WRITE)" "copy_origin_interest ex_session = Some (OP_READ OR OP_WRITE)"
    by (simp_all add: copy_client_interest_def copy_origin_interest_def buffer_can_write_def buffer_can_read_def ex_buffer_def buffer_init_def)
  ultimately show ?thesis unfolding at_copy_def by (intro exI [of _ ?c] exI [of _ ?oc]) simp
qed

lemma ex_world_sound: "sound \<lparr>finished = [], pending = [], queued = [], active = [0], pooled = []\<rparr> ex_world"
proof -
  let ?g = "\<lparr>finished = [], pending = [], queued = [], active = [0 :: nat], pooled = []\<rparr>"
  have sel: "full_sel (sel ex_world)" "resolution_jobs (sel ex_world) = []"
    "regs (sel ex_world) = [4 \<mapsto> (socks5_handler, OP_READ OR OP_WRITE, Some (Socks_Ptr 0)), 5 \<mapsto> (socks5_handler, OP_READ OR OP_WRITE, Some (Socks_Ptr 0))]"
    using ex_selector_ok by (simp_all add: ex_world_def)
  have h: "socks_heap ex_world = [0 \<mapsto> ex_session]" by (simp add: ex_world_def)
  have fds: "fds_of ex_world 0 = Some (4, 5)" by (simp add: fds_of_def h)
  have o: "owed ?g ex_world = []" by (simp add: owed_def in_hand_def ex_world_def)
  have "in_hand ex_world = []" "g_dns_worker ex_world = None" by (simp_all add: in_hand_def ex_world_def)
  then have dns: "dns_ok ?g ex_world" using o by (simp add: dns_ok_def)
  have own: "owner_ok ?g ex_world fd socks5_handler i (Some (Socks_Ptr 0))" if "fd = 4 \<or> fd = 5" for fd i
    using that fds by (auto simp: owner_ok_def socks_reg_def)
  have "world ?g ex_world" using sel dns own unfolding world_def
    by (simp add: listens_def) (simp add: ex_world_def ex_kernel_def)
  moreover have "settled ?g 0 ex_session (OP_READ OR OP_WRITE) (OP_READ OR OP_WRITE) ex_world"
  proof -
    have "sess_wf ex_session" using ex_buffer_ok [of "[105]"] ex_buffer_ok [of "[111, 107]"] by (simp add: sess_wf_def)
    moreover have "kern ex_world = ex_kernel" by (simp add: ex_world_def)
    ultimately show ?thesis using ex_copy sel(3) o by (simp add: settled_def registered_def held_def)
  qed
  ultimately show ?thesis using h by (auto simp: sound_def alive_def)
qed

lemma ex_world_ok: "server_inv ex_world" "serves ex_world 0 ex_session"
proof -
  have "resolution_jobs (sel ex_world) = []" using ex_selector_ok by (simp add: ex_world_def)
  then show "server_inv ex_world" using server_invI [OF ex_world_sound] by simp
  show "serves ex_world 0 ex_session" using active_served [OF ex_world_sound] by (simp add: ex_world_def)
qed

end
