(* ===== verification/Edges.thy ===== *)
theory Edges
  imports Tunnel_Example
begin

text \<open>
  Lemmas on what the server does at the edges: a listening socket is given up, a session is timed out, credentials
  are checked, a notification of the resolver gets lost.
\<close>

section \<open>Shutting down\<close>

lemma stop_listening_effect:
  assumes fs: "full_sel (sel w)" and r: "0 \<le> fd \<Longrightarrow> regs (sel w) fd = Some (h, i, None)" and h: "h \<noteq> socks5_handler" "h \<noteq> mng_handler"
  shows "\<exists>sl k. stop_listening fd forget w = Some (if 0 \<le> fd then forget (w\<lparr>sel := sl, kern := k\<rparr>) else w)
    \<and> full_sel sl \<and> regs sl = (regs (sel w))(fd := None) \<and> (0 \<le> fd \<longrightarrow> k = k_close fd (kern w))"
proof (cases "0 \<le> fd")
  case True
  have "handle_close server_host h = None" using h by (cases h) (simp_all add: server_host_def close_host_def server_close_def)
  then have "(case handle_close server_host h of None \<Rightarrow> Some w | Some f \<Rightarrow> f \<lparr>k_fd = fd, k_data = None\<rparr> w) = Some w" by simp
  from unregister_runs [of server_host w fd h i None w] this r [OF True] fs show ?thesis
    using True by (auto simp: stop_listening_def server_host_def close_host_def)
next
  case False
  have "regs (sel w) fd = None" using sel.entry_legal [OF fs, of fd] False by (cases "regs (sel w) fd") (auto simp: INVALID_FD_def)
  then have "regs (sel w) = (regs (sel w))(fd := None)" by auto
  then show ?thesis using False fs by (auto simp: stop_listening_def)
qed

lemma start_draining_effect:
  assumes w: "server_inv w"
  shows "returns (start_draining w) (\<lambda>w'. server_inv w' \<and> draining w' \<and> socks_fd w' < 0 \<and> mng_fd w' < 0
    \<and> regs (sel w') = (regs (sel w))(socks_fd w := None, mng_fd w := None) \<and> socks_heap w' = socks_heap w \<and> mng_heap w' = mng_heap w
    \<and> set (k_open (kern w')) = set (k_open (kern w)) - {fd. fd = socks_fd w \<and> 0 \<le> fd} - {fd. fd = mng_fd w \<and> 0 \<le> fd})"
proof -
  obtain g where g: "sound g w" "pending g = resolution_jobs (sel w)" "finished g = resolution_jobs (sel w)" by (rule server_invD [OF w])
  have L: "0 \<le> socks_fd w \<Longrightarrow> regs (sel w) (socks_fd w) = Some (socks_passive_handler, OP_READ, None)"
    "0 \<le> mng_fd w \<Longrightarrow> regs (sel w) (mng_fd w) = Some (mng_passive_handler, OP_READ, None)" using g(1) by (auto simp: sound_def world_def listens_def)
  let ?f = "\<lambda>w :: proxy. w\<lparr>socks_fd := -1\<rparr>"
  from stop_listening_effect [where forget = ?f, OF soundD(2) [OF g(1)] L(1)] obtain s1 k1 where w1: "stop_listening (socks_fd w) ?f w
      = Some (if 0 \<le> socks_fd w then ?f (w\<lparr>sel := s1, kern := k1\<rparr>) else w)" "full_sel s1" "regs s1 = (regs (sel w))(socks_fd w := None)"
      "0 \<le> socks_fd w \<longrightarrow> k1 = k_close (socks_fd w) (kern w)" by auto
  define v where v: "v = (if 0 \<le> socks_fd w then ?f (w\<lparr>sel := s1, kern := k1\<rparr>) else w)"
  have R1: "regs (sel v) = (regs (sel w))(socks_fd w := None)"
  proof (cases "0 \<le> socks_fd w")
    case False
    have "regs (sel w) (socks_fd w) = None" using sel.entry_legal [OF soundD(2) [OF g(1)], of "socks_fd w"] False
      by (cases "regs (sel w) (socks_fd w)") (auto simp: INVALID_FD_def)
    then show ?thesis using False by (auto simp: v)
  qed (simp add: v w1(3))
  have V: "full_sel (sel v)" "mng_fd v = mng_fd w" "socks_fd v < 0" "socks_heap v = socks_heap w" "mng_heap v = mng_heap w"
    "set (k_open (kern v)) = set (k_open (kern w)) - {fd. fd = socks_fd w \<and> 0 \<le> fd}"
    using w1(2,4) soundD(2) [OF g(1)] by (auto simp: v k_close_def)
  have Lv: "0 \<le> mng_fd v \<Longrightarrow> regs (sel v) (mng_fd v) = Some (mng_passive_handler, OP_READ, None)"
    using L R1 V(2) by (cases "mng_fd w = socks_fd w") auto
  let ?f' = "\<lambda>w :: proxy. w\<lparr>mng_fd := -1\<rparr>"
  from stop_listening_effect [where forget = ?f', OF V(1) Lv] obtain s2 k2 where w2: "stop_listening (mng_fd v) ?f' v
      = Some (if 0 \<le> mng_fd v then ?f' (v\<lparr>sel := s2, kern := k2\<rparr>) else v)" "full_sel s2" "regs s2 = (regs (sel v))(mng_fd v := None)"
      "0 \<le> mng_fd v \<longrightarrow> k2 = k_close (mng_fd v) (kern v)" by auto
  define u where u: "u = (if 0 \<le> mng_fd v then ?f' (v\<lparr>sel := s2, kern := k2\<rparr>) else v)"
  have R2: "regs (sel u) = (regs (sel v))(mng_fd v := None)"
  proof (cases "0 \<le> mng_fd v")
    case False
    have "regs (sel v) (mng_fd v) = None" using sel.entry_legal [OF V(1), of "mng_fd v"] False
      by (cases "regs (sel v) (mng_fd v)") (auto simp: INVALID_FD_def)
    then show ?thesis using False by (auto simp: u)
  qed (simp add: u w2(3))
  have U: "socks_fd u < 0" "mng_fd u < 0" "socks_heap u = socks_heap w" "mng_heap u = mng_heap w"
    "set (k_open (kern u)) = set (k_open (kern w)) - {fd. fd = socks_fd w \<and> 0 \<le> fd} - {fd. fd = mng_fd w \<and> 0 \<le> fd}"
    using w2(4) V by (auto simp: u k_close_def)
  have run: "start_draining w = Some (u\<lparr>draining := True\<rparr>)" using w1(1) [folded v] w2(1) [folded u] by (simp add: start_draining_def)
  have "server_inv (u\<lparr>draining := True\<rparr>)"
  proof -
    from start_draining_ok [OF g(1)] run have "sound g (u\<lparr>draining := True\<rparr>)" by simp
    moreover from this have "resolution_jobs (sel (u\<lparr>draining := True\<rparr>)) = finished g" by (simp add: sound_def world_def)
    ultimately show ?thesis using g(2,3) server_invI by metis
  qed
  then show ?thesis using run R1 R2 U V(2) by simp
qed

section \<open>Timeouts\<close>

text \<open>A session that the sweep has to close: it relays and has been idle for too long, or it negotiates and is late.\<close>

definition overdue :: "proxy \<Rightarrow> socks5 \<Rightarrow> bool" where
  "overdue w s \<longleftrightarrow>
     (if so_current s = Some COPY
      then (case g_config w of Some c \<Rightarrow> idle_timeout c > 0 \<and> clock w - so_last_activity s \<ge> idle_timeout c | None \<Rightarrow> False)
      else so_current s \<noteq> Some REQUEST_RESOLV \<and> so_negotiation_deadline s \<noteq> 0 \<and> clock w \<ge> so_negotiation_deadline s)"

lemma dropped_unserved:
  assumes d: "dropped g p s w w'" and o: "own g p s ci oi False w"
  shows "server_inv w' \<or> pending g \<noteq> finished g" and "\<not> serves w' p t"
    and "so_client_fd s \<notin> set (k_open (kern w')) \<and> (so_origin_fd s \<noteq> -1 \<longrightarrow> so_origin_fd s \<notin> set (k_open (kern w')))"
proof -
  obtain pre post ps where x: "active g = pre @ p # post" "sound (g\<lparr>active := pre @ post, pooled := ps\<rparr>) w'"
    "so_client_fd s \<notin> set (k_open (kern w'))" "so_origin_fd s \<noteq> -1 \<longrightarrow> so_origin_fd s \<notin> set (k_open (kern w'))"
    using d unfolding dropped_def by blast
  show "server_inv w' \<or> pending g \<noteq> finished g" using server_invI [OF x(2)] by auto
  have "distinct (active g)" using ownD(1) [OF o] by (simp add: world_def)
  then show "\<not> serves w' p t" using active_served [OF x(2)] x(1) by auto
  show "so_client_fd s \<notin> set (k_open (kern w')) \<and> (so_origin_fd s \<noteq> -1 \<longrightarrow> so_origin_fd s \<notin> set (k_open (kern w')))" using x(3,4) by simp
qed

lemma sweep_one_effect:
  assumes w: "server_inv w" and p: "serves w p s" and nc: "so_current s \<noteq> Some CONNECTING"
  shows "if overdue w s
    then returns (sweep_one server_host p w) (\<lambda>w'. server_inv w' \<and> (\<forall>t. \<not> serves w' p t) \<and> so_client_fd s \<notin> set (k_open (kern w'))
      \<and> (so_origin_fd s \<noteq> -1 \<longrightarrow> so_origin_fd s \<notin> set (k_open (kern w'))))
    else sweep_one server_host p w = Some w"
proof -
  obtain g where g: "sound g w" "pending g = resolution_jobs (sel w)" "finished g = resolution_jobs (sel w)" by (rule server_invD [OF w])
  have pm: "p \<in> set (active g)" and hp: "socks_heap w p = Some s" using p active_served [OF g(1)] by auto
  obtain s' ci oi where o: "own g p s' ci oi (so_current s' = Some REQUEST_RESOLV) w" and st: "settled g p s' ci oi w" by (rule sound_own [OF g(1) pm])
  have "s' = s" using ownD(3) [OF o] hp by simp
  note o = o [unfolded this] and st = st [unfolded this]
  have max: "c \<le> ERROR" if "so_current s = Some c" for c using settledD(1) [OF st] that by (auto split: if_splits)
  have state: "stm_state (client_stm server_host p) w = Some (state_of s)"
    using client_table(1) [of "state_of s" server_host p] client_table(2) [of "state_of s" server_host] max
    by (cases "so_current s") (simp_all add: stm_state_def client_get [OF o] state_of_def, simp add: client_stm_def)
  have cs: "state_of s = CONNECTING \<longleftrightarrow> so_current s = Some CONNECTING" "state_of s = COPY \<longleftrightarrow> so_current s = Some COPY"
    "state_of s = REQUEST_RESOLV \<longleftrightarrow> so_current s = Some REQUEST_RESOLV" "state_of s \<noteq> DONE" "state_of s \<noteq> ERROR"
    using settledD(2,3) [OF st] by (auto simp: state_of_def split: option.splits)
  have gone: "returns (do { w \<leftarrow> upd_socks p (socks5_set_failure reason) w; socksv5_done server_host p w }) (\<lambda>w'. server_inv w'
      \<and> (\<forall>t. \<not> serves w' p t) \<and> so_client_fd s \<notin> set (k_open (kern w')) \<and> (so_origin_fd s \<noteq> -1 \<longrightarrow> so_origin_fd s \<notin> set (k_open (kern w'))))"
    if "so_current s \<noteq> Some REQUEST_RESOLV" for reason
  proof -
    have o': "own g p s ci oi False w" using o that by simp
    obtain f where f: "upd_socks p (socks5_set_failure reason) w = Some (put_socks p (s\<lparr>so_failure := f\<rparr>) w)"
      "own g p (s\<lparr>so_failure := f\<rparr>) ci oi False (put_socks p (s\<lparr>so_failure := f\<rparr>) w)" by (rule own_failure [OF o'])
    from socksv5_done_ok [OF close_host_ok(3) f(2)] show ?thesis unfolding f(1) Option.bind.bind_lunit
      by (rule returns_mono) (use dropped_unserved [OF _ f(2)] g(2,3) in auto)
  qed
  show ?thesis
  proof (cases "overdue w s")
    case True
    then have "so_current s \<noteq> Some REQUEST_RESOLV" by (auto simp: overdue_def)
    moreover have "sweep_one server_host p w = do { w \<leftarrow> upd_socks p (socks5_set_failure (if so_current s = Some COPY then ''idle timeout'' else ''negotiation timeout'')) w; socksv5_done server_host p w }"
      using True nc state cs hp by (auto simp: sweep_one_def overdue_def)
    ultimately show ?thesis using True gone by simp
  next
    case False
    then have "sweep_one server_host p w = Some w" using nc state cs hp by (auto simp: sweep_one_def overdue_def)
    then show ?thesis using False by simp
  qed
qed

section \<open>A lost notification\<close>

lemma lost_notification:
  assumes w: "server_inv w" and d: "g_dns_worker w = Some d" and t: "dns_thread w = T_Notify j"
  shows "\<exists>w' d' p s js. dns_step gai False w = Some w' \<and> server_inv w' \<and> g_dns_worker w' = Some d' \<and> dns_thread w' = T_Wait
    \<and> serves w' p s \<and> so_current s = Some REQUEST_RESOLV \<and> interest_of w' (so_client_fd s) = OP_NOOP \<and> so_origin_fd s = -1
    \<and> so_client_fd s \<notin> set (resolution_jobs (sel w')) \<and> queue_ok d' js \<and> (\<forall>k \<in> set js. job_fd w' k \<noteq> so_client_fd s)
    \<and> sweep_one server_host p w' = Some w'"
proof -
  obtain g where g: "sound g w" "pending g = resolution_jobs (sel w)" "finished g = resolution_jobs (sel w)" by (rule server_invD [OF w])
  have hand: "in_hand w = [j]" using t by (simp add: in_hand_def)
  have dn: "queue_ok d (queued g)" "distinct (queued g @ [j])" "distinct (owed g w)" "job_ok g w d j"
    using soundD(1) [OF g(1)] d hand by (auto simp: world_def dns_ok_def)
  obtain job og where job: "w_jobs d j = Some job" "j_target job \<in> set (active g)" "fds_of w (j_target job) = Some (j_fd job, og)"
    using dn(4) by (auto simp: job_ok_def)
  let ?p = "j_target job"
  obtain s where s: "socks_heap w ?p = Some s" "so_client_fd s = j_fd job" using job(3) by (auto simp: fds_of_def)
  have fd: "job_fd w j = j_fd job" by (simp add: job_fd_def d job(1))
  have ow: "owed g w = map (job_fd w) (queued g) @ so_client_fd s # pending g" by (simp add: owed_def hand fd s(2))
  obtain ci oi where o: "own g ?p s ci oi (so_current s = Some REQUEST_RESOLV) w" and st: "settled g ?p s ci oi w"
    using sound_own [OF g(1) job(2)] s(1) ownD(3) by (metis option.inject)
  have cur: "so_current s = Some REQUEST_RESOLV" using settledD(4) [OF st] ow by simp
  have at: "at_resolv s ci (talk_of s (kern w))" using settledD(1) [OF st] cur by simp
  obtain d' where d': "dns_free j d = Some d'" "queue_ok d' (queued g)" "w_jobs d' = (w_jobs d)(j := None)"
    using free_ok [OF dn(1)] dn(2) job(1) by auto
  define v where v: "v = w\<lparr>sel := sel w, g_dns_worker := Some d', dns_thread := T_Wait\<rparr>"
  have V: "sel v = sel w" "g_dns_worker v = Some d'" "dns_thread v = T_Wait" "socks_heap v = socks_heap w" by (simp_all add: v)
  have run: "dns_step gai False w = Some v" by (simp add: dns_step_def d t job(1) d'(1) selector_notify_block_def v)
  from dns_step_ok [OF g(1), of gai False] g(2,3) run have inv: "server_inv v" by (auto simp: resolver_ran_def intro: server_invI)
  have sv: "serves v ?p s" using own_fds(7) [OF o] s(1) V by (auto simp: serves_def)
  have i: "interest_of v (so_client_fd s) = OP_NOOP" "so_origin_fd s = -1" using own_fds(7) [OF o] at by (auto simp: interest_of_def V at_resolv_def split: prod.splits)
  have "job_fd v k = job_fd w k" if "k \<in> set (queued g)" for k using that dn(2) by (auto simp: job_fd_def V d d'(3))
  then have q: "\<forall>k \<in> set (queued g). job_fd v k \<noteq> so_client_fd s" using dn(3) unfolding ow by (auto simp: image_iff)
  have nj: "so_client_fd s \<notin> set (resolution_jobs (sel v))" using dn(3) g(2) V unfolding ow by simp
  have "\<not> overdue v s" using cur by (simp add: overdue_def)
  then have "sweep_one server_host ?p v = Some v" using sweep_one_effect [OF inv sv] cur by simp
  then show ?thesis using run inv V sv cur i nj d'(2) q by (intro exI [of _ v] exI [of _ d'] exI [of _ ?p] exI [of _ s] exI [of _ "queued g"]) simp
qed

end
