(* ===== verification/Resolving_Example.thy ===== *)
theory Resolving_Example
  imports Tunnel_Example
begin

text \<open>
  A server whose only session waits for the resolver: its client, at descriptor 4, asked for port 80 of the name \<^verbatim>\<open>a\<close>, and the
  resolver's thread has the answer and is about to notify the selector.
\<close>

definition rx_selector :: "(handler, attachment) fdselector" where
  "rx_selector =
     (let s = the (the (selector_new True True server_conf ITEMS_MAX_SIZE))
      in snd (the (selector_register True 4 (Some socks5_handler) OP_NOOP (Some (Socks_Ptr 0)) s)))"

definition rx_kernel :: kernel where
  "rx_kernel = ex_kernel\<lparr>k_rx := (\<lambda>_. [])(4 := ex_greeting @ request_msg SOCKS_RSV (FQDN [97]) 0 80), k_tx := (\<lambda>_. [])(4 := [SOCKS_VERSION, 0]),
     k_peer := \<lambda>_. None\<rparr>"

definition rx_parser :: request_parser where
  "rx_parser = \<lparr>rp_request = \<lparr>rq_cmd = SOCKS_CMD_CONNECT, rq_dest_addr = \<lparr>ra_type = SOCKS_ATYP_FQDN, ra_mem = 97 # replicate 255 0\<rparr>,
     rq_dest_port = 80\<rparr>, rp_state = request_done, rp_remaining = 0, rp_read = 0\<rparr>"

definition rx_session :: socks5 where
  "rx_session = (fresh_socks5 4 0 None)\<lparr>so_current := Some REQUEST_RESOLV, so_references := 2, so_port := 80, so_destination_set := True,
     so_client := C_request \<lparr>rt_parser = rx_parser, rt_reply = SOCKS_REPLY_SUCCEEDED\<rparr>\<rparr>"

definition rx_worker :: dns_worker where
  "rx_worker = \<lparr>w_jobs = [0 \<mapsto> \<lparr>j_host = ''a'', j_port = ''80'', j_fd = 4, j_target = 0, j_next = None\<rparr>], w_fresh = 1, queue_head = None,
     queue_tail = None, w_running = True\<rparr>"

definition rx_world :: proxy where
  "rx_world = ex_world\<lparr>kern := rx_kernel, sel := rx_selector, socks_heap := [0 \<mapsto> rx_session], g_dns_worker := Some rx_worker, dns_thread := T_Notify 0\<rparr>"

lemma rx_selector_ok:
  "full_sel rx_selector \<and> resolution_jobs rx_selector = [] \<and> regs rx_selector = [4 \<mapsto> (socks5_handler, OP_NOOP, Some (Socks_Ptr 0))]"
proof -
  obtain s :: "(handler, attachment) fdselector" where s: "selector_new True True server_conf ITEMS_MAX_SIZE = Some (Some s)" "full_sel s"
    "regs s = (\<lambda>_. None)" "resolution_jobs s = []" using selector_new_full [of server_conf] by auto
  have v: "\<not> INVALID_FD 4" by (simp add: INVALID_FD_def)
  from full_enter [OF s(2) v, of True socks5_handler OP_NOOP "Some (Socks_Ptr 0)"] s(3,4) enter_jobs [of True 4 "Some socks5_handler" OP_NOOP "Some (Socks_Ptr 0)" s]
  obtain s1 where s1: "selector_register True 4 (Some socks5_handler) OP_NOOP (Some (Socks_Ptr 0)) s = Some (SELECTOR_SUCCESS, s1)" "full_sel s1"
    "regs s1 = [4 \<mapsto> (socks5_handler, OP_NOOP, Some (Socks_Ptr 0))]" "resolution_jobs s1 = []" by (auto simp: returns_prod)
  have "rx_selector = s1" unfolding rx_selector_def Let_def s(1) option.sel s1(1) snd_conv ..
  then show ?thesis using s1(2-4) by blast
qed

lemma rx_session_simps [simp]:
  "so_client_fd rx_session = 4" "so_origin_fd rx_session = -1" "so_current rx_session = Some REQUEST_RESOLV" "so_references rx_session = 2"
  "so_read_buffer rx_session = ex_buffer []" "so_write_buffer rx_session = ex_buffer []" "so_port rx_session = 80"
  "so_destination_set rx_session" "so_resolution rx_session = []" "\<not> so_tunnel_opened rx_session"
  "length (so_user rx_session) = USER_MAX_LEN" "length (so_destination rx_session) = DESTINATION_MAX_LEN"
  "so_client rx_session = C_request \<lparr>rt_parser = rx_parser, rt_reply = SOCKS_REPLY_SUCCEEDED\<rparr>"
  "so_orig rx_session = O_conn \<lparr>cn_current = [], cn_reply = 0\<rparr>" "so_active_prev rx_session = None" "so_active_next rx_session = None"
  by (simp_all add: rx_session_def fresh_socks5_def ex_buffer_def buffer_init_def)

lemma rx_resolv: "at_resolv rx_session OP_NOOP (talk_of rx_session rx_kernel)"
proof -
  have "negotiated ex_greeting [SOCKS_VERSION, 0] u" for u
    by (simp add: negotiated_def ex_greeting_def greeting_def exI [of _ "[0]"])
  moreover have "port_of 0 80 = 80" by (simp add: port_of_def)
  ultimately have "requested rx_session ex_greeting [SOCKS_VERSION, 0] (FQDN [97]) 80 (request_msg SOCKS_RSV (FQDN [97]) 0 80)"
    by (simp add: requested_def) metis
  moreover have "\<exists>t. 97 # replicate 255 (0 :: byte) = [97] @ 0 # t"
    by (rule exI [of _ "replicate 254 0"]) (simp add: numeral_eq_Suc)
  then have "asks_for \<lparr>rt_parser = rx_parser, rt_reply = SOCKS_REPLY_SUCCEEDED\<rparr> (FQDN [97]) 80"
    by (simp add: asks_for_def rx_parser_def)
  moreover have "buffer_contents (ex_buffer []) = []" using ex_buffer_ok [of "[]"] by simp
  moreover have "talk_of rx_session rx_kernel = (ex_greeting @ request_msg SOCKS_RSV (FQDN [97]) 0 80, [SOCKS_VERSION, 0], [], [], None)"
    by (simp add: talk_of_def rx_kernel_def ex_kernel_def)
  ultimately show ?thesis unfolding at_resolv_def by fastforce
qed

lemma rx_world_sound: "sound \<lparr>finished = [], pending = [], queued = [], active = [0], pooled = []\<rparr> rx_world"
proof -
  let ?g = "\<lparr>finished = [], pending = [], queued = [], active = [0 :: nat], pooled = []\<rparr>"
  have sel: "full_sel (sel rx_world)" "resolution_jobs (sel rx_world) = []"
    "regs (sel rx_world) = [4 \<mapsto> (socks5_handler, OP_NOOP, Some (Socks_Ptr 0))]"
    using rx_selector_ok by (simp_all add: rx_world_def)
  have h: "socks_heap rx_world = [0 \<mapsto> rx_session]" by (simp add: rx_world_def)
  have fds: "fds_of rx_world 0 = Some (4, -1)" by (simp add: fds_of_def h)
  have d: "in_hand rx_world = [0]" "g_dns_worker rx_world = Some rx_worker" by (simp_all add: in_hand_def rx_world_def)
  then have o: "owed ?g rx_world = [4]" by (simp add: owed_def job_fd_def rx_worker_def)
  have "job_ok ?g rx_world rx_worker 0" using fds by (simp add: job_ok_def rx_worker_def)
  moreover have "queue_ok rx_worker []" by (simp add: queue_ok_def rx_worker_def)
  ultimately have dns: "dns_ok ?g rx_world" using o d fds by (simp add: dns_ok_def)
  have own: "owner_ok ?g rx_world 4 socks5_handler i (Some (Socks_Ptr 0))" for i using fds by (auto simp: owner_ok_def socks_reg_def)
  have "world ?g rx_world" using sel dns own unfolding world_def
    by (simp add: listens_def) (simp add: rx_world_def ex_world_def rx_kernel_def ex_kernel_def)
  moreover have "settled ?g 0 rx_session OP_NOOP 0 rx_world"
  proof -
    have "sess_wf rx_session" using ex_buffer_ok [of "[]"] by (simp add: sess_wf_def)
    moreover have "kern rx_world = rx_kernel" by (simp add: rx_world_def)
    ultimately show ?thesis using rx_resolv sel(3) o by (simp add: settled_def registered_def held_def)
  qed
  ultimately show ?thesis using h by (auto simp: sound_def alive_def)
qed

lemma rx_world_ok: "server_inv rx_world" "g_dns_worker rx_world = Some rx_worker" "dns_thread rx_world = T_Notify 0"
proof -
  have "resolution_jobs (sel rx_world) = []" using rx_selector_ok by (simp add: rx_world_def)
  then show "server_inv rx_world" using server_invI [OF rx_world_sound] by simp
qed (simp_all add: rx_world_def)

end
