(* ===== verification/Guarantees.thy ===== *)
theory Guarantees
  imports Edges Resolving_Example
begin

text \<open>
  What the invariant of the server means for its clients: theorems about every state that the server can be in,
  and about what it does at the edges (authenticating, accepting, timeouts, shutting down). The instances are at
  the states of \<open>Tunnel_Example\<close> and \<open>Resolving_Example\<close>.
\<close>

section \<open>Properties\<close>

lemma tunnel_exact:
  assumes "server_inv w" and "serves w p s" and "so_current s = Some COPY"
  shows "\<exists>n m r d hi lo. negotiated n m (so_user s)
      \<and> k_rx (kern w) (so_client_fd s) = n @ request_msg r d hi lo @ k_tx (kern w) (so_origin_fd s) @ buffer_contents (so_read_buffer s)"
    and "\<exists>n m. negotiated n m (so_user s)
      \<and> k_tx (kern w) (so_client_fd s) @ buffer_contents (so_write_buffer s) = m @ reply_msg SOCKS_REPLY_SUCCEEDED @ k_rx (kern w) (so_origin_fd s)"
proof -
  obtain ci oi where "at (so_current s) s ci oi (talk_of s (kern w))" by (rule served [OF assms(1,2)])
  then obtain c oc where "copying s c oc (talk_of s (kern w))" using assms(3) by (auto simp: at_copy_def)
  note t = copy_tunnel [OF this [unfolded talk_of_def]]
  show "\<exists>n m r d hi lo. negotiated n m (so_user s)
      \<and> k_rx (kern w) (so_client_fd s) = n @ request_msg r d hi lo @ k_tx (kern w) (so_origin_fd s) @ buffer_contents (so_read_buffer s)" by (rule t(1))
  show "\<exists>n m. negotiated n m (so_user s)
      \<and> k_tx (kern w) (so_client_fd s) @ buffer_contents (so_write_buffer s) = m @ reply_msg SOCKS_REPLY_SUCCEEDED @ k_rx (kern w) (so_origin_fd s)"
    using t(2) by blast
qed

text \<open>C2: the relay is faithful. In every state of the server, a session that relays has passed on what it received: what the
  client has sent is the negotiation, then one request, then exactly what the origin has been sent, then what is
  buffered for it; and what the client has got, followed by what is buffered for it, is the answers of the negotiation, the
  reply that the request succeeded, then exactly what the origin has sent. Nothing is lost, repeated, reordered or made up.\<close>

theorem tunnel_faithful:
  assumes "server_inv w" and "serves w p s" and "so_current s = Some COPY"
  shows "(\<exists>n m r d hi lo. negotiated n m (so_user s)
      \<and> k_rx (kern w) (so_client_fd s) = n @ request_msg r d hi lo @ k_tx (kern w) (so_origin_fd s) @ buffer_contents (so_read_buffer s))
    \<and> (\<exists>n m. negotiated n m (so_user s)
      \<and> k_tx (kern w) (so_client_fd s) @ buffer_contents (so_write_buffer s) = m @ reply_msg SOCKS_REPLY_SUCCEEDED @ k_rx (kern w) (so_origin_fd s))"
  using tunnel_exact [OF assms] by blast

theorem tunnel_faithful_witness:
  "\<exists>n m r d hi lo. negotiated n m (so_user ex_session) \<and> k_rx ex_kernel 4 = n @ request_msg r d hi lo @ k_tx ex_kernel 5 @ [105]"
  using tunnel_faithful [OF ex_world_ok] ex_buffer_ok [of "[105]"] by (simp add: ex_world_def)



lemma session_waits:
  assumes "server_inv w" and "serves w p s" and "so_current s \<noteq> Some REQUEST_RESOLV"
  shows "interest_of w (so_client_fd s) \<noteq> OP_NOOP \<or> so_origin_fd s \<noteq> -1 \<and> interest_of w (so_origin_fd s) \<noteq> OP_NOOP"
    and "so_current s = Some COPY \<Longrightarrow>
      (OP_READ AND interest_of w (so_client_fd s) \<noteq> 0 \<longrightarrow> buffer_can_write (so_read_buffer s))
    \<and> (OP_WRITE AND interest_of w (so_client_fd s) \<noteq> 0 \<longrightarrow> buffer_can_read (so_write_buffer s))
    \<and> (OP_READ AND interest_of w (so_origin_fd s) \<noteq> 0 \<longrightarrow> buffer_can_write (so_write_buffer s))
    \<and> (OP_WRITE AND interest_of w (so_origin_fd s) \<noteq> 0 \<longrightarrow> buffer_can_read (so_read_buffer s))"
proof -
  obtain g ci oi where "sound g w" "p \<in> set (active g)" and o: "own g p s ci oi (so_current s = Some REQUEST_RESOLV) w" and st: "settled g p s ci oi w"
    and at: "at (so_current s) s ci oi (talk_of s (kern w))"
    and i: "interest_of w (so_client_fd s) = ci" "so_origin_fd s \<noteq> -1 \<longrightarrow> interest_of w (so_origin_fd s) = oi"
    by (rule served [OF assms(1,2)])
  show "interest_of w (so_client_fd s) \<noteq> OP_NOOP \<or> so_origin_fd s \<noteq> -1 \<and> interest_of w (so_origin_fd s) \<noteq> OP_NOOP"
    using at_waits [OF at assms(3) settledD(2,3) [OF st] ownD(4) [OF o]] i by auto
  assume cur: "so_current s = Some COPY"
  then obtain c oc where c: "copying s c oc (talk_of s (kern w))" "copy_client_interest s = Some ci" "copy_origin_interest s = Some oi"
    using at by (auto simp: at_copy_def)
  show "(OP_READ AND interest_of w (so_client_fd s) \<noteq> 0 \<longrightarrow> buffer_can_write (so_read_buffer s))
    \<and> (OP_WRITE AND interest_of w (so_client_fd s) \<noteq> 0 \<longrightarrow> buffer_can_read (so_write_buffer s))
    \<and> (OP_READ AND interest_of w (so_origin_fd s) \<noteq> 0 \<longrightarrow> buffer_can_write (so_write_buffer s))
    \<and> (OP_WRITE AND interest_of w (so_origin_fd s) \<noteq> 0 \<longrightarrow> buffer_can_read (so_read_buffer s))"
    unfolding i(1) i(2) [rule_format, OF copyingD(3) [OF c(1)]] copy_interests(1,2) [OF c(1,2)] copy_interests(3,4) [OF c(1,3)] by simp
qed



text \<open>C15: every access through the unions of a session is at its type: the parser or the relay structure that a state works on is the one that
  is in the union then, and the session's two buffers are well formed.\<close>

theorem session_union_types:
  assumes "server_inv w" and "serves w p s"
  shows "union_type (so_current s) s \<and> buffer_wf (so_read_buffer s) \<and> buffer_wf (so_write_buffer s)"
proof -
  obtain g ci oi where "sound g w" "p \<in> set (active g)" and o: "own g p s ci oi (so_current s = Some REQUEST_RESOLV) w" and st: "settled g p s ci oi w"
    and at: "at (so_current s) s ci oi (talk_of s (kern w))" by (rule served [OF assms])
  show ?thesis using at_union_type [OF at settledD(2,3) [OF st]] ownD(4) [OF o] by (simp add: sess_wf_def)
qed

theorem session_union_types_witness:
  "union_type (Some COPY) ex_session \<and> buffer_wf (ex_buffer [105]) \<and> buffer_wf (ex_buffer [111, 107])"
  using session_union_types [OF ex_world_ok] by (simp del: union_type.simps)

lemma session_books:
  assumes "server_inv w"
  shows "socks_active w = of_nat (card {p. \<exists>s. serves w p s})"
    and "serves w p s \<Longrightarrow> unat (so_references s) = card (socks_fds s) + (if so_current s = Some REQUEST_RESOLV then 1 else 0)
      \<and> (\<forall>fd \<in> socks_fds s. \<exists>i. regs (sel w) fd = Some (socks5_handler, i, Some (Socks_Ptr p)))"
    and "serves w p s \<Longrightarrow> serves w q t \<Longrightarrow> p \<noteq> q \<Longrightarrow> socks_fds s \<inter> socks_fds t = {}"
proof -
  obtain g where g: "sound g w" by (rule server_invD [OF assms])
  note W = soundD(1) [OF g, unfolded world_def]
  have mem: "(\<exists>s. serves w p s) \<longleftrightarrow> p \<in> set (active g)" for p
    unfolding active_served [OF g] using soundD(3) [OF g] by (auto simp: alive_def)
  then have "{p. \<exists>s. serves w p s} = set (active g)" by blast
  moreover have "card (set (active g)) = length (active g)" using W distinct_card [of "active g"] by simp
  ultimately show "socks_active w = of_nat (card {p. \<exists>s. serves w p s})" using W by simp
  have fds: "unat (so_references s) = card (socks_fds s) + (if so_current s = Some REQUEST_RESOLV then 1 else 0)
      \<and> (\<forall>fd \<in> socks_fds s. \<exists>i. regs (sel w) fd = Some (socks5_handler, i, Some (Socks_Ptr p)))" if ps: "serves w p s" for p s
  proof -
    obtain g' ci oi where "sound g' w" "p \<in> set (active g')" and o: "own g' p s ci oi (so_current s = Some REQUEST_RESOLV) w" by (rule served [OF assms ps])
    have r: "registered p s ci oi (regs (sel w))" and h: "held s (so_current s = Some REQUEST_RESOLV)" using ownD(5,6) [OF o] by auto
    have "regs (sel w) (-1) = None" using sel.entry_legal [OF soundD(2) [OF g], of "-1"] by (cases "regs (sel w) (-1)") (auto simp: INVALID_FD_def)
    then have c: "so_client_fd s \<noteq> -1" using r by (auto simp: registered_def)
    have "socks_fds s = (if so_origin_fd s = -1 then {so_client_fd s} else {so_client_fd s, so_origin_fd s})" using c by (auto simp: socks_fds_def)
    moreover have "so_origin_fd s \<noteq> -1 \<Longrightarrow> so_client_fd s \<noteq> so_origin_fd s" using r by (auto simp: registered_def)
    ultimately show ?thesis using r h by (auto simp: registered_def held_def)
  qed
  show "serves w p s \<Longrightarrow> unat (so_references s) = card (socks_fds s) + (if so_current s = Some REQUEST_RESOLV then 1 else 0)
      \<and> (\<forall>fd \<in> socks_fds s. \<exists>i. regs (sel w) fd = Some (socks5_handler, i, Some (Socks_Ptr p)))" by (rule fds)
  assume "serves w p s" "serves w q t" "p \<noteq> q"
  with fds [of p s] fds [of q t] show "socks_fds s \<inter> socks_fds t = {}" by fastforce
qed



text \<open>C1: the program never fails. Whatever the command line, the environment that the set-up finds, the addresses, data and errors that
  the network delivers, the answers and the pace of the resolver's thread, the failing allocations, the descriptors that
  \<^verbatim>\<open>pselect\<close> reports and the signals: on every schedule the program runs without an access out of bounds, through a null or a freed pointer,
  without a failing assertion and without \<^verbatim>\<open>abort\<close>. It is then in a state that satisfies the invariant, or has ended with status 0 or 1 after a clean-up that does
  not fail either. The one assumption is the documented behaviour of \<^verbatim>\<open>getaddrinfo\<close>: its success gives an address.\<close>

theorem server_main_safe:
  assumes "gai_ok env"
  shows "returns (server_main env argv es) (\<lambda>r. case r of Inl status \<Rightarrow> status \<in> {0, 1} | Inr w \<Rightarrow> server_inv w)"
  by (rule server_main_runs [OF assms])

definition ex_env :: main_env where
  "ex_env = \<lparr>me_users = True, me_metrics = True, me_log = True, me_stderr = [], me_fopen = \<lambda>_. None,
     me_gai = \<lambda>a p. Some [AF_INET [0, 0, 0, 0] 1080], me_bind = \<lambda>_. True, me_listen = \<lambda>_. True, me_masked = True, me_installed = True,
     me_selector = (True, True), me_worker = (True, True, True, True), me_resolver = \<lambda>h p. [], me_notify = [], me_kernel = ex_kernel,
     me_time = 0, me_text_of_time = \<lambda>_. [], me_text_of_addr = \<lambda>_. []\<rparr>"

theorem server_main_safe_witness:
  "returns (server_main ex_env [''-p'', ''1080''] [Time_Is 5, Iteration (\<lambda>r w. Inr (r, {})) 0 0, Resolver_Runs (\<lambda>h p. []) False, Iteration (\<lambda>r w. Inl EINTR) 0 1])
     (\<lambda>r. case r of Inl status \<Rightarrow> status \<in> {0, 1} | Inr w \<Rightarrow> server_inv w)"
  by (rule server_main_safe) (simp add: gai_ok_def ex_env_def)



lemma shutdown_steps:
  assumes "server_inv w"
  shows "returns (start_draining w) (\<lambda>w'. server_inv w' \<and> draining w' \<and> socks_fd w' < 0 \<and> mng_fd w' < 0
      \<and> regs (sel w') = (regs (sel w))(socks_fd w := None, mng_fd w := None) \<and> socks_heap w' = socks_heap w \<and> mng_heap w' = mng_heap w
      \<and> set (k_open (kern w')) = set (k_open (kern w)) - {fd. fd = socks_fd w \<and> 0 \<le> fd} - {fd. fd = mng_fd w \<and> 0 \<le> fd})"
    and "draining w \<Longrightarrow> socksv5_active_sessions w = 0 \<Longrightarrow> mng_active_sessions w = 0 \<Longrightarrow> main_iteration poll n1 n2 w = Some (Leaves 0 True w)"
    and "1 < n1 \<Longrightarrow> main_iteration poll n1 n2 w = Some (Leaves 0 True w)"
  using start_draining_effect [OF assms] by (simp_all add: main_iteration_def)





text \<open>C22: a lost wake-up. The resolver's thread does not look at what \<^verbatim>\<open>selector_notify_block\<close> returns. When the allocation in it fails, the job is
  freed and nothing is left that could ever resume the session: it waits for the resolver with no interest registered and no origin, it is not among the finished jobs, no job in
  the queue is for it, and the sweep passes it over, with whatever deadline.\<close>

theorem dns_lost_wakeup:
  assumes "server_inv w" and "g_dns_worker w = Some d" and "dns_thread w = T_Notify j"
  shows "\<exists>w' d' p s js. dns_step gai False w = Some w' \<and> server_inv w' \<and> g_dns_worker w' = Some d' \<and> dns_thread w' = T_Wait
    \<and> serves w' p s \<and> so_current s = Some REQUEST_RESOLV \<and> interest_of w' (so_client_fd s) = OP_NOOP \<and> so_origin_fd s = -1
    \<and> so_client_fd s \<notin> set (resolution_jobs (sel w')) \<and> queue_ok d' js \<and> (\<forall>k \<in> set js. job_fd w' k \<noteq> so_client_fd s)
    \<and> sweep_one server_host p w' = Some w'"
  by (rule lost_notification [OF assms])

theorem dns_lost_wakeup_witness:
  "\<exists>w' p s. dns_step (\<lambda>h p. []) False rx_world = Some w' \<and> server_inv w' \<and> serves w' p s \<and> so_current s = Some REQUEST_RESOLV
    \<and> interest_of w' (so_client_fd s) = OP_NOOP \<and> sweep_one server_host p w' = Some w'"
  using dns_lost_wakeup [OF rx_world_ok] by blast

lemma credentials_decide:
  assumes "socks_heap w p = Some s" and "so_client s = C_auth a" and "buffer_wf (so_write_buffer s)" and "b_limit (so_write_buffer s) = BUFFER_SIZE"
    and "buffer_contents (so_write_buffer s) = []" and "length (so_user s) = USER_MAX_LEN" and "g_users w = Some u" and "users_inv u"
    and "filled (ap_uname (au_parser a)) name"
  shows "returns (auth_process p w) (\<lambda>(st, w'). st = AUTH_WRITE \<and> (\<exists>t status. socks_heap w' p = Some t
      \<and> buffer_contents (so_write_buffer t) = [AUTH_VERSION, status]
      \<and> (status = 0 \<longleftrightarrow> users_map u (cstr (map chr name)) = Some (cstr (ap_passwd (au_parser a))))
      \<and> (if status = 0 then cstr (so_user t) = cstr (map chr name) \<and> g_metrics w' = g_metrics w
         else so_user t = so_user s \<and> g_metrics w' = map_option metrics_auth_fail (g_metrics w))))"
    and "0 < users_count u \<Longrightarrow> hello_choice (g_users w) offer \<in> {SOCKS_HELLO_USERNAME_PASSWORD, SOCKS_HELLO_NO_ACCEPTABLE_METHODS}"
proof -
  let ?n = "ap_uname (au_parser a)"
  from users_check_contract [OF assms(8), of ?n "ap_passwd (au_parser a)"] obtain granted where
    granted: "users_check u ?n (ap_passwd (au_parser a)) = Some granted" "granted \<longleftrightarrow> users_map u (cstr ?n) = Some (cstr (ap_passwd (au_parser a)))"
    by (auto simp: returns_iff)
  have cn: "cstr ?n = cstr (map chr name)" by (rule filled_cstr [OF assms(9)])
  have l: "length (cstr ?n) \<le> 255" using assms(9) length_cstr [of "map chr name"] unfolding cn by (simp add: filled_def)
  obtain user where user: "snprintf (so_user s) USER_MAX_LEN (cstr ?n) = Some user" "cstr user = cstr (map chr name)"
    using snprintf_ok [of USER_MAX_LEN "so_user s" "cstr ?n"] assms(6) l by (auto simp: returns_iff cn cstr_idem)
  let ?st = "if granted then 0 else 1 :: byte"
  have "buffer_room (so_write_buffer s) = BUFFER_SIZE" using buffer_empty_room [OF assms(3,5)] assms(4) by (simp add: buffer_room_def)
  with auth_marshall_ok [OF assms(3), of ?st] obtain b where b: "auth_marshall (so_write_buffer s) ?st = Some (0, b)"
    "buffer_contents b = [AUTH_VERSION, ?st]" using assms(5) by (auto simp: returns_prod)
  show "returns (auth_process p w) (\<lambda>(st, w'). st = AUTH_WRITE \<and> (\<exists>t status. socks_heap w' p = Some t
      \<and> buffer_contents (so_write_buffer t) = [AUTH_VERSION, status]
      \<and> (status = 0 \<longleftrightarrow> users_map u (cstr (map chr name)) = Some (cstr (ap_passwd (au_parser a))))
      \<and> (if status = 0 then cstr (so_user t) = cstr (map chr name) \<and> g_metrics w' = g_metrics w
         else so_user t = so_user s \<and> g_metrics w' = map_option metrics_auth_fail (g_metrics w))))"
    using granted user b assms(1,2,7) cn by (cases granted) (auto simp: auth_process_def Let_def count_def)
  show "hello_choice (g_users w) offer \<in> {SOCKS_HELLO_USERNAME_PASSWORD, SOCKS_HELLO_NO_ACCEPTABLE_METHODS}" if "0 < users_count u"
    using that assms(7) by (simp add: hello_choice_def)
qed

text \<open>C17: credentials are checked. The user store decides: the status sent is 0 exactly when it holds the name with that password; then the session belongs to that user,
  otherwise the failure is counted. When there are users, the answer to a greeting is never that no authentication is required.\<close>

theorem credentials_checked:
  assumes "socks_heap w p = Some s" and "so_client s = C_auth a" and "buffer_wf (so_write_buffer s)" and "b_limit (so_write_buffer s) = BUFFER_SIZE"
    and "buffer_contents (so_write_buffer s) = []" and "length (so_user s) = USER_MAX_LEN" and "g_users w = Some u" and "users_inv u"
    and "filled (ap_uname (au_parser a)) name"
  shows "returns (auth_process p w) (\<lambda>(st, w'). st = AUTH_WRITE \<and> (\<exists>t status. socks_heap w' p = Some t
      \<and> buffer_contents (so_write_buffer t) = [AUTH_VERSION, status]
      \<and> (status = 0 \<longleftrightarrow> users_map u (cstr (map chr name)) = Some (cstr (ap_passwd (au_parser a))))
      \<and> (if status = 0 then cstr (so_user t) = cstr (map chr name) \<and> g_metrics w' = g_metrics w
         else so_user t = so_user s \<and> g_metrics w' = map_option metrics_auth_fail (g_metrics w))))
    \<and> (0 < users_count u \<longrightarrow> hello_choice (g_users w) offer \<in> {SOCKS_HELLO_USERNAME_PASSWORD, SOCKS_HELLO_NO_ACCEPTABLE_METHODS})"
  using credentials_decide [OF assms] by blast

definition ex_login :: "users \<Rightarrow> string \<Rightarrow> proxy" where
  "ex_login u pass = ex_world\<lparr>g_users := Some u, socks_heap := [0 \<mapsto> ex_session\<lparr>so_write_buffer := ex_buffer [], so_client :=
     C_auth \<lparr>au_parser = \<lparr>ap_state = auth_done, ap_remaining = 0, ap_ulen = 3, ap_plen = 2, ap_uname = map chr [97, 110, 110] @ replicate 253 NUL,
       ap_passwd = pass @ [NUL]\<rparr>, au_status = 0\<rparr>\<rparr>]\<rparr>"

theorem credentials_checked_witness:
  "\<exists>u. users_add users_create ''ann'' ''pw'' = Some (True, u)
    \<and> returns (auth_process 0 (ex_login u ''pw'')) (\<lambda>(st, w'). \<exists>t. socks_heap w' 0 = Some t \<and> buffer_contents (so_write_buffer t) = [AUTH_VERSION, 0])
    \<and> returns (auth_process 0 (ex_login u ''xx'')) (\<lambda>(st, w'). \<exists>t status. socks_heap w' 0 = Some t \<and> buffer_contents (so_write_buffer t) = [AUTH_VERSION, status]
        \<and> status \<noteq> 0)"
proof -
  have dom: "users_map users_create = Map.empty" "users_inv users_create" using users_inv_create by (simp_all add: users_map_create)
  have "users_count users_create = 0" by (simp add: users_count_def users_create_def)
  from users_add_contract [OF dom(2), of "''ann''" "''pw''"] obtain u where u: "users_add users_create ''ann'' ''pw'' = Some (True, u)" "users_inv u"
    "users_map u = [''ann'' \<mapsto> ''pw'']" using dom(1) by (auto simp: returns_prod strlen_def users_create_def)
  have b: "buffer_wf (ex_buffer [])" "b_limit (ex_buffer []) = BUFFER_SIZE" "buffer_contents (ex_buffer []) = []" using ex_buffer_ok [of "[]"] by auto
  have "replicate 253 NUL = NUL # replicate 252 NUL" by (simp add: numeral_eq_Suc)
  then have f: "filled (map chr [97, 110, 110] @ replicate 253 NUL) [97, 110, 110]"
    unfolding filled_def by (intro conjI exI [of _ "replicate 252 NUL"]) simp_all
  have "chr 97 = CHR ''a''" "chr 110 = CHR ''n''" by code_simp+
  then have "cstr (map chr [97, 110, 110]) = ''ann''" by (simp add: cstr_def)
  note name = this
  have "returns (auth_process 0 (ex_login u pass)) (\<lambda>(st, w'). (\<exists>t status. socks_heap w' 0 = Some t
      \<and> buffer_contents (so_write_buffer t) = [AUTH_VERSION, status] \<and> (status = 0 \<longleftrightarrow> pass = ''pw'')))" if "NUL \<notin> set pass" for pass
    by (rule returns_mono [OF credentials_checked [of "ex_login u pass" 0 _ _ u "[97, 110, 110]", unfolded name, THEN conjunct1]])
      (use b u f cstr_id [OF that] in \<open>auto simp: ex_login_def\<close>)
  from this [of "''pw''"] this [of "''xx''"] show ?thesis using u(1) by (auto simp: returns_prod)
qed

text \<open>C37: the limit on connections. When as many sessions are active as the limit that is set allows, a connection that comes in is closed and counted as rejected, and nothing else
  changes.\<close>

theorem accept_limit:
  assumes "g_config w = Some c" and "0 < max_connections c" and "max_connections c \<le> int (unat (socks_active w))"
    and "k_do_accept (k_fd key) (kern w) = (Inr fd, k)"
  shows "\<exists>k'. socksv5_passive_accept H key w = Some (count metrics_conn_rejected (w\<lparr>kern := k'\<rparr>)) \<and> fd \<notin> set (k_open k')
    \<and> set (k_open k') = set (k_open (kern w))"
proof -
  have "fd \<notin> set (k_open (kern w))" "k_open k = fd # k_open (kern w)" using do_accept_kern [OF assms(4)] by simp_all
  moreover obtain b k1 where n: "k_set_nio fd k = (b, k1)" by (cases "k_set_nio fd k")
  moreover have "k_open k1 = k_open k" using silent_nio [OF n] by (simp add: silent_def)
  ultimately have o: "fd \<notin> set (k_open (k_close fd k1))" "set (k_open (k_close fd k1)) = set (k_open (kern w))" by (auto simp: k_close_def)
  obtain m where m: "max_connections c = int m" using assms(2) by (metis less_imp_le nonneg_int_cases)
  have "m < 2 ^ 32" using assms(3) unsigned_less [of "socks_active w", where 'a = int] m by simp
  moreover have "m \<le> unat (socks_active w)" using assms(3) m by (simp only: of_nat_le_iff)
  ultimately have "of_int (max_connections c) \<le> socks_active w" using m by (simp add: word_le_nat_alt unat_of_nat)
  then have "socksv5_passive_accept H key w = Some (count metrics_conn_rejected (w\<lparr>kern := k_close fd k1\<rparr>))"
    using assms n by (cases b) (simp_all add: socksv5_passive_accept_def accept_fail_def socks5_destroy_def Let_def)
  then show ?thesis using o by blast
qed

theorem accept_limit_witness:
  "\<exists>k'. socksv5_passive_accept server_host \<lparr>k_fd = 3, k_data = None\<rparr>
      (ex_world\<lparr>g_config := Some (config_init\<lparr>max_connections := 1\<rparr>), kern := ex_kernel\<lparr>k_accept := \<lambda>_. [None]\<rparr>\<rparr>)
    = Some (count metrics_conn_rejected (ex_world\<lparr>g_config := Some (config_init\<lparr>max_connections := 1\<rparr>), kern := k'\<rparr>)) \<and> 0 \<notin> set (k_open k')"
proof -
  let ?w = "ex_world\<lparr>g_config := Some (config_init\<lparr>max_connections := 1\<rparr>), kern := ex_kernel\<lparr>k_accept := \<lambda>_. [None]\<rparr>\<rparr>"
  have "fresh_fd [5, 4, 3, 2, 1] = 0" by (simp add: fresh_fd_def upt_rec)
  then obtain k where "k_do_accept 3 (kern ?w) = (Inr 0, k)" by (simp add: k_do_accept_def k_socket_def ex_kernel_def)
  then show ?thesis using accept_limit [of ?w "config_init\<lparr>max_connections := 1\<rparr>" "\<lparr>k_fd = 3, k_data = None\<rparr>" 0 k server_host]
    by (auto simp: config_init_def ex_world_def)
qed

end
