(* ===== verification/Session_Path.thy ===== *)
theory Session_Path
  imports Tunnel_Example
begin

text \<open>
  The states of a session, as the diagram of \<^verbatim>\<open>docs/design.md\<close> has them, and that the code follows it: every callback of the table of
  states, the engine, \<^verbatim>\<open>socksv5_pump\<close> and the three handlers.
\<close>

section \<open>The diagram\<close>

text \<open>The arrows of section 2.2, with those into \<open>DONE\<close> and \<open>ERROR\<close> that it leaves out: a refusal is sent before the
  session ends, and a failure is reported by \<open>REQUEST_WRITE\<close>, or ends the session at once.\<close>

inductive leads_to :: "nat \<Rightarrow> nat \<Rightarrow> bool" where
  greeted: "leads_to HELLO_READ HELLO_WRITE"
| login: "leads_to HELLO_WRITE AUTH_READ"
| no_login: "leads_to HELLO_WRITE REQUEST_READ"
| no_method: "leads_to HELLO_WRITE DONE"
| checked: "leads_to AUTH_READ AUTH_WRITE"
| granted: "leads_to AUTH_WRITE REQUEST_READ"
| refused: "leads_to AUTH_WRITE DONE"
| name_given: "leads_to REQUEST_READ REQUEST_RESOLV"
| address_given: "leads_to REQUEST_READ CONNECTING"
| rejected: "leads_to REQUEST_READ REQUEST_WRITE"
| resolved: "leads_to REQUEST_RESOLV CONNECTING"
| unresolved: "leads_to REQUEST_RESOLV REQUEST_WRITE"
| tried: "leads_to CONNECTING REQUEST_WRITE"
| tunnel_open: "leads_to REQUEST_WRITE COPY"
| reported: "leads_to REQUEST_WRITE DONE"
| tunnel_over: "leads_to COPY DONE"
| failed: "st \<le> COPY \<Longrightarrow> leads_to st ERROR"

inductive_simps leads_to_iff: "leads_to st st'"

code_pred leads_to .

abbreviation path :: "nat \<Rightarrow> nat \<Rightarrow> bool" where "path \<equiv> leads_to\<^sup>*\<^sup>*"

text \<open>Every arrow goes up, so a session makes ten moves at most, and \<open>DONE\<close> and \<open>ERROR\<close> are the ends.\<close>

lemma leads_up: "leads_to st st' \<Longrightarrow> st < st' \<and> st' \<le> ERROR"
  by (induction rule: leads_to.induct) simp_all

lemma path_up: "path st st' \<Longrightarrow> st \<le> st'"
  by (induction rule: rtranclp_induct) (auto dest: leads_up)

section \<open>What code ensures when it returns\<close>

definition ensures :: "'a option \<Rightarrow> ('a \<Rightarrow> bool) \<Rightarrow> bool" where
  "ensures m Q \<longleftrightarrow> (\<forall>x. m = Some x \<longrightarrow> Q x)"

named_theorems ens \<open>rules for \<open>ensures\<close>\<close>

lemma ensuresD: "ensures m Q \<Longrightarrow> m = Some x \<Longrightarrow> Q x"
  by (simp add: ensures_def)

lemma ensures_Some [ens]: "Q x \<Longrightarrow> ensures (Some x) Q"
  by (simp add: ensures_def)

lemma ensures_None [ens]: "ensures None Q"
  by (simp add: ensures_def)

lemma ensures_bind [ens]: "(\<And>x. m = Some x \<Longrightarrow> ensures (f x) Q) \<Longrightarrow> ensures (m \<bind> f) Q"
  by (cases m) (simp_all add: ensures_def)

lemma ensures_if [ens]: "(b \<Longrightarrow> ensures m Q) \<Longrightarrow> (\<not> b \<Longrightarrow> ensures n Q) \<Longrightarrow> ensures (if b then m else n) Q"
  by simp

lemma ensures_prod [ens]: "(\<And>a b. x = (a, b) \<Longrightarrow> ensures (f a b) Q) \<Longrightarrow> ensures (case x of (a, b) \<Rightarrow> f a b) Q"
  by (cases x) simp

lemma ensures_option [ens]: "(x = None \<Longrightarrow> ensures m Q) \<Longrightarrow> (\<And>a. x = Some a \<Longrightarrow> ensures (f a) Q) \<Longrightarrow> ensures (case x of None \<Rightarrow> m | Some a \<Rightarrow> f a) Q"
  by (cases x) simp_all

lemma ensures_sum [ens]: "(\<And>a. x = Inl a \<Longrightarrow> ensures (f a) Q) \<Longrightarrow> (\<And>b. x = Inr b \<Longrightarrow> ensures (g b) Q) \<Longrightarrow> ensures (case x of Inl a \<Rightarrow> f a | Inr b \<Rightarrow> g b) Q"
  by (cases x) simp_all

lemma ensures_bool [ens]: "(b \<Longrightarrow> ensures m Q) \<Longrightarrow> (\<not> b \<Longrightarrow> ensures n Q) \<Longrightarrow> ensures (case b of True \<Rightarrow> m | False \<Rightarrow> n) Q"
  by (cases b) simp_all

lemma ensures_let [ens]: "(\<And>y. y = x \<Longrightarrow> ensures (f y) Q) \<Longrightarrow> ensures (Let x f) Q"
  by simp

section \<open>The callbacks\<close>

text \<open>A callback of the state \<open>st\<close> returns \<open>st\<close> or a state that an arrow leads to.\<close>

definition follows :: "nat \<Rightarrow> nat \<times> proxy \<Rightarrow> bool" where
  "follows st x \<longleftrightarrow> fst x = st \<or> leads_to st (fst x)"

lemma followsI [simp]: "follows st (st', w) \<longleftrightarrow> st' = st \<or> leads_to st st'"
  by (simp add: follows_def)

lemma receive_more_early: "ensures (receive_more st key w) (\<lambda>(e, w'). e \<in> {None, Some st, Some ERROR})"
  unfolding receive_more_def by (intro ens) auto

lemma send_pending_early: "ensures (send_pending st key w) (\<lambda>(e, w'). e \<in> {None, Some st, Some ERROR})"
  unfolding send_pending_def by (intro ens) auto

lemmas early_states = receive_more_early [THEN ensuresD] send_pending_early [THEN ensuresD]

lemma hello_read_follows: "ensures (hello_read key w) (follows HELLO_READ)"
  unfolding hello_read_def hello_process_def by (intro ens) (auto simp: leads_to_iff dest: early_states)

lemma hello_write_follows: "ensures (hello_write key w) (follows HELLO_WRITE)"
  unfolding hello_write_def by (intro ens) (auto simp: leads_to_iff dest: early_states)

lemma auth_read_follows: "ensures (auth_read key w) (follows AUTH_READ)"
  unfolding auth_read_def auth_process_def by (intro ens) (auto simp: leads_to_iff dest: early_states)

lemma auth_write_follows: "ensures (auth_write key w) (follows AUTH_WRITE)"
  unfolding auth_write_def by (intro ens) (auto simp: leads_to_iff dest: early_states)

lemma reply_and_write_follows:
  assumes "leads_to st REQUEST_WRITE"
  shows "ensures (reply_and_write p key reply w) (follows st)"
  using assms unfolding reply_and_write_def by (intro ens) (auto simp: leads_to_iff)

lemma request_process_follows: "ensures (request_process key w) (follows REQUEST_READ)"
  unfolding request_process_def by (intro ens reply_and_write_follows) (auto simp: leads_to_iff)

lemma request_read_follows: "ensures (request_read key w) (follows REQUEST_READ)"
  unfolding request_read_def by (intro ens request_process_follows) (auto simp: leads_to_iff dest: early_states)

lemma request_resolv_done_follows: "ensures (request_resolv_done key w) (follows REQUEST_RESOLV)"
  unfolding request_resolv_done_def by (intro ens reply_and_write_follows) (auto simp: leads_to_iff)

lemma connecting_write_follows: "ensures (connecting_write H key w) (follows CONNECTING)"
  unfolding connecting_write_def by (intro ens) (auto simp: leads_to_iff)

lemma request_write_follows: "ensures (request_write key w) (follows REQUEST_WRITE)"
  unfolding request_write_def by (intro ens) (auto simp: leads_to_iff dest: early_states)

lemma copy_go_on_follows: "ensures (copy_go_on p w) (follows COPY)"
  unfolding copy_go_on_def by (intro ens) (auto simp: leads_to_iff)

lemma copy_step_end_follows: "ensures (copy_step_end side p w) (follows COPY)"
  unfolding copy_step_end_def by (intro ens copy_go_on_follows) (auto simp: leads_to_iff)

lemma copy_read_follows: "ensures (copy_read key w) (follows COPY)"
  unfolding copy_read_def by (intro ens copy_go_on_follows copy_step_end_follows) (auto simp: leads_to_iff)

lemma copy_write_follows: "ensures (copy_write key w) (follows COPY)"
  unfolding copy_write_def by (intro ens copy_go_on_follows copy_step_end_follows) (auto simp: leads_to_iff)

lemmas callbacks_follow = hello_read_follows hello_write_follows auth_read_follows auth_write_follows request_read_follows
  request_resolv_done_follows connecting_write_follows request_write_follows copy_read_follows copy_write_follows

section \<open>The callbacks on arrival\<close>

text \<open>They leave the current states of the sessions alone.\<close>

definition current_of :: "proxy \<Rightarrow> nat \<Rightarrow> nat option option" where
  "current_of w p = map_option so_current (socks_heap w p)"

lemma current_put [simp]: "current_of (put_socks p s w) = (current_of w)(p \<mapsto> so_current s)"
  by (simp add: current_of_def put_socks_def fun_eq_iff)

lemma current_same: "socks_heap w' = socks_heap w \<Longrightarrow> current_of w' = current_of w"
  by (simp add: current_of_def fun_eq_iff)

lemma current_fields [simp]: "current_of (w\<lparr>kern := k\<rparr>) = current_of w" "current_of (w\<lparr>sel := sl\<rparr>) = current_of w"
  "current_of (count f w) = current_of w" "current_of (w\<lparr>g_access_log := l\<rparr>) = current_of w"
  by (simp_all add: current_of_def count_def fun_eq_iff)

lemma current_keep: "socks_heap w p = Some s \<Longrightarrow> so_current s' = so_current s \<Longrightarrow> (current_of w)(p \<mapsto> so_current s') = current_of w"
  by (simp add: current_of_def fun_eq_iff)

lemma attachmentD: "ATTACHMENT key w = Some (p, s) \<Longrightarrow> socks_heap w p = Some s"
  by (auto simp: ATTACHMENT_def bind_eq_Some_conv)

lemma current_upd: "(\<And>s. so_current (f s) = so_current s) \<Longrightarrow> ensures (upd_socks p f w) (\<lambda>w'. current_of w' = current_of w)"
  unfolding upd_socks_def by (intro ens) (simp add: current_keep)

lemma current_interest: "ensures (socks_interest fd i w) (\<lambda>(b, w'). current_of w' = current_of w)"
  unfolding socks_interest_def by (intro ens) simp

lemma current_failure [simp]: "so_current (socks5_set_failure r s) = so_current s"
  by (simp add: socks5_set_failure_def)

lemma current_conn_reply: "ensures (put_conn_reply p r w) (\<lambda>w'. current_of w' = current_of w)"
  unfolding put_conn_reply_def set_conn_reply_def by (intro ens) (auto simp: current_keep bind_eq_Some_conv)

lemma current_try_one: "ensures (connecting_try_one p a w) (\<lambda>(e, w'). current_of w' = current_of w)"
  unfolding connecting_try_one_def upd_socks_def by (intro ens) (auto simp: current_keep bind_eq_Some_conv)

lemma current_register: "ensures (connecting_register_origin p w) (\<lambda>(b, w'). current_of w' = current_of w)"
  unfolding connecting_register_origin_def by (intro ens) (auto simp: current_keep bind_eq_Some_conv)

text \<open>The same facts, for a call that has returned.\<close>

lemma current_calls:
  "upd_socks p f w = Some w' \<Longrightarrow> (\<And>s. so_current (f s) = so_current s) \<Longrightarrow> current_of w' = current_of w"
  "socks_interest fd i w = Some (b, w') \<Longrightarrow> current_of w' = current_of w"
  "put_conn_reply p r w = Some w' \<Longrightarrow> current_of w' = current_of w"
  "connecting_try_one p a w = Some (e, w') \<Longrightarrow> current_of w' = current_of w"
  "connecting_register_origin p w = Some (b, w') \<Longrightarrow> current_of w' = current_of w"
  using ensuresD [OF current_upd] ensuresD [OF current_interest] ensuresD [OF current_conn_reply] ensuresD [OF current_try_one]
    ensuresD [OF current_register] by fastforce+

lemma current_connecting_failed: "connecting_failed p w = Some w' \<Longrightarrow> current_of w' = current_of w"
  by (auto simp: connecting_failed_def bind_eq_Some_conv dest!: current_calls(1,2))

lemma current_attempt:
  assumes "(do { w \<leftarrow> upd_socks p (\<lambda>s. s\<lparr>so_references := so_references s + 1\<rparr>) w;
         (ok, w) \<leftarrow> connecting_register_origin p w;
         if ok then Some w
         else do { w \<leftarrow> put_conn_reply p SOCKS_REPLY_GENERAL_FAILURE w; connecting_failed p w } }) = Some w'"
  shows "current_of w' = current_of w"
proof -
  obtain w1 ok w2 where w1: "upd_socks p (\<lambda>s. s\<lparr>so_references := so_references s + 1\<rparr>) w = Some w1"
    and w2: "connecting_register_origin p w1 = Some (ok, w2)" and r: "(if ok then Some w2
      else do { w \<leftarrow> put_conn_reply p SOCKS_REPLY_GENERAL_FAILURE w2; connecting_failed p w }) = Some w'"
    using assms by (auto simp: bind_eq_Some_conv)
  have e: "current_of w2 = current_of w" using current_calls(1) [OF w1] current_calls(5) [OF w2] by simp
  show ?thesis
  proof (cases ok)
    case False
    then obtain w3 where "put_conn_reply p SOCKS_REPLY_GENERAL_FAILURE w2 = Some w3" "connecting_failed p w3 = Some w'"
      using r by (auto simp: bind_eq_Some_conv)
    then show ?thesis using current_calls(3) current_connecting_failed e by metis
  qed (use r e in simp)
qed

lemma current_try_list: "connecting_try_list p as w = Some w' \<Longrightarrow> current_of w' = current_of w"
proof (induction p as w arbitrary: w' rule: connecting_try_list.induct)
  case (1 p w)
  then show ?case by (simp add: current_connecting_failed)
next
  case (2 p ai ais w)
  then obtain s conn e w1 where s: "socks_heap w p = Some s" "orig_conn s = Some conn"
    "connecting_try_one p ai (put_socks p (s\<lparr>so_orig := O_conn (conn\<lparr>cn_current := ais\<rparr>)\<rparr>) w) = Some (e, w1)"
    by (auto simp: bind_eq_Some_conv)
  then have w1: "current_of w1 = current_of w" using current_calls(4) [OF s(3)] by (simp add: current_keep)
  show ?case
  proof (cases e)
    case None
    then show ?thesis using 2(2) s w1 current_attempt [of p w1 w'] by simp
  next
    case (Some err)
    then obtain w2 where w2: "put_conn_reply p (errno_to_socks_reply err) w1 = Some w2" "connecting_try_list p ais w2 = Some w'"
      using 2(2) s by (auto simp: bind_eq_Some_conv)
    then show ?thesis using 2(1) [OF s refl Some w2] current_calls(3) [OF w2(1)] w1 by simp
  qed
qed

lemma arrival_current:
  assumes "f \<in> {hello_read_init, auth_read_init, request_read_init, connecting_init, copy_init}" and "f st key w = Some w'"
  shows "current_of w' = current_of w"
proof -
  consider "f = hello_read_init" | "f = auth_read_init" | "f = request_read_init" | "f = connecting_init" | "f = copy_init" using assms(1) by blast
  then show ?thesis
  proof cases
    case 1
    then show ?thesis using assms(2) by (auto simp: hello_read_init_def Let_def bind_eq_Some_conv current_keep dest!: attachmentD)
  next
    case 2
    then show ?thesis using assms(2) by (auto simp: auth_read_init_def Let_def bind_eq_Some_conv current_keep dest!: attachmentD)
  next
    case 3
    then show ?thesis using assms(2) by (auto simp: request_read_init_def Let_def bind_eq_Some_conv current_keep dest!: attachmentD)
  next
    case 4
    then obtain p s s1 where a: "ATTACHMENT key w = Some (p, s)" "set_conn_reply SOCKS_REPLY_GENERAL_FAILURE s = Some s1"
      using assms(2) by (auto simp: connecting_init_def bind_eq_Some_conv)
    define s2 where "s2 = s1\<lparr>so_connect_deadline := (case g_config w of
           Some c \<Rightarrow> if connect_timeout c > 0 then clock w + connect_timeout c else 0 | None \<Rightarrow> 0)\<rparr>"
    define w1 where "w1 = put_socks p s2 w"
    have "so_current s2 = so_current s" using a(2) by (auto simp: s2_def set_conn_reply_def bind_eq_Some_conv)
    then have w1: "current_of w1 = current_of w" using attachmentD [OF a(1)] by (simp add: w1_def current_keep)
    have run0: "(do { conn \<leftarrow> orig_conn s2; (if cn_current conn \<noteq> [] then connecting_try_addrinfo key w1
       else do {
         req \<leftarrow> client_request s2;
         (err, w) \<leftarrow> connecting_try_one p (request_sockaddr (rp_request (rt_parser req))) w1;
         case err of
           None \<Rightarrow> do {
             w \<leftarrow> upd_socks p (\<lambda>s. s\<lparr>so_references := so_references s + 1\<rparr>) w;
             (ok, w) \<leftarrow> connecting_register_origin p w;
             if ok then Some w
             else do { w \<leftarrow> put_conn_reply p SOCKS_REPLY_GENERAL_FAILURE w; connecting_failed p w }
           }
         | Some e \<Rightarrow> do { w \<leftarrow> put_conn_reply p (errno_to_socks_reply e) w; connecting_failed p w }
       }) }) = Some w'"
      using assms(2) unfolding 4 connecting_init_def a Option.bind_lunit prod.case Let_def by (simp only: s2_def w1_def)
    then obtain conn where conn: "orig_conn s2 = Some conn" by (cases "orig_conn s2") simp_all
    note run = run0 [unfolded conn Option.bind_lunit]
    show ?thesis
    proof (cases "cn_current conn \<noteq> []")
      case True
      then obtain q t l where "connecting_try_list q l w1 = Some w'" using run by (auto simp: connecting_try_addrinfo_def bind_eq_Some_conv)
      then show ?thesis using current_try_list w1 by metis
    next
      case False
      then obtain addr err w2 where w2: "connecting_try_one p addr w1 = Some (err, w2)" and r: "(case err of
           None \<Rightarrow> do {
             w \<leftarrow> upd_socks p (\<lambda>s. s\<lparr>so_references := so_references s + 1\<rparr>) w2;
             (ok, w) \<leftarrow> connecting_register_origin p w;
             if ok then Some w
             else do { w \<leftarrow> put_conn_reply p SOCKS_REPLY_GENERAL_FAILURE w; connecting_failed p w }
           }
         | Some e \<Rightarrow> do { w \<leftarrow> put_conn_reply p (errno_to_socks_reply e) w2; connecting_failed p w }) = Some w'"
        using run by (auto simp: bind_eq_Some_conv)
      show ?thesis
      proof (cases err)
        case None
        then show ?thesis using current_attempt [of p w2 w'] r current_calls(4) [OF w2] w1 by simp
      next
        case (Some e)
        then obtain w3 where "put_conn_reply p (errno_to_socks_reply e) w2 = Some w3" "connecting_failed p w3 = Some w'"
          using r by (auto simp: bind_eq_Some_conv)
        then show ?thesis using current_calls(3) current_connecting_failed current_calls(4) [OF w2] w1 by metis
      qed
    qed
  next
    case 5
    then show ?thesis using assms(2)
      by (auto simp: copy_init_def copy_update_interests_def socks5_log_open_def Let_def bind_eq_Some_conv current_keep split: if_splits option.splits
        dest!: attachmentD current_calls)
  qed
qed

section \<open>An event\<close>

lemma table_states:
  assumes "arr_get (sm_states (client_stm H p)) (int c) = Some d"
  shows "c \<le> ERROR" "d = client_statbl H ! c"
  using assms by (auto simp: client_stm_def client_statbl_def arr_get_def split: if_splits)

lemma table_callbacks:
  assumes "c \<le> ERROR"
  shows "on_read_ready (client_statbl H ! c) = (if c = HELLO_READ then Some hello_read else if c = AUTH_READ then Some auth_read
       else if c = REQUEST_READ then Some request_read else if c = COPY then Some copy_read else None)"
    "on_write_ready (client_statbl H ! c) = (if c = HELLO_WRITE then Some hello_write else if c = AUTH_WRITE then Some auth_write
       else if c = CONNECTING then Some (connecting_write H) else if c = REQUEST_WRITE then Some request_write else if c = COPY then Some copy_write else None)"
    "on_block_ready (client_statbl H ! c) = (if c = REQUEST_RESOLV then Some request_resolv_done else None)"
  using states_split [OF assms] by (auto simp: client_statbl_def bare_state_def)

lemma table_follows:
  assumes "c \<le> ERROR" and "pick \<in> {on_read_ready, on_write_ready, on_block_ready}" and "pick (client_statbl H ! c) = Some f"
  shows "ensures (f key w) (follows c)"
proof -
  consider "pick = on_read_ready" | "pick = on_write_ready" | "pick = on_block_ready" using assms(2) by blast
  then show ?thesis using assms(3) by cases (auto simp: table_callbacks [OF assms(1)] simp del: One_nat_def intro: callbacks_follow split: if_splits)
qed

lemma jump_current:
  assumes "jump (client_stm H p) st' key w = Some w'"
  shows "current_of w' p = Some (Some st')"
proof -
  have le: "st' \<le> ERROR" using assms by (simp add: jump_def client_stm_def split: if_splits)
  have set: "sm_set (client_stm H p) v w1 = Some w2 \<Longrightarrow> current_of w2 p = Some v" for v w1 w2
    by (auto simp: client_stm_def upd_socks_def bind_eq_Some_conv)
  obtain cur where cur: "sm_get (client_stm H p) w = Some cur" using assms le by (auto simp: jump_def bind_eq_Some_conv client_stm_def)
  show ?thesis
  proof (cases "cur = Some st'")
    case True
    then show ?thesis using assms cur by (simp add: jump_def current_of_def client_stm_def split: if_splits)
  next
    case False
    then obtain w1 w2 where w2: "sm_set (client_stm H p) (Some st') w1 = Some w2" "run_hook (on_arrival (client_statbl H ! st')) st' key w2 = Some w'"
      using assms cur client_table(1) [OF le, of H p] client_table(2) [OF le, of H] by (auto simp: jump_def bind_eq_Some_conv split: if_splits)
    have "current_of w' = current_of w2"
    proof (cases "on_arrival (client_statbl H ! st')")
      case None
      then show ?thesis using w2(2) by (simp add: run_hook_def)
    next
      case (Some f)
      then show ?thesis using w2(2) arrival_current [of f st' key w2 w'] client_table(4) [OF le, of H] by (auto simp: run_hook_def split: if_splits)
    qed
    then show ?thesis using set [OF w2(1)] by simp
  qed
qed

text \<open>An event of the engine moves along one arrow at most, and the session is in the state that the engine returns.\<close>

lemma event_follows:
  assumes pick: "pick \<in> {on_read_ready, on_write_ready, on_block_ready}" and s: "socks_heap w p = Some s"
    and run: "stm_handle pick (client_stm H p) key w = Some (st', w')"
  shows "current_of w' p = Some (Some st')" "st' = state_of s \<or> leads_to (state_of s) st'"
proof -
  obtain w1 c d f w2 where w1: "handle_first (client_stm H p) key w = Some w1" "sm_get (client_stm H p) w1 = Some (Some c)"
    and d: "arr_get (sm_states (client_stm H p)) (int c) = Some d" "pick d = Some f"
    and f: "f key w1 = Some (st', w2)" and j: "jump (client_stm H p) st' key w2 = Some w'"
    using run by (auto simp: stm_handle_def bind_eq_Some_conv)
  show "current_of w' p = Some (Some st')" by (rule jump_current [OF j])
  have "c = state_of s"
  proof (cases "so_current s")
    case (Some c')
    then show ?thesis using w1 s by (simp add: handle_first_def client_stm_def state_of_def)
  next
    case None
    have le: "HELLO_READ \<le> ERROR" by simp
    have "run_hook (on_arrival (client_statbl H ! 0)) 0 key (put_socks p (s\<lparr>so_current := Some 0\<rparr>) w) = Some w1"
      using None w1(1) s client_table(1) [OF le, of H p] client_table(2) [OF le, of H] by (simp add: handle_first_def client_stm_def upd_socks_def)
    then have "hello_read_init 0 key (put_socks p (s\<lparr>so_current := Some 0\<rparr>) w) = Some w1" using client_table(4) [OF le, of H] by (simp add: run_hook_def)
    from arrival_current [where f = hello_read_init, OF _ this] have "current_of w1 p = Some (Some 0)" by simp
    then show ?thesis using w1(2) None by (auto simp: current_of_def client_stm_def state_of_def)
  qed
  then show "st' = state_of s \<or> leads_to (state_of s) st'"
    using ensuresD [OF table_follows [OF table_states(1) [OF d(1)] pick d(2) [unfolded table_states(2) [OF d(1)]]] f] by simp
qed

section \<open>The handlers\<close>

lemma pump_follows:
  assumes "pump H n p key st w = Some (st', w')" and "current_of w p = Some (Some st)"
  shows "current_of w' p = Some (Some st') \<and> path st st'"
  using assms
proof (induction n arbitrary: st w)
  case (Suc n)
  then obtain s where s: "socks_heap w p = Some s" "state_of s = st" by (auto simp: current_of_def state_of_def)
  note run = Suc.prems(1) [unfolded pump.simps s Option.bind_lunit]
  have go: ?case if e: "stm_handle pick (client_stm H p) k w = Some (st1, w1)" "pick \<in> {on_read_ready, on_write_ready, on_block_ready}"
      and r: "pump H n p key st1 w1 = Some (st', w')" for pick k st1 w1
  proof -
    have "current_of w1 p = Some (Some st1)" "st1 = st \<or> leads_to st st1" using event_follows [OF e(2) s(1) e(1)] s(2) by auto
    with Suc.IH [OF r this(1)] show ?thesis by (auto intro: converse_rtranclp_into_rtranclp)
  qed
  consider (r) "(st = HELLO_READ \<or> st = AUTH_READ \<or> st = REQUEST_READ) \<and> buffer_can_read (so_read_buffer s)"
    | (w) "\<not> ((st = HELLO_READ \<or> st = AUTH_READ \<or> st = REQUEST_READ) \<and> buffer_can_read (so_read_buffer s))" "st = HELLO_WRITE \<or> st = AUTH_WRITE \<or> st = REQUEST_WRITE"
    | (n) "\<not> ((st = HELLO_READ \<or> st = AUTH_READ \<or> st = REQUEST_READ) \<and> buffer_can_read (so_read_buffer s))" "\<not> (st = HELLO_WRITE \<or> st = AUTH_WRITE \<or> st = REQUEST_WRITE)"
    by blast
  then show ?case
  proof cases
    case r
    from run [unfolded if_P [OF r]] obtain st1 w1 where e: "stm_handle on_read_ready (client_stm H p) key w = Some (st1, w1)"
      and r': "pump H n p key st1 w1 = Some (st', w')" by (auto simp: bind_eq_Some_conv stm_handler_read_def)
    show ?thesis by (rule go [OF e _ r']) simp
  next
    case w
    from run [unfolded if_not_P [OF w(1)] if_P [OF w(2)]] obtain st1 w1 where
      e: "stm_handle on_write_ready (client_stm H p) \<lparr>k_fd = so_client_fd s, k_data = Some (Socks_Ptr p)\<rparr> w = Some (st1, w1)"
      and r: "(if st1 = st then Some (st, w1) else pump H n p key st1 w1) = Some (st', w')" by (auto simp: bind_eq_Some_conv stm_handler_write_def)
    show ?thesis
    proof (cases "st1 = st")
      case True
      then show ?thesis using r event_follows(1) [OF _ s(1) e] by simp
    next
      case False
      then show ?thesis using r by (intro go [OF e]) simp_all
    qed
  next
    case n
    from run [unfolded if_not_P [OF n(1)] if_not_P [OF n(2)]] show ?thesis using Suc.prems(2) by simp
  qed
qed simp

text \<open>The end of a handler: a session that is at an end is served no longer, any other goes on in its state.\<close>

definition ended_or_at :: "nat \<Rightarrow> nat \<Rightarrow> proxy \<Rightarrow> bool" where
  "ended_or_at p st w \<longleftrightarrow> (if st = DONE \<or> st = ERROR then \<nexists>s. serves w p s else \<exists>s. serves w p s \<and> so_current s = Some st)"

lemma finish_path:
  assumes H: "socks_host_ok H" and q: "quiet js fs p c (st, w)"
  shows "returns (socksv5_finish H reason p st w) (ended_or_at p st)"
proof -
  from q have "st \<le> ERROR" and "session js fs p c (st = REQUEST_RESOLV) (\<lambda>s ci oi T. so_current s = Some st \<and> at (Some st) s ci oi T \<and> (reading st \<longrightarrow> rb s = [])) w"
    by (auto simp: quiet_def)
  then obtain g s ci oi where o: "own g p s ci oi (st = REQUEST_RESOLV) w"
    and a: "so_current s = Some st" "at (Some st) s ci oi (talk_of s (kern w))" "reading st \<longrightarrow> rb s = []" by (elim sessionE) blast
  show ?thesis
  proof (cases "st = ERROR \<or> st = DONE")
    case False
    have "sound g w" by (rule own_sound [of g p s ci oi]) (use o a False in \<open>simp_all add: reading_def del: at.simps\<close>)
    then have "serves w p s" using active_served ownD(2,3) [OF o] by blast
    then show ?thesis using False a(1) by (auto simp: socksv5_finish_def ended_or_at_def)
  next
    case True
    then have o': "own g p s ci oi False w" using o by auto
    obtain f where f: "upd_socks p (socks5_set_failure reason) w = Some (put_socks p (s\<lparr>so_failure := f\<rparr>) w)"
      "own g p (s\<lparr>so_failure := f\<rparr>) ci oi False (put_socks p (s\<lparr>so_failure := f\<rparr>) w)" by (rule own_failure [OF o'])
    obtain s1 w1 where w1: "(if st = ERROR then upd_socks p (socks5_set_failure reason) w else Some w) = Some w1" "own g p s1 ci oi False w1"
      using f o' by (cases "st = ERROR") auto
    from socksv5_done_ok [OF H w1(2)] obtain w' where w': "socksv5_done H p w1 = Some w'" "dropped g p s1 w1 w'" by (auto simp: returns_iff)
    then obtain pre post ps where d: "active g = pre @ p # post" "sound (g\<lparr>active := pre @ post, pooled := ps\<rparr>) w'" by (auto simp: dropped_def)
    have "distinct (active g)" using ownD(1) [OF o] by (simp add: world_def)
    then have "\<nexists>t. serves w' p t" unfolding active_served [OF d(2)] using d(1) by simp
    then show ?thesis using True w1(1) w'(1) by (auto simp: socksv5_finish_def ended_or_at_def)
  qed
qed

text \<open>What the loop may call for a descriptor of a session.\<close>

definition due :: "proxy \<Rightarrow> int \<Rightarrow> u32 \<Rightarrow> (socks_key \<Rightarrow> proxy \<Rightarrow> proxy option) \<Rightarrow> bool" where
  "due w fd i h \<longleftrightarrow> OP_READ AND i \<noteq> 0 \<and> h = socksv5_read close_host \<or> OP_WRITE AND i \<noteq> 0 \<and> h = socksv5_write close_host
     \<or> (\<exists>js. resolution_jobs (sel w) = fd # js) \<and> h = socksv5_block close_host"

lemma handler_follows:
  assumes w: "server_inv w" and s: "serves w p s" and r: "regs (sel w) fd = Some (socks5_handler, i, Some (Socks_Ptr p))" and h: "due w fd i h"
  shows "returns (h \<lparr>k_fd = fd, k_data = Some (Socks_Ptr p)\<rparr> w) (\<lambda>w'. \<exists>st. path (state_of s) st \<and> ended_or_at p st w')"
proof -
  let ?key = "\<lparr>k_fd = fd, k_data = Some (Socks_Ptr p)\<rparr>"
  have hp: "socks_heap w p = Some s" using s by (simp add: serves_def)
  obtain g where g: "sound g w" "pending g = resolution_jobs (sel w)" by (rule server_invD [OF w])
  have H: "socks_host_ok close_host" by (rule close_host_ok)
  have fin: ?thesis if "h ?key w = socksv5_finish close_host reason q st2 w2" "quiet js fs q c (st2, w2)" "q = p" "path (state_of s) st2" for reason st2 w2 js fs c q
    unfolding that(1) by (rule returns_mono [OF finish_path [OF H that(2)]]) (use that(3,4) in auto)
  have two: "path (state_of s) st2" if e: "stm_handle pick (client_stm close_host p) ?key w = Some (st1, w1)" "pick \<in> {on_read_ready, on_write_ready, on_block_ready}"
      and u: "socksv5_pump close_host p ?key st1 w1 = Some (st2, w2)" for pick st1 w1 st2 w2
  proof -
    note ev = event_follows [OF e(2) hp e(1)]
    have "path st1 st2" using pump_follows [OF u [unfolded socksv5_pump_def] ev(1)] by simp
    then show ?thesis using ev(2) by (auto intro: converse_rtranclp_into_rtranclp)
  qed
  from h consider "OP_READ AND i \<noteq> 0" "h = socksv5_read close_host" | "OP_WRITE AND i \<noteq> 0" "h = socksv5_write close_host"
    | js where "resolution_jobs (sel w) = fd # js" "h = socksv5_block close_host" by (auto simp: due_def)
  then show ?thesis
  proof cases
    case 1
    obtain q t ci oi st1 w1 st2 w2 where q: "Some (Socks_Ptr p) = Some (Socks_Ptr q)" and "own g q t ci oi (so_current t = Some REQUEST_RESOLV) w"
      "settled g q t ci oi w" "ready t ci oi fd OP_READ"
      and e1: "stm_handler_read (client_stm close_host q) ?key w = Some (st1, w1)" and "socks_heap w1 q \<noteq> None"
      and e2: "socksv5_pump close_host q ?key st1 w1 = Some (st2, w2)" and qu: "quiet (pending g) (finished g) q (so_client_fd t) (st2, w2)"
      and run: "socksv5_read close_host ?key w = socksv5_finish close_host ''read error'' q st2 w2" by (rule read_runs [OF g(1) r 1(1), of close_host])
    note e = e1 e2
    have "q = p" using q by simp
    with two [OF e(1) [unfolded \<open>q = p\<close> stm_handler_read_def] _ e(2) [unfolded \<open>q = p\<close>]] show ?thesis using fin [OF run [folded 1(2)] qu] by simp
  next
    case 2
    obtain q t ci oi st1 w1 st2 w2 where q: "Some (Socks_Ptr p) = Some (Socks_Ptr q)" and "own g q t ci oi (so_current t = Some REQUEST_RESOLV) w"
      and e1: "stm_handler_write (client_stm close_host q) ?key w = Some (st1, w1)"
      and e2: "socksv5_pump close_host q ?key st1 w1 = Some (st2, w2)" and qu: "quiet (pending g) (finished g) q (so_client_fd t) (st2, w2)"
      and run: "socksv5_write close_host ?key w = socksv5_finish close_host ''write error'' q st2 w2" by (rule write_runs [OF H g(1) r 2(1)])
    note e = e1 e2
    have "q = p" using q by simp
    with two [OF e(1) [unfolded \<open>q = p\<close> stm_handler_write_def] _ e(2) [unfolded \<open>q = p\<close>]] show ?thesis using fin [OF run [folded 2(2)] qu] by simp
  next
    case 3
    obtain q t ci oi st1 w1 where "socks5_handler = socks5_handler" and q: "Some (Socks_Ptr p) = Some (Socks_Ptr q)" and "own g q t ci oi True w"
      and e: "stm_handler_block (client_stm close_host q) ?key w = Some (st1, w1)" and qu: "quiet js (finished g) q fd (st1, w1)"
      and run: "socksv5_block close_host ?key w = socksv5_finish close_host ''block error'' q st1 w1"
      by (rule block_runs [OF g(1) g(2) [unfolded 3(1)] r, of close_host])
    have "q = p" using q by simp
    then have "path (state_of s) st1" using event_follows(2) [OF _ hp e [unfolded \<open>q = p\<close> stm_handler_block_def]] by auto
    then show ?thesis using fin [OF run [folded 3(2)] qu \<open>q = p\<close>] by simp
  qed
qed

section \<open>Properties\<close>



end
