(* ===== verification/Client.thy ===== *)
theory Client
  imports Args
begin

text \<open>
  The management client, \<^verbatim>\<open>src/client/main.c\<close>: it turns its arguments into one command line of the protocol,
  connects, authenticates when a secret is given, sends the command and reads the response. The connection blocks, so
  it is what the server still sends, and how much each \<^verbatim>\<open>send\<close> takes. What goes to \<^verbatim>\<open>stderr\<close> is left out.
\<close>

section \<open>The connection\<close>

text \<open>
  \<open>c_in\<close> is what the server sends before it closes; a \<^verbatim>\<open>recv\<close> behind it fails. \<open>c_takes\<close> is what the next calls of \<^verbatim>\<open>send\<close> take at most, 0
  for a failing call; a call behind these takes everything. \<open>c_out\<close> is what has been sent.
\<close>

record conn =
  c_in :: "char list"
  c_takes :: "nat list"
  c_out :: "char list"

definition c_send :: "char list \<Rightarrow> conn \<Rightarrow> nat \<times> conn" where
  "c_send s c = (case c_takes c of
     [] \<Rightarrow> (length s, c\<lparr>c_out := c_out c @ s\<rparr>)
   | n # ns \<Rightarrow> (min n (length s), c\<lparr>c_takes := ns, c_out := c_out c @ take n s\<rparr>))"

text \<open>The loop of \<^verbatim>\<open>send_all\<close>, on what is left to send.\<close>

function send_loop :: "char list \<Rightarrow> conn \<Rightarrow> bool \<times> conn" where
  "send_loop s c =
     (if s = [] then (True, c)
      else case c_send s c of (n, c) \<Rightarrow> if n = 0 then (False, c) else send_loop (drop n s) c)"
  by pat_completeness auto

termination
  by (relation "measure (length o fst)") auto

declare send_loop.simps [simp del]

definition send_all :: "char list \<Rightarrow> conn \<Rightarrow> bool \<times> conn" where
  "send_all s c = send_loop (cstr s) c"

text \<open>\<^verbatim>\<open>read_line\<close> with \<open>used\<close> characters in the buffer, on what the server sends: whether it succeeds, the buffer, and what is left.\<close>

fun read_loop :: "char list \<Rightarrow> nat \<Rightarrow> nat \<Rightarrow> char list \<Rightarrow> (bool \<times> char list \<times> char list) option" where
  "read_loop buf len used inp =
     (if used + 1 < len then
        (case inp of
           [] \<Rightarrow> Some (False, buf, [])
         | c # cs \<Rightarrow>
             if c = CHR 0x0D then read_loop buf len used cs
             else if c = CHR 0x0A then do { buf \<leftarrow> arr_set buf (int used) NUL; Some (True, buf, cs) }
             else do { buf \<leftarrow> arr_set buf (int used) c; read_loop buf len (used + 1) cs })
      else do { buf \<leftarrow> arr_set buf (int used) NUL; Some (True, buf, inp) })"

declare read_loop.simps [simp del]

definition read_line :: "char list \<Rightarrow> nat \<Rightarrow> conn \<Rightarrow> (bool \<times> char list \<times> conn) option" where
  "read_line buf len c = do {
     (ok, buf, rest) \<leftarrow> read_loop buf len 0 (c_in c);
     Some (ok, buf, c\<lparr>c_in := rest\<rparr>)
   }"

section \<open>The command\<close>

abbreviation (input) COMMAND_SIZE :: nat where "COMMAND_SIZE \<equiv> 1024"
abbreviation (input) RESPONSE_SIZE :: nat where "RESPONSE_SIZE \<equiv> 4096"

text \<open>The text that the branches of \<^verbatim>\<open>build_command\<close> print, or none for the last branch.\<close>

definition command_text :: "string list \<Rightarrow> string option" where
  "command_text argv =
     (case map cstr argv of
        [a] \<Rightarrow> if a = ''stats'' then Some (''STATS'' @ [LF]) else if a = ''users'' then Some (''USERS'' @ [LF]) else None
      | [a, b] \<Rightarrow> if a = ''config'' \<and> b = ''get'' then Some (''CONFIG GET'' @ [LF]) else None
      | [a, b, x] \<Rightarrow> if a = ''user'' \<and> b = ''delete'' then Some (''USER DELETE '' @ x @ [LF]) else None
      | [a, b, x, y] \<Rightarrow>
          if a = ''user'' \<and> b = ''set'' then Some (''USER SET '' @ x @ '' '' @ y @ [LF])
          else if a = ''config'' \<and> b = ''set'' then Some (''CONFIG SET '' @ x @ '' '' @ y @ [LF]) else None
      | _ \<Rightarrow> None)"

definition build_command :: "string list \<Rightarrow> char list \<Rightarrow> nat \<Rightarrow> (bool \<times> char list) option" where
  "build_command argv out out_len =
     (case command_text argv of
        None \<Rightarrow> Some (False, out)
      | Some s \<Rightarrow> do { out \<leftarrow> snprintf out out_len s; Some (0 < length s \<and> length s < out_len, out) })"

section \<open>The program\<close>

record client_args =
  ca_addr :: "char list"
  ca_port :: "char list"
  ca_secret :: "char list option"

definition client_defaults :: client_args where
  "client_defaults = \<lparr>ca_addr = ''127.0.0.1'', ca_port = ''8080'', ca_secret = None\<rparr>"

definition client_opts :: "char \<Rightarrow> bool option" where
  "client_opts c = (if c = CHR ''h'' then Some False else if c \<in> set ''LPa'' then Some True else None)"

fun client_parse :: "opt list \<Rightarrow> client_args \<Rightarrow> int + client_args" where
  "client_parse [] a = Inr a"
| "client_parse ((c, optarg) # os) a =
     (if c = CHR ''h'' then Inl 0
      else if c = CHR ''L'' then client_parse os (a\<lparr>ca_addr := optarg\<rparr>)
      else if c = CHR ''P'' then client_parse os (a\<lparr>ca_port := optarg\<rparr>)
      else if c = CHR ''a'' then client_parse os (a\<lparr>ca_secret := Some optarg\<rparr>)
      else Inl 1)"

text \<open>What the client finds: \<^verbatim>\<open>getaddrinfo\<close>, \<^verbatim>\<open>socket\<close> and \<^verbatim>\<open>connect\<close> by the address.\<close>

record client_env =
  ce_gai :: "string \<Rightarrow> string \<Rightarrow> sockaddr list option"
  ce_socket :: "sockaddr \<Rightarrow> bool"
  ce_connect :: "sockaddr \<Rightarrow> conn option"

fun connect_loop :: "client_env \<Rightarrow> sockaddr list \<Rightarrow> conn option" where
  "connect_loop env [] = None"
| "connect_loop env (a # as) =
     (if \<not> ce_socket env a then connect_loop env as
      else case ce_connect env a of Some c \<Rightarrow> Some c | None \<Rightarrow> connect_loop env as)"

definition connect_to :: "client_env \<Rightarrow> char list \<Rightarrow> char list \<Rightarrow> conn option" where
  "connect_to env addr port =
     (case ce_gai env (cstr addr) (cstr port) of None \<Rightarrow> None | Some res \<Rightarrow> connect_loop env res)"

definition accepted_response :: "char list \<Rightarrow> bool" where
  "accepted_response buf = strncmp_eq buf ''+OK'' 3"

text \<open>The exchange of one line: what was read into the buf, if it did not fail.\<close>

definition exchange :: "char list \<Rightarrow> char list \<Rightarrow> conn \<Rightarrow> (char list option \<times> conn) option" where
  "exchange line buf c =
     (case send_all line c of
        (False, c) \<Rightarrow> Some (None, c)
      | (True, c) \<Rightarrow> do {
          (ok, buf, c) \<leftarrow> read_line buf RESPONSE_SIZE c;
          Some (if ok then Some buf else None, c)
        })"

text \<open>The authentication: whether the client goes on, the response buffer, the connection.\<close>

definition authenticate :: "char list option \<Rightarrow> char list \<Rightarrow> conn \<Rightarrow> (bool \<times> char list \<times> conn) option" where
  "authenticate secret buf c =
     (case secret of
        None \<Rightarrow> Some (True, buf, c)
      | Some secret \<Rightarrow> do {
          let text = ''AUTH '' @ cstr secret @ [LF];
          auth \<leftarrow> snprintf (replicate COMMAND_SIZE NUL) COMMAND_SIZE text;
          if length text \<ge> COMMAND_SIZE then Some (False, buf, c)
          else do {
            (r, c) \<leftarrow> exchange auth buf c;
            Some (case r of None \<Rightarrow> (False, buf, c) | Some buf \<Rightarrow> (accepted_response buf, buf, c))
          }
        })"

text \<open>The exit status, what is printed, and the connection as it is closed, if there was one.\<close>

definition client_main :: "client_env \<Rightarrow> string list \<Rightarrow> (int \<times> string \<times> conn option) option" where
  "client_main env argv = (case getopt client_opts argv of (os, operands) \<Rightarrow>
     (case client_parse os client_defaults of
        Inl status \<Rightarrow> Some (status, [], None)
      | Inr args \<Rightarrow> do {
          (ok, command) \<leftarrow> build_command operands (replicate COMMAND_SIZE NUL) COMMAND_SIZE;
          if \<not> ok then Some (1, [], None)
          else case connect_to env (ca_addr args) (ca_port args) of
            None \<Rightarrow> Some (1, [], None)
          | Some c \<Rightarrow> do {
              (ok, buf, c) \<leftarrow> authenticate (ca_secret args) (replicate RESPONSE_SIZE NUL) c;
              if \<not> ok then Some (1, [], Some c)
              else do {
                (r, c) \<leftarrow> exchange command buf c;
                Some (case r of
                  None \<Rightarrow> (1, [], Some c)
                | Some buf \<Rightarrow> (if accepted_response buf then 0 else 1, cstr buf @ [LF], Some c))
              }
            }
        }))"

end
