(* ===== verification/Client_Protocol.thy ===== *)
theory Client_Protocol
  imports Client Mng_Session
begin

text \<open>
  The client against the protocol: its lines are what the server reads as the command that was asked for, and the exchange sends
  nothing but these lines and believes nothing but \<^verbatim>\<open>+OK\<close>.
\<close>

section \<open>Sending and reading\<close>

lemma c_send_outcome:
  assumes "c_send s c = (n, c1)" and "s \<noteq> []"
  shows "\<exists>ns. c1 = c\<lparr>c_takes := ns, c_out := c_out c @ take n s\<rparr> \<and> (0 \<notin> set (c_takes c) \<longrightarrow> 0 < n \<and> 0 \<notin> set ns)"
proof (cases "c_takes c")
  case Nil
  then show ?thesis using assms by (intro exI [of _ "c_takes c"]) (auto simp: c_send_def)
next
  case (Cons m ms)
  then show ?thesis using assms by (intro exI [of _ ms]) (auto simp: c_send_def min_def)
qed

lemma send_loop_outcome: "send_loop s c = (ok, c') \<Longrightarrow> \<exists>ns t. c' = c\<lparr>c_takes := ns, c_out := c_out c @ t\<rparr> \<and> (ok \<longrightarrow> t = s) \<and> (0 \<notin> set (c_takes c) \<longrightarrow> ok \<and> 0 \<notin> set ns)"
proof (induction s c arbitrary: ok c' rule: send_loop.induct)
  case (1 s c)
  show ?case
  proof (cases "s = []")
    case True
    then have "ok" "c' = c\<lparr>c_takes := c_takes c, c_out := c_out c @ []\<rparr>" using "1.prems" by (simp_all add: send_loop.simps)
    then show ?thesis using True by blast
  next
    case False
    obtain n c1 where n: "c_send s c = (n, c1)" by (cases "c_send s c")
    from c_send_outcome [OF n False] obtain ns where ns: "c1 = c\<lparr>c_takes := ns, c_out := c_out c @ take n s\<rparr>" "0 \<notin> set (c_takes c) \<longrightarrow> 0 < n \<and> 0 \<notin> set ns" by blast
    show ?thesis
    proof (cases "n = 0")
      case True
      have "c' = c1" "\<not> ok" using "1.prems" False True n by (simp_all add: send_loop.simps [of s c])
      moreover have "c1 = c\<lparr>c_takes := ns, c_out := c_out c @ []\<rparr>" unfolding ns(1) using True by simp
      ultimately show ?thesis using True ns(2) by blast
    next
      case big: False
      then have "send_loop (drop n s) c1 = (ok, c')" using "1.prems" False n by (simp add: send_loop.simps [of s c])
      from "1.IH" [OF False n [symmetric] big this] obtain ms t where "c' = c1\<lparr>c_takes := ms, c_out := c_out c1 @ t\<rparr>" "ok \<longrightarrow> t = drop n s"
        "0 \<notin> set (c_takes c1) \<longrightarrow> ok \<and> 0 \<notin> set ms" by blast
      then show ?thesis using ns by (auto intro!: exI [of _ ms] exI [of _ "take n s @ t"])
    qed
  qed
qed

lemma read_loop_returns: "length buf = len \<Longrightarrow> used < len \<Longrightarrow> returns (read_loop buf len used inp) (\<lambda>(ok, buf', rest). length buf' = len)"
proof (induction buf len used inp rule: read_loop.induct)
  case (1 buf len used inp)
  then show ?case
    by (subst read_loop.simps) (auto simp: arr_set_def split: list.split)
qed

text \<open>A line of a response, without the characters that the client treats specially.\<close>

definition reply_line :: "char list \<Rightarrow> bool" where
  "reply_line s \<longleftrightarrow> length s + 1 < RESPONSE_SIZE \<and> (\<forall>c \<in> set s. c \<noteq> CHR 0x0D \<and> c \<noteq> LF \<and> c \<noteq> NUL)"

lemma read_loop_line:
  "length buf = len \<Longrightarrow> used + length s + 1 < len \<Longrightarrow> \<forall>c \<in> set s. c \<noteq> CHR 0x0D \<and> c \<noteq> LF \<and> c \<noteq> NUL \<Longrightarrow> NUL \<notin> set (take used buf) \<Longrightarrow>
   \<exists>buf'. read_loop buf len used (s @ LF # rest) = Some (True, buf', rest) \<and> length buf' = len \<and> cstr buf' = take used buf @ s"
proof (induction s arbitrary: buf used)
  case Nil
  have "buf[used := NUL] = take used buf @ NUL # drop (Suc used) buf" using Nil by (simp add: upd_conv_take_nth_drop)
  then have "cstr (buf[used := NUL]) = take used buf" using Nil by (simp add: cstr_id)
  then show ?case using Nil by (subst read_loop.simps) (simp add: arr_set_def)
next
  case (Cons c s)
  let ?buf = "buf[used := c]"
  have t: "take (Suc used) ?buf = take used buf @ [c]" using Cons.prems by (simp add: take_Suc_conv_app_nth)
  have "\<exists>buf'. read_loop ?buf len (Suc used) (s @ LF # rest) = Some (True, buf', rest) \<and> length buf' = len \<and> cstr buf' = take (Suc used) ?buf @ s"
    by (rule Cons.IH) (use Cons.prems t in auto)
  then show ?case using Cons.prems t by (subst read_loop.simps) (auto simp: arr_set_def)
qed

lemma read_line_ok: "length buf = RESPONSE_SIZE \<Longrightarrow> returns (read_line buf RESPONSE_SIZE c) (\<lambda>(ok, buf', c'). length buf' = RESPONSE_SIZE \<and> c_out c' = c_out c)"
  using read_loop_returns [of buf RESPONSE_SIZE 0 "c_in c"] by (auto simp: read_line_def returns_prod)

lemma exchange_ok: "length buf = RESPONSE_SIZE \<Longrightarrow> returns (exchange line buf c) (\<lambda>(r, c'). case r of None \<Rightarrow> True | Some buf' \<Rightarrow> length buf' = RESPONSE_SIZE)"
proof -
  assume l: "length buf = RESPONSE_SIZE"
  obtain ok c1 where "send_all line c = (ok, c1)" by (cases "send_all line c")
  then show ?thesis using read_line_ok [OF l, of c1] by (cases ok) (auto simp: exchange_def returns_prod)
qed

text \<open>An exchange that the network does not disturb.\<close>

lemma exchange_line:
  assumes l: "length buf = RESPONSE_SIZE" and ok: "0 \<notin> set (c_takes c)" and i: "c_in c = reply @ LF # rest" and r: "reply_line reply"
  shows "\<exists>buf' ns. exchange line buf c = Some (Some buf', c\<lparr>c_takes := ns, c_out := c_out c @ cstr line, c_in := rest\<rparr>)
    \<and> length buf' = RESPONSE_SIZE \<and> cstr buf' = reply \<and> 0 \<notin> set ns"
proof -
  obtain b c1 where s: "send_all line c = (b, c1)" by (cases "send_all line c")
  from send_loop_outcome [OF s [unfolded send_all_def]] ok obtain ns where c1: "c1 = c\<lparr>c_takes := ns, c_out := c_out c @ cstr line\<rparr>" "b" "0 \<notin> set ns" by auto
  have "\<exists>buf'. read_loop buf RESPONSE_SIZE 0 (reply @ LF # rest) = Some (True, buf', rest) \<and> length buf' = RESPONSE_SIZE \<and> cstr buf' = take 0 buf @ reply"
    by (rule read_loop_line) (use l r in \<open>auto simp: reply_line_def\<close>)
  then obtain buf' where "read_loop buf RESPONSE_SIZE 0 (reply @ LF # rest) = Some (True, buf', rest)" "length buf' = RESPONSE_SIZE" "cstr buf' = reply" by auto
  then show ?thesis using s c1 i by (auto simp: exchange_def read_line_def)
qed

lemma accepted_reply: "cstr buf = reply \<Longrightarrow> accepted_response buf \<longleftrightarrow> take 3 reply = ''+OK''"
  by (simp add: accepted_response_def strncmp_eq_def)

lemma authenticate_ok: "length buf = RESPONSE_SIZE \<Longrightarrow> returns (authenticate secret buf c) (\<lambda>(ok, buf', c'). length buf' = RESPONSE_SIZE)"
proof (cases secret)
  case (Some x)
  assume l: "length buf = RESPONSE_SIZE"
  obtain auth where "snprintf (replicate COMMAND_SIZE NUL) COMMAND_SIZE (''AUTH '' @ cstr x @ [LF]) = Some auth"
    using snprintf_ok [of COMMAND_SIZE "replicate COMMAND_SIZE NUL" "''AUTH '' @ cstr x @ [LF]"] by (auto simp: returns_iff)
  then show ?thesis using exchange_ok [OF l, of auth c] l Some by (auto simp: authenticate_def Let_def returns_prod split: option.splits)
qed (simp add: authenticate_def)

lemma client_parse_status: "client_parse os a = Inl status \<Longrightarrow> status \<in> {0, 1}"
  by (induction os a rule: client_parse.induct) (auto split: if_splits)

lemma build_command_ok: "length out = COMMAND_SIZE \<Longrightarrow> \<exists>ok cmd. build_command argv out COMMAND_SIZE = Some (ok, cmd)"
  using snprintf_ok [of COMMAND_SIZE out "the (command_text argv)"] by (cases "command_text argv") (auto simp: build_command_def returns_iff)

section \<open>The commands\<close>

text \<open>The words of the protocol for the arguments of the client.\<close>

fun command_words :: "string list \<Rightarrow> string list option" where
  "command_words [a] = (if a = ''stats'' then Some [''STATS''] else if a = ''users'' then Some [''USERS''] else None)"
| "command_words [a, b] = (if a = ''config'' \<and> b = ''get'' then Some [''CONFIG'', ''GET''] else None)"
| "command_words [a, b, x] = (if a = ''user'' \<and> b = ''delete'' then Some [''USER'', ''DELETE'', x] else None)"
| "command_words [a, b, x, y] = (if a = ''user'' \<and> b = ''set'' then Some [''USER'', ''SET'', x, y]
     else if a = ''config'' \<and> b = ''set'' then Some [''CONFIG'', ''SET'', x, y] else None)"
| "command_words _ = None"

definition word_ok :: "string \<Rightarrow> bool" where
  "word_ok w \<longleftrightarrow> w \<noteq> [] \<and> list_all (\<lambda>c. \<not> isspace c \<and> c \<noteq> NUL) w"

fun spaced :: "string list \<Rightarrow> string" where
  "spaced [] = []"
| "spaced [w] = w"
| "spaced (w # ws) = w @ CHR '' '' # spaced ws"

lemma word_alone: "word_ok w \<Longrightarrow> words w = [w]"
proof -
  assume w: "word_ok w"
  then obtain c cs where c: "w = c # cs" "\<not> isspace c" by (cases w) (auto simp: word_ok_def)
  have all: "\<forall>x \<in> set w. \<not> isspace x" using w by (auto simp: word_ok_def list_all_iff)
  then have "dropWhile isspace w = c # cs" using c by simp
  moreover have "takeWhile (\<lambda>c. \<not> isspace c) w = w" "dropWhile (\<lambda>c. \<not> isspace c) w = []" using all by simp_all
  ultimately show ?thesis using words_some [of w c cs] unfolding c(1) by (simp only: words_Nil)
qed

lemma words_first:
  assumes w: "word_ok w"
  shows "words (w @ CHR '' '' # s) = w # words s"
proof -
  obtain c cs where c: "w = c # cs" "\<not> isspace c" using w by (cases w) (auto simp: word_ok_def)
  have all: "\<forall>x \<in> set w. \<not> isspace x" using w by (auto simp: word_ok_def list_all_iff)
  have sp: "isspace (CHR '' '')" by (simp add: isspace_def)
  have "dropWhile isspace (w @ CHR '' '' # s) = c # (cs @ CHR '' '' # s)" using c by simp
  moreover have "takeWhile (\<lambda>c. \<not> isspace c) (w @ CHR '' '' # s) = w" "dropWhile (\<lambda>c. \<not> isspace c) (w @ CHR '' '' # s) = CHR '' '' # s"
    using all sp by (simp_all add: takeWhile_append2 dropWhile_append2)
  ultimately show ?thesis using words_some [of "w @ CHR '' '' # s" c "cs @ CHR '' '' # s"] c sp by (simp del: takeWhile.simps dropWhile.simps)
qed

lemma words_spaced: "list_all word_ok ws \<Longrightarrow> words (spaced ws) = ws"
  by (induction ws rule: spaced.induct) (simp_all add: word_alone words_first)

lemma word_chars: "word_ok w \<Longrightarrow> c \<in> set w \<Longrightarrow> c \<noteq> LF \<and> c \<noteq> NUL"
proof -
  have "isspace LF" by (simp add: isspace_def)
  then show "word_ok w \<Longrightarrow> c \<in> set w \<Longrightarrow> c \<noteq> LF \<and> c \<noteq> NUL" unfolding word_ok_def list_all_iff by blast
qed

lemma spaced_chars: "list_all word_ok ws \<Longrightarrow> c \<in> set (spaced ws) \<Longrightarrow> c \<noteq> LF \<and> c \<noteq> NUL"
  by (induction ws rule: spaced.induct) (auto dest: word_chars)

lemma command_text_words:
  assumes "list_all word_ok argv"
  shows "command_text argv = map_option (\<lambda>ws. spaced ws @ [LF]) (command_words argv)"
    and "command_words argv = Some ws \<Longrightarrow> list_all word_ok ws"
proof -
  have c: "map cstr argv = argv" using assms by (intro map_idI cstr_id) (auto simp: word_ok_def list_all_iff)
  show "command_text argv = map_option (\<lambda>ws. spaced ws @ [LF]) (command_words argv)"
    unfolding command_text_def c by (cases argv rule: command_words.cases) simp_all
  have "word_ok ''STATS''" "word_ok ''USERS''" "word_ok ''USER''" "word_ok ''CONFIG''" "word_ok ''GET''" "word_ok ''SET''" "word_ok ''DELETE''"
    by (simp_all add: word_ok_def isspace_def)
  then show "command_words argv = Some ws \<Longrightarrow> list_all word_ok ws"
    using assms by (cases argv rule: command_words.cases) (auto split: if_splits)
qed

section \<open>Properties\<close>

text \<open>C14: the client and the server agree. When the client builds a command from arguments without blanks, what it sends is one line, and a server
  session that reads this line executes exactly the words that were asked for: its response and its effect are those that the protocol gives to them.\<close>

theorem client_command_understood:
  assumes "list_all word_ok argv" and "length out = COMMAND_SIZE" and "build_command argv out COMMAND_SIZE = Some (True, buf)"
  shows "\<exists>line ws. cstr buf = line @ [LF] \<and> LF \<notin> set line \<and> command_words argv = Some ws
    \<and> (\<forall>key p m (s :: srv). mng_ok key p m s \<longrightarrow> cstr (ms_line m) = line \<longrightarrow>
        returns (handle_line key s) (\<lambda>s'. \<exists>r. answer ws (admin_of s m) = Some r \<and> answers key p m s r s'))"
proof -
  obtain t where t: "command_text argv = Some t" "length t < COMMAND_SIZE" "snprintf out COMMAND_SIZE t = Some buf"
    using assms(3) by (auto simp: build_command_def split: option.splits bind_splits)
  then obtain ws where ws: "command_words argv = Some ws" "t = spaced ws @ [LF]" using command_text_words(1) [OF assms(1)] by auto
  have wk: "list_all word_ok ws" by (rule command_text_words(2) [OF assms(1) ws(1)])
  have n: "NUL \<notin> set t" using spaced_chars [OF wk] by (auto simp: ws(2))
  have "cstr buf = t" using snprintf_ok [of COMMAND_SIZE out t] assms(2) t(2,3) n by (simp add: cstr_id)
  moreover have "LF \<notin> set (spaced ws)" using spaced_chars [OF wk] by blast
  moreover have "returns (handle_line key s) (\<lambda>s'. \<exists>r. answer ws (admin_of s m) = Some r \<and> answers key p m s r s')"
    if "mng_ok key p m s" "cstr (ms_line m) = spaced ws" for key p m and s :: srv
    using handle_line_ok [OF that(1)] unfolding that(2) words_spaced [OF wk] .
  ultimately show ?thesis using ws by blast
qed

theorem client_command_understood_witness:
  "\<exists>buf. build_command [''user'', ''set'', ''ann'', ''p:w''] (replicate COMMAND_SIZE NUL) COMMAND_SIZE = Some (True, buf)
    \<and> returns (handle_line demo_key (put_session 0 (demo_line ''USER SET ann p:w'') demo_srv)) (\<lambda>s'. \<exists>r a. answer [''USER'', ''SET'', ''ann'', ''p:w''] a = Some r
        \<and> answers demo_key 0 (demo_line ''USER SET ann p:w'') (put_session 0 (demo_line ''USER SET ann p:w'') demo_srv) r s')"
proof -
  let ?argv = "[''user'', ''set'', ''ann'', ''p:w'']" and ?m = "demo_line ''USER SET ann p:w''" and ?t = "''USER SET ann p:w'' @ [LF]"
  let ?out = "replicate COMMAND_SIZE NUL"
  have ok: "list_all word_ok ?argv" by (simp add: word_ok_def isspace_def)
  have t: "command_text ?argv = Some ?t" using command_text_words(1) [OF ok] by simp
  obtain buf where buf: "snprintf ?out COMMAND_SIZE ?t = Some buf" "cstr buf = ?t" using snprintf_ok [of COMMAND_SIZE ?out ?t] by (auto simp: returns_iff)
  have b: "build_command ?argv ?out COMMAND_SIZE = Some (True, buf)" using buf(1) t by (simp add: build_command_def)
  have m: "cstr (ms_line ?m) = ''USER SET ann p:w''" by (simp add: demo_line_def cstr_append cstr_id)
  have mok: "mng_ok demo_key 0 ?m (put_session 0 ?m demo_srv)" by (rule demo_line_ok) simp
  have "length ?out = COMMAND_SIZE" by simp
  from client_command_understood [OF ok this b] obtain line ws where l: "cstr buf = line @ [LF]" "command_words ?argv = Some ws"
    "\<And>key p m (s :: srv). mng_ok key p m s \<Longrightarrow> cstr (ms_line m) = line \<Longrightarrow>
        returns (handle_line key s) (\<lambda>s'. \<exists>r. answer ws (admin_of s m) = Some r \<and> answers key p m s r s')" by blast
  have "line = ''USER SET ann p:w''" "ws = [''USER'', ''SET'', ''ann'', ''p:w'']" using l(1,2) buf(2) by simp_all
  note r = l(3) [OF mok, unfolded this, OF m]
  have "returns (handle_line demo_key (put_session 0 ?m demo_srv)) (\<lambda>s'. \<exists>r a. answer [''USER'', ''SET'', ''ann'', ''p:w''] a = Some r
      \<and> answers demo_key 0 ?m (put_session 0 ?m demo_srv) r s')"
    by (rule returns_mono [OF r]) blast
  then show ?thesis using b by blast
qed


definition ex_client :: client_env where
  "ex_client = \<lparr>ce_gai = \<lambda>a p. Some [AF_OTHER 1, AF_INET [127, 0, 0, 1] 8080], ce_socket = sa_handled,
     ce_connect = \<lambda>_. Some \<lparr>c_in = ''+OK authenticated'' @ LF # ''+OK users=ann'' @ LF # [], c_takes = [2, 1, 5], c_out = []\<rparr>\<rparr>"



end
