(* ===== verification/Spec2Isabelle.thy ===== *)
theory Spec2Isabelle
  imports Hello Auth Request Users Config Metrics Access_Log Netutils Stm Registry Mng_Session Guarantees Session_Path Client_Protocol
begin

text \<open>
  A model of the programs of this repository: a SOCKS5 proxy server (RFC 1928 with the user/password sub-negotiation of
  RFC 1929) with a management protocol, and the client of that protocol. The theorems say that the server never fails,
  relays faithfully and connects nobody without leave, and that each of its parts does what it is for.

  \<^bold>\<open>The program.\<close> \<^verbatim>\<open>src/server/main.c\<close> reads the command line (\<^verbatim>\<open>src/shared/args.c\<close>), creates the shared objects, opens
  the two listening sockets and runs an event loop (\<^verbatim>\<open>selector.c\<close>) over non-blocking sockets. A SOCKS
  connection (\<^verbatim>\<open>socks5.c\<close>) is a state machine (\<^verbatim>\<open>stm.c\<close>) whose states run the three message parsers (\<^verbatim>\<open>hello.c\<close>, \<^verbatim>\<open>auth.c\<close>,
  \<^verbatim>\<open>request.c\<close>) over byte buffers (\<^verbatim>\<open>buffer.c\<close>), have names resolved by a second thread (\<^verbatim>\<open>dns_worker.c\<close>), connect to the
  origin and relay bytes; it reports to the metrics (\<^verbatim>\<open>metrics.c\<close>) and to the access log (\<^verbatim>\<open>access_log.c\<close>), checks users
  (\<^verbatim>\<open>users.c\<close>) and obeys the settings (\<^verbatim>\<open>config.c\<close>). A management connection (\<^verbatim>\<open>src/server/mng.c\<close>) reads commands, one per line, that show
  the metrics and change users and settings of the running server. \<^verbatim>\<open>src/client/main.c\<close> sends one such command.

  \<^bold>\<open>How the code is modelled.\<close> A C operation that can fail an \<^verbatim>\<open>assert\<close>, call \<^verbatim>\<open>abort\<close>, use freed memory, read a union at
  the wrong type or leave the bounds of an array is a function into \<open>option\<close>, with \<open>None\<close> for that failure, so every theorem of
  the form \<open>returns m Q\<close> or \<open>m = Some r\<close> includes memory safety (theory \<open>Prelude\<close>). Integers have their
  width (\<open>8 word\<close>, \<open>16 word\<close>, \<open>32 word\<close>, \<open>64 word\<close>), a pointer into an array is an index, a \<^verbatim>\<open>struct\<close> is a record,
  a char array is a list of characters with its NUL, and a pointer to a session or to a job is an address of a heap that is a map.
  Operations that act on shared state take and return it. The kernel, \<^verbatim>\<open>getaddrinfo\<close>, \<^verbatim>\<open>pselect\<close> and the
  allocator are parameters or scripts of results, so a theorem is about all they may do.

  \<^bold>\<open>The theories.\<close>
  \<^item> \<open>Prelude\<close>: types, total correctness, checked array accesses. \<open>C_Library\<close>: what the code uses of
    \<^verbatim>\<open>string.h\<close>, \<^verbatim>\<open>stdio.h\<close> and \<^verbatim>\<open>stdlib.h\<close> (\<^verbatim>\<open>strncpy\<close>, \<^verbatim>\<open>strncmp\<close>, \<^verbatim>\<open>snprintf\<close>, \<^verbatim>\<open>strtol\<close>).
  \<^item> \<open>Buffer\<close>: \<^verbatim>\<open>buffer.c\<close>; the buffer refines a bounded queue of bytes. The locale \<open>byte_channel\<close> states the
    contract its clients rely on.
  \<^item> \<open>Parser_Loop\<close>: the loop shared by the three parsers, over that contract. \<open>Hello\<close>, \<open>Auth\<close>, \<open>Request\<close>: the
    parsers and the marshalling functions; every well-formed message is accepted with its contents, the final state
    says exactly what was consumed, and fragmentation does not matter.
  \<^item> \<open>Users\<close>: \<^verbatim>\<open>users.c\<close> refines a finite map (locale \<open>credential_store\<close>); \<open>Config\<close>: \<^verbatim>\<open>config.c\<close> (locale
    \<open>setting_store\<close>); \<open>Metrics\<close>: the counters count the events; \<open>Access_Log\<close>: the records read back.
  \<^item> \<open>Netutils\<close>: \<^verbatim>\<open>netutils.c\<close>, with the kernel calls as parameters.
  \<^item> \<open>Stm\<close>: the state machine engine over an arbitrary world and table of callbacks.
  \<^item> \<open>Selector\<close>: \<^verbatim>\<open>selector.c\<close> over an arbitrary set of handlers (record \<open>host\<close>); \<open>Registry\<close>: its invariant, the
    map of registrations it refines (locale \<open>fd_registry\<close>), and the safety of one round of the event loop.
  \<^item> \<open>World\<close>: the kernel (sockets driven by scripts) and the state of the running server.
  \<^item> \<open>Mng\<close>: \<^verbatim>\<open>mng.c\<close>; \<open>Mng_Spec\<close>: the specification of the protocol as a function from the words of a line, and
    that the code implements it; \<open>Mng_Session\<close>: the life of a session from \<^verbatim>\<open>accept\<close> to \<^verbatim>\<open>close\<close>.
  \<^item> \<open>Dns_Worker\<close>: \<^verbatim>\<open>dns_worker.c\<close>, its linked queue with the steps of the two threads on it; it refines a queue (locale \<open>fifo\<close>).
  \<^item> \<open>Socks5_State\<close>: the session with its two unions, and the state of the whole server (\<open>proxy\<close>); \<open>Socks5\<close>: \<^verbatim>\<open>socks5.c\<close>, one
    definition per function, in the order of the code.
  \<^item> \<open>Socks5_Inv\<close>: the invariant \<open>server_inv\<close>. For every state of a session, \<open>at\<close> says what its unions hold, which events it waits for,
    and how the bytes that came and went on its sockets relate to its buffers; \<open>world\<close> says who owns each registration, how the list of the
    sessions, the pool, the counters of references and the jobs of the resolver fit together; \<open>own\<close> is the view from inside a handler.
    \<open>Socks5_Own\<close>, \<open>Socks5_Links\<close>, \<open>Socks5_Calls\<close>: what the elementary actions do to that view. \<open>Socks5_Negotiation\<close>, \<open>Socks5_Request\<close>,
    \<open>Socks5_Connect\<close>, \<open>Socks5_Relay\<close>: the callbacks of the states. \<open>Socks5_Events\<close>: the engine on the table of states, and \<^verbatim>\<open>socksv5_pump\<close>.
    \<open>Socks5_Lists\<close>, \<open>Socks5_Release\<close>: the list of the sessions, and ending a session. \<open>Socks5_Handlers\<close>, \<open>Socks5_Accept\<close>: the
    handlers, new sessions and timeouts.
  \<^item> \<open>Args\<close>: \<^verbatim>\<open>args.c\<close> with \<^verbatim>\<open>getopt\<close> as the C library documents it; a command line that spells settings is parsed back to them.
  \<^item> \<open>Server\<close>: \<^verbatim>\<open>src/server/main.c\<close>, and the steps of the resolver's thread. \<open>server_main\<close> is the program on a schedule, a list of events: a
    step of the resolver, the time, what the network delivers next, an iteration of the loop with the outcome of \<^verbatim>\<open>pselect\<close> and
    the number of signals so far. \<open>Server_Inv\<close>, \<open>Server_Run\<close>: a round of the loop, the set-up and
    the steps of the thread keep the invariant; \<open>Server_End\<close>: so the clean-up does not fail from any state.
  \<^item> \<open>Served\<close>: the invariant as one session sees it; \<open>Edges\<close>: what happens at listening sockets, timeouts, logins and lost
    notifications; \<open>Tunnel_Example\<close>, \<open>Resolving_Example\<close>: two concrete states of the server that satisfy the invariant, for the
    instances of the theorems; \<open>Guarantees\<close>: the properties of the whole server; \<open>Session_Path\<close>: the diagram of the states of
    \<^verbatim>\<open>docs/design.md\<close> as the relation \<open>leads_to\<close>, and that every handler moves along it.
  \<^item> \<open>Client\<close>: \<^verbatim>\<open>src/client/main.c\<close>; \<open>Client_Protocol\<close>: the server understands its lines as the commands asked for.
  \<^item> this theory: the marshalling functions of the three parsers together.

  \<^bold>\<open>Bounds and fuel.\<close> The parser loops, \<^verbatim>\<open>sock_blocking_write\<close> and the client's \<^verbatim>\<open>send_all\<close> terminate by a measure (the bytes left);
  \<open>process_loop\<close> of \<open>Mng\<close> has as many iterations as characters left in the input, each takes one, so the
  bound is never what stops it. \<open>socksv5_pump\<close> has twelve iterations: all but the last two move to a later of the eleven states
  (\<open>pump_ok\<close>), so they are enough. The loops over linked structures (\<open>dns_drain\<close>, \<open>pool_free\<close>, \<open>sweep\<close>), the one that waits for the thread (\<open>dns_join\<close>) and
  \<open>sock_blocking_copy\<close> are \<open>partial_function\<close>s, for which not ending is \<open>None\<close>; the first four are proved to return.
  Scripts of the kernel are finite lists of any length; a used-up script means that the call would block.

  \<^bold>\<open>What is assumed.\<close> A \<^verbatim>\<open>getaddrinfo\<close> that succeeds gives at least one address (\<open>gai_ok\<close>). A step of the resolver's thread between two
  of its lock operations is one event, so accesses by the two threads that the code leaves unsynchronised are not seen as races. A \<^verbatim>\<open>send\<close> on a connection that the peer has
  reset returns an error; the \<^verbatim>\<open>SIGPIPE\<close> that comes with it, and would end the program, is a finding and not part of the model.

  \<^bold>\<open>What is not modelled.\<close> The delivery of signals (only their number is read) and the signal mask, the socket options set before
  \<^verbatim>\<open>bind\<close>, the closing of the log file, texts printed to the standard streams by the server, \<^verbatim>\<open>POSIXLY_CORRECT\<close> in \<^verbatim>\<open>getopt\<close>, and the address of the
  client that \<^verbatim>\<open>accept\<close> returns, which nothing reads. The unit tests and the stress tools under \<^verbatim>\<open>src/test\<close> are no part of the programs.
\<close>

section \<open>Properties that span components\<close>

text \<open>C33: the replies have the layout of RFC 1928: with room in the output buffer, \<^verbatim>\<open>hello_marshall\<close>,
  \<^verbatim>\<open>auth_marshall\<close> and \<^verbatim>\<open>request_marshall\<close> return 0 and append exactly the 2, 2 and 10 bytes of their
  message behind what is buffered; without room they return -1 and change nothing.\<close>

theorem marshall_layout:
  assumes "buffer_wf b"
  shows "returns (hello_marshall b m) (\<lambda>(r, b'). buffer_wf b' \<and>
      (if buffer_room b < 2 then r = -1 \<and> b' = b
       else r = 0 \<and> buffer_contents b' = buffer_contents b @ [SOCKS_VERSION, m]))
    \<and> returns (auth_marshall b st) (\<lambda>(r, b'). buffer_wf b' \<and>
      (if buffer_room b < 2 then r = -1 \<and> b' = b
       else r = 0 \<and> buffer_contents b' = buffer_contents b @ [AUTH_VERSION, st]))
    \<and> returns (request_marshall b rep) (\<lambda>(r, b'). buffer_wf b' \<and>
      (if buffer_room b < 10 then r = -1 \<and> b' = b
       else r = 0 \<and> buffer_contents b' = buffer_contents b @ [SOCKS_VERSION, rep, SOCKS_RSV, SOCKS_ATYP_IPV4, 0, 0, 0, 0, 0, 0]))"
  using hello_marshall_ok [OF assms, of m] auth_marshall_ok [OF assms, of st] request_marshall_ok [OF assms, of rep]
  by blast

theorem marshall_layout_witness:
  "returns (request_marshall (buffer_of 16 [1]) 5) (\<lambda>(r, b'). r = 0
     \<and> buffer_contents b' = [1, 5, 5, 0, 1, 0, 0, 0, 0, 0, 0])"
proof -
  have wf: "buffer_wf (buffer_of 16 [1])" by simp
  have room: "buffer_room (buffer_of 16 [1]) = 15" by (simp add: buffer_room_def buffer_of_def)
  show ?thesis
    using marshall_layout [OF wf, of 0 0 5, THEN conjunct2, THEN conjunct2]
    by (rule returns_mono) (auto simp: room)
qed

end
